(* ===== verification/Prelude.thy ===== *)
theory Prelude
  imports Main "HOL-Library.Word" "HOL-Library.Char_ord" "HOL-Library.List_Lexorder"
    "HOL-Library.Product_Lexorder" "HOL-Library.Multiset"
begin

text \<open>
  Shared vocabulary of the development: the result type of the Rust sources and its combinators
  (the question-mark operator, \<open>map_err\<close>, collecting an iterator of results, a loop that may
  return early), ordered maps (\<open>BTreeMap\<close>) as sorted association lists, bytes, big-endian
  integers and UTF-8 strings. Everything here models the language and its standard library;
  the components of the program are in the theories that import this one.
\<close>

named_theorems result_simps \<open>inversion of the result combinators\<close>
named_theorems valid_simps \<open>what an accepting validator has checked\<close>

section \<open>Results\<close>

type_synonym ('e, 'a) result = "'e + 'a"

text \<open>\<open>rbind r f\<close> is Rust's \<open>let x = r?; f(x)\<close>.\<close>

definition rbind :: "('e, 'a) result \<Rightarrow> ('a \<Rightarrow> ('e, 'b) result) \<Rightarrow> ('e, 'b) result" where
  "rbind r f = (case r of Inl e \<Rightarrow> Inl e | Inr x \<Rightarrow> f x)"

definition map_err :: "('e \<Rightarrow> 'f) \<Rightarrow> ('e, 'a) result \<Rightarrow> ('f, 'a) result" where
  "map_err g r = (case r of Inl e \<Rightarrow> Inl (g e) | Inr x \<Rightarrow> Inr x)"

text \<open>\<open>ok_or e opt\<close> is \<open>Option::ok_or\<close>; \<open>ensure c e\<close> is \<open>if !c { return Err(e) }\<close>.\<close>

definition ok_or :: "'e \<Rightarrow> 'a option \<Rightarrow> ('e, 'a) result" where
  "ok_or e x = (case x of None \<Rightarrow> Inl e | Some v \<Rightarrow> Inr v)"

definition ensure :: "bool \<Rightarrow> 'e \<Rightarrow> ('e, unit) result" where
  "ensure c e = (if c then Inr () else Inl e)"

definition is_ok :: "('e, 'a) result \<Rightarrow> bool" where
  "is_ok r = (case r of Inl _ \<Rightarrow> False | Inr _ \<Rightarrow> True)"

text \<open>A loop whose body only checks, an iterator of results collected into a vector, and a loop
  that threads a state; each stops at the first error.\<close>

primrec each :: "('a \<Rightarrow> ('e, unit) result) \<Rightarrow> 'a list \<Rightarrow> ('e, unit) result" where
  "each f [] = Inr ()"
| "each f (x # xs) = rbind (f x) (\<lambda>_. each f xs)"

primrec collect_results :: "('a \<Rightarrow> ('e, 'b) result) \<Rightarrow> 'a list \<Rightarrow> ('e, 'b list) result" where
  "collect_results f [] = Inr []"
| "collect_results f (x # xs) =
     rbind (f x) (\<lambda>y. rbind (collect_results f xs) (\<lambda>ys. Inr (y # ys)))"

primrec fold_results :: "('s \<Rightarrow> 'a \<Rightarrow> ('e, 's) result) \<Rightarrow> 's \<Rightarrow> 'a list \<Rightarrow> ('e, 's) result" where
  "fold_results f s [] = Inr s"
| "fold_results f s (x # xs) = rbind (f s x) (\<lambda>s'. fold_results f s' xs)"

lemma rbind_simps [simp]: "rbind (Inl e) f = Inl e" "rbind (Inr x) f = f x"
  by (simp_all add: rbind_def)

lemma rbind_cong [fundef_cong]:
  "r = r' \<Longrightarrow> (\<And>x. r' = Inr x \<Longrightarrow> f x = g x) \<Longrightarrow> rbind r f = rbind r' g"
  by (cases r') auto

lemma rbind_Inr_iff [result_simps]:
  "rbind r f = Inr y \<longleftrightarrow> (\<exists>x. r = Inr x \<and> f x = Inr y)"
  by (cases r) auto

lemma rbind_Inl_iff:
  "rbind r f = Inl e \<longleftrightarrow> r = Inl e \<or> (\<exists>x. r = Inr x \<and> f x = Inl e)"
  by (cases r) auto

lemma map_err_simps [simp]: "map_err g (Inl e) = Inl (g e)" "map_err g (Inr x) = Inr x"
  by (simp_all add: map_err_def)

lemma map_err_Inr_iff [result_simps]: "map_err g r = Inr x \<longleftrightarrow> r = Inr x"
  by (cases r) auto

lemma ok_or_simps [simp]: "ok_or e None = Inl e" "ok_or e (Some v) = Inr v"
  by (simp_all add: ok_or_def)

lemma ok_or_Inr_iff [result_simps]: "ok_or e x = Inr v \<longleftrightarrow> x = Some v"
  by (cases x) auto

lemma ensure_simps [simp]: "ensure True e = Inr ()" "ensure False e = Inl e"
  by (simp_all add: ensure_def)

lemma ensure_Inr_iff [result_simps]: "ensure c e = Inr u \<longleftrightarrow> c"
  by (cases c) auto

lemma ensure_Inl_iff: "ensure c e = Inl e' \<longleftrightarrow> \<not> c \<and> e' = e"
  by (cases c) auto

lemma is_ok_simps [simp]: "\<not> is_ok (Inl e)" "is_ok (Inr x)"
  by (simp_all add: is_ok_def)

lemma is_ok_iff: "is_ok r \<longleftrightarrow> (\<exists>x. r = Inr x)"
  by (cases r) auto

lemma is_ok_rbind: "is_ok (rbind r f) \<longleftrightarrow> (\<exists>x. r = Inr x \<and> is_ok (f x))"
  by (cases r) auto

lemma each_Inr_iff [result_simps]: "each f xs = Inr u \<longleftrightarrow> (\<forall>x \<in> set xs. f x = Inr ())"
  by (induction xs) (auto simp: rbind_Inr_iff)

lemma collect_results_Inr_iff [result_simps]:
  "collect_results f xs = Inr ys \<longleftrightarrow> list_all2 (\<lambda>x y. f x = Inr y) xs ys"
  by (induction xs arbitrary: ys) (auto simp: rbind_Inr_iff list_all2_Cons1)

lemma collect_results_map: "(\<And>x. x \<in> set xs \<Longrightarrow> f x = Inr (g x)) \<Longrightarrow> collect_results f xs = Inr (map g xs)"
  by (induction xs) auto

lemma fold_results_append:
  "fold_results f s (xs @ ys) = rbind (fold_results f s xs) (\<lambda>s'. fold_results f s' ys)"
proof (induction xs arbitrary: s)
  case (Cons x xs)
  then show ?case by (cases "f s x") auto
qed simp

text \<open>An invariant of a loop that threads a state.\<close>

lemma fold_results_invariant:
  assumes "fold_results f s xs = Inr s'" and "P s"
    and "\<And>s x s'. x \<in> set xs \<Longrightarrow> P s \<Longrightarrow> f s x = Inr s' \<Longrightarrow> P s'"
  shows "P s'"
  using assms
proof (induction xs arbitrary: s)
  case (Cons x xs)
  then obtain t where "f s x = Inr t" "fold_results f t xs = Inr s'"
    by (auto simp: rbind_Inr_iff)
  with Cons show ?case by (metis list.set_intros)
qed simp

section \<open>Ordered maps\<close>

text \<open>
  A \<open>BTreeMap\<close> is an association list with strictly increasing keys: iteration runs in key
  order, an insertion replaces the value of an existing key.
\<close>

type_synonym ('k, 'v) btree_map = "('k \<times> 'v) list"

fun bt_insert :: "'k::linorder \<Rightarrow> 'v \<Rightarrow> ('k, 'v) btree_map \<Rightarrow> ('k, 'v) btree_map" where
  "bt_insert k v [] = [(k, v)]"
| "bt_insert k v ((k', v') # m) =
     (if k < k' then (k, v) # (k', v') # m
      else if k = k' then (k, v) # m
      else (k', v') # bt_insert k v m)"

definition bt_collect :: "('k::linorder \<times> 'v) list \<Rightarrow> ('k, 'v) btree_map" where
  "bt_collect xs = fold (\<lambda>(k, v) m. bt_insert k v m) xs []"

abbreviation bt_get :: "('k, 'v) btree_map \<Rightarrow> 'k \<Rightarrow> 'v option" where
  "bt_get m k \<equiv> map_of m k"

definition bt_wf :: "('k::linorder, 'v) btree_map \<Rightarrow> bool" where
  "bt_wf m \<longleftrightarrow> sorted_wrt (<) (map fst m)"

lemma bt_wf_Nil [simp]: "bt_wf []"
  by (simp add: bt_wf_def)

lemma bt_wf_Cons: "bt_wf ((k, v) # m) \<longleftrightarrow> (\<forall>k' \<in> fst ` set m. k < k') \<and> bt_wf m"
  by (auto simp: bt_wf_def)

lemma bt_wf_distinct: "bt_wf m \<Longrightarrow> distinct (map fst m)"
  by (simp add: bt_wf_def strict_sorted_iff)

lemma keys_bt_insert [simp]: "fst ` set (bt_insert k v m) = insert k (fst ` set m)"
  by (induction k v m rule: bt_insert.induct) auto

lemma bt_wf_insert [simp]: "bt_wf m \<Longrightarrow> bt_wf (bt_insert k v m)"
  by (induction k v m rule: bt_insert.induct) (auto simp: bt_wf_Cons)

lemma map_of_bt_insert [simp]:
  "bt_wf m \<Longrightarrow> map_of (bt_insert k v m) = (map_of m)(k \<mapsto> v)"
proof (induction k v m rule: bt_insert.induct)
  case (2 k v k' v' m)
  then show ?case by (auto simp: bt_wf_Cons fun_eq_iff)
qed auto

lemma bt_insert_last:
  "(\<And>k'. k' \<in> fst ` set m \<Longrightarrow> k' < k) \<Longrightarrow> bt_insert k v m = m @ [(k, v)]"
  by (induction k v m rule: bt_insert.induct) (auto dest: less_not_sym)

lemma length_bt_insert:
  "bt_wf m \<Longrightarrow> length (bt_insert k v m) = length m + (if k \<in> fst ` set m then 0 else 1)"
  by (induction k v m rule: bt_insert.induct) (auto simp: bt_wf_Cons)

lemma bt_wf_fold_insert:
  "bt_wf m \<Longrightarrow> bt_wf (fold (\<lambda>(k, v) m. bt_insert k v m) xs m)"
  by (induction xs arbitrary: m) auto

lemma bt_wf_collect [simp]: "bt_wf (bt_collect xs)"
  by (simp add: bt_collect_def bt_wf_fold_insert)

lemma keys_fold_insert:
  "fst ` set (fold (\<lambda>(k, v) m. bt_insert k v m) xs m) = fst ` set xs \<union> fst ` set m"
proof (induction xs arbitrary: m)
  case (Cons x xs)
  obtain k v where x: "x = (k, v)" by (cases x)
  show ?case by (simp add: x Cons.IH)
qed simp

lemma keys_bt_collect [simp]: "fst ` set (bt_collect xs) = fst ` set xs"
  by (simp add: bt_collect_def keys_fold_insert)

lemma map_of_fold_insert:
  "bt_wf m \<Longrightarrow> map_of (fold (\<lambda>(k, v) m. bt_insert k v m) xs m) = map_of m ++ map_of (rev xs)"
proof (induction xs arbitrary: m)
  case (Cons x xs)
  obtain k v where x: "x = (k, v)" by (cases x)
  from Cons show ?case
    by (auto simp: x fun_eq_iff map_add_def split: option.splits)
qed simp

lemma map_of_bt_collect: "map_of (bt_collect xs) = map_of (rev xs)"
  by (simp add: bt_collect_def map_of_fold_insert)

lemma map_of_bt_collect_distinct:
  assumes "distinct (map fst xs)"
  shows "map_of (bt_collect xs) = map_of xs"
proof -
  have "map_of (rev xs) = map_of xs"
    using assms by (intro map_of_eqI) (auto simp: rev_map [symmetric] map_of_eq_Some_iff)
  then show ?thesis by (simp add: map_of_bt_collect)
qed

text \<open>Collecting a strictly sorted list of entries rebuilds the same list.\<close>

lemma fold_insert_sorted:
  "bt_wf (m @ xs) \<Longrightarrow> fold (\<lambda>(k, v) m. bt_insert k v m) xs m = m @ xs"
proof (induction xs arbitrary: m)
  case (Cons x xs)
  obtain k v where x: "x = (k, v)" by (cases x)
  from Cons.prems have "\<And>k'. k' \<in> fst ` set m \<Longrightarrow> k' < k"
    by (auto simp: bt_wf_def sorted_wrt_append x)
  then have "bt_insert k v m = m @ [(k, v)]" by (rule bt_insert_last)
  with Cons show ?case by (simp add: x)
qed simp

lemma bt_collect_sorted: "bt_wf xs \<Longrightarrow> bt_collect xs = xs"
  using fold_insert_sorted [of "[]" xs] by (simp add: bt_collect_def)

section \<open>Bytes and integers\<close>

type_synonym byte = "8 word"
type_synonym bytes = "byte list"
type_synonym u16 = "16 word"
type_synonym u32 = "32 word"
type_synonym u64 = "64 word"

text \<open>\<open>to_be_bytes\<close> of a \<open>k\<close>-byte unsigned integer and its inverse.\<close>

primrec be_bytes :: "nat \<Rightarrow> nat \<Rightarrow> bytes" where
  "be_bytes 0 v = []"
| "be_bytes (Suc k) v = be_bytes k (v div 256) @ [of_nat (v mod 256)]"

definition from_be :: "bytes \<Rightarrow> nat" where
  "from_be bs = foldl (\<lambda>a b. a * 256 + unat b) 0 bs"

lemma length_be_bytes [simp]: "length (be_bytes k v) = k"
  by (induction k arbitrary: v) auto

lemma unat_byte_of_mod [simp]: "unat (of_nat (v mod 256) :: byte) = v mod 256"
  by (simp add: unat_of_nat)

lemma unat_byte_bound: "unat (b :: byte) < 256"
  using unsigned_less [of b, where 'a = nat] by simp

lemma from_be_snoc: "from_be (bs @ [b]) = from_be bs * 256 + unat b"
  by (simp add: from_be_def)

lemma from_be_Nil [simp]: "from_be [] = 0"
  by (simp add: from_be_def)

lemma from_be_be_bytes: "from_be (be_bytes k v) = v mod 256 ^ k"
proof (induction k arbitrary: v)
  case (Suc k)
  have "v mod (256 * 256 ^ k) = 256 * (v div 256 mod 256 ^ k) + v mod 256"
    by (rule mod_mult2_eq)
  with Suc show ?case by (simp add: from_be_snoc mult.commute)
qed simp

lemma from_be_bound: "from_be bs < 256 ^ length bs"
proof (induction bs rule: rev_induct)
  case (snoc b bs)
  have "unat b < 256" by (rule unat_byte_bound)
  with snoc show ?case by (simp add: from_be_snoc)
qed simp

lemma be_bytes_from_be: "be_bytes (length bs) (from_be bs) = bs"
proof (induction bs rule: rev_induct)
  case (snoc b bs)
  have "unat b < 256" by (rule unat_byte_bound)
  then have "(from_be bs * 256 + unat b) div 256 = from_be bs"
    and "(from_be bs * 256 + unat b) mod 256 = unat b" by simp_all
  with snoc show ?case by (simp add: from_be_snoc)
qed simp

lemma be_bytes_small: "v < 256 ^ k \<Longrightarrow> from_be (be_bytes k v) = v"
  by (simp add: from_be_be_bytes)

lemma be_bytes_word:
  "from_be (be_bytes 2 (unat (w16 :: u16))) = unat w16"
  "from_be (be_bytes 4 (unat (w32 :: u32))) = unat w32"
  "from_be (be_bytes 8 (unat (w64 :: u64))) = unat w64"
  using unsigned_less [of w16, where 'a = nat] unsigned_less [of w32, where 'a = nat] unsigned_less [of w64, where 'a = nat]
  by (simp_all add: from_be_be_bytes)

text \<open>\<open>split_at n\<close>: the first \<open>n\<close> bytes and the rest, if there are that many.\<close>

definition split_bytes :: "nat \<Rightarrow> bytes \<Rightarrow> (bytes \<times> bytes) option" where
  "split_bytes n bs = (if n \<le> length bs then Some (take n bs, drop n bs) else None)"

lemma split_bytes_append [simp]: "length p = n \<Longrightarrow> split_bytes n (p @ r) = Some (p, r)"
  by (auto simp: split_bytes_def)

lemma split_bytes_SomeD: "split_bytes n bs = Some (p, r) \<Longrightarrow> bs = p @ r \<and> length p = n"
  by (auto simp: split_bytes_def split: if_splits)

section \<open>Strings\<close>

text \<open>
  A Rust \<open>String\<close> is a sequence of bytes that is valid UTF-8; it is modelled by \<open>string\<close>, whose
  characters are bytes, so \<open>length\<close> is Rust's \<open>len\<close> and the list order is Rust's byte order.
  \<open>from_utf8\<close> is the validity check of the Unicode standard (table 3-7), as the standard library
  makes it.
\<close>

definition as_bytes :: "string \<Rightarrow> bytes" where
  "as_bytes s = map (\<lambda>c. of_nat (of_char c)) s"

definition bytes_str :: "bytes \<Rightarrow> string" where
  "bytes_str bs = map (\<lambda>b. char_of (unat b)) bs"

definition in_range :: "nat \<Rightarrow> nat \<Rightarrow> byte \<Rightarrow> bool" where
  "in_range lo hi b \<longleftrightarrow> lo \<le> unat b \<and> unat b \<le> hi"

fun utf8_valid :: "bytes \<Rightarrow> bool" where
  "utf8_valid [] = True"
| "utf8_valid (b # bs) =
     (if in_range 0 0x7F b then utf8_valid bs
      else case bs of
        [] \<Rightarrow> False
      | c1 # bs1 \<Rightarrow>
          if in_range 0xC2 0xDF b then in_range 0x80 0xBF c1 \<and> utf8_valid bs1
          else case bs1 of
            [] \<Rightarrow> False
          | c2 # bs2 \<Rightarrow>
              if in_range 0xE0 0xEF b
              then in_range (if unat b = 0xE0 then 0xA0 else 0x80) (if unat b = 0xED then 0x9F else 0xBF) c1
                \<and> in_range 0x80 0xBF c2 \<and> utf8_valid bs2
              else case bs2 of
                [] \<Rightarrow> False
              | c3 # bs3 \<Rightarrow>
                  in_range 0xF0 0xF4 b
                  \<and> in_range (if unat b = 0xF0 then 0x90 else 0x80) (if unat b = 0xF4 then 0x8F else 0xBF) c1
                  \<and> in_range 0x80 0xBF c2 \<and> in_range 0x80 0xBF c3 \<and> utf8_valid bs3)"

definition from_utf8 :: "bytes \<Rightarrow> string option" where
  "from_utf8 bs = (if utf8_valid bs then Some (bytes_str bs) else None)"

definition utf8 :: "string \<Rightarrow> bool" where
  "utf8 s = utf8_valid (as_bytes s)"

lemma unat_of_char_byte [simp]: "unat (of_nat (of_char c) :: byte) = of_char c"
proof -
  have "(of_char c :: nat) < 256" by simp
  then show ?thesis by (simp add: unat_of_nat)
qed

lemma bytes_str_as_bytes [simp]: "bytes_str (as_bytes s) = s"
  by (induction s) (auto simp: bytes_str_def as_bytes_def)

lemma as_bytes_bytes_str [simp]: "as_bytes (bytes_str bs) = bs"
proof (induction bs)
  case (Cons b bs)
  have "unat b mod 256 = unat b" using unat_byte_bound [of b] by simp
  then have "(of_nat (of_char (char_of (unat b))) :: byte) = b" by (simp only: of_char_of) simp
  with Cons show ?case by (simp add: as_bytes_def bytes_str_def)
qed (simp add: as_bytes_def bytes_str_def)

lemma length_as_bytes [simp]: "length (as_bytes s) = length s"
  by (simp add: as_bytes_def)

lemma length_bytes_str [simp]: "length (bytes_str bs) = length bs"
  by (simp add: bytes_str_def)

lemma from_utf8_as_bytes [simp]: "from_utf8 (as_bytes s) = (if utf8 s then Some s else None)"
  by (simp add: from_utf8_def utf8_def)

lemma from_utf8_SomeD: "from_utf8 bs = Some s \<Longrightarrow> bs = as_bytes s \<and> utf8 s"
  by (auto simp: from_utf8_def utf8_def split: if_splits)

text \<open>\<open>str::split\<close> at a character: the parts between its occurrences, at least one.\<close>

fun split_on :: "char \<Rightarrow> string \<Rightarrow> string list" where
  "split_on c [] = [[]]"
| "split_on c (x # xs) =
     (if x = c then [] # split_on c xs
      else case split_on c xs of [] \<Rightarrow> [[x]] | p # ps \<Rightarrow> (x # p) # ps)"

lemma split_on_no: "c \<notin> set s \<Longrightarrow> split_on c s = [s]"
  by (induction s) auto

lemma split_on_append: "c \<notin> set s \<Longrightarrow> split_on c (s @ c # t) = s # split_on c t"
  by (induction s) auto

lemma split_on_ne [simp]: "split_on c s \<noteq> []"
  by (induction s) (auto split: list.splits)

text \<open>Decimal formatting of an unsigned integer.\<close>

fun show_nat :: "nat \<Rightarrow> string" where
  "show_nat n = (if n < 10 then [char_of (48 + n)] else show_nat (n div 10) @ [char_of (48 + n mod 10)])"

declare show_nat.simps [simp del]

end
