(* ===== verification/Core.thy ===== *)
theory Core
  imports Prelude
begin

text \<open>
  The crate \<open>anasemble-core\<close>: digests, hard budgets, bounded text, UUIDv7 identifiers and the
  temporal cut (\<open>lib.rs\<close>, \<open>error.rs\<close>, \<open>budget.rs\<close>, \<open>ids.rs\<close>, \<open>temporal.rs\<close>). SHA-256, hex and the
  UUID library are not code of the repository; they are parameters of the definitions that use
  them. The JSON errors of \<open>serde_json\<close> are opaque strings.
\<close>

section \<open>Errors\<close>

datatype IdError = NotUuidV7 | TextBound nat

datatype CoreError = CoreJson string | CoreCbor string | CoreId IdError | InvalidDigest | CoreBound | CoreBudget

definition id_error_to_string :: "IdError \<Rightarrow> string" where
  "id_error_to_string e =
     (case e of
        NotUuidV7 \<Rightarrow> ''identifier must be UUIDv7''
      | TextBound n \<Rightarrow> ''bounded text must be non-empty and at most '' @ show_nat n @ '' bytes'')"

definition core_error_to_string :: "CoreError \<Rightarrow> string" where
  "core_error_to_string e =
     (case e of
        CoreJson m \<Rightarrow> ''canonical JSON encoding failed: '' @ m
      | CoreCbor m \<Rightarrow> m
      | CoreId i \<Rightarrow> id_error_to_string i
      | InvalidDigest \<Rightarrow> ''digest must be 32-byte lowercase hex''
      | CoreBound \<Rightarrow> ''input exceeded a configured bound''
      | CoreBudget \<Rightarrow> ''budget exhausted'')"

section \<open>Digests\<close>

text \<open>A digest holds 32 bytes; the length is a type of the source, here the predicate \<open>digest_wf\<close>.\<close>

datatype Digest = Digest (as_digest_bytes: bytes)

definition digest_wf :: "Digest \<Rightarrow> bool" where
  "digest_wf d \<longleftrightarrow> length (as_digest_bytes d) = 32"

definition digest_sha256 :: "(bytes \<Rightarrow> bytes) \<Rightarrow> bytes \<Rightarrow> Digest" where
  "digest_sha256 sha bs = Digest (sha bs)"

definition to_hex :: "(bytes \<Rightarrow> string) \<Rightarrow> Digest \<Rightarrow> string" where
  "to_hex hex_encode d = hex_encode (as_digest_bytes d)"

definition from_hex :: "(string \<Rightarrow> bytes option) \<Rightarrow> string \<Rightarrow> (CoreError, Digest) result" where
  "from_hex hex_decode value =
     rbind (ok_or InvalidDigest (hex_decode value)) (\<lambda>bs.
       if length bs = 32 then Inr (Digest bs) else Inl InvalidDigest)"

definition MAX_FRAME_BYTES :: nat where "MAX_FRAME_BYTES = 1048576"

definition MAX_PAYLOAD_BYTES :: nat where "MAX_PAYLOAD_BYTES = 524288"

lemma from_hex_wf: "from_hex dec s = Inr d \<Longrightarrow> digest_wf d"
  by (auto simp: from_hex_def digest_wf_def result_simps split: if_splits)

section \<open>Budgets\<close>

record Budget =
  bg_max_nodes :: u32
  bg_max_edges :: u32
  bg_max_depth :: u32
  bg_max_bytes :: u64
  bg_deadline_ms :: u32

definition budget_new :: "u32 \<Rightarrow> u32 \<Rightarrow> u32 \<Rightarrow> u64 \<Rightarrow> u32 \<Rightarrow> (CoreError, Budget) result" where
  "budget_new max_nodes max_edges max_depth max_bytes deadline_ms =
     (if max_nodes = 0 \<or> max_edges = 0 \<or> max_depth = 0 \<or> max_bytes = 0 \<or> deadline_ms = 0
      then Inl CoreBound
      else Inr \<lparr>bg_max_nodes = max_nodes, bg_max_edges = max_edges, bg_max_depth = max_depth,
                bg_max_bytes = max_bytes, bg_deadline_ms = deadline_ms\<rparr>)"

text \<open>\<open>Budget::standard\<close> unwraps \<open>new\<close>; \<open>None\<close> would be its panic.\<close>

definition budget_standard :: "Budget option" where
  "budget_standard = (case budget_new 10000 20000 16 (8 * 1024 * 1024) 5000 of Inl _ \<Rightarrow> None | Inr b \<Rightarrow> Some b)"

definition would_exceed :: "Budget \<Rightarrow> u32 \<Rightarrow> u32 \<Rightarrow> u32 \<Rightarrow> u64 \<Rightarrow> bool" where
  "would_exceed b nodes edges depth bs \<longleftrightarrow>
     nodes > bg_max_nodes b \<or> edges > bg_max_edges b \<or> depth > bg_max_depth b \<or> bs > bg_max_bytes b"

definition budget_wf :: "Budget \<Rightarrow> bool" where
  "budget_wf b \<longleftrightarrow> bg_max_nodes b \<noteq> 0 \<and> bg_max_edges b \<noteq> 0 \<and> bg_max_depth b \<noteq> 0 \<and>
     bg_max_bytes b \<noteq> 0 \<and> bg_deadline_ms b \<noteq> 0"

lemma budget_new_iff:
  "budget_new n e d y t = Inr b \<longleftrightarrow>
     budget_wf b \<and> b = \<lparr>bg_max_nodes = n, bg_max_edges = e, bg_max_depth = d, bg_max_bytes = y, bg_deadline_ms = t\<rparr>"
  by (auto simp: budget_new_def budget_wf_def)

lemma budget_standard_Some: "\<exists>b. budget_standard = Some b \<and> budget_wf b"
  by (simp add: budget_standard_def budget_new_def budget_wf_def)

section \<open>Bounded text\<close>

definition MAX_BOUNDED_TEXT_BYTES :: nat where "MAX_BOUNDED_TEXT_BYTES = 256"

datatype BoundedText = BoundedText (as_str: string)

definition bounded_text :: "string \<Rightarrow> (IdError, BoundedText) result" where
  "bounded_text value =
     (if value = [] \<or> length value > MAX_BOUNDED_TEXT_BYTES
      then Inl (TextBound MAX_BOUNDED_TEXT_BYTES) else Inr (BoundedText value))"

definition bounded_text_wf :: "BoundedText \<Rightarrow> bool" where
  "bounded_text_wf t \<longleftrightarrow> as_str t \<noteq> [] \<and> length (as_str t) \<le> MAX_BOUNDED_TEXT_BYTES"

lemma bounded_text_iff [valid_simps]:
  "bounded_text s = Inr t \<longleftrightarrow> t = BoundedText s \<and> bounded_text_wf t"
  by (auto simp: bounded_text_def bounded_text_wf_def)

lemma bounded_text_literal:
  "s \<noteq> [] \<Longrightarrow> length s \<le> 256 \<Longrightarrow> bounded_text s = Inr (BoundedText s)"
  by (simp add: bounded_text_def MAX_BOUNDED_TEXT_BYTES_def)

lemma as_str_inject: "as_str a = as_str b \<longleftrightarrow> a = b"
  by (cases a; cases b) simp

section \<open>Identifiers\<close>

text \<open>
  The identifier types of the \<open>uuid_id!\<close> macro wrap a UUID that reports version 7. The version
  reader and the parser of the \<open>uuid\<close> crate are parameters; \<open>generate\<close> reads the clock, so a fresh
  identifier is an argument of the operations that allocate one.
\<close>

datatype Uuid = Uuid (uuid_bits: "128 word")

definition from_uuid :: "(Uuid \<Rightarrow> nat option) \<Rightarrow> Uuid \<Rightarrow> (IdError, Uuid) result" where
  "from_uuid get_version uuid = (if get_version uuid \<noteq> Some 7 then Inl NotUuidV7 else Inr uuid)"

definition id_from_str :: "(Uuid \<Rightarrow> nat option) \<Rightarrow> (string \<Rightarrow> Uuid option) \<Rightarrow> string \<Rightarrow> (IdError, Uuid) result" where
  "id_from_str get_version parse s = rbind (ok_or NotUuidV7 (parse s)) (from_uuid get_version)"

lemma from_uuid_iff: "from_uuid ver u = Inr i \<longleftrightarrow> i = u \<and> ver u = Some 7"
  by (auto simp: from_uuid_def)

section \<open>Temporal cut and compatibility\<close>

record TemporalCut =
  tc_valid_at :: string
  tc_system_as_of :: string

definition temporal_cut_new :: "string \<Rightarrow> string \<Rightarrow> TemporalCut" where
  "temporal_cut_new valid_at system_as_of = \<lparr>tc_valid_at = valid_at, tc_system_as_of = system_as_of\<rparr>"

datatype CompatibilityClass = Backward | Forward | Breaking | UnknownClass

end
