(* ===== verification/Codec.thy ===== *)
theory Codec
  imports Prelude
begin

text \<open>
  The interface the binary formats of the program share. A \<open>byte_source\<close> is what a decoder reads
  from (a slice, or a cursor into a buffer); a \<open>codec\<close> is an encoder that appends to an output
  vector together with a decoder that takes a value off a source; a \<open>strict_codec\<close> also promises
  that a decoder accepts only what the encoder writes. The laws give injectivity, prefix freeness
  and the codec of a counted sequence once for all formats: the canonical CBOR of \<open>Cbor\<close> and the
  checker wire format of \<open>Wire\<close> are interpretations.
\<close>

section \<open>Sequences\<close>

primrec push_seq :: "(bytes \<Rightarrow> 'a \<Rightarrow> ('e, bytes) result) \<Rightarrow> bytes \<Rightarrow> 'a list \<Rightarrow> ('e, bytes) result" where
  "push_seq push out [] = Inr out"
| "push_seq push out (x # xs) = rbind (push out x) (\<lambda>out'. push_seq push out' xs)"

primrec pull_seq :: "('r \<Rightarrow> ('f, 'a \<times> 'r) result) \<Rightarrow> nat \<Rightarrow> 'r \<Rightarrow> ('f, 'a list \<times> 'r) result" where
  "pull_seq pull 0 rd = Inr ([], rd)"
| "pull_seq pull (Suc n) rd =
     rbind (pull rd) (\<lambda>(x, rd1). rbind (pull_seq pull n rd1) (\<lambda>(xs, rd2). Inr (x # xs, rd2)))"

section \<open>The interfaces\<close>

locale byte_source =
  fixes rest :: "'r \<Rightarrow> bytes"
    and adv :: "nat \<Rightarrow> 'r \<Rightarrow> 'r"
  assumes rest_adv: "rest (adv n rd) = drop n (rest rd)"
    and adv_0: "adv 0 rd = rd"
    and adv_adv: "adv m (adv n rd) = adv (n + m) rd"

locale codec = byte_source rest adv
  for rest :: "'r \<Rightarrow> bytes" and adv :: "nat \<Rightarrow> 'r \<Rightarrow> 'r" +
  fixes push :: "bytes \<Rightarrow> 'a \<Rightarrow> ('e, bytes) result"
    and pull :: "'r \<Rightarrow> ('f, 'a \<times> 'r) result"
    and ok :: "'a \<Rightarrow> bool"
  assumes push_frame: "push out x = Inr out' \<Longrightarrow> \<exists>p. out' = out @ p \<and> (\<forall>o'. push o' x = Inr (o' @ p))"
    and pull_push: "ok x \<Longrightarrow> push [] x = Inr p \<Longrightarrow> rest rd = p @ r \<Longrightarrow> pull rd = Inr (x, adv (length p) rd)"
begin

lemma push_append:
  assumes "push [] x = Inr p"
  shows "push out x = Inr (out @ p)"
  using push_frame [OF assms] by auto

lemma push_appendE:
  assumes "push out x = Inr out'"
  obtains p where "push [] x = Inr p" "out' = out @ p"
  using push_frame [OF assms] by auto

lemma rest_after: "rest rd = p @ r \<Longrightarrow> rest (adv (length p) rd) = r"
  by (simp add: rest_adv)

text \<open>No encoding is a proper prefix of another; in particular encoding is injective.\<close>

lemma prefix_free:
  assumes "ok x" "ok y" "push [] x = Inr p" "push [] y = Inr (p @ q)" "rest rd = p @ q"
  shows "x = y"
proof -
  have "pull rd = Inr (x, adv (length p) rd)"
    using assms(1,3,5) by (rule pull_push)
  moreover have "pull rd = Inr (y, adv (length (p @ q)) rd)"
    using pull_push [OF assms(2,4), of rd "[]"] assms(5) by simp
  ultimately show ?thesis by simp
qed

lemma push_inj:
  assumes "ok x" "ok y" "push [] x = Inr p" "push [] y = Inr p" "rest rd = p"
  shows "x = y"
  using prefix_free [of x y p "[]" rd] assms by simp

lemma push_seq_frame:
  "push_seq push out xs = Inr out' \<Longrightarrow> \<exists>p. out' = out @ p \<and> (\<forall>o'. push_seq push o' xs = Inr (o' @ p))"
proof (induction xs arbitrary: out)
  case (Cons x xs)
  then obtain o1 where o1: "push out x = Inr o1" "push_seq push o1 xs = Inr out'"
    by (auto simp: rbind_Inr_iff)
  from push_frame [OF o1(1)] obtain p where p: "o1 = out @ p" "\<And>o'. push o' x = Inr (o' @ p)" by blast
  from Cons.IH [OF o1(2)] obtain q where q: "out' = o1 @ q" "\<And>o'. push_seq push o' xs = Inr (o' @ q)" by blast
  from p q show ?case by (intro exI [of _ "p @ q"]) simp
qed simp

lemma pull_seq_push_seq:
  assumes "\<forall>x \<in> set xs. ok x" "push_seq push [] xs = Inr p" "rest rd = p @ r"
  shows "pull_seq pull (length xs) rd = Inr (xs, adv (length p) rd)"
  using assms
proof (induction xs arbitrary: p rd)
  case (Cons x xs)
  from Cons.prems obtain p1 where p1: "push [] x = Inr p1" "push_seq push p1 xs = Inr p"
    by (auto simp: rbind_Inr_iff)
  from push_seq_frame [OF p1(2)] obtain p2 where p2: "p = p1 @ p2" "push_seq push [] xs = Inr p2" by auto
  have rd: "rest rd = p1 @ (p2 @ r)" using Cons.prems(3) p2 by simp
  have "pull rd = Inr (x, adv (length p1) rd)"
    using pull_push [OF _ p1(1) rd] Cons.prems(1) by simp
  moreover have "pull_seq pull (length xs) (adv (length p1) rd) = Inr (xs, adv (length p2) (adv (length p1) rd))"
    using Cons.prems(1) p2(2) rest_after [OF rd] by (intro Cons.IH) auto
  ultimately show ?case by (simp add: p2 adv_adv)
qed (simp add: adv_0)

end

locale strict_codec = codec rest adv push pull ok
  for rest :: "'r \<Rightarrow> bytes" and adv :: "nat \<Rightarrow> 'r \<Rightarrow> 'r"
    and push :: "bytes \<Rightarrow> 'a \<Rightarrow> ('e, bytes) result"
    and pull :: "'r \<Rightarrow> ('f, 'a \<times> 'r) result"
    and ok :: "'a \<Rightarrow> bool" +
  assumes push_pull: "pull rd = Inr (x, rd') \<Longrightarrow>
    ok x \<and> (\<exists>p. push [] x = Inr p \<and> rest rd = p @ rest rd' \<and> rd' = adv (length p) rd)"
begin

lemma push_seq_pull_seq:
  assumes "pull_seq pull n rd = Inr (xs, rd')"
  shows "length xs = n \<and> (\<forall>x \<in> set xs. ok x) \<and>
    (\<exists>p. push_seq push [] xs = Inr p \<and> rest rd = p @ rest rd' \<and> rd' = adv (length p) rd)"
  using assms
proof (induction n arbitrary: rd xs)
  case (Suc n)
  then obtain x rd1 xs' where x: "pull rd = Inr (x, rd1)" "pull_seq pull n rd1 = Inr (xs', rd')" "xs = x # xs'"
    by (auto simp: rbind_Inr_iff)
  from push_pull [OF x(1)] obtain p where
    p: "ok x" "push [] x = Inr p" "rest rd = p @ rest rd1" "rd1 = adv (length p) rd" by auto
  from Suc.IH [OF x(2)] obtain q where
    q: "length xs' = n" "\<forall>x \<in> set xs'. ok x" "push_seq push [] xs' = Inr q" "rest rd1 = q @ rest rd'"
      "rd' = adv (length q) rd1" by auto
  from push_seq_frame [OF q(3)] have "push_seq push p xs' = Inr (p @ q)" by simp
  with p q x show ?case by (auto simp: adv_adv)
qed (simp add: adv_0)

end

section \<open>Slices\<close>

interpretation slice: byte_source id "drop :: nat \<Rightarrow> bytes \<Rightarrow> bytes"
  by unfold_locales (auto simp: add.commute)

end
