(* ===== verification/Cbor.thy ===== *)
theory Cbor
  imports Core Codec
begin

unbundle bit_operations_syntax

text \<open>
  Canonical CBOR (\<open>crates/anasemble-core/src/cbor.rs\<close>): the encoder that produces the preimage of
  every digest and signature of the protocol crates, and the decoder that admission uses. A
  \<open>serde_json::Value\<close> is the datatype \<open>json\<close>; its numbers are the three cases the accessors
  \<open>as_u64\<close>, \<open>as_i64\<close> and \<open>as_f64\<close> tell apart, and its objects are ordered maps. An \<open>f64\<close> is its
  bit pattern. A value of another type reaches the encoder through its \<open>Serialize\<close>
  implementation, which is generated code: the conversion is the parameter \<open>to_value\<close>.
\<close>

section \<open>JSON values\<close>

datatype number = PosInt u64 | NegInt u64 | Float u64

datatype json =
    JNull
  | JBool bool
  | JNumber number
  | JString string
  | JArray "json list"
  | JObject "(string \<times> json) list"

type_synonym 'a serialize = "'a \<Rightarrow> (string, json) result"

definition MAX_CBOR_DEPTH :: nat where "MAX_CBOR_DEPTH = 16"

definition f64_finite :: "u64 \<Rightarrow> bool" where
  "f64_finite w \<longleftrightarrow> (drop_bit 52 w) AND 0x7FF \<noteq> 0x7FF"

section \<open>Encoding\<close>

definition encode_len :: "bytes \<Rightarrow> byte \<Rightarrow> u64 \<Rightarrow> bytes" where
  "encode_len out major0 len =
     (let major = push_bit 5 major0 in
      if len < 24 then out @ [major OR ucast len]
      else if len \<le> 0xFF then out @ [major OR 24] @ [ucast len]
      else if len \<le> 0xFFFF then out @ [major OR 25] @ be_bytes 2 (unat (ucast len :: u16))
      else if len \<le> 0xFFFFFFFF then out @ [major OR 26] @ be_bytes 4 (unat (ucast len :: u32))
      else out @ [major OR 27] @ be_bytes 8 (unat len))"

definition encode_text :: "bytes \<Rightarrow> string \<Rightarrow> bytes" where
  "encode_text out text = encode_len out 3 (of_nat (length text)) @ as_bytes text"

definition encode_number :: "bytes \<Rightarrow> number \<Rightarrow> (CoreError, bytes) result" where
  "encode_number out n =
     (case n of
        PosInt v \<Rightarrow> Inr (encode_len out 0 v)
      | NegInt v \<Rightarrow>
          if sint v \<ge> 0 then Inr (encode_len out 0 v)
          else Inr (encode_len out 1 (of_int \<bar>sint v\<bar> - 1))
      | Float f \<Rightarrow>
          if \<not> f64_finite f then Inl (CoreCbor ''JSON number is not a finite CBOR float'')
          else Inr (out @ [0xfb] @ be_bytes 8 (unat f)))"

fun encode_value :: "bytes \<Rightarrow> json \<Rightarrow> nat \<Rightarrow> (CoreError, bytes) result"
  and encode_items :: "bytes \<Rightarrow> json list \<Rightarrow> nat \<Rightarrow> (CoreError, bytes) result"
  and encode_entries :: "bytes \<Rightarrow> (string \<times> json) list \<Rightarrow> nat \<Rightarrow> (CoreError, bytes) result" where
  "encode_value out v depth =
     (if depth > MAX_CBOR_DEPTH then Inl (CoreCbor ''CBOR nesting exceeds depth bound'')
      else case v of
        JNull \<Rightarrow> Inr (out @ [0xf6])
      | JBool b \<Rightarrow> Inr (out @ [if b then 0xf5 else 0xf4])
      | JNumber n \<Rightarrow> encode_number out n
      | JString t \<Rightarrow> Inr (encode_text out t)
      | JArray items \<Rightarrow> encode_items (encode_len out 4 (of_nat (length items))) items (depth + 1)
      | JObject m \<Rightarrow> encode_entries (encode_len out 5 (of_nat (length m))) m (depth + 1))"
| "encode_items out [] depth = Inr out"
| "encode_items out (v # vs) depth =
     rbind (encode_value out v depth) (\<lambda>out'. encode_items out' vs depth)"
| "encode_entries out [] depth = Inr out"
| "encode_entries out ((k, v) # m) depth =
     rbind (encode_value (encode_text out k) v depth) (\<lambda>out'. encode_entries out' m depth)"

definition encode_canonical_cbor :: "'a serialize \<Rightarrow> 'a \<Rightarrow> (CoreError, bytes) result" where
  "encode_canonical_cbor to_value x =
     rbind (map_err CoreJson (to_value x)) (\<lambda>tree.
     rbind (encode_value [] tree 0) (\<lambda>out.
       if length out > MAX_FRAME_BYTES then Inl CoreBound else Inr out))"

definition of_canonical_cbor :: "(bytes \<Rightarrow> bytes) \<Rightarrow> 'a serialize \<Rightarrow> 'a \<Rightarrow> (CoreError, Digest) result" where
  "of_canonical_cbor sha to_value x =
     rbind (encode_canonical_cbor to_value x) (\<lambda>out. Inr (digest_sha256 sha out))"

section \<open>Decoding\<close>

definition take_len :: "byte \<Rightarrow> bytes \<Rightarrow> (CoreError, u64 \<times> bytes) result" where
  "take_len first rest =
     (let n = first AND 0x1f in
      if n < 24 then Inr (ucast n, rest)
      else if n = 24 then
        (case rest of [] \<Rightarrow> Inl (CoreCbor ''truncated CBOR'') | b # rest' \<Rightarrow> Inr (ucast b, rest'))
      else if n = 25 then
        (case split_bytes 2 rest of None \<Rightarrow> Inl (CoreCbor ''truncated CBOR'')
         | Some (bits, rest') \<Rightarrow> Inr (of_nat (from_be bits), rest'))
      else if n = 26 then
        (case split_bytes 4 rest of None \<Rightarrow> Inl (CoreCbor ''truncated CBOR'')
         | Some (bits, rest') \<Rightarrow> Inr (of_nat (from_be bits), rest'))
      else if n = 27 then
        (case split_bytes 8 rest of None \<Rightarrow> Inl (CoreCbor ''truncated CBOR'')
         | Some (bits, rest') \<Rightarrow> Inr (of_nat (from_be bits), rest'))
      else Inl (CoreCbor ''indefinite CBOR is refused''))"

text \<open>
  The value of a CBOR negative integer as the source computes it: in
  \<open>-1_i64.checked_sub(n).ok_or(..)?\<close> the method call and the question mark bind tighter than the
  minus sign, so the expression is the negation of \<open>1 - n\<close>. \<open>Number::from(i64)\<close> keeps a
  non-negative value as an unsigned one.
\<close>

definition decode_negative :: "u64 \<Rightarrow> (CoreError, number) result" where
  "decode_negative n =
     (if n > 0x7FFFFFFFFFFFFFFF then Inl (CoreCbor ''negative out of range'')
      else let difference = 1 - uint n in
        if difference < - 0x8000000000000000 then Inl (CoreCbor ''negative out of range'')
        else let value = - difference in
          Inr (if value < 0 then NegInt (of_int value) else PosInt (of_int value)))"

function decode_value :: "bytes \<Rightarrow> nat \<Rightarrow> (CoreError, json \<times> bytes) result"
  and decode_items :: "nat \<Rightarrow> bytes \<Rightarrow> nat \<Rightarrow> (CoreError, json list \<times> bytes) result"
  and decode_entries :: "nat \<Rightarrow> bytes \<Rightarrow> nat \<Rightarrow> string option \<Rightarrow> (string, json) btree_map \<Rightarrow>
    (CoreError, (string, json) btree_map \<times> bytes) result" where
  "decode_value bs depth =
     (if depth > MAX_CBOR_DEPTH then Inl (CoreCbor ''CBOR nesting exceeds depth bound'')
      else case bs of
        [] \<Rightarrow> Inl (CoreCbor ''truncated CBOR'')
      | first # rest \<Rightarrow>
          if first = 0xf4 then Inr (JBool False, rest)
          else if first = 0xf5 then Inr (JBool True, rest)
          else if first = 0xf6 then Inr (JNull, rest)
          else if first = 0xfb then
            (case split_bytes 8 rest of
               None \<Rightarrow> Inl (CoreCbor ''truncated CBOR float'')
             | Some (bits, rest') \<Rightarrow>
                 (let float = of_nat (from_be bits) in
                  if f64_finite float then Inr (JNumber (Float float), rest')
                  else Inl (CoreCbor ''non-finite CBOR float'')))
          else if drop_bit 5 first = 0 then
            rbind (take_len first rest) (\<lambda>(len, rest'). Inr (JNumber (PosInt len), rest'))
          else if drop_bit 5 first = 1 then
            rbind (take_len first rest) (\<lambda>(n, rest').
              rbind (decode_negative n) (\<lambda>value. Inr (JNumber value, rest')))
          else if drop_bit 5 first = 3 then
            rbind (take_len first rest) (\<lambda>(len, rest').
              (case split_bytes (unat len) rest' of
                 None \<Rightarrow> Inl (CoreCbor ''truncated CBOR text'')
               | Some (raw, rest'') \<Rightarrow>
                   (case from_utf8 raw of
                      None \<Rightarrow> Inl (CoreCbor ''CBOR text is not UTF-8'')
                    | Some text \<Rightarrow> Inr (JString text, rest''))))
          else if drop_bit 5 first = 4 then
            rbind (take_len first rest) (\<lambda>(len, rest').
              rbind (decode_items (unat len) rest' (depth + 1)) (\<lambda>(items, rest'').
                Inr (JArray items, rest'')))
          else if drop_bit 5 first = 5 then
            rbind (take_len first rest) (\<lambda>(len, rest').
              rbind (decode_entries (unat len) rest' (depth + 1) None []) (\<lambda>(m, rest'').
                Inr (JObject m, rest'')))
          else Inl (CoreCbor ''unsupported CBOR type''))"
| "decode_items 0 rest depth = Inr ([], rest)"
| "decode_items (Suc n) rest depth =
     rbind (decode_value rest depth) (\<lambda>(item, next).
       rbind (decode_items n next depth) (\<lambda>(items, rest'). Inr (item # items, rest')))"
| "decode_entries 0 rest depth last_key m = Inr (m, rest)"
| "decode_entries (Suc n) rest depth last_key m =
     rbind (decode_value rest depth) (\<lambda>(key_value, next).
       (case key_value of
          JString key \<Rightarrow>
            if (case last_key of None \<Rightarrow> False | Some previous \<Rightarrow> key \<le> previous)
            then Inl (CoreCbor ''CBOR map keys are not strictly sorted'')
            else rbind (decode_value next depth) (\<lambda>(item, next').
                   decode_entries n next' depth (Some key) (bt_insert key item m))
        | _ \<Rightarrow> Inl (CoreCbor ''CBOR map key is not text'')))"
  by pat_completeness auto
termination
  by (relation "measures [\<lambda>x. case x of Inl (bs, d) \<Rightarrow> 17 - d
      | Inr (Inl (n, bs, d)) \<Rightarrow> 17 - d | Inr (Inr (n, bs, d, l, m)) \<Rightarrow> 17 - d,
    \<lambda>x. case x of Inl _ \<Rightarrow> 0
      | Inr (Inl (n, bs, d)) \<Rightarrow> n + 1 | Inr (Inr (n, bs, d, l, m)) \<Rightarrow> n + 1]")
    (auto simp: MAX_CBOR_DEPTH_def)

definition decode_to_json :: "bytes \<Rightarrow> (CoreError, json) result" where
  "decode_to_json bs =
     rbind (decode_value bs 0) (\<lambda>(value, rest).
       if rest \<noteq> [] then Inl (CoreCbor ''CBOR input has trailing bytes'') else Inr value)"

declare encode_value.simps [simp del] decode_value.simps [simp del]


section \<open>The head of an item\<close>

lemma take_bit_byte_self: "unat w < 2 ^ n \<Longrightarrow> take_bit n w = (w :: byte)"
  by (simp add: word_unat_eq_iff unsigned_take_bit_eq take_bit_nat_eq_self)

lemma bit_byte_bound: "unat w < 2 ^ n \<Longrightarrow> bit (w :: byte) k \<Longrightarrow> k < n"
  using take_bit_byte_self [of w n] by (metis bit_take_bit_iff)

lemma head_major: "m < 8 \<Longrightarrow> i < 32 \<Longrightarrow> drop_bit 5 (push_bit 5 m OR i :: byte) = m"
proof -
  assume "m < 8" "i < 32"
  then have "unat m < 2 ^ 3" "unat i < 2 ^ 5" by (simp_all add: word_less_nat_alt)
  then have "\<And>k. bit m k \<Longrightarrow> k < 3" "\<And>k. bit i k \<Longrightarrow> k < 5"
    by (blast intro: bit_byte_bound)+
  then show ?thesis by (intro bit_eqI) (fastforce simp: bit_simps)
qed

lemma head_info: "i < 32 \<Longrightarrow> (push_bit 5 m OR i :: byte) AND 0x1f = i"
proof -
  assume "i < 32"
  then have i: "unat i < 2 ^ 5" by (simp add: word_less_nat_alt)
  have "x AND 0x1f = take_bit 5 x" for x :: byte
    by (simp add: take_bit_eq_mask mask_eq_exp_minus_1)
  then show ?thesis by (auto intro!: bit_eqI simp: bit_simps dest: bit_byte_bound [OF i])
qed

lemma ucast_byte_small: "len < 24 \<Longrightarrow> (ucast (len :: u64) :: byte) < 24"
  by (simp add: word_less_nat_alt unsigned_ucast_eq take_bit_eq_mod)

lemma ucast_ucast_le:
  "len \<le> 0xFF \<Longrightarrow> ucast (ucast (len :: u64) :: byte) = len"
  "len \<le> 0xFFFF \<Longrightarrow> ucast (ucast (len :: u64) :: u16) = len"
  "len \<le> 0xFFFFFFFF \<Longrightarrow> ucast (ucast (len :: u64) :: u32) = len"
  by (simp_all add: word_le_nat_alt word_unat_eq_iff unsigned_ucast_eq take_bit_eq_mod unat_mod_distrib)

lemma ucast_byte_low: "len < 24 \<Longrightarrow> ucast (ucast (len :: u64) :: byte) = len"
  by (rule ucast_ucast_le(1)) (simp add: word_less_nat_alt word_le_nat_alt)

definition head_of :: "u64 \<Rightarrow> byte" where
  "head_of len = (if len < 24 then ucast len else if len \<le> 0xFF then 24 else if len \<le> 0xFFFF then 25
     else if len \<le> 0xFFFFFFFF then 26 else 27)"

definition tail_of :: "u64 \<Rightarrow> bytes" where
  "tail_of len = (if len < 24 then [] else if len \<le> 0xFF then [ucast len]
     else if len \<le> 0xFFFF then be_bytes 2 (unat (ucast len :: u16))
     else if len \<le> 0xFFFFFFFF then be_bytes 4 (unat (ucast len :: u32)) else be_bytes 8 (unat len))"

definition head_byte :: "byte \<Rightarrow> u64 \<Rightarrow> byte" where
  "head_byte m len = push_bit 5 m OR head_of len"

lemma encode_len_eq: "encode_len out m len = out @ head_byte m len # tail_of len"
  by (simp add: encode_len_def head_byte_def head_of_def tail_of_def Let_def)

lemma head_of_bound: "head_of len < 32"
proof -
  have "len < 24 \<Longrightarrow> (ucast len :: byte) < 32"
    using ucast_byte_small [of len] by (simp add: word_less_nat_alt)
  then show ?thesis by (simp add: head_of_def)
qed

lemma take_len_head:
  "take_len (head_byte m len) (tail_of len @ r) = Inr (len, r)"
proof -
  have h: "head_byte m len AND 0x1f = head_of len"
    unfolding head_byte_def by (rule head_info [OF head_of_bound])
  consider "len < 24" | "\<not> len < 24" "len \<le> 0xFF" | "\<not> len < 24" "\<not> len \<le> 0xFF" "len \<le> 0xFFFF"
    | "\<not> len < 24" "\<not> len \<le> 0xFF" "\<not> len \<le> 0xFFFF" "len \<le> 0xFFFFFFFF"
    | "\<not> len < 24" "\<not> len \<le> 0xFF" "\<not> len \<le> 0xFFFF" "\<not> len \<le> 0xFFFFFFFF"
    by blast
  then show ?thesis
  proof cases
    case 1
    then have "head_of len = ucast len" "tail_of len = []" by (simp_all add: head_of_def tail_of_def)
    with 1 h ucast_byte_small [of len] show ?thesis
      by (simp add: take_len_def ucast_byte_low)
  next
    case 2
    then have "head_of len = 24" "tail_of len = [ucast len]" by (simp_all add: head_of_def tail_of_def)
    with 2 h show ?thesis by (simp add: take_len_def ucast_ucast_le(1))
  next
    case 3
    then have "head_of len = 25" "tail_of len = be_bytes 2 (unat (ucast len :: u16))"
      by (simp_all add: head_of_def tail_of_def)
    with 3 h show ?thesis by (simp add: take_len_def be_bytes_word ucast_ucast_le(2) del: be_bytes.simps)
  next
    case 4
    then have "head_of len = 26" "tail_of len = be_bytes 4 (unat (ucast len :: u32))"
      by (simp_all add: head_of_def tail_of_def)
    with 4 h show ?thesis by (simp add: take_len_def be_bytes_word ucast_ucast_le(3) del: be_bytes.simps)
  next
    case 5
    then have "head_of len = 27" "tail_of len = be_bytes 8 (unat len)"
      by (simp_all add: head_of_def tail_of_def)
    with 5 h show ?thesis by (simp add: take_len_def be_bytes_word del: be_bytes.simps)
  qed
qed


section \<open>Canonical values\<close>

fun number_ok :: "number \<Rightarrow> bool" where
  "number_ok (PosInt v) = True"
| "number_ok (NegInt v) = (v = -1)"
| "number_ok (Float f) = f64_finite f"

definition text_ok :: "string \<Rightarrow> bool" where
  "text_ok t \<longleftrightarrow> utf8 t \<and> length t < 2 ^ 64"

fun canonical :: "json \<Rightarrow> bool" where
  "canonical JNull = True"
| "canonical (JBool b) = True"
| "canonical (JNumber n) = number_ok n"
| "canonical (JString t) = text_ok t"
| "canonical (JArray items) = (length items < 2 ^ 64 \<and> (\<forall>v \<in> set items. canonical v))"
| "canonical (JObject m) =
     (length m < 2 ^ 64 \<and> bt_wf m \<and> (\<forall>(k, v) \<in> set m. text_ok k \<and> canonical v))"

text \<open>The encoder only appends, and what it appends does not depend on the output so far.\<close>

lemma encode_number_frame:
  "encode_number out n = Inr out' \<Longrightarrow> \<exists>p. out' = out @ p \<and> (\<forall>o'. encode_number o' n = Inr (o' @ p))"
  by (cases n) (auto simp: encode_number_def encode_len_eq split: if_splits)

lemma encode_text_eq:
  "encode_text out t = out @ head_byte 3 (of_nat (length t)) # tail_of (of_nat (length t)) @ as_bytes t"
  by (simp add: encode_text_def encode_len_eq)

lemma encode_frame:
  "encode_value out v d = Inr out' \<Longrightarrow> \<exists>p. out' = out @ p \<and> (\<forall>o'. encode_value o' v d = Inr (o' @ p))"
  "encode_items out vs d = Inr out' \<Longrightarrow> \<exists>p. out' = out @ p \<and> (\<forall>o'. encode_items o' vs d = Inr (o' @ p))"
  "encode_entries out m d = Inr out' \<Longrightarrow> \<exists>p. out' = out @ p \<and> (\<forall>o'. encode_entries o' m d = Inr (o' @ p))"
proof (induction out v d and out vs d and out m d arbitrary: out' and out' and out'
    rule: encode_value_encode_items_encode_entries.induct)
  case (1 out v depth)
  then show ?case
    by (cases v) (fastforce simp: encode_value.simps encode_len_eq encode_text_eq dest: encode_number_frame split: if_splits)+
next
  case (3 out v vs depth)
  then obtain o1 where o1: "encode_value out v depth = Inr o1" "encode_items o1 vs depth = Inr out'"
    by (auto simp: rbind_Inr_iff)
  from 3(1) [OF o1(1)] 3(2) [OF o1] show ?case by fastforce
next
  case (5 out k v m depth)
  then obtain o1 where o1: "encode_value (encode_text out k) v depth = Inr o1" "encode_entries o1 m depth = Inr out'"
    by (auto simp: rbind_Inr_iff)
  from 5(1) [OF o1(1)] 5(2) [OF o1] show ?case by (fastforce simp: encode_text_eq)
qed auto


section \<open>Decoding what the encoder wrote\<close>

lemma head_byte_major: "m < 7 \<Longrightarrow> drop_bit 5 (head_byte m len) = m"
  unfolding head_byte_def by (rule head_major [OF _ head_of_bound]) (simp add: word_less_nat_alt)

lemma head_byte_not_simple:
  assumes "m < 7"
  shows "head_byte m len \<noteq> 0xf4" "head_byte m len \<noteq> 0xf5" "head_byte m len \<noteq> 0xf6" "head_byte m len \<noteq> 0xfb"
proof -
  have "drop_bit 5 (0xf4 :: byte) = 7" "drop_bit 5 (0xf5 :: byte) = 7"
    "drop_bit 5 (0xf6 :: byte) = 7" "drop_bit 5 (0xfb :: byte) = 7" by simp_all
  then show "head_byte m len \<noteq> 0xf4" "head_byte m len \<noteq> 0xf5" "head_byte m len \<noteq> 0xf6" "head_byte m len \<noteq> 0xfb"
    using assms head_byte_major [OF assms, of len] by (metis less_irrefl)+
qed

lemma decode_heads:
  assumes "d \<le> MAX_CBOR_DEPTH"
  shows "decode_value (head_byte 0 len # tail_of len @ r) d = Inr (JNumber (PosInt len), r)"
    "decode_value (head_byte 1 len # tail_of len @ r) d = rbind (decode_negative len) (\<lambda>value. Inr (JNumber value, r))"
    "decode_value (head_byte 3 len # tail_of len @ r) d = (case split_bytes (unat len) r of
                 None \<Rightarrow> Inl (CoreCbor ''truncated CBOR text'')
               | Some (raw, rest'') \<Rightarrow>
                   (case from_utf8 raw of
                      None \<Rightarrow> Inl (CoreCbor ''CBOR text is not UTF-8'')
                    | Some text \<Rightarrow> Inr (JString text, rest'')))"
    "decode_value (head_byte 4 len # tail_of len @ r) d =
       rbind (decode_items (unat len) r (d + 1)) (\<lambda>(items, rest''). Inr (JArray items, rest''))"
    "decode_value (head_byte 5 len # tail_of len @ r) d =
       rbind (decode_entries (unat len) r (d + 1) None []) (\<lambda>(m, rest''). Inr (JObject m, rest''))"
  using assms
  by (simp_all add: decode_value.simps [of _ d] take_len_head head_byte_major head_byte_not_simple)

lemma unat_of_length: "n < 2 ^ 64 \<Longrightarrow> unat (of_nat n :: u64) = n"
  by (simp add: unat_of_nat take_bit_nat_eq_self)

lemma decode_text:
  assumes "d \<le> MAX_CBOR_DEPTH" "text_ok t"
  shows "decode_value (encode_text [] t @ r) d = Inr (JString t, r)"
proof -
  have "unat (of_nat (length t) :: u64) = length t"
    using assms(2) by (intro unat_of_length) (simp add: text_ok_def)
  with assms show ?thesis by (simp add: encode_text_eq decode_heads text_ok_def)
qed


lemma decode_number:
  assumes "d \<le> MAX_CBOR_DEPTH" "number_ok n" "encode_number [] n = Inr p"
  shows "decode_value (p @ r) d = Inr (JNumber n, r)"
proof (cases n)
  case (PosInt v)
  with assms show ?thesis by (auto simp: encode_number_def encode_len_eq decode_heads)
next
  case (NegInt v)
  with assms have "p = head_byte 1 0 # tail_of 0" by (simp add: encode_number_def encode_len_eq)
  moreover have "decode_negative 0 = Inr (NegInt (-1))" by (simp add: decode_negative_def)
  ultimately show ?thesis using assms NegInt by (simp add: decode_heads)
next
  case (Float f)
  with assms have p: "p = 0xfb # be_bytes 8 (unat f)"
    by (auto simp: encode_number_def simp del: be_bytes.simps split: if_splits)
  have "of_nat (from_be (be_bytes 8 (unat f))) = f"
    unfolding be_bytes_word by simp
  with assms Float show ?thesis
    by (simp add: p decode_value.simps [of _ d] Let_def del: be_bytes.simps)
qed

lemma depth_of_encode: "encode_value out v d = Inr out' \<Longrightarrow> d \<le> MAX_CBOR_DEPTH"
  by (simp add: encode_value.simps split: if_splits)

definition decodes :: "json \<Rightarrow> bool" where
  "decodes v \<longleftrightarrow> (\<forall>d p r. canonical v \<longrightarrow> encode_value [] v d = Inr p \<longrightarrow> decode_value (p @ r) d = Inr (v, r))"

lemma decode_items_encode:
  assumes "\<forall>v \<in> set vs. canonical v \<and> decodes v" "encode_items [] vs d = Inr p"
  shows "decode_items (length vs) (p @ r) d = Inr (vs, r)"
  using assms
proof (induction vs arbitrary: p)
  case (Cons v vs)
  from Cons.prems obtain p1 where p1: "encode_value [] v d = Inr p1" "encode_items p1 vs d = Inr p"
    by (auto simp: rbind_Inr_iff)
  from encode_frame(2) [OF p1(2)] obtain p2 where p2: "p = p1 @ p2" "encode_items [] vs d = Inr p2" by auto
  from Cons.prems(1) p1(1) have "decode_value (p1 @ (p2 @ r)) d = Inr (v, p2 @ r)"
    by (simp add: decodes_def)
  with Cons p2 show ?case by simp
qed simp

lemma decode_entries_encode:
  assumes "\<forall>(k, v) \<in> set m. text_ok k \<and> canonical v \<and> decodes v" "bt_wf (m0 @ m)"
    "\<forall>k \<in> fst ` set m. \<forall>prev. last_key = Some prev \<longrightarrow> prev < k" "encode_entries [] m d = Inr p"
  shows "decode_entries (length m) (p @ r) d last_key m0 = Inr (m0 @ m, r)"
  using assms
proof (induction m arbitrary: p m0 last_key)
  case (Cons kv m)
  obtain k v where kv: "kv = (k, v)" by (cases kv)
  from Cons.prems obtain p1 where p1: "encode_value (encode_text [] k) v d = Inr p1" "encode_entries p1 m d = Inr p"
    by (auto simp: rbind_Inr_iff kv)
  from encode_frame(1) [OF p1(1)] obtain pv where pv: "p1 = encode_text [] k @ pv" "encode_value [] v d = Inr pv" by auto
  from encode_frame(3) [OF p1(2)] obtain pm where pm: "p = p1 @ pm" "encode_entries [] m d = Inr pm" by auto
  have d: "d \<le> MAX_CBOR_DEPTH" using pv(2) by (rule depth_of_encode)
  have key: "decode_value (encode_text [] k @ (pv @ pm @ r)) d = Inr (JString k, pv @ pm @ r)"
    using Cons.prems(1) by (intro decode_text [OF d]) (simp add: kv)
  have val: "decode_value (pv @ (pm @ r)) d = Inr (v, pm @ r)"
    using Cons.prems(1) pv(2) by (simp add: decodes_def kv)
  have ins: "bt_insert k v m0 = m0 @ [(k, v)]"
    using Cons.prems(2) by (intro bt_insert_last) (auto simp: bt_wf_def sorted_wrt_append kv)
  have "decode_entries (length m) (pm @ r) d (Some k) (m0 @ [(k, v)]) = Inr ((m0 @ [(k, v)]) @ m, r)"
    using Cons.prems pm(2) by (intro Cons.IH) (auto simp: kv bt_wf_def sorted_wrt_append)
  moreover have "\<not> (case last_key of None \<Rightarrow> False | Some previous \<Rightarrow> k \<le> previous)"
    using Cons.prems(3) by (auto simp: kv split: option.splits)
  ultimately show ?case by (simp add: kv pm(1) pv(1) key val ins)
qed simp

lemma canonical_decodes: "decodes v"
proof (induction v)
  case (JArray items)
  show ?case unfolding decodes_def
  proof (intro allI impI)
    fix d p r assume c: "canonical (JArray items)" and e: "encode_value [] (JArray items) d = Inr p"
    have d: "d \<le> MAX_CBOR_DEPTH" using e by (rule depth_of_encode)
    from e d have "encode_items (encode_len [] 4 (of_nat (length items))) items (d + 1) = Inr p"
      by (simp add: encode_value.simps)
    from encode_frame(2) [OF this] obtain q where
      q: "p = encode_len [] 4 (of_nat (length items)) @ q" "encode_items [] items (d + 1) = Inr q" by auto
    have "decode_items (length items) (q @ r) (d + 1) = Inr (items, r)"
      using c JArray q(2) by (intro decode_items_encode) auto
    moreover have "unat (of_nat (length items) :: u64) = length items"
      using c by (intro unat_of_length) simp
    ultimately show "decode_value (p @ r) d = Inr (JArray items, r)"
      using d by (simp add: q(1) encode_len_eq decode_heads)
  qed
next
  case (JObject m)
  show ?case unfolding decodes_def
  proof (intro allI impI)
    fix d p r assume c: "canonical (JObject m)" and e: "encode_value [] (JObject m) d = Inr p"
    have d: "d \<le> MAX_CBOR_DEPTH" using e by (rule depth_of_encode)
    from e d have "encode_entries (encode_len [] 5 (of_nat (length m))) m (d + 1) = Inr p"
      by (simp add: encode_value.simps)
    from encode_frame(3) [OF this] obtain q where
      q: "p = encode_len [] 5 (of_nat (length m)) @ q" "encode_entries [] m (d + 1) = Inr q" by auto
    have "\<forall>(k, v) \<in> set m. text_ok k \<and> canonical v \<and> decodes v"
      using c JObject by (fastforce simp: snds.simps)
    then have "decode_entries (length m) (q @ r) (d + 1) None [] = Inr ([] @ m, r)"
      using c q(2) by (intro decode_entries_encode) auto
    moreover have "unat (of_nat (length m) :: u64) = length m"
      using c by (intro unat_of_length) simp
    ultimately show "decode_value (p @ r) d = Inr (JObject m, r)"
      using d by (simp add: q(1) encode_len_eq decode_heads)
  qed
next
  case (JNumber n)
  show ?case unfolding decodes_def
    by (auto simp: encode_value.simps split: if_splits intro: decode_number)
next
  case (JString t)
  show ?case unfolding decodes_def
    by (auto simp: encode_value.simps decode_text split: if_splits)
qed (auto simp: decodes_def encode_value.simps decode_value.simps split: if_splits)

lemma decode_encode:
  "canonical v \<Longrightarrow> encode_value [] v d = Inr p \<Longrightarrow> decode_value (p @ r) d = Inr (v, r)"
  using canonical_decodes by (auto simp: decodes_def)

interpretation cbor: codec id "drop :: nat \<Rightarrow> bytes \<Rightarrow> bytes" "\<lambda>out v. encode_value out v 0" "\<lambda>bs. decode_value bs 0" canonical
  by unfold_locales (auto dest: encode_frame(1) simp: decode_encode)


section \<open>The encoder is injective\<close>

text \<open>
  Values as \<open>serde_json\<close> holds them: strings and keys are UTF-8 and below 2^64 bytes, object keys are
  strictly sorted, a \<open>NegInt\<close> is negative.
\<close>

fun number_wf :: "number \<Rightarrow> bool" where
  "number_wf (PosInt v) = True"
| "number_wf (NegInt v) = (sint v < 0)"
| "number_wf (Float f) = True"

fun json_wf :: "json \<Rightarrow> bool" where
  "json_wf JNull = True"
| "json_wf (JBool b) = True"
| "json_wf (JNumber n) = number_wf n"
| "json_wf (JString t) = text_ok t"
| "json_wf (JArray items) = (length items < 2 ^ 64 \<and> (\<forall>v \<in> set items. json_wf v))"
| "json_wf (JObject m) =
     (length m < 2 ^ 64 \<and> bt_wf m \<and> (\<forall>(k, v) \<in> set m. text_ok k \<and> json_wf v))"

lemma head_inj:
  assumes "head_byte m len # tail_of len @ r = head_byte m' len' # tail_of len' @ r'" "m < 7" "m' < 7"
  shows "m = m' \<and> len = len' \<and> r = r'"
proof -
  have "head_byte m len = head_byte m' len'" using assms(1) by simp
  then have "m = m'" using head_byte_major [OF assms(2), of len] head_byte_major [OF assms(3), of len'] by simp
  moreover have "Inr (len, r) = (Inr (len', r') :: (CoreError, u64 \<times> bytes) result)"
    using arg_cong [OF assms(1), of "\<lambda>bs. take_len (hd bs) (tl bs)"] by (simp only: list.sel take_len_head)
  ultimately show ?thesis by simp
qed

lemma encode_text_inj:
  assumes "encode_text [] s @ r = encode_text [] t @ r'" "text_ok s" "text_ok t"
  shows "s = t \<and> r = r'"
proof -
  have "head_byte 3 (of_nat (length s)) # tail_of (of_nat (length s)) @ (as_bytes s @ r) =
      head_byte 3 (of_nat (length t)) # tail_of (of_nat (length t)) @ (as_bytes t @ r')"
    using assms(1) by (simp add: encode_text_eq)
  from head_inj [OF this] have "(of_nat (length s) :: u64) = of_nat (length t) \<and> as_bytes s @ r = as_bytes t @ r'"
    by simp
  moreover have "unat (of_nat (length s) :: u64) = length s" "unat (of_nat (length t) :: u64) = length t"
    using assms by (simp_all add: text_ok_def unat_of_length)
  ultimately have "length s = length t" "as_bytes s @ r = as_bytes t @ r'" by metis+
  then have "as_bytes s = as_bytes t" "r = r'" by (simp_all add: append_eq_append_conv)
  then show ?thesis by (metis bytes_str_as_bytes)
qed

text \<open>The first byte of an encoding tells the kind of the value.\<close>

fun json_kind :: "json \<Rightarrow> byte" where
  "json_kind JNull = 0xf6"
| "json_kind (JBool b) = (if b then 0xf5 else 0xf4)"
| "json_kind (JNumber (PosInt v)) = 0"
| "json_kind (JNumber (NegInt v)) = 1"
| "json_kind (JNumber (Float v)) = 0xfb"
| "json_kind (JString t) = 3"
| "json_kind (JArray items) = 4"
| "json_kind (JObject m) = 5"

definition kind_of_byte :: "byte \<Rightarrow> byte" where
  "kind_of_byte b = (if drop_bit 5 b = 7 then b else drop_bit 5 b)"

lemma kind_head [simp]: "m < 7 \<Longrightarrow> kind_of_byte (head_byte m len) = m"
  by (auto simp: kind_of_byte_def head_byte_major)

lemma kind_encode:
  assumes "encode_value [] v d = Inr p" "json_wf v"
  obtains b q where "p = b # q" "kind_of_byte b = json_kind v"
proof -
  have "\<exists>b q. p = b # q \<and> kind_of_byte b = json_kind v"
  proof (cases v)
    case (JNumber n)
    with assms show ?thesis
      by (cases n) (auto simp: encode_value.simps encode_number_def encode_len_eq kind_of_byte_def [of "0xfb"] split: if_splits)
  next
    case (JArray items)
    with assms show ?thesis
      by (auto simp: encode_value.simps encode_len_eq dest!: encode_frame(2) split: if_splits)
  next
    case (JObject m)
    with assms show ?thesis
      by (auto simp: encode_value.simps encode_len_eq dest!: encode_frame(3) split: if_splits)
  qed (use assms in \<open>auto simp: encode_value.simps encode_text_eq kind_of_byte_def [of "0xf4"]
    kind_of_byte_def [of "0xf5"] kind_of_byte_def [of "0xf6"] split: if_splits\<close>)
  then show thesis using that by blast
qed

lemma encode_number_inj:
  assumes "encode_number [] n = Inr p" "encode_number [] n' = Inr p'" "p @ r = p' @ r'"
    "json_kind (JNumber n) = json_kind (JNumber n')" "number_wf n" "number_wf n'"
  shows "n = n' \<and> r = r'"
proof (cases n; cases n')
  fix v v' assume n: "n = PosInt v" "n' = PosInt v'"
  then show ?thesis using assms head_inj [of 0 v r 0 v' r'] by (auto simp: encode_number_def encode_len_eq)
next
  fix v v' assume n: "n = NegInt v" "n' = NegInt v'"
  then have s: "sint v < 0" "sint v' < 0" using assms by auto
  then have "of_int \<bar>sint v\<bar> - 1 = (of_int \<bar>sint v'\<bar> - 1 :: u64) \<and> r = r'"
    using n assms head_inj [of 1 "of_int \<bar>sint v\<bar> - 1" r 1 "of_int \<bar>sint v'\<bar> - 1" r']
    by (auto simp: encode_number_def encode_len_eq)
  with s n show ?thesis by (simp add: abs_if)
next
  fix v v' assume n: "n = Float v" "n' = Float v'"
  then have e: "be_bytes 8 (unat v) @ r = be_bytes 8 (unat v') @ r'"
    using assms by (auto simp: encode_number_def simp del: be_bytes.simps split: if_splits)
  then have b: "be_bytes 8 (unat v) = be_bytes 8 (unat v')" and r: "r = r'"
    by (simp_all add: append_eq_append_conv del: be_bytes.simps)
  from b have "unat v = unat v'" by (metis be_bytes_word(3))
  then have "v = v'" by (rule word_unat_eq_iff [THEN iffD2])
  then show ?thesis using n r by simp
qed (use assms in auto)

definition unique_prefix :: "json \<Rightarrow> bool" where
  "unique_prefix v \<longleftrightarrow> (\<forall>d p r v' p' r'. json_wf v \<longrightarrow> json_wf v' \<longrightarrow> encode_value [] v d = Inr p \<longrightarrow>
     encode_value [] v' d = Inr p' \<longrightarrow> p @ r = p' @ r' \<longrightarrow> v = v' \<and> r = r')"

lemma unique_prefixD:
  "unique_prefix v \<Longrightarrow> json_wf v \<Longrightarrow> json_wf v' \<Longrightarrow> encode_value [] v d = Inr p \<Longrightarrow>
     encode_value [] v' d = Inr p' \<Longrightarrow> p @ r = p' @ r' \<Longrightarrow> v = v' \<and> r = r'"
  unfolding unique_prefix_def by blast

lemma encode_items_inj:
  assumes "\<forall>v \<in> set vs. unique_prefix v \<and> json_wf v" "\<forall>v \<in> set vs'. json_wf v" "length vs = length vs'"
    "encode_items [] vs d = Inr p" "encode_items [] vs' d = Inr p'" "p @ r = p' @ r'"
  shows "vs = vs' \<and> r = r'"
  using assms(3,1,2,4,5,6)
proof (induction vs vs' arbitrary: p p' rule: list_induct2)
  case (Cons v vs v' vs')
  from Cons.prems obtain a b where a: "encode_value [] v d = Inr a" "encode_items a vs d = Inr p"
    and b: "encode_value [] v' d = Inr b" "encode_items b vs' d = Inr p'"
    by (auto simp: rbind_Inr_iff)
  from encode_frame(2) [OF a(2)] obtain a2 where a2: "p = a @ a2" "encode_items [] vs d = Inr a2" by auto
  from encode_frame(2) [OF b(2)] obtain b2 where b2: "p' = b @ b2" "encode_items [] vs' d = Inr b2" by auto
  have "a @ (a2 @ r) = b @ (b2 @ r')" using Cons.prems(5) a2 b2 by simp
  then have "v = v' \<and> a2 @ r = b2 @ r'"
    using Cons.prems(1,2) a(1) b(1) by (intro unique_prefixD) auto
  moreover have "a2 @ r = b2 @ r' \<Longrightarrow> vs = vs' \<and> r = r'"
    using Cons.prems(1,2) a2(2) b2(2) by (intro Cons.IH) auto
  ultimately show ?case by blast
qed simp

lemma encode_entries_inj:
  assumes "\<forall>(k, v) \<in> set m. unique_prefix v \<and> json_wf v \<and> text_ok k" "\<forall>(k, v) \<in> set m'. json_wf v \<and> text_ok k"
    "length m = length m'" "encode_entries [] m d = Inr p" "encode_entries [] m' d = Inr p'" "p @ r = p' @ r'"
  shows "m = m' \<and> r = r'"
  using assms(3,1,2,4,5,6)
proof (induction m m' arbitrary: p p' rule: list_induct2)
  case (Cons kv m kv' m')
  obtain k v k' v' where kv: "kv = (k, v)" "kv' = (k', v')" by (cases kv; cases kv')
  from Cons.prems obtain a b where a: "encode_value (encode_text [] k) v d = Inr a" "encode_entries a m d = Inr p"
    and b: "encode_value (encode_text [] k') v' d = Inr b" "encode_entries b m' d = Inr p'"
    by (auto simp: rbind_Inr_iff kv)
  from encode_frame(1) [OF a(1)] obtain a1 where a1: "a = encode_text [] k @ a1" "encode_value [] v d = Inr a1" by auto
  from encode_frame(1) [OF b(1)] obtain b1 where b1: "b = encode_text [] k' @ b1" "encode_value [] v' d = Inr b1" by auto
  from encode_frame(3) [OF a(2)] obtain a2 where a2: "p = a @ a2" "encode_entries [] m d = Inr a2" by auto
  from encode_frame(3) [OF b(2)] obtain b2 where b2: "p' = b @ b2" "encode_entries [] m' d = Inr b2" by auto
  have "encode_text [] k @ (a1 @ a2 @ r) = encode_text [] k' @ (b1 @ b2 @ r')"
    using Cons.prems(5) a1 a2 b1 b2 by simp
  then have k: "k = k'" and "a1 @ (a2 @ r) = b1 @ (b2 @ r')"
    using Cons.prems(1,2) encode_text_inj by (auto simp: kv)
  then have "v = v' \<and> a2 @ r = b2 @ r'"
    using Cons.prems(1,2) a1(2) b1(2) by (intro unique_prefixD) (auto simp: kv)
  moreover have "a2 @ r = b2 @ r' \<Longrightarrow> m = m' \<and> r = r'"
    using Cons.prems(1,2) a2(2) b2(2) by (intro Cons.IH) auto
  ultimately show ?case using k kv by blast
qed simp

lemma same_kind:
  assumes "encode_value [] v d = Inr p" "encode_value [] v' d = Inr p'" "p @ r = p' @ r'" "json_wf v" "json_wf v'"
  shows "json_kind v = json_kind v'"
proof -
  obtain b q where "p = b # q" "kind_of_byte b = json_kind v" using kind_encode [OF assms(1,4)] by blast
  moreover obtain b' q' where "p' = b' # q'" "kind_of_byte b' = json_kind v'" using kind_encode [OF assms(2,5)] by blast
  ultimately show ?thesis using assms(3) by simp
qed

lemma encode_value_array:
  assumes "encode_value [] (JArray items) d = Inr p"
  obtains q where "p = head_byte 4 (of_nat (length items)) # tail_of (of_nat (length items)) @ q"
    "encode_items [] items (d + 1) = Inr q"
proof -
  from assms have "encode_items (encode_len [] 4 (of_nat (length items))) items (d + 1) = Inr p"
    by (simp add: encode_value.simps split: if_splits)
  from encode_frame(2) [OF this] show thesis using that by (auto simp: encode_len_eq)
qed

lemma encode_value_object:
  assumes "encode_value [] (JObject m) d = Inr p"
  obtains q where "p = head_byte 5 (of_nat (length m)) # tail_of (of_nat (length m)) @ q"
    "encode_entries [] m (d + 1) = Inr q"
proof -
  from assms have "encode_entries (encode_len [] 5 (of_nat (length m))) m (d + 1) = Inr p"
    by (simp add: encode_value.simps split: if_splits)
  from encode_frame(3) [OF this] show thesis using that by (auto simp: encode_len_eq)
qed

lemma counted_inj:
  assumes "head_byte m (of_nat a) # tail_of (of_nat a) @ q = head_byte m (of_nat b) # tail_of (of_nat b) @ q'"
    "m < 7" "a < 2 ^ 64" "b < 2 ^ 64"
  shows "a = b \<and> q = q'"
  using head_inj [OF assms(1,2,2)] unat_of_length [OF assms(3)] unat_of_length [OF assms(4)] by metis

lemma array_unique_prefix:
  assumes "\<And>v. v \<in> set items \<Longrightarrow> unique_prefix v"
  shows "unique_prefix (JArray items)"
  unfolding unique_prefix_def
proof (intro allI impI)
  fix d p r v' p' r'
  assume wf: "json_wf (JArray items)" "json_wf v'" and e: "encode_value [] (JArray items) d = Inr p"
    "encode_value [] v' d = Inr p'" "p @ r = p' @ r'"
  have "json_kind v' = 4" using same_kind [OF e wf] by simp
  then obtain items' where v': "v' = JArray items'" by (cases v' rule: json_kind.cases) (auto split: if_splits)
  obtain q where q: "p = head_byte 4 (of_nat (length items)) # tail_of (of_nat (length items)) @ q"
    "encode_items [] items (d + 1) = Inr q" using encode_value_array [OF e(1)] by blast
  obtain q' where q': "p' = head_byte 4 (of_nat (length items')) # tail_of (of_nat (length items')) @ q'"
    "encode_items [] items' (d + 1) = Inr q'" using encode_value_array [OF e(2) [unfolded v']] by blast
  have "length items = length items' \<and> q @ r = q' @ r'"
    using e(3) wf by (intro counted_inj [of 4]) (simp_all add: q(1) q'(1) v')
  then show "JArray items = v' \<and> r = r'"
    using encode_items_inj [of items items' "d + 1" q q' r r'] assms wf q(2) q'(2) by (simp add: v')
qed

lemma object_unique_prefix:
  assumes "\<And>k v. (k, v) \<in> set m \<Longrightarrow> unique_prefix v"
  shows "unique_prefix (JObject m)"
  unfolding unique_prefix_def
proof (intro allI impI)
  fix d p r v' p' r'
  assume wf: "json_wf (JObject m)" "json_wf v'" and e: "encode_value [] (JObject m) d = Inr p"
    "encode_value [] v' d = Inr p'" "p @ r = p' @ r'"
  have "json_kind v' = 5" using same_kind [OF e wf] by simp
  then obtain m' where v': "v' = JObject m'" by (cases v' rule: json_kind.cases) (auto split: if_splits)
  obtain q where q: "p = head_byte 5 (of_nat (length m)) # tail_of (of_nat (length m)) @ q"
    "encode_entries [] m (d + 1) = Inr q" using encode_value_object [OF e(1)] by blast
  obtain q' where q': "p' = head_byte 5 (of_nat (length m')) # tail_of (of_nat (length m')) @ q'"
    "encode_entries [] m' (d + 1) = Inr q'" using encode_value_object [OF e(2) [unfolded v']] by blast
  have "length m = length m' \<and> q @ r = q' @ r'"
    using e(3) wf by (intro counted_inj [of 5]) (simp_all add: q(1) q'(1) v')
  moreover have "\<forall>(k, v) \<in> set m. unique_prefix v \<and> json_wf v \<and> text_ok k" "\<forall>(k, v) \<in> set m'. json_wf v \<and> text_ok k"
    using assms wf by (auto simp: v')
  ultimately show "JObject m = v' \<and> r = r'"
    using encode_entries_inj [of m m' "d + 1" q q' r r'] q(2) q'(2) by (simp add: v')
qed

lemma scalar_unique_prefix:
  assumes "\<And>items. v \<noteq> JArray items" "\<And>m. v \<noteq> JObject m"
  shows "unique_prefix v"
  unfolding unique_prefix_def
proof (intro allI impI)
  fix d p r v' p' r'
  assume wf: "json_wf v" "json_wf v'" and e: "encode_value [] v d = Inr p"
    "encode_value [] v' d = Inr p'" "p @ r = p' @ r'"
  have k: "json_kind v = json_kind v'" using same_kind [OF e wf] .
  show "v = v' \<and> r = r'"
  proof (cases v rule: json_kind.cases)
    case (6 t)
    with k obtain t' where v': "v' = JString t'" by (cases v' rule: json_kind.cases) (auto split: if_splits)
    show ?thesis using encode_text_inj [of t r t' r'] e wf
      by (simp add: v' 6 encode_value.simps split: if_splits)
  next
    case 1
    with k have "v' = JNull" by (cases v' rule: json_kind.cases) (auto split: if_splits)
    with e 1 show ?thesis by (simp add: encode_value.simps split: if_splits)
  next
    case (2 b)
    with k have "v' = JBool b" by (cases v' rule: json_kind.cases) (auto split: if_splits)
    with e 2 show ?thesis by (auto simp: encode_value.simps split: if_splits)
  next
    case (3 n)
    with k obtain n' where v': "v' = JNumber n'" by (cases v' rule: json_kind.cases) (auto split: if_splits)
    show ?thesis using encode_number_inj [OF _ _ e(3)] e k wf
      by (simp add: v' 3 encode_value.simps split: if_splits)
  next
    case (4 n)
    with k obtain n' where v': "v' = JNumber n'" by (cases v' rule: json_kind.cases) (auto split: if_splits)
    show ?thesis using encode_number_inj [OF _ _ e(3)] e k wf
      by (simp add: v' 4 encode_value.simps split: if_splits)
  next
    case (5 n)
    with k obtain n' where v': "v' = JNumber n'" by (cases v' rule: json_kind.cases) (auto split: if_splits)
    show ?thesis using encode_number_inj [OF _ _ e(3)] e k wf
      by (simp add: v' 5 encode_value.simps split: if_splits)
  qed (use assms in auto)
qed

lemma all_unique_prefix: "unique_prefix v"
proof (induction v)
  case (JArray items)
  then show ?case by (rule array_unique_prefix)
next
  case (JObject m)
  then show ?case by (intro object_unique_prefix) (fastforce simp: snds.simps)
qed (rule scalar_unique_prefix; simp)+

section \<open>When encoding succeeds\<close>

fun nesting :: "json \<Rightarrow> nat" where
  "nesting JNull = 0"
| "nesting (JBool b) = 0"
| "nesting (JNumber n) = 0"
| "nesting (JString t) = 0"
| "nesting (JArray items) = foldr max (map (\<lambda>v. Suc (nesting v)) items) 0"
| "nesting (JObject m) = foldr max (map (\<lambda>(k, v). Suc (nesting v)) m) 0"

fun floats_finite :: "json \<Rightarrow> bool" where
  "floats_finite (JNumber (Float f)) = f64_finite f"
| "floats_finite (JArray items) = (\<forall>v \<in> set items. floats_finite v)"
| "floats_finite (JObject m) = (\<forall>(k, v) \<in> set m. floats_finite v)"
| "floats_finite _ = True"

lemma foldr_max_le: "foldr max xs 0 \<le> (n :: nat) \<longleftrightarrow> (\<forall>x \<in> set xs. x \<le> n)"
  by (induction xs) auto

lemma foldr_max_add_le:
  "d \<le> n \<Longrightarrow> d + foldr max (map (\<lambda>v. Suc (f v)) xs) 0 \<le> (n :: nat) \<longleftrightarrow> (\<forall>v \<in> set xs. Suc d + f v \<le> n)"
  using foldr_max_le [of "map (\<lambda>v. Suc (f v)) xs" "n - d"] by (auto simp: le_diff_conv2 add.commute)

lemma foldr_max_add_le2:
  "d \<le> n \<Longrightarrow> d + foldr max (map (\<lambda>(k, v). Suc (f v)) xs) 0 \<le> (n :: nat) \<longleftrightarrow> (\<forall>(k, v) \<in> set xs. Suc d + f v \<le> n)"
  using foldr_max_add_le [of d n "\<lambda>kv. f (snd kv)" xs] by (auto simp: case_prod_unfold)

lemma encode_ok:
  "is_ok (encode_value out v d) \<longleftrightarrow> d + nesting v \<le> MAX_CBOR_DEPTH \<and> floats_finite v"
  "is_ok (encode_items out vs d) \<longleftrightarrow> (\<forall>v \<in> set vs. d + nesting v \<le> MAX_CBOR_DEPTH \<and> floats_finite v)"
  "is_ok (encode_entries out m d) \<longleftrightarrow> (\<forall>(k, v) \<in> set m. d + nesting v \<le> MAX_CBOR_DEPTH \<and> floats_finite v)"
proof (induction out v d and out vs d and out m d rule: encode_value_encode_items_encode_entries.induct)
  case (1 out v depth)
  show ?case
  proof (cases "depth \<le> MAX_CBOR_DEPTH")
    case True
    then show ?thesis using 1
      by (cases v rule: floats_finite.cases)
        (auto simp: encode_value.simps encode_number_def foldr_max_add_le foldr_max_add_le2)
  qed (simp add: encode_value.simps)
next
  case (3 out v vs depth)
  then show ?case by (auto simp: is_ok_rbind) (auto simp: is_ok_iff)
next
  case (5 out k v m depth)
  then show ?case by (auto simp: is_ok_rbind) (auto simp: is_ok_iff)
qed auto

section \<open>What the decoder accepts\<close>

lemma take_len_shrinks: "take_len first rest = Inr (len, rest') \<Longrightarrow> length rest' \<le> length rest"
  by (auto simp: take_len_def Let_def split: if_splits list.splits option.splits dest!: split_bytes_SomeD)

lemma decode_negative_wf:
  assumes "decode_negative n = Inr v"
  shows "number_wf v \<and> floats_finite (JNumber v)"
proof (cases "n = 0")
  case True
  with assms show ?thesis by (auto simp: decode_negative_def)
next
  case False
  then have "0 < uint n" by (metis uint_0_iff uint_lt_0 linorder_neqE_linordered_idom)
  with assms show ?thesis by (auto simp: decode_negative_def Let_def split: if_splits)
qed

lemma unat_u64_bound: "unat (n :: u64) < 2 ^ 64"
  using unsigned_less [of n, where 'a = nat] by simp

lemma from_utf8_ok: "from_utf8 raw = Some t \<Longrightarrow> length raw < 2 ^ 64 \<Longrightarrow> text_ok t"
  by (auto simp: text_ok_def dest: from_utf8_SomeD)

text \<open>What a decoded value satisfies at nesting depth \<open>d\<close>.\<close>

definition decoded_ok :: "nat \<Rightarrow> json \<Rightarrow> bool" where
  "decoded_ok d v \<longleftrightarrow> json_wf v \<and> floats_finite v \<and> d + nesting v \<le> MAX_CBOR_DEPTH"

lemma decoded_array:
  "d \<le> MAX_CBOR_DEPTH \<Longrightarrow> length items < 2 ^ 64 \<Longrightarrow> \<forall>v \<in> set items. decoded_ok (d + 1) v \<Longrightarrow>
    decoded_ok d (JArray items)"
  by (auto simp: decoded_ok_def foldr_max_add_le)

lemma decoded_object:
  "d \<le> MAX_CBOR_DEPTH \<Longrightarrow> length m < 2 ^ 64 \<Longrightarrow> bt_wf m \<Longrightarrow> \<forall>(k, v) \<in> set m. text_ok k \<and> decoded_ok (d + 1) v \<Longrightarrow>
    decoded_ok d (JObject m)"
  by (auto simp: decoded_ok_def foldr_max_add_le2)

lemma decoded_scalar:
  "d \<le> MAX_CBOR_DEPTH \<Longrightarrow> decoded_ok d JNull" "d \<le> MAX_CBOR_DEPTH \<Longrightarrow> decoded_ok d (JBool b)"
  "d \<le> MAX_CBOR_DEPTH \<Longrightarrow> text_ok t \<Longrightarrow> decoded_ok d (JString t)"
  "d \<le> MAX_CBOR_DEPTH \<Longrightarrow> number_wf n \<and> floats_finite (JNumber n) \<Longrightarrow> decoded_ok d (JNumber n)"
  by (auto simp: decoded_ok_def)

text \<open>The last key the loop keeps is the largest key of the map so far.\<close>

definition map_ok :: "nat \<Rightarrow> string option \<Rightarrow> (string, json) btree_map \<Rightarrow> bool" where
  "map_ok d last_key m \<longleftrightarrow> bt_wf m \<and> (\<forall>(k, v) \<in> set m. text_ok k \<and> decoded_ok d v) \<and>
     (\<forall>k \<in> fst ` set m. \<exists>last. last_key = Some last \<and> k \<le> last)"

lemma map_ok_insert:
  assumes "map_ok d last_key m" "\<not> (case last_key of None \<Rightarrow> False | Some previous \<Rightarrow> key \<le> previous)"
    "text_ok key" "decoded_ok d item"
  shows "map_ok d (Some key) (bt_insert key item m) \<and> length (bt_insert key item m) = Suc (length m)"
proof -
  have "\<And>k. k \<in> fst ` set m \<Longrightarrow> k < key"
    using assms(1,2) unfolding map_ok_def by (fastforce split: option.splits)
  then have "bt_insert key item m = m @ [(key, item)]" "\<forall>k \<in> fst ` set m. k < key" by (auto intro: bt_insert_last)
  then show ?thesis using assms by (auto simp: map_ok_def bt_wf_def sorted_wrt_append intro: less_imp_le)
qed

lemma decode_valueE:
  assumes "decode_value bs d = Inr (v, r)"
  obtains (simple) b rest where "d \<le> MAX_CBOR_DEPTH" "bs = b # rest" "v = JNull \<or> v = JBool True \<or> v = JBool False" "r = rest"
  | (number) b rest n where "d \<le> MAX_CBOR_DEPTH" "bs = b # rest" "v = JNumber n" "number_wf n \<and> floats_finite (JNumber n)"
      "length r \<le> length rest"
  | (utf) b rest len rest' raw t where "d \<le> MAX_CBOR_DEPTH" "bs = b # rest" "take_len b rest = Inr (len, rest')"
      "split_bytes (unat len) rest' = Some (raw, r)" "from_utf8 raw = Some t" "v = JString t"
  | (array) b rest len rest' items where "d \<le> MAX_CBOR_DEPTH" "bs = b # rest" "take_len b rest = Inr (len, rest')"
      "decode_items (unat len) rest' (d + 1) = Inr (items, r)" "v = JArray items"
  | (object) b rest len rest' m where "d \<le> MAX_CBOR_DEPTH" "bs = b # rest" "take_len b rest = Inr (len, rest')"
      "decode_entries (unat len) rest' (d + 1) None [] = Inr (m, r)" "v = JObject m"
proof -
  obtain b rest where bs: "bs = b # rest" and d: "d \<le> MAX_CBOR_DEPTH"
    using assms by (cases bs) (auto simp: decode_value.simps split: if_splits)
  consider "b = 0xf4 \<or> b = 0xf5 \<or> b = 0xf6" | "b = 0xfb"
    | "b \<noteq> 0xf4" "b \<noteq> 0xf5" "b \<noteq> 0xf6" "b \<noteq> 0xfb" by blast
  then show thesis
  proof cases
    case 1
    with assms bs d show ?thesis
      by (intro simple [OF d bs]) (auto simp: decode_value.simps)
  next
    case 2
    with assms bs d obtain f where "v = JNumber (Float f)" "f64_finite f" "length r \<le> length rest"
      by (auto simp: decode_value.simps Let_def dest!: split_bytes_SomeD split: option.splits if_splits)
    then show ?thesis by (intro number [OF d bs]) auto
  next
    case 3
    then have e: "decode_value bs d = (if drop_bit 5 b = 0 then
            rbind (take_len b rest) (\<lambda>(len, rest'). Inr (JNumber (PosInt len), rest'))
          else if drop_bit 5 b = 1 then
            rbind (take_len b rest) (\<lambda>(n, rest').
              rbind (decode_negative n) (\<lambda>value. Inr (JNumber value, rest')))
          else if drop_bit 5 b = 3 then
            rbind (take_len b rest) (\<lambda>(len, rest').
              (case split_bytes (unat len) rest' of
                 None \<Rightarrow> Inl (CoreCbor ''truncated CBOR text'')
               | Some (raw, rest'') \<Rightarrow>
                   (case from_utf8 raw of
                      None \<Rightarrow> Inl (CoreCbor ''CBOR text is not UTF-8'')
                    | Some text \<Rightarrow> Inr (JString text, rest''))))
          else if drop_bit 5 b = 4 then
            rbind (take_len b rest) (\<lambda>(len, rest').
              rbind (decode_items (unat len) rest' (d + 1)) (\<lambda>(items, rest'').
                Inr (JArray items, rest'')))
          else if drop_bit 5 b = 5 then
            rbind (take_len b rest) (\<lambda>(len, rest').
              rbind (decode_entries (unat len) rest' (d + 1) None []) (\<lambda>(m, rest'').
                Inr (JObject m, rest'')))
          else Inl (CoreCbor ''unsupported CBOR type''))"
      using d by (simp add: bs decode_value.simps)
    obtain len rest' where l: "take_len b rest = Inr (len, rest')"
      using assms unfolding e by (auto simp: rbind_Inr_iff split: if_split_asm)
    show ?thesis
    proof (cases "drop_bit 5 b = 3")
      case True
      then show ?thesis using assms unfolding e l
        by (auto split: option.split_asm prod.split_asm intro: utf [OF d bs l])
    next
      case False
      then show ?thesis using assms take_len_shrinks [OF l] unfolding e l
        by (auto simp: rbind_Inr_iff split: if_split_asm intro: number [OF d bs] array [OF d bs l] object [OF d bs l]
          dest: decode_negative_wf)
    qed
  qed
qed

definition value_ok_at :: "nat \<Rightarrow> bool" where
  "value_ok_at d \<longleftrightarrow> (\<forall>bs v r. decode_value bs d = Inr (v, r) \<longrightarrow> decoded_ok d v \<and> length r < length bs)"

lemma value_ok_atD:
  "value_ok_at d \<Longrightarrow> decode_value bs d = Inr (v, r) \<Longrightarrow> decoded_ok d v \<and> length r < length bs"
  by (simp add: value_ok_at_def)

lemma decode_items_ok:
  assumes "value_ok_at d" "decode_items n bs d = Inr (vs, r)"
  shows "length vs = n \<and> (\<forall>v \<in> set vs. decoded_ok d v) \<and> length r \<le> length bs"
  using assms(2)
proof (induction n arbitrary: bs vs)
  case (Suc n)
  then obtain v bs1 vs1 where *: "decode_value bs d = Inr (v, bs1)" "decode_items n bs1 d = Inr (vs1, r)" "vs = v # vs1"
    by (auto simp: rbind_Inr_iff)
  with Suc.IH [OF *(2)] value_ok_atD [OF assms(1) *(1)] show ?case by auto
qed auto

lemma decode_entries_ok:
  assumes "value_ok_at d" "decode_entries n bs d last_key m = Inr (m', r)" "map_ok d last_key m"
  shows "length m' = n + length m \<and> (\<exists>l. map_ok d l m') \<and> length r \<le> length bs"
  using assms(2,3)
proof (induction n arbitrary: bs last_key m)
  case (Suc n)
  then obtain kv bs1 where kv: "decode_value bs d = Inr (kv, bs1)" by (auto simp: rbind_Inr_iff)
  with Suc.prems(1) obtain key item bs2 where *: "decode_value bs d = Inr (JString key, bs1)"
      "\<not> (case last_key of None \<Rightarrow> False | Some previous \<Rightarrow> key \<le> previous)"
      "decode_value bs1 d = Inr (item, bs2)" "decode_entries n bs2 d (Some key) (bt_insert key item m) = Inr (m', r)"
    by (cases kv) (auto simp: rbind_Inr_iff split: if_split_asm)
  have "text_ok key" using value_ok_atD [OF assms(1) *(1)] by (simp add: decoded_ok_def)
  with map_ok_insert [OF Suc.prems(2) *(2)] value_ok_atD [OF assms(1) *(3)]
  have m: "map_ok d (Some key) (bt_insert key item m)" "length (bt_insert key item m) = Suc (length m)" by auto
  from Suc.IH [OF *(4) m(1)] m(2) value_ok_atD [OF assms(1) *(1)] value_ok_atD [OF assms(1) *(3)]
  show ?case by auto
qed auto

lemma decode_value_ok_step:
  assumes "d \<le> MAX_CBOR_DEPTH \<Longrightarrow> value_ok_at (d + 1)" "decode_value bs d = Inr (v, r)"
  shows "decoded_ok d v \<and> length r < length bs"
  using assms(2)
proof (cases rule: decode_valueE)
  case (utf b rest len rest' raw t)
  have "length raw = unat len" "rest' = raw @ r" using utf(4) by (auto dest: split_bytes_SomeD)
  then have "text_ok t" using utf(5) unat_u64_bound [of len] by (auto intro: from_utf8_ok)
  then show ?thesis using utf \<open>rest' = raw @ r\<close> take_len_shrinks [OF utf(3)] by (auto intro: decoded_scalar)
next
  case (array b rest len rest' items)
  with decode_items_ok [OF assms(1) array(4)] unat_u64_bound [of len] take_len_shrinks [OF array(3)]
  show ?thesis by (auto intro!: decoded_array)
next
  case (object b rest len rest' m)
  have "map_ok (d + 1) None []" by (simp add: map_ok_def)
  from decode_entries_ok [OF assms(1) object(4) this] object(1)
  have m: "length m = unat len" "bt_wf m" "\<forall>(k, v) \<in> set m. text_ok k \<and> decoded_ok (d + 1) v" "length r \<le> length rest'"
    by (auto simp: map_ok_def)
  then show ?thesis using unat_u64_bound [of len] take_len_shrinks [OF object(3)] object(1,2,5)
    by (auto intro!: decoded_object)
qed (auto intro: decoded_scalar)

lemma value_ok: "value_ok_at d"
proof (induction "17 - d" arbitrary: d rule: less_induct)
  case less
  have "d \<le> MAX_CBOR_DEPTH \<Longrightarrow> value_ok_at (d + 1)"
    by (rule less) (simp add: MAX_CBOR_DEPTH_def)
  then show ?case using decode_value_ok_step unfolding value_ok_at_def by blast
qed

section \<open>Properties\<close>

lemma encode_canonical_iff:
  "encode_canonical_cbor to_value x = Inr bs \<longleftrightarrow>
    (\<exists>tree. to_value x = Inr tree \<and> encode_value [] tree 0 = Inr bs \<and> length bs \<le> MAX_FRAME_BYTES)"
  by (cases "to_value x"; cases "encode_value [] (projr (to_value x)) 0") (auto simp: encode_canonical_cbor_def)

text \<open>(C33) The canonical encoding is injective: two values whose JSON trees are as \<open>serde_json\<close> holds
  them get the same bytes exactly when the trees are equal, negative integers and floats included.
  Every digest and signature preimage of the protocol crates is such an encoding.\<close>

theorem encode_canonical_cbor_injective:
  assumes "to_value x = Inr t" "to_value y = Inr u" "json_wf t" "json_wf u"
    and "encode_canonical_cbor to_value x = Inr bs"
  shows "encode_canonical_cbor to_value y = Inr bs \<longleftrightarrow> t = u"
proof -
  have t: "encode_value [] t 0 = Inr bs" "length bs \<le> MAX_FRAME_BYTES"
    using assms by (auto simp: encode_canonical_iff)
  have "encode_value [] u 0 = Inr bs \<Longrightarrow> t = u"
    using unique_prefixD [OF all_unique_prefix assms(3,4) t(1), of bs "[]" "[]"] by simp
  with t assms(2) show ?thesis by (auto simp: encode_canonical_iff)
qed

theorem encode_canonical_cbor_injective_witness:
  "encode_canonical_cbor Inr (JNumber (PosInt 5)) \<noteq> Inr [0x24]"
proof -
  have "encode_canonical_cbor Inr (JNumber (NegInt (-5))) = Inr [0x24]"
    by (simp add: encode_canonical_iff encode_value.simps encode_number_def encode_len_def MAX_FRAME_BYTES_def)
  from encode_canonical_cbor_injective [OF _ _ _ _ this, of "JNumber (NegInt (-5))" "JNumber (PosInt 5)" "JNumber (PosInt 5)"]
  show ?thesis by simp
qed

text \<open>(C34) Decoding an encoding gives the value back, whenever the value's negative integers are -1
  and its floats are finite (\<open>canonical\<close>).\<close>

theorem cbor_roundtrip:
  assumes "canonical v" "encode_canonical_cbor Inr v = Inr bs"
  shows "decode_to_json bs = Inr v"
  using assms decode_encode [of v 0 bs "[]"] by (simp add: encode_canonical_iff decode_to_json_def)

lemma be_bytes_2: "be_bytes 2 v = [of_nat (v div 256 mod 256), of_nat (v mod 256)]"
  by (simp add: numeral_2_eq_2)

definition cbor_sample :: json where
  "cbor_sample = JObject [(''a'', JArray [JNumber (PosInt 500), JNull]), (''b'', JString ''xy'')]"

theorem cbor_roundtrip_witness:
  "decode_to_json [0xa2, 0x61, 0x61, 0x82, 0x19, 1, 0xf4, 0xf6, 0x61, 0x62, 0x62, 0x78, 0x79] = Inr cbor_sample"
proof (rule cbor_roundtrip)
  show "canonical cbor_sample"
    by (simp add: cbor_sample_def text_ok_def utf8_def as_bytes_def in_range_def bt_wf_def)
  have "encode_value [] cbor_sample 0 = Inr [0xa2, 0x61, 0x61, 0x82, 0x19, 1, 0xf4, 0xf6, 0x61, 0x62, 0x62, 0x78, 0x79]"
    by (simp add: cbor_sample_def encode_value.simps encode_number_def encode_len_def encode_text_def as_bytes_def MAX_CBOR_DEPTH_def
      be_bytes_2)
  then show "encode_canonical_cbor Inr cbor_sample = Inr [0xa2, 0x61, 0x61, 0x82, 0x19, 1, 0xf4, 0xf6, 0x61, 0x62, 0x62, 0x78, 0x79]"
    by (simp add: encode_canonical_iff MAX_FRAME_BYTES_def)
qed

text \<open>Encoding at depth \<open>d\<close> succeeds exactly when the value nests at most to the depth bound and
  all its floats are finite.\<close>

theorem encode_value_ok_iff:
  "is_ok (encode_value out v d) \<longleftrightarrow> d + nesting v \<le> MAX_CBOR_DEPTH \<and> floats_finite v"
  by (rule encode_ok(1))

text \<open>Whatever bytes the decoder accepts, the value is well formed (sorted keys, UTF-8 text,
  finite floats), nests within the depth bound, can be encoded again, and at least one byte was
  consumed.\<close>

theorem decode_value_sound:
  assumes "decode_value bs d = Inr (v, rest)"
  shows "json_wf v \<and> floats_finite v \<and> d + nesting v \<le> MAX_CBOR_DEPTH \<and> length rest < length bs \<and>
    is_ok (encode_value [] v d)"
  using value_ok_atD [OF value_ok assms] by (simp add: decoded_ok_def encode_ok)

theorem decode_value_sound_witness:
  "json_wf (JArray [JNull]) \<and> floats_finite (JArray [JNull]) \<and> 15 + nesting (JArray [JNull]) \<le> MAX_CBOR_DEPTH \<and>
     length [7 :: byte] < length [0x81, 0xf6, 7 :: byte] \<and> is_ok (encode_value [] (JArray [JNull]) 15)"
  by (rule decode_value_sound) (simp add: decode_value.simps take_len_def MAX_CBOR_DEPTH_def)

text \<open>A negative integer other than -1 does not survive the round trip: \<open>v\<close> is encoded, and its
  encoding decodes to the non-negative integer \<open>|v| - 2\<close>.\<close>

theorem decode_negative_wrong:
  assumes "sint v < -1"
  shows "\<exists>bs. encode_canonical_cbor Inr (JNumber (NegInt v)) = Inr bs
    \<and> decode_to_json bs = Inr (JNumber (PosInt (of_int (\<bar>sint v\<bar> - 2))))"
proof (intro exI conjI)
  let ?n = "of_int \<bar>sint v\<bar> - 1 :: u64"
  have range: "- (2 ^ 63) \<le> sint v" using sint_ge [of v] by simp
  have "uint ?n = \<bar>sint v\<bar> - 1"
  proof -
    have "?n = of_int (\<bar>sint v\<bar> - 1)" by simp
    then have "uint ?n = (\<bar>sint v\<bar> - 1) mod 2 ^ 64" by (simp only: uint_word_of_int) simp
    also have "\<dots> = \<bar>sint v\<bar> - 1" using range assms by (intro mod_pos_pos_trivial) auto
    finally show ?thesis .
  qed
  then have "decode_negative ?n = Inr (PosInt (of_int (\<bar>sint v\<bar> - 2)))"
    using range assms by (simp add: decode_negative_def word_less_def Let_def)
  then show "decode_to_json (head_byte 1 ?n # tail_of ?n) = Inr (JNumber (PosInt (of_int (\<bar>sint v\<bar> - 2))))"
    using decode_heads(2) [of 0 ?n "[]"] by (simp add: decode_to_json_def)
  show "encode_canonical_cbor Inr (JNumber (NegInt v)) = Inr (head_byte 1 ?n # tail_of ?n)"
    using assms by (simp add: encode_canonical_iff encode_value.simps encode_number_def encode_len_eq tail_of_def MAX_FRAME_BYTES_def)
qed

theorem decode_negative_wrong_witness:
  "\<exists>bs. encode_canonical_cbor Inr (JNumber (NegInt (-5))) = Inr bs \<and> decode_to_json bs = Inr (JNumber (PosInt 3))"
  using decode_negative_wrong [of "-5"] by simp

text \<open>The decoder accepts a second encoding of every integer below 24, with a length byte that the
  encoder never writes.\<close>

theorem decode_nonminimal:
  assumes "n < 24"
  shows "decode_to_json [0x18, n] = Inr (JNumber (PosInt (ucast n))) \<and>
    encode_canonical_cbor Inr (JNumber (PosInt (ucast n))) = Inr [n]"
proof -
  have u: "(ucast n :: u64) < 24" "ucast (ucast n :: u64) = n"
    using assms by (simp_all add: word_less_nat_alt unsigned_ucast_eq take_bit_nat_eq_self take_bit_word_eq_self)
  show ?thesis using u
    by (simp add: encode_canonical_iff encode_value.simps encode_number_def encode_len_def MAX_FRAME_BYTES_def
        decode_to_json_def decode_value.simps take_len_def)
qed

theorem decode_nonminimal_witness:
  "decode_to_json [0x18, 5] = Inr (JNumber (PosInt 5)) \<and> encode_canonical_cbor Inr (JNumber (PosInt 5)) = Inr [5]"
  using decode_nonminimal [of 5] by simp

end
