(* ===== verification/Model.thy ===== *)
theory Model
  imports Core
begin

text \<open>
  The shared data model of the recovery pipeline (\<open>src/model.rs\<close>): errors and refusal codes, the
  bounded finite-state grammar with its validator, transitions, candidates and the content of an
  evidence fragment. A Rust panic (an index out of range, an overflow of checked arithmetic) is the
  extra error constructor \<open>Panicked\<close>, which no code of the repository constructs; the components
  prove where it cannot occur.
\<close>

section \<open>Errors\<close>

datatype Error =
    InvalidRegistry string
  | InvalidEvidence string
  | InsufficientEvidence string
  | ContradictoryEvidence string
  | ArtifactPresent string
  | SearchExhausted string
  | CheckerRejected string
  | ExternalStateUncertain string
  | Io string
  | Json string
  | Panicked string

datatype RefusalCode =
    RInvalidRegistry | RInvalidEvidence | RInsufficientEvidence | RContradictoryEvidence
  | RArtifactPresent | RSearchExhausted | RCheckerRejected | RInternalError

text \<open>A panic does not reach \<open>refusal_code\<close> or \<open>to_string\<close>; the last equations only make them total.\<close>

fun refusal_code :: "Error \<Rightarrow> RefusalCode" where
  "refusal_code (InvalidRegistry _) = RInvalidRegistry"
| "refusal_code (Io _) = RInvalidRegistry"
| "refusal_code (Json _) = RInvalidRegistry"
| "refusal_code (ExternalStateUncertain _) = RInvalidRegistry"
| "refusal_code (InvalidEvidence _) = RInvalidEvidence"
| "refusal_code (InsufficientEvidence _) = RInsufficientEvidence"
| "refusal_code (ContradictoryEvidence _) = RContradictoryEvidence"
| "refusal_code (ArtifactPresent _) = RArtifactPresent"
| "refusal_code (SearchExhausted _) = RSearchExhausted"
| "refusal_code (CheckerRejected _) = RCheckerRejected"
| "refusal_code (Panicked _) = RInternalError"

fun error_to_string :: "Error \<Rightarrow> string" where
  "error_to_string (InvalidRegistry message) = message"
| "error_to_string (InvalidEvidence message) = message"
| "error_to_string (InsufficientEvidence message) = message"
| "error_to_string (ContradictoryEvidence message) = message"
| "error_to_string (ArtifactPresent message) = message"
| "error_to_string (SearchExhausted message) = message"
| "error_to_string (CheckerRejected message) = message"
| "error_to_string (ExternalStateUncertain message) = message"
| "error_to_string (Io error) = ''I/O error: '' @ error"
| "error_to_string (Json error) = ''JSON error: '' @ error"
| "error_to_string (Panicked message) = message"

section \<open>The grammar\<close>

record Grammar =
  gr_version :: string
  gr_inputs :: "string list"
  gr_outputs :: "string list"
  gr_states :: "string list"
  gr_initial_state :: string
  gr_max_candidates :: u64

definition validate_symbols :: "string \<Rightarrow> string list \<Rightarrow> (Error, unit) result" where
  "validate_symbols name values =
     (if values = [] \<or> [] \<in> set values
      then Inl (InvalidRegistry (name @ '' must contain non-empty symbols''))
      else if length (remdups values) \<noteq> length values
      then Inl (InvalidRegistry (name @ '' contains duplicate symbols''))
      else if \<exists>value \<in> set values. length value > 256
      then Inl (InvalidRegistry (name @ '' contains a symbol longer than 256 bytes''))
      else Inr ())"

definition grammar_validate :: "Grammar \<Rightarrow> (Error, unit) result" where
  "grammar_validate g =
     rbind (validate_symbols ''inputs'' (gr_inputs g)) (\<lambda>_.
     rbind (validate_symbols ''outputs'' (gr_outputs g)) (\<lambda>_.
     rbind (validate_symbols ''states'' (gr_states g)) (\<lambda>_.
       if length (gr_inputs g) > 64 \<or> length (gr_outputs g) > 64 \<or> length (gr_states g) > 64
       then Inl (InvalidRegistry ''grammar symbol domains exceed the fsm-v1 maximum of 64'')
       else let cells = length (gr_states g) * length (gr_inputs g) in
         if cells \<ge> 2 ^ 64 then Inl (InvalidRegistry ''grammar cell count overflow'')
         else if cells > 256 then Inl (InvalidRegistry ''grammar transition table exceeds 256 cells'')
         else if gr_version g = [] then Inl (InvalidRegistry ''grammar version is empty'')
         else if gr_initial_state g \<notin> set (gr_states g)
         then Inl (InvalidRegistry ''initial state is not declared'')
         else if \<not> (1 \<le> gr_max_candidates g \<and> gr_max_candidates g \<le> 1000000)
         then Inl (InvalidRegistry ''max_candidates must be between 1 and 1000000'')
         else Inr ())))"

definition symbols_ok :: "string list \<Rightarrow> bool" where
  "symbols_ok values \<longleftrightarrow> values \<noteq> [] \<and> distinct values \<and> (\<forall>v \<in> set values. v \<noteq> [] \<and> length v \<le> 256)"

definition grammar_ok :: "Grammar \<Rightarrow> bool" where
  "grammar_ok g \<longleftrightarrow>
     symbols_ok (gr_inputs g) \<and> symbols_ok (gr_outputs g) \<and> symbols_ok (gr_states g)
     \<and> length (gr_inputs g) \<le> 64 \<and> length (gr_outputs g) \<le> 64 \<and> length (gr_states g) \<le> 64
     \<and> length (gr_states g) * length (gr_inputs g) \<le> 256 \<and> gr_version g \<noteq> []
     \<and> gr_initial_state g \<in> set (gr_states g)
     \<and> 1 \<le> gr_max_candidates g \<and> gr_max_candidates g \<le> 1000000"

lemma length_remdups_distinct: "length (remdups xs) = length xs \<longleftrightarrow> distinct xs"
  by (simp add: distinct_card length_remdups_card_conv card_distinct) (metis card_distinct distinct_card)

lemma validate_symbols_iff [valid_simps]: "validate_symbols name vs = Inr u \<longleftrightarrow> symbols_ok vs"
  unfolding validate_symbols_def symbols_ok_def length_remdups_distinct by (auto simp: not_less) (auto simp: not_le)

lemma grammar_validate_iff [valid_simps]: "grammar_validate g = Inr u \<longleftrightarrow> grammar_ok g"
  by (auto simp: grammar_validate_def grammar_ok_def Let_def result_simps valid_simps)

lemma grammar_validate_registry: "grammar_validate g = Inl e \<Longrightarrow> \<exists>m. e = InvalidRegistry m"
  by (auto simp: grammar_validate_def validate_symbols_def rbind_Inl_iff Let_def split: if_splits)

section \<open>Transitions and candidates\<close>

record Transition =
  tr_state :: string
  tr_input :: string
  tr_next_state :: string
  tr_output :: string

definition transition_validate :: "Grammar \<Rightarrow> Transition \<Rightarrow> (Error, unit) result" where
  "transition_validate g t =
     (if tr_state t \<notin> set (gr_states g) \<or> tr_next_state t \<notin> set (gr_states g)
      then Inl (InvalidEvidence ''transition contains an unknown state'')
      else if tr_input t \<notin> set (gr_inputs g) \<or> tr_output t \<notin> set (gr_outputs g)
      then Inl (InvalidEvidence ''transition contains an unknown input or output'')
      else Inr ())"

definition transition_ok :: "Grammar \<Rightarrow> Transition \<Rightarrow> bool" where
  "transition_ok g t \<longleftrightarrow> tr_state t \<in> set (gr_states g) \<and> tr_next_state t \<in> set (gr_states g)
     \<and> tr_input t \<in> set (gr_inputs g) \<and> tr_output t \<in> set (gr_outputs g)"

lemma transition_validate_iff [valid_simps]: "transition_validate g t = Inr u \<longleftrightarrow> transition_ok g t"
  by (auto simp: transition_validate_def transition_ok_def)

record Candidate =
  cd_component :: string
  cd_interface_version :: string
  cd_grammar :: Grammar
  cd_transitions :: "Transition list"

section \<open>Fragment contents\<close>

datatype TraceRole = Training | HeldOut

datatype FragmentContent =
    Transition (fc_state: string) (fc_input: string) (fc_next_state: string) (fc_output: string)
  | StatePolicy "string list" string
  | Trace TraceRole string "string list" "string list"
  | NegativeCase string "string list" "string list"
  | MetamorphicProperty string string u32

fun content_transition :: "FragmentContent \<Rightarrow> Transition option" where
  "content_transition (Transition state input next_state output) =
     Some \<lparr>tr_state = state, tr_input = input, tr_next_state = next_state, tr_output = output\<rparr>"
| "content_transition _ = None"

end
