(* ===== verification/Canonical.thy ===== *)
theory Canonical
  imports Cbor Model
begin

text \<open>
  Canonical JSON (\<open>crates/anasemble-core/src/json.rs\<close>) and the wrappers of the root crate
  (\<open>src/canonical.rs\<close>). \<open>serde_json\<close>'s printer, SHA-256 and hex are parameters.
\<close>

definition encode_json :: "(json \<Rightarrow> (string, bytes) result) \<Rightarrow> 'a serialize \<Rightarrow> 'a \<Rightarrow> (CoreError, bytes) result" where
  "encode_json to_vec to_value x =
     rbind (map_err CoreJson (to_value x)) (\<lambda>canonical_tree. map_err CoreJson (to_vec canonical_tree))"

definition core_bytes_digest :: "(bytes \<Rightarrow> bytes) \<Rightarrow> (bytes \<Rightarrow> string) \<Rightarrow> bytes \<Rightarrow> string" where
  "core_bytes_digest sha hex value = hex (sha value)"

definition digest_hex :: "(bytes \<Rightarrow> bytes) \<Rightarrow> (bytes \<Rightarrow> string) \<Rightarrow> (json \<Rightarrow> (string, bytes) result) \<Rightarrow>
    'a serialize \<Rightarrow> 'a \<Rightarrow> (CoreError, string) result" where
  "digest_hex sha hex to_vec to_value x = rbind (encode_json to_vec to_value x) (\<lambda>bs. Inr (hex (sha bs)))"

fun map_core :: "CoreError \<Rightarrow> Error" where
  "map_core (CoreJson error) = Json error"
| "map_core other = InvalidEvidence (core_error_to_string other)"

definition canonical_encode :: "(json \<Rightarrow> (string, bytes) result) \<Rightarrow> 'a serialize \<Rightarrow> 'a \<Rightarrow> (Error, bytes) result" where
  "canonical_encode to_vec to_value x = map_err map_core (encode_json to_vec to_value x)"

definition canonical_digest :: "(bytes \<Rightarrow> bytes) \<Rightarrow> (bytes \<Rightarrow> string) \<Rightarrow> (json \<Rightarrow> (string, bytes) result) \<Rightarrow>
    'a serialize \<Rightarrow> 'a \<Rightarrow> (Error, string) result" where
  "canonical_digest sha hex to_vec to_value x = map_err map_core (digest_hex sha hex to_vec to_value x)"

definition bytes_digest :: "(bytes \<Rightarrow> bytes) \<Rightarrow> (bytes \<Rightarrow> string) \<Rightarrow> bytes \<Rightarrow> string" where
  "bytes_digest sha hex value = core_bytes_digest sha hex value"

lemma canonical_digest_iff [result_simps]:
  "canonical_digest sha hex to_vec to_value x = Inr d \<longleftrightarrow>
     (\<exists>bs. canonical_encode to_vec to_value x = Inr bs \<and> d = bytes_digest sha hex bs)"
  by (auto simp: canonical_digest_def canonical_encode_def digest_hex_def bytes_digest_def core_bytes_digest_def result_simps)

end
