(* ===== verification/Fragments.thy ===== *)
theory Fragments
  imports Canonical
begin

text \<open>
  Signed evidence fragments (\<open>src/fragments.rs\<close>): envelopes and their signatures, issuer policies and
  their validators, and \<open>collect_at\<close>, which admits a set of envelopes as evidence. Hashing, hex,
  HMAC, Ed25519, time parsing and the derived serializers are parameters, the fields of the records
  \<open>external\<close> and \<open>fragments_ext\<close>; a parsed time is an integer. Key files are read and written by
  \<open>read_signing_key\<close> and \<open>create_signing_key\<close>, which are file system calls around
  \<open>validate_signing_key\<close> and are not modelled.
\<close>

section \<open>Code outside the repository\<close>

record external =
  x_sha256 :: "bytes \<Rightarrow> bytes"
  x_hex_encode :: "bytes \<Rightarrow> string"
  x_hex_decode :: "string \<Rightarrow> bytes option"
  x_json_vec :: "json \<Rightarrow> (string, bytes) result"
  x_hmac :: "bytes \<Rightarrow> bytes \<Rightarrow> bytes"
  x_public_key :: "bytes \<Rightarrow> bytes"
  x_sign :: "bytes \<Rightarrow> bytes \<Rightarrow> bytes"
  x_valid_key :: "bytes \<Rightarrow> bool"
  x_verify :: "bytes \<Rightarrow> bytes \<Rightarrow> bytes \<Rightarrow> bool"
  x_strptime :: "string \<Rightarrow> int option"

section \<open>Envelopes and policies\<close>

datatype FragmentKind = ContractKind | TraceKind | StateSchemaKind | MetamorphicPropertyKind | NegativeCaseKind

record UnsignedEnvelope =
  en_kind :: FragmentKind
  en_component :: string
  en_interface_version :: string
  en_issuer :: string
  en_failure_domain :: string
  en_issued_at :: string
  en_sequence :: u64
  en_content_digest :: string
  en_dependencies :: "string list"
  en_content :: FragmentContent

record Envelope = UnsignedEnvelope +
  en_signature :: string

definition unsigned_envelope :: "Envelope \<Rightarrow> UnsignedEnvelope" where
  "unsigned_envelope e = UnsignedEnvelope.truncate e"

record fragments_ext = external +
  x_content_value :: "FragmentContent serialize"
  x_unsigned_value :: "UnsignedEnvelope serialize"

definition content_digest_of :: "'x fragments_ext_scheme \<Rightarrow> FragmentContent \<Rightarrow> (Error, string) result" where
  "content_digest_of x content =
     canonical_digest (x_sha256 x) (x_hex_encode x) (x_json_vec x) (x_content_value x) content"

definition unsigned_bytes :: "'x fragments_ext_scheme \<Rightarrow> Envelope \<Rightarrow> (Error, bytes) result" where
  "unsigned_bytes x e = canonical_encode (x_json_vec x) (x_unsigned_value x) (unsigned_envelope e)"

record LegacyHmacPolicy =
  lp_hmac_sha256_key :: string
  lp_failure_domain :: string

record Ed25519KeyPolicy =
  kp_key_id :: string
  kp_public_key :: string
  kp_not_before :: string
  kp_not_after :: string
  kp_revoked_at :: "string option"

record Ed25519IssuerPolicy =
  ip_failure_domain :: string
  ip_minimum_sequence :: u64
  ip_keys :: "Ed25519KeyPolicy list"

datatype IssuerPolicy = LegacyHmac LegacyHmacPolicy | Ed25519 Ed25519IssuerPolicy

definition policy_failure_domain :: "IssuerPolicy \<Rightarrow> string" where
  "policy_failure_domain p =
     (case p of LegacyHmac policy \<Rightarrow> lp_failure_domain policy | Ed25519 policy \<Rightarrow> ip_failure_domain policy)"

record SigningKeyFile =
  sk_version :: string
  sk_key_id :: string
  sk_secret_key_hex :: string
  sk_public_key_hex :: string
  sk_created_at :: string

record VerificationAudit =
  va_issuer :: string
  va_key_id :: string
  va_sequence :: u64
  va_content_digest :: string
  va_decision :: string

record CollectedEvidence =
  ce_envelopes :: "Envelope list"
  ce_domains :: "string list"
  ce_audit :: "VerificationAudit list"

section \<open>Validators\<close>

definition is_ascii_alphanumeric :: "char \<Rightarrow> bool" where
  "is_ascii_alphanumeric c \<longleftrightarrow>
     (let n = (of_char c :: nat) in (48 \<le> n \<and> n \<le> 57) \<or> (65 \<le> n \<and> n \<le> 90) \<or> (97 \<le> n \<and> n \<le> 122))"

definition validate_key_id :: "string \<Rightarrow> (Error, unit) result" where
  "validate_key_id value =
     (if value = [] \<or> length value > 64 \<or>
         \<not> list_all (\<lambda>c. is_ascii_alphanumeric c \<or> c \<in> set ''._-'') value
      then Inl (InvalidRegistry ''signature key id is invalid'') else Inr ())"

definition parse_time :: "'x external_scheme \<Rightarrow> string \<Rightarrow> string \<Rightarrow> (Error, int) result" where
  "parse_time x value label = ok_or (InvalidRegistry (label @ '' is invalid'')) (x_strptime x value)"

definition validate_key_policy :: "'x external_scheme \<Rightarrow> Ed25519KeyPolicy \<Rightarrow> (Error, unit) result" where
  "validate_key_policy x key =
     rbind (validate_key_id (kp_key_id key)) (\<lambda>_.
       if (case x_hex_decode x (kp_public_key key) of None \<Rightarrow> True | Some bs \<Rightarrow> length bs \<noteq> 32)
       then Inl (InvalidRegistry ''Ed25519 public key must be 32-byte hex'')
       else
     rbind (parse_time x (kp_not_before key) ''key not_before'') (\<lambda>not_before.
     rbind (parse_time x (kp_not_after key) ''key not_after'') (\<lambda>not_after.
       if not_before > not_after then Inl (InvalidRegistry ''key validity interval is inverted'')
       else (case kp_revoked_at key of
               None \<Rightarrow> Inr ()
             | Some revoked_at \<Rightarrow> rbind (parse_time x revoked_at ''key revoked_at'') (\<lambda>_. Inr ())))))"

definition validate_issuer_policy :: "'x external_scheme \<Rightarrow> IssuerPolicy \<Rightarrow> (Error, unit) result" where
  "validate_issuer_policy x policy =
     (if policy_failure_domain policy = [] then Inl (InvalidRegistry ''issuer failure domain is empty'')
      else case policy of
        LegacyHmac p \<Rightarrow>
          if (case x_hex_decode x (lp_hmac_sha256_key p) of None \<Rightarrow> True | Some key \<Rightarrow> length key \<noteq> 32)
          then Inl (InvalidRegistry ''legacy issuer requires a 32-byte hex HMAC key'') else Inr ()
      | Ed25519 p \<Rightarrow>
          if ip_keys p = [] \<or> length (ip_keys p) > 16
          then Inl (InvalidRegistry ''production issuer requires between 1 and 16 keys'')
          else rbind (fold_results (\<lambda>ids key.
                 rbind (validate_key_policy x key) (\<lambda>_.
                   if kp_key_id key \<in> ids then Inl (InvalidRegistry ''issuer key ids are duplicated'')
                   else Inr (insert (kp_key_id key) ids))) {} (ip_keys p)) (\<lambda>_. Inr ()))"

definition validate_signing_key :: "'x external_scheme \<Rightarrow> SigningKeyFile \<Rightarrow> (Error, unit) result" where
  "validate_signing_key x key =
     (if sk_version key \<noteq> ''ed25519-key-v1'' then Inl (InvalidRegistry ''signing key version is invalid'')
      else
     rbind (validate_key_id (sk_key_id key)) (\<lambda>_.
     rbind (parse_time x (sk_created_at key) ''signing key created_at'') (\<lambda>_.
     rbind (ok_or (InvalidRegistry ''signing secret is not hex'') (x_hex_decode x (sk_secret_key_hex key))) (\<lambda>secret.
       if length secret \<noteq> 32 then Inl (InvalidRegistry ''signing secret is not 32 bytes'')
       else if x_hex_encode x (x_public_key x secret) \<noteq> sk_public_key_hex key
       then Inl (InvalidRegistry ''signing public key does not match its secret'')
       else Inr ()))))"

definition secret_bytes :: "'x external_scheme \<Rightarrow> SigningKeyFile \<Rightarrow> (Error, bytes) result" where
  "secret_bytes x key =
     rbind (validate_signing_key x key) (\<lambda>_.
     rbind (ok_or (InvalidRegistry ''signing secret is not hex'') (x_hex_decode x (sk_secret_key_hex key))) (\<lambda>secret.
       if length secret = 32 then Inr secret else Inl (InvalidRegistry ''signing secret is not 32 bytes'')))"

section \<open>Signing\<close>

definition sign_fragment :: "'x fragments_ext_scheme \<Rightarrow> Envelope \<Rightarrow> bytes \<Rightarrow> (Error, Envelope) result" where
  "sign_fragment x envelope key =
     rbind (content_digest_of x (en_content envelope)) (\<lambda>d.
       let envelope = envelope\<lparr>en_content_digest := d, en_signature := []\<rparr> in
     rbind (unsigned_bytes x envelope) (\<lambda>bs.
       Inr (envelope\<lparr>en_signature := x_hex_encode x (x_hmac x key bs)\<rparr>)))"

definition sign_ed25519 :: "'x fragments_ext_scheme \<Rightarrow> Envelope \<Rightarrow> string \<Rightarrow> bytes \<Rightarrow> (Error, Envelope) result" where
  "sign_ed25519 x envelope key_id secret_key =
     rbind (validate_key_id key_id) (\<lambda>_.
     rbind (content_digest_of x (en_content envelope)) (\<lambda>d.
       let envelope = envelope\<lparr>en_content_digest := d, en_signature := []\<rparr> in
     rbind (unsigned_bytes x envelope) (\<lambda>bs.
       Inr (envelope\<lparr>en_signature := ''ed25519:'' @ key_id @ '':'' @ x_hex_encode x (x_sign x secret_key bs)\<rparr>))))"

definition sign_with_key_file :: "'x fragments_ext_scheme \<Rightarrow> Envelope \<Rightarrow> SigningKeyFile \<Rightarrow> (Error, Envelope) result" where
  "sign_with_key_file x envelope key =
     rbind (validate_signing_key x key) (\<lambda>_.
     rbind (secret_bytes x key) (\<lambda>secret. sign_ed25519 x envelope (sk_key_id key) secret))"

definition sign_detached_with_key_file :: "'x external_scheme \<Rightarrow> bytes \<Rightarrow> SigningKeyFile \<Rightarrow> (Error, string) result" where
  "sign_detached_with_key_file x payload key =
     rbind (validate_signing_key x key) (\<lambda>_.
       if payload = [] \<or> length payload > 65536
       then Inl (InvalidRegistry ''detached signing payload is empty or exceeds 64 KiB'')
       else rbind (secret_bytes x key) (\<lambda>secret. Inr (x_hex_encode x (x_sign x secret payload))))"

section \<open>Verification\<close>

definition verify_legacy :: "'x fragments_ext_scheme \<Rightarrow> Envelope \<Rightarrow> LegacyHmacPolicy \<Rightarrow> (Error, string) result" where
  "verify_legacy x envelope policy =
     rbind (ok_or (InvalidRegistry ''issuer key is not hex'') (x_hex_decode x (lp_hmac_sha256_key policy))) (\<lambda>key.
     rbind (ensure (length key = 32) (InvalidRegistry ''issuer key is not 32 bytes'')) (\<lambda>_.
     rbind (ok_or (InvalidEvidence ''fragment signature is not hex'') (x_hex_decode x (en_signature envelope))) (\<lambda>provided.
     rbind (unsigned_bytes x envelope) (\<lambda>bs.
       if x_hmac x key bs \<noteq> provided then Inl (InvalidEvidence ''fragment signature mismatch'')
       else Inr ''legacy-hmac''))))"

definition verify_ed25519 :: "'x fragments_ext_scheme \<Rightarrow> Envelope \<Rightarrow> Ed25519IssuerPolicy \<Rightarrow> int option \<Rightarrow> (Error, string) result" where
  "verify_ed25519 x envelope policy verification_time =
     (if en_sequence envelope < ip_minimum_sequence policy
      then Inl (InvalidEvidence ''fragment sequence is below the issuer replay floor'')
      else let parts = split_on CHR '':'' (en_signature envelope) in
      if parts = [] \<or> hd parts \<noteq> ''ed25519''
      then Inl (InvalidEvidence ''production issuer requires an Ed25519 signature'')
      else if length parts < 2 then Inl (InvalidEvidence ''signature key id is absent'')
      else if length parts < 3 then Inl (InvalidEvidence ''signature bytes are absent'')
      else if length parts > 3 then Inl (InvalidEvidence ''signature format is invalid'')
      else let key_id = parts ! 1; signature_hex = parts ! 2 in
     rbind (ok_or (InvalidEvidence ''signature key is not trusted'') (find (\<lambda>key. kp_key_id key = key_id) (ip_keys policy))) (\<lambda>key.
     rbind (validate_key_policy x key) (\<lambda>_.
     rbind (parse_time x (en_issued_at envelope) ''fragment issued_at'') (\<lambda>issued_at.
     rbind (parse_time x (kp_not_before key) ''key not_before'') (\<lambda>not_before.
     rbind (parse_time x (kp_not_after key) ''key not_after'') (\<lambda>not_after.
       if issued_at < not_before \<or> issued_at > not_after
       then Inl (InvalidEvidence ''fragment was signed outside the key validity interval'')
       else if (case verification_time of None \<Rightarrow> False | Some time \<Rightarrow> time < not_before \<or> time > not_after)
       then Inl (InvalidEvidence ''signature key is outside its verification validity interval'')
       else if kp_revoked_at key \<noteq> None then Inl (InvalidEvidence ''signature key is revoked'')
       else
     rbind (ok_or (InvalidRegistry ''Ed25519 public key is not hex'') (x_hex_decode x (kp_public_key key))) (\<lambda>public.
     rbind (ensure (length public = 32) (InvalidRegistry ''Ed25519 public key is not 32 bytes'')) (\<lambda>_.
     rbind (ensure (x_valid_key x public) (InvalidRegistry ''Ed25519 public key is invalid'')) (\<lambda>_.
     rbind (ok_or (InvalidEvidence ''Ed25519 signature is not hex'') (x_hex_decode x signature_hex)) (\<lambda>signature.
     rbind (ensure (length signature = 64) (InvalidEvidence ''Ed25519 signature length is invalid'')) (\<lambda>_.
     rbind (unsigned_bytes x envelope) (\<lambda>bs.
       if \<not> x_verify x public bs signature then Inl (InvalidEvidence ''fragment signature mismatch'')
       else Inr key_id))))))))))))"

definition verify_signature :: "'x fragments_ext_scheme \<Rightarrow> Envelope \<Rightarrow> IssuerPolicy \<Rightarrow> int option \<Rightarrow> (Error, string) result" where
  "verify_signature x envelope policy verification_time =
     (case policy of
        LegacyHmac p \<Rightarrow> verify_legacy x envelope p
      | Ed25519 p \<Rightarrow> verify_ed25519 x envelope p verification_time)"

section \<open>Dependency cycles\<close>

text \<open>
  \<open>visit\<close> inserts the node into the set of nodes being visited before its loop and removes it after;
  inside the loop the set is therefore the same at every iteration, and it is passed down rather than
  returned.
\<close>

type_synonym graph = "(string, string list) btree_map"

function visit :: "graph \<Rightarrow> string set \<Rightarrow> string set \<Rightarrow> string \<Rightarrow> (Error, string set) result"
  and visit_all :: "graph \<Rightarrow> string set \<Rightarrow> string set \<Rightarrow> string list \<Rightarrow> (Error, string set) result" where
  "visit graph visiting visited node =
     (if node \<in> visiting then Inl (InvalidEvidence ''fragment dependency cycle'')
      else if node \<in> visited then Inr visited
      else case bt_get graph node of
        None \<Rightarrow> Inl (Panicked ''no entry found for key'')
      | Some dependencies \<Rightarrow>
          rbind (visit_all graph (insert node visiting) visited dependencies) (\<lambda>visited'.
            Inr (insert node visited')))"
| "visit_all graph visiting visited [] = Inr visited"
| "visit_all graph visiting visited (dependency # dependencies) =
     rbind (visit graph visiting visited dependency) (\<lambda>visited'.
       visit_all graph visiting visited' dependencies)"
  by pat_completeness auto
termination
proof (relation "measures [\<lambda>c. case c of Inl (g, v, _) \<Rightarrow> card (fst ` set g - v) | Inr (g, v, _) \<Rightarrow> card (fst ` set g - v),
    \<lambda>c. case c of Inl _ \<Rightarrow> 0 | Inr (_, _, _, ds) \<Rightarrow> length ds + 1]")
  fix graph :: graph and visiting visited :: "string set" and node and ds
  assume "node \<notin> visiting" "bt_get graph node = Some ds"
  then have "node \<in> fst ` set graph - visiting" by (force dest: map_of_SomeD)
  then have "card (fst ` set graph - insert node visiting) < card (fst ` set graph - visiting)"
    by (intro psubset_card_mono) auto
  then show "(Inr (graph, insert node visiting, visited, ds), Inl (graph, visiting, visited, node)) \<in> measures [\<lambda>c. case c of Inl (g, v, _) \<Rightarrow> card (fst ` set g - v) | Inr (g, v, _) \<Rightarrow> card (fst ` set g - v),
    \<lambda>c. case c of Inl _ \<Rightarrow> 0 | Inr (_, _, _, ds) \<Rightarrow> length ds + 1]" by simp
qed auto

declare visit.simps [simp del]

definition reject_cycles :: "graph \<Rightarrow> (Error, unit) result" where
  "reject_cycles graph = rbind (visit_all graph {} {} (map fst graph)) (\<lambda>_. Inr ())"

section \<open>Collection\<close>

fun kind_matches_content :: "FragmentKind \<Rightarrow> FragmentContent \<Rightarrow> bool" where
  "kind_matches_content ContractKind (Transition _ _ _ _) = True"
| "kind_matches_content TraceKind (Trace _ _ _ _) = True"
| "kind_matches_content StateSchemaKind (StatePolicy _ _) = True"
| "kind_matches_content NegativeCaseKind (NegativeCase _ _ _) = True"
| "kind_matches_content MetamorphicPropertyKind (MetamorphicProperty _ _ _) = True"
| "kind_matches_content _ _ = False"

record Collecting =
  co_identities :: "(string \<times> u64) set"
  co_content_digests :: "string set"
  co_domains :: "string set"
  co_audit :: "VerificationAudit list"

definition collect_one :: "'x fragments_ext_scheme \<Rightarrow> (string, IssuerPolicy) btree_map \<Rightarrow> string \<Rightarrow> string \<Rightarrow> int option \<Rightarrow>
    Collecting \<Rightarrow> Envelope \<Rightarrow> (Error, Collecting) result" where
  "collect_one x trusted component interface_version verification_time st envelope =
     (if \<not> kind_matches_content (en_kind envelope) (en_content envelope)
      then Inl (InvalidEvidence ''fragment kind does not match its M0 content schema'')
      else if en_component envelope \<noteq> component \<or> en_interface_version envelope \<noteq> interface_version
      then Inl (InvalidEvidence ''fragment targets another component or interface'')
      else
     rbind (ok_or (InvalidEvidence ''issued_at is not canonical RFC3339'') (x_strptime x (en_issued_at envelope))) (\<lambda>_.
     rbind (ok_or (InvalidEvidence ''fragment issuer is not trusted'') (bt_get trusted (en_issuer envelope))) (\<lambda>policy.
       if en_failure_domain envelope \<noteq> policy_failure_domain policy
       then Inl (InvalidEvidence ''fragment failure domain violates issuer policy'')
       else
     rbind (content_digest_of x (en_content envelope)) (\<lambda>d.
       if d \<noteq> en_content_digest envelope then Inl (InvalidEvidence ''fragment content digest mismatch'')
       else
     rbind (verify_signature x envelope policy verification_time) (\<lambda>key_id.
       if (en_issuer envelope, en_sequence envelope) \<in> co_identities st
       then Inl (InvalidEvidence ''fragment issuer equivocation or replay'')
       else if en_content_digest envelope \<in> co_content_digests st
       then Inl (InvalidEvidence ''duplicate fragment content digest'')
       else Inr \<lparr>co_identities = insert (en_issuer envelope, en_sequence envelope) (co_identities st),
         co_content_digests = insert (en_content_digest envelope) (co_content_digests st),
         co_domains = insert (en_failure_domain envelope) (co_domains st),
         co_audit = co_audit st @ [\<lparr>va_issuer = en_issuer envelope, va_key_id = key_id,
           va_sequence = en_sequence envelope, va_content_digest = en_content_digest envelope,
           va_decision = ''accepted''\<rparr>]\<rparr>)))))"

definition dependency_graph :: "Envelope list \<Rightarrow> graph" where
  "dependency_graph envelopes = bt_collect (map (\<lambda>e. (en_content_digest e, en_dependencies e)) envelopes)"

definition collect_at :: "'x fragments_ext_scheme \<Rightarrow> Envelope list \<Rightarrow> (string, IssuerPolicy) btree_map \<Rightarrow> nat \<Rightarrow> string \<Rightarrow> string \<Rightarrow>
    string option \<Rightarrow> (Error, CollectedEvidence) result" where
  "collect_at x envelopes trusted required_domains component interface_version verification_time =
     rbind (case verification_time of None \<Rightarrow> Inr None
            | Some value \<Rightarrow> rbind (parse_time x value ''verification_time'') (\<lambda>t. Inr (Some t))) (\<lambda>time.
     rbind (fold_results (collect_one x trusted component interface_version time)
        \<lparr>co_identities = {}, co_content_digests = {}, co_domains = {}, co_audit = []\<rparr> envelopes) (\<lambda>st.
       let graph = dependency_graph envelopes in
       if \<exists>(_, dependencies) \<in> set graph. \<exists>item \<in> set dependencies. bt_get graph item = None
       then Inl (InvalidEvidence ''fragment dependency is unavailable'')
       else
     rbind (reject_cycles graph) (\<lambda>_.
       if card (co_domains st) < required_domains
       then Inl (InsufficientEvidence ''insufficient independent failure domains'')
       else if \<not> (\<exists>e \<in> set envelopes. en_kind e = ContractKind) \<or> \<not> (\<exists>e \<in> set envelopes. en_kind e = StateSchemaKind)
       then Inl (InsufficientEvidence ''contract and state schema fragments are mandatory'')
       else Inr \<lparr>ce_envelopes = sort_key (\<lambda>e. (en_issuer e, en_sequence e, en_content_digest e)) envelopes,
         ce_domains = sorted_list_of_set (co_domains st), ce_audit = co_audit st\<rparr>)))"

definition collect :: "'x fragments_ext_scheme \<Rightarrow> Envelope list \<Rightarrow> (string, IssuerPolicy) btree_map \<Rightarrow> nat \<Rightarrow> string \<Rightarrow> string \<Rightarrow>
    (Error, CollectedEvidence) result" where
  "collect x envelopes trusted required_domains component interface_version =
     collect_at x envelopes trusted required_domains component interface_version None"


section \<open>The cycle check is exact\<close>

definition edges :: "graph \<Rightarrow> (string \<times> string) set" where
  "edges graph = {(a, b). \<exists>ds. bt_get graph a = Some ds \<and> b \<in> set ds}"

definition closed_graph :: "graph \<Rightarrow> bool" where
  "closed_graph graph \<longleftrightarrow> (\<forall>(_, ds) \<in> set graph. \<forall>d \<in> set ds. bt_get graph d \<noteq> None)"

text \<open>A finished set: closed under dependencies and free of cycles.\<close>

definition finished :: "graph \<Rightarrow> string set \<Rightarrow> bool" where
  "finished graph V \<longleftrightarrow> (\<forall>a b. a \<in> V \<longrightarrow> (a, b) \<in> edges graph \<longrightarrow> b \<in> V) \<and> (\<forall>a \<in> V. (a, a) \<notin> (edges graph)\<^sup>+)"

lemma finished_reach:
  assumes "finished graph V" "(a, b) \<in> (edges graph)\<^sup>*" "a \<in> V"
  shows "b \<in> V"
  using assms(2,3) by (induction rule: rtrancl_induct) (use assms(1) in \<open>auto simp: finished_def\<close>)

lemma finished_insert:
  assumes "finished graph V" "bt_get graph node = Some ds" "set ds \<subseteq> V"
  shows "finished graph (insert node V)"
proof -
  have succ: "(node, b) \<in> edges graph \<Longrightarrow> b \<in> V" for b using assms(2,3) by (auto simp: edges_def)
  have "(node, node) \<notin> (edges graph)\<^sup>+"
  proof
    assume "(node, node) \<in> (edges graph)\<^sup>+"
    then obtain b where b: "(node, b) \<in> edges graph" "(b, node) \<in> (edges graph)\<^sup>*" by (meson tranclD)
    then have "node \<in> V" using finished_reach [OF assms(1)] succ by blast
    with assms(1) \<open>(node, node) \<in> (edges graph)\<^sup>+\<close> show False by (auto simp: finished_def)
  qed
  then show ?thesis using assms(1) succ by (auto simp: finished_def)
qed

lemma visit_finished:
  "visit graph visiting V node = Inr V' \<Longrightarrow> finished graph V \<Longrightarrow> finished graph V' \<and> V \<subseteq> V' \<and> node \<in> V'"
  "visit_all graph visiting V nodes = Inr V' \<Longrightarrow> finished graph V \<Longrightarrow> finished graph V' \<and> V \<subseteq> V' \<and> set nodes \<subseteq> V'"
proof (induction graph visiting V node and graph visiting V nodes arbitrary: V' and V' rule: visit_visit_all.induct)
  case (1 graph visiting V node)
  show ?case
  proof (cases "node \<in> visiting \<or> node \<in> V")
    case True
    with 1(2,3) show ?thesis by (auto simp: visit.simps [of graph visiting V node] split: if_split_asm)
  next
    case False
    with 1(2) obtain ds V1 where d: "bt_get graph node = Some ds" "visit_all graph (insert node visiting) V ds = Inr V1" "V' = insert node V1"
      by (auto simp: visit.simps [of graph visiting V node] rbind_Inr_iff split: option.split_asm)
    from False 1(1) [OF _ _ d(1,2)] 1(3) have "finished graph V1 \<and> V \<subseteq> V1 \<and> set ds \<subseteq> V1" by simp
    with finished_insert [of graph V1 node ds] d show ?thesis by auto
  qed
next
  case (3 graph visiting V d ds)
  then obtain V1 where V1: "visit graph visiting V d = Inr V1" "visit_all graph visiting V1 ds = Inr V'"
    by (auto simp: rbind_Inr_iff)
  from 3(1) [OF V1(1) 3(4)] 3(2) [OF V1(1) V1(2)] show ?case by auto
qed auto

text \<open>An error is a cycle: every node being visited leads to the one at hand.\<close>

lemma visit_error:
  "visit graph visiting V node = Inl e \<Longrightarrow> closed_graph graph \<Longrightarrow> bt_get graph node \<noteq> None \<Longrightarrow>
     \<forall>u \<in> visiting. (u, node) \<in> (edges graph)\<^sup>+ \<Longrightarrow>
     e = InvalidEvidence ''fragment dependency cycle'' \<and> (\<exists>a. (a, a) \<in> (edges graph)\<^sup>+)"
  "visit_all graph visiting V nodes = Inl e \<Longrightarrow> closed_graph graph \<Longrightarrow> \<forall>n \<in> set nodes. bt_get graph n \<noteq> None \<Longrightarrow>
     \<forall>n \<in> set nodes. \<forall>u \<in> visiting. (u, n) \<in> (edges graph)\<^sup>+ \<Longrightarrow>
     e = InvalidEvidence ''fragment dependency cycle'' \<and> (\<exists>a. (a, a) \<in> (edges graph)\<^sup>+)"
proof (induction graph visiting V node and graph visiting V nodes rule: visit_visit_all.induct)
  case (1 graph visiting V node)
  show ?case
  proof (cases "node \<in> visiting \<or> node \<in> V")
    case True
    with 1(2,5) show ?thesis by (auto simp: visit.simps [of graph visiting V node] split: if_split_asm)
  next
    case False
    with 1(2,4) obtain ds where d: "bt_get graph node = Some ds" "visit_all graph (insert node visiting) V ds = Inl e"
      by (auto simp: visit.simps [of graph visiting V node] rbind_Inl_iff)
    have in_g: "\<forall>n \<in> set ds. bt_get graph n \<noteq> None"
      using 1(3) map_of_SomeD [OF d(1)] by (auto simp: closed_graph_def)
    have step: "(node, n) \<in> edges graph" if "n \<in> set ds" for n using d(1) that by (auto simp: edges_def)
    have "\<forall>n \<in> set ds. \<forall>u \<in> insert node visiting. (u, n) \<in> (edges graph)\<^sup>+"
      using step 1(5) by (auto intro: trancl_into_trancl)
    with False 1(1) [OF _ _ d(1,2) 1(3) in_g] show ?thesis by simp
  qed
next
  case (3 graph visiting V d ds)
  from 3(3) consider "visit graph visiting V d = Inl e"
    | V1 where "visit graph visiting V d = Inr V1" "visit_all graph visiting V1 ds = Inl e"
    by (auto simp: rbind_Inl_iff)
  then show ?case
  proof cases
    case 1
    with 3 show ?thesis by simp
  next
    case 2
    with 3(2) [OF 2 3(4)] 3(5,6) show ?thesis by simp
  qed
qed auto

lemma reject_cycles_iff:
  assumes "closed_graph graph"
  shows "reject_cycles graph =
    (if acyclic (edges graph) then Inr () else Inl (InvalidEvidence ''fragment dependency cycle''))"
proof (cases "visit_all graph {} {} (map fst graph)")
  case (Inl e)
  have "\<forall>n \<in> set (map fst graph). bt_get graph n \<noteq> None" by (auto simp: map_of_eq_None_iff)
  from visit_error(2) [OF Inl assms this] have "e = InvalidEvidence ''fragment dependency cycle''" "\<not> acyclic (edges graph)"
    by (auto simp: acyclic_def)
  then show ?thesis using Inl by (simp add: reject_cycles_def)
next
  case (Inr V)
  have "finished graph {}" by (simp add: finished_def)
  with visit_finished(2) [OF Inr] have V: "finished graph V" "fst ` set graph \<subseteq> V" by auto
  have "acyclic (edges graph)" unfolding acyclic_def
  proof (intro allI notI)
    fix a assume c: "(a, a) \<in> (edges graph)\<^sup>+"
    then obtain b where "(a, b) \<in> edges graph" by (meson tranclD)
    then have "a \<in> fst ` set graph" by (force simp: edges_def dest: map_of_SomeD)
    with V c show False by (auto simp: finished_def)
  qed
  then show ?thesis using Inr by (simp add: reject_cycles_def)
qed

section \<open>What collection admits\<close>

definition fragment_ok :: "'x fragments_ext_scheme \<Rightarrow> (string, IssuerPolicy) btree_map \<Rightarrow> string \<Rightarrow> string \<Rightarrow> int option \<Rightarrow> Envelope \<Rightarrow> bool" where
  "fragment_ok x trusted component iv time e \<longleftrightarrow>
     kind_matches_content (en_kind e) (en_content e) \<and> en_component e = component \<and> en_interface_version e = iv \<and>
     x_strptime x (en_issued_at e) \<noteq> None \<and> content_digest_of x (en_content e) = Inr (en_content_digest e) \<and>
     (\<exists>policy. bt_get trusted (en_issuer e) = Some policy \<and> en_failure_domain e = policy_failure_domain policy \<and>
        is_ok (verify_signature x e policy time))"

definition audit_of :: "'x fragments_ext_scheme \<Rightarrow> (string, IssuerPolicy) btree_map \<Rightarrow> int option \<Rightarrow> Envelope \<Rightarrow> VerificationAudit" where
  "audit_of x trusted time e =
     \<lparr>va_issuer = en_issuer e, va_key_id = projr (verify_signature x e (the (bt_get trusted (en_issuer e))) time),
      va_sequence = en_sequence e, va_content_digest = en_content_digest e, va_decision = ''accepted''\<rparr>"

abbreviation identity :: "Envelope \<Rightarrow> string \<times> u64" where
  "identity e \<equiv> (en_issuer e, en_sequence e)"

lemma collect_one_iff:
  "collect_one x trusted component iv time st e = Inr st' \<longleftrightarrow>
     fragment_ok x trusted component iv time e \<and> identity e \<notin> co_identities st \<and>
     en_content_digest e \<notin> co_content_digests st \<and>
     st' = \<lparr>co_identities = insert (identity e) (co_identities st),
       co_content_digests = insert (en_content_digest e) (co_content_digests st),
       co_domains = insert (en_failure_domain e) (co_domains st), co_audit = co_audit st @ [audit_of x trusted time e]\<rparr>"
proof (cases "bt_get trusted (en_issuer e)")
  case None
  then show ?thesis by (auto simp: collect_one_def fragment_ok_def rbind_Inr_iff)
next
  case (Some policy)
  show ?thesis
  proof (cases "verify_signature x e policy time")
    case (Inl err)
    then show ?thesis using Some by (auto simp: collect_one_def fragment_ok_def rbind_Inr_iff)
  next
    case (Inr key)
    then show ?thesis using Some
      by (auto simp: collect_one_def fragment_ok_def audit_of_def rbind_Inr_iff ok_or_Inr_iff)
  qed
qed

lemma collect_all_iff:
  "fold_results (collect_one x trusted component iv time) st es = Inr st' \<longleftrightarrow>
     (\<forall>e \<in> set es. fragment_ok x trusted component iv time e) \<and>
     distinct (map identity es) \<and> identity ` set es \<inter> co_identities st = {} \<and>
     distinct (map en_content_digest es) \<and> en_content_digest ` set es \<inter> co_content_digests st = {} \<and>
     st' = \<lparr>co_identities = identity ` set es \<union> co_identities st,
       co_content_digests = en_content_digest ` set es \<union> co_content_digests st,
       co_domains = en_failure_domain ` set es \<union> co_domains st,
       co_audit = co_audit st @ map (audit_of x trusted time) es\<rparr>"
proof (induction es arbitrary: st)
  case (Cons e es)
  show ?case
  proof (cases "\<exists>st1. collect_one x trusted component iv time st e = Inr st1")
    case False
    then show ?thesis by (auto simp: rbind_Inr_iff collect_one_iff)
  next
    case True
    then obtain st1 where st1: "collect_one x trusted component iv time st e = Inr st1" by blast
    then have ok: "fragment_ok x trusted component iv time e" "identity e \<notin> co_identities st"
        "en_content_digest e \<notin> co_content_digests st"
      and eq: "st1 = \<lparr>co_identities = insert (identity e) (co_identities st),
         co_content_digests = insert (en_content_digest e) (co_content_digests st),
         co_domains = insert (en_failure_domain e) (co_domains st), co_audit = co_audit st @ [audit_of x trusted time e]\<rparr>"
      unfolding collect_one_iff by blast+
    show ?thesis unfolding fold_results.simps st1 rbind_simps Cons.IH using ok by (auto simp: eq)
  qed
qed auto

definition dep_edges :: "Envelope set \<Rightarrow> (string \<times> string) set" where
  "dep_edges E = {(a, b). \<exists>e \<in> E. en_content_digest e = a \<and> b \<in> set (en_dependencies e)}"

lemma dependency_graph_get:
  assumes "distinct (map en_content_digest es)"
  shows "bt_get (dependency_graph es) d = Some ds \<longleftrightarrow> (\<exists>e \<in> set es. en_content_digest e = d \<and> en_dependencies e = ds)"
proof -
  have "bt_get (dependency_graph es) = map_of (map (\<lambda>e. (en_content_digest e, en_dependencies e)) es)"
    unfolding dependency_graph_def using assms by (intro map_of_bt_collect_distinct) (simp add: comp_def)
  moreover have "distinct (map fst (map (\<lambda>e. (en_content_digest e, en_dependencies e)) es))" using assms by (simp add: comp_def)
  ultimately show ?thesis by (auto simp: map_of_eq_Some_iff image_iff)
qed

lemma dependency_graph_None:
  "bt_get (dependency_graph es) d = None \<longleftrightarrow> d \<notin> en_content_digest ` set es"
  by (simp add: dependency_graph_def map_of_eq_None_iff image_image)

lemma edges_dependency_graph:
  "distinct (map en_content_digest es) \<Longrightarrow> edges (dependency_graph es) = dep_edges (set es)"
  by (auto simp: edges_def dep_edges_def dependency_graph_get)

lemma closed_dependency_graph:
  assumes "distinct (map en_content_digest es)"
  shows "closed_graph (dependency_graph es) \<longleftrightarrow>
    (\<forall>e \<in> set es. set (en_dependencies e) \<subseteq> en_content_digest ` set es)"
proof -
  have "bt_wf (dependency_graph es)" by (simp add: dependency_graph_def)
  then have "(d, ds) \<in> set (dependency_graph es) \<longleftrightarrow> (\<exists>e \<in> set es. en_content_digest e = d \<and> en_dependencies e = ds)" for d ds
    using dependency_graph_get [OF assms] bt_wf_distinct by (metis map_of_eq_Some_iff)
  then show ?thesis unfolding closed_graph_def dependency_graph_None by fastforce
qed

text \<open>Admission, independently of the order of the envelopes.\<close>

definition admissible :: "'x fragments_ext_scheme \<Rightarrow> (string, IssuerPolicy) btree_map \<Rightarrow> nat \<Rightarrow> string \<Rightarrow> string \<Rightarrow> int option \<Rightarrow> Envelope set \<Rightarrow> bool" where
  "admissible x trusted required component iv time E \<longleftrightarrow>
     (\<forall>e \<in> E. fragment_ok x trusted component iv time e) \<and>
     inj_on identity E \<and> inj_on en_content_digest E \<and>
     (\<forall>e \<in> E. set (en_dependencies e) \<subseteq> en_content_digest ` E) \<and> acyclic (dep_edges E) \<and>
     required \<le> card (en_failure_domain ` E) \<and>
     (\<exists>e \<in> E. en_kind e = ContractKind) \<and> (\<exists>e \<in> E. en_kind e = StateSchemaKind)"

definition parse_verification_time :: "'x external_scheme \<Rightarrow> string option \<Rightarrow> (Error, int option) result" where
  "parse_verification_time x t = (case t of None \<Rightarrow> Inr None
     | Some value \<Rightarrow> rbind (parse_time x value ''verification_time'') (\<lambda>t. Inr (Some t)))"

abbreviation sort_envelopes :: "Envelope list \<Rightarrow> Envelope list" where
  "sort_envelopes \<equiv> sort_key (\<lambda>e. (en_issuer e, en_sequence e, en_content_digest e))"

lemma collect_at_iff:
  "collect_at x es trusted required component iv t = Inr ev \<longleftrightarrow>
     (\<exists>time. parse_verification_time x t = Inr time \<and> distinct es \<and>
        admissible x trusted required component iv time (set es) \<and>
        ev = \<lparr>ce_envelopes = sort_envelopes es, ce_domains = sorted_list_of_set (en_failure_domain ` set es),
          ce_audit = map (audit_of x trusted time) es\<rparr>)"
proof -
  have d: "distinct (map f es) \<longleftrightarrow> distinct es \<and> inj_on f (set es)" for f :: "Envelope \<Rightarrow> 'b"
    by (rule distinct_map)
  have g: "(\<exists>(_, ds) \<in> set (dependency_graph es). \<exists>item \<in> set ds. bt_get (dependency_graph es) item = None) \<longleftrightarrow>
      \<not> closed_graph (dependency_graph es)"
    unfolding closed_graph_def by force
  show ?thesis
  proof (cases "distinct (map en_content_digest es) \<and> closed_graph (dependency_graph es)")
    case True
    then show ?thesis
      using reject_cycles_iff [of "dependency_graph es"] edges_dependency_graph [of es] closed_dependency_graph [of es]
      by (auto simp: collect_at_def parse_verification_time_def [symmetric] Let_def g rbind_Inr_iff collect_all_iff admissible_def d
          not_less split: if_split_asm)
  next
    case False
    then have "\<not> (distinct es \<and> admissible x trusted required component iv time (set es))" for time
      using closed_dependency_graph [of es] by (auto simp: admissible_def d)
    moreover have "collect_at x es trusted required component iv t \<noteq> Inr ev"
      using False by (auto simp: collect_at_def Let_def g rbind_Inr_iff collect_all_iff split: if_split_asm)
    ultimately show ?thesis by blast
  qed
qed


section \<open>Signing and verification\<close>

text \<open>What the code relies on of hex and Ed25519: decoding inverts encoding, encoded text has no
  colon, keys and signatures have their lengths, and a signature verifies under the public key of
  the secret that made it.\<close>

definition lawful_crypto :: "'x external_scheme \<Rightarrow> bool" where
  "lawful_crypto x \<longleftrightarrow>
     (\<forall>bs. x_hex_decode x (x_hex_encode x bs) = Some bs \<and> CHR '':'' \<notin> set (x_hex_encode x bs)) \<and>
     (\<forall>sk. length sk = 32 \<longrightarrow> length (x_public_key x sk) = 32 \<and> x_valid_key x (x_public_key x sk)) \<and>
     (\<forall>sk m. length sk = 32 \<longrightarrow> length (x_sign x sk m) = 64 \<and> x_verify x (x_public_key x sk) m (x_sign x sk m))"

definition key_usable :: "'x external_scheme \<Rightarrow> Ed25519KeyPolicy \<Rightarrow> string \<Rightarrow> int option \<Rightarrow> bool" where
  "key_usable x key issued_at time \<longleftrightarrow> validate_key_policy x key = Inr () \<and> kp_revoked_at key = None \<and>
     (\<exists>t nb na. x_strptime x issued_at = Some t \<and> x_strptime x (kp_not_before key) = Some nb \<and>
        x_strptime x (kp_not_after key) = Some na \<and> nb \<le> t \<and> t \<le> na \<and>
        (\<forall>v. time = Some v \<longrightarrow> nb \<le> v \<and> v \<le> na))"

lemma key_id_no_colon: "validate_key_id s = Inr u \<Longrightarrow> CHR '':'' \<notin> set s"
  by (auto simp: validate_key_id_def list_all_iff is_ascii_alphanumeric_def Let_def split: if_split_asm)

lemma unsigned_bytes_signature [simp]: "unsigned_bytes x (e\<lparr>en_signature := s\<rparr>) = unsigned_bytes x e"
  by (simp add: unsigned_bytes_def unsigned_envelope_def UnsignedEnvelope.truncate_def)

lemma sign_ed25519_InrD:
  assumes "sign_ed25519 x e kid sk = Inr e'"
  shows "\<exists>d bs. validate_key_id kid = Inr () \<and> content_digest_of x (en_content e) = Inr d \<and>
    unsigned_bytes x (e\<lparr>en_content_digest := d, en_signature := []\<rparr>) = Inr bs \<and>
    e' = e\<lparr>en_content_digest := d, en_signature := ''ed25519:'' @ kid @ '':'' @ x_hex_encode x (x_sign x sk bs)\<rparr>"
  using assms by (auto simp: sign_ed25519_def rbind_Inr_iff Let_def simp del: unsigned_bytes_signature)

lemma signature_parts:
  assumes "CHR '':'' \<notin> set kid" "CHR '':'' \<notin> set sig"
  shows "split_on CHR '':'' (''ed25519:'' @ kid @ '':'' @ sig) = [''ed25519'', kid, sig]"
proof -
  have "split_on CHR '':'' (''ed25519'' @ CHR '':'' # (kid @ CHR '':'' # sig)) = ''ed25519'' # split_on CHR '':'' (kid @ CHR '':'' # sig)"
    by (rule split_on_append) simp
  then show ?thesis using assms by (simp add: split_on_append split_on_no)
qed

lemma verify_signed:
  assumes "lawful_crypto x" "length sk = 32" "sign_ed25519 x e kid sk = Inr e'"
    and "find (\<lambda>key. kp_key_id key = kid) (ip_keys policy) = Some key" "key_usable x key (en_issued_at e) time"
    and "kp_public_key key = x_hex_encode x (x_public_key x sk)" "ip_minimum_sequence policy \<le> en_sequence e"
  shows "verify_ed25519 x e' policy time = Inr kid \<and> content_digest_of x (en_content e') = Inr (en_content_digest e')"
proof -
  obtain d bs where s: "validate_key_id kid = Inr ()" "content_digest_of x (en_content e) = Inr d"
    "unsigned_bytes x (e\<lparr>en_content_digest := d, en_signature := []\<rparr>) = Inr bs"
    "e' = e\<lparr>en_content_digest := d, en_signature := ''ed25519:'' @ kid @ '':'' @ x_hex_encode x (x_sign x sk bs)\<rparr>"
    using sign_ed25519_InrD [OF assms(3)] by blast
  have bytes: "unsigned_bytes x e' = Inr bs" using s(3) by (simp add: s(4))
  have parts: "split_on CHR '':'' (en_signature e') = [''ed25519'', kid, x_hex_encode x (x_sign x sk bs)]"
    using assms(1) key_id_no_colon [OF s(1)] by (simp add: s(4) lawful_crypto_def signature_parts del: append.simps)
  have e': "en_sequence e' = en_sequence e" "en_issued_at e' = en_issued_at e" "en_content e' = en_content e" "en_content_digest e' = d"
    by (simp_all add: s(4))
  show ?thesis
    using assms bytes parts e' s(2)
    by (auto simp: verify_ed25519_def Let_def key_usable_def lawful_crypto_def parse_time_def not_less split: option.splits)
qed

section \<open>A concrete environment\<close>

text \<open>An instance of the parameters, on which the properties are evaluated: the usual lower-case hex,
  a digest that is its input, and a signature scheme whose keys are their own public halves.\<close>

definition nibble_char :: "nat \<Rightarrow> char" where
  "nibble_char n = char_of (97 + n)"

definition char_nibble :: "char \<Rightarrow> nat" where
  "char_nibble c = of_char c - 97"

fun toy_hex :: "bytes \<Rightarrow> string" where
  "toy_hex [] = []"
| "toy_hex (b # bs) = nibble_char (unat b div 16) # nibble_char (unat b mod 16) # toy_hex bs"

fun toy_unhex :: "string \<Rightarrow> bytes option" where
  "toy_unhex [] = Some []"
| "toy_unhex [c] = None"
| "toy_unhex (c # d # s) = map_option ((#) (of_nat (char_nibble c * 16 + char_nibble d))) (toy_unhex s)"

fun toy_content :: "FragmentContent \<Rightarrow> string" where
  "toy_content (Transition _ _ _ _) = ''t''"
| "toy_content (StatePolicy _ _) = ''p''"
| "toy_content (Trace _ _ _ _) = ''r''"
| "toy_content (NegativeCase _ _ _) = ''n''"
| "toy_content (MetamorphicProperty _ _ _) = ''m''"

definition toy_ext :: fragments_ext where
  "toy_ext = \<lparr>x_sha256 = id, x_hex_encode = toy_hex, x_hex_decode = toy_unhex,
     x_json_vec = (\<lambda>v. case v of JString s \<Rightarrow> Inr (as_bytes s) | _ \<Rightarrow> Inr []), x_hmac = (\<lambda>k m. k), x_public_key = id,
     x_sign = (\<lambda>k m. k @ k), x_valid_key = (\<lambda>k. length k = 32), x_verify = (\<lambda>k m s. s = k @ k),
     x_strptime = (\<lambda>s. Some (int (length s))), x_content_value = (\<lambda>c. Inr (JString (toy_content c))),
     x_unsigned_value = (\<lambda>e. Inr (JString (en_issuer e)))\<rparr>"

lemma nibble_roundtrip: "n < 16 \<Longrightarrow> char_nibble (nibble_char n) = n \<and> nibble_char n \<noteq> CHR '':''"
proof -
  assume n: "n < 16"
  then have "of_char (char_of (97 + n) :: char) = (97 + n :: nat)" by (simp add: of_char_of)
  then have c: "of_char (nibble_char n) = (97 + n :: nat)" by (simp only: nibble_char_def)
  have "nibble_char n \<noteq> CHR '':''"
  proof
    assume "nibble_char n = CHR '':''"
    then have "of_char (nibble_char n) = (58 :: nat)" by simp
    with c show False by simp
  qed
  then show ?thesis using c by (simp add: char_nibble_def)
qed

lemma toy_hex_roundtrip: "toy_unhex (toy_hex bs) = Some bs \<and> CHR '':'' \<notin> set (toy_hex bs)"
proof (induction bs)
  case (Cons b bs)
  have "unat b div 16 < 16" "unat b mod 16 < 16" using unat_byte_bound [of b] by auto
  then show ?case using Cons nibble_roundtrip [of "unat b div 16"] nibble_roundtrip [of "unat b mod 16"]
    by (auto simp: mult.commute)
qed simp

lemma toy_lawful: "lawful_crypto toy_ext"
  using toy_hex_roundtrip by (simp add: lawful_crypto_def toy_ext_def)

section \<open>Properties\<close>

text \<open>(C35) Collection admits a list of envelopes exactly when they are pairwise different and, as a
  set, \<open>admissible\<close>: each has a kind that matches its content, the target's identity, a trusted issuer
  with that issuer's failure domain, the digest of its content and a valid signature; issuer and
  sequence, and content digests, are unique; every dependency is present and there is no dependency
  cycle; enough failure domains, a contract and a state schema. The evidence is the sorted envelopes.\<close>

theorem collect_admits:
  "collect_at x es trusted required component iv t = Inr ev \<longleftrightarrow>
     (\<exists>time. parse_verification_time x t = Inr time \<and> distinct es \<and>
        admissible x trusted required component iv time (set es) \<and>
        ev = \<lparr>ce_envelopes = sort_envelopes es, ce_domains = sorted_list_of_set (en_failure_domain ` set es),
          ce_audit = map (audit_of x trusted time) es\<rparr>)"
  by (rule collect_at_iff)

text \<open>The evidence does not depend on the order in which envelopes arrive: a permutation of an
  admitted list is admitted, with the same envelopes in the same order and the same domains.\<close>

theorem collect_order_insensitive:
  assumes "collect_at x es trusted required component iv t = Inr ev" "mset es' = mset es"
  shows "\<exists>ev'. collect_at x es' trusted required component iv t = Inr ev' \<and>
    ce_envelopes ev' = ce_envelopes ev \<and> ce_domains ev' = ce_domains ev \<and> mset (ce_audit ev') = mset (ce_audit ev)"
proof -
  from assms(1) obtain time where time: "parse_verification_time x t = Inr time" "distinct es"
    "admissible x trusted required component iv time (set es)"
    "ev = \<lparr>ce_envelopes = sort_envelopes es, ce_domains = sorted_list_of_set (en_failure_domain ` set es),
       ce_audit = map (audit_of x trusted time) es\<rparr>"
    by (auto simp: collect_at_iff)
  have es': "set es' = set es" "distinct es'" using assms(2) time(2) by (metis mset_eq_setD, metis mset_eq_imp_distinct_iff)
  have "inj_on (\<lambda>e. (en_issuer e, en_sequence e, en_content_digest e)) (set es')"
    using time(3) es'(1) by (auto simp: admissible_def inj_on_def)
  then have "sort_envelopes es' = sort_envelopes es"
    using assms(2) by (intro sort_key_inj_key_eq) simp_all
  then show ?thesis using time es' assms(2) by (auto simp: collect_at_iff)
qed

definition toy_envelope :: "FragmentKind \<Rightarrow> FragmentContent \<Rightarrow> u64 \<Rightarrow> string list \<Rightarrow> Envelope" where
  "toy_envelope kind content sequence dependencies =
     \<lparr>en_kind = kind, en_component = ''c'', en_interface_version = ''1'', en_issuer = ''i'', en_failure_domain = ''d'',
      en_issued_at = ''now'', en_sequence = sequence, en_content_digest = toy_hex (as_bytes (toy_content content)),
      en_dependencies = dependencies, en_content = content, en_signature = toy_hex (replicate 32 7)\<rparr>"

definition toy_envelopes :: "Envelope list" where
  "toy_envelopes = [toy_envelope StateSchemaKind (StatePolicy [''s''] ''s'') 2 [],
     toy_envelope ContractKind (Transition ''s'' ''a'' ''s'' ''x'') 1 [toy_hex (as_bytes ''p'')]]"

definition toy_trusted :: "(string, IssuerPolicy) btree_map" where
  "toy_trusted = [(''i'', LegacyHmac \<lparr>lp_hmac_sha256_key = toy_hex (replicate 32 7), lp_failure_domain = ''d''\<rparr>)]"

lemma toy_envelope_ok:
  assumes "kind_matches_content kind content"
  shows "fragment_ok toy_ext toy_trusted ''c'' ''1'' None (toy_envelope kind content n ds)"
  using assms toy_hex_roundtrip
  by (auto simp: fragment_ok_def toy_envelope_def toy_trusted_def toy_ext_def policy_failure_domain_def verify_signature_def
      verify_legacy_def unsigned_bytes_def canonical_encode_def encode_json_def content_digest_of_def canonical_digest_def digest_hex_def
)

lemma toy_digests: "toy_hex (as_bytes ''p'') = ''ha''" "toy_hex (as_bytes ''t'') = ''he''"
  by code_simp+

lemma toy_admissible: "admissible toy_ext toy_trusted 1 ''c'' ''1'' None (set toy_envelopes)"
proof -
  have "\<forall>e \<in> set toy_envelopes. fragment_ok toy_ext toy_trusted ''c'' ''1'' None e"
    by (simp add: toy_envelopes_def toy_envelope_ok)
  moreover have "dep_edges (set toy_envelopes) = {(''he'', ''ha'')}"
    by (auto simp: dep_edges_def toy_envelopes_def toy_envelope_def toy_digests)
  moreover have "acyclic {(''he'', ''ha'')}" by (auto simp: acyclic_def trancl_insert2)
  ultimately show ?thesis
    by (simp add: admissible_def inj_on_def toy_envelopes_def toy_envelope_def toy_digests)
qed

theorem collect_order_insensitive_witness:
  "\<exists>ev ev'. collect_at toy_ext toy_envelopes toy_trusted 1 ''c'' ''1'' None = Inr ev \<and>
     collect_at toy_ext (rev toy_envelopes) toy_trusted 1 ''c'' ''1'' None = Inr ev' \<and> ce_envelopes ev' = ce_envelopes ev"
proof -
  have "distinct toy_envelopes" by (simp add: toy_envelopes_def toy_envelope_def)
  then obtain ev where ev: "collect_at toy_ext toy_envelopes toy_trusted 1 ''c'' ''1'' None = Inr ev"
    unfolding collect_at_iff using toy_admissible by (auto simp: parse_verification_time_def)
  from collect_order_insensitive [OF ev, of "rev toy_envelopes"] ev show ?thesis by auto
qed

text \<open>(C39) The dependency check is exact: on a graph whose dependencies are all present it succeeds when
  the graph is acyclic and reports a cycle otherwise; it always returns and never indexes a missing
  node.\<close>

theorem reject_cycles_exact:
  assumes "closed_graph graph"
  shows "reject_cycles graph =
    (if acyclic (edges graph) then Inr () else Inl (InvalidEvidence ''fragment dependency cycle''))"
  using assms by (rule reject_cycles_iff)

theorem reject_cycles_exact_witness:
  "reject_cycles [(''a'', [''b'']), (''b'', [''a''])] = Inl (InvalidEvidence ''fragment dependency cycle'')"
proof -
  have "(''a'', ''b'') \<in> edges [(''a'', [''b'']), (''b'', [''a''])]" "(''b'', ''a'') \<in> edges [(''a'', [''b'']), (''b'', [''a''])]"
    by (simp_all add: edges_def)
  then have "(''a'', ''a'') \<in> (edges [(''a'', [''b'']), (''b'', [''a''])])\<^sup>+" by (meson trancl.simps)
  then have "\<not> acyclic (edges [(''a'', [''b'']), (''b'', [''a''])])" unfolding acyclic_def by blast
  moreover have "closed_graph [(''a'', [''b'']), (''b'', [''a''])]" by (simp add: closed_graph_def)
  ultimately show ?thesis using reject_cycles_exact by simp
qed

text \<open>A fragment signed with an Ed25519 key verifies under every issuer policy that lists the key's
  public half, within the key's validity interval, unrevoked and above the replay floor, and its
  content digest is the digest collection recomputes.\<close>

theorem sign_verify_roundtrip:
  assumes "lawful_crypto x" "length sk = 32" "sign_ed25519 x e kid sk = Inr e'"
    and "find (\<lambda>key. kp_key_id key = kid) (ip_keys policy) = Some key" "key_usable x key (en_issued_at e) time"
    and "kp_public_key key = x_hex_encode x (x_public_key x sk)" "ip_minimum_sequence policy \<le> en_sequence e"
  shows "verify_signature x e' (Ed25519 policy) time = Inr kid \<and>
    content_digest_of x (en_content e') = Inr (en_content_digest e')"
  using verify_signed [OF assms] by (simp add: verify_signature_def)

definition toy_key :: Ed25519KeyPolicy where
  "toy_key = \<lparr>kp_key_id = ''k1'', kp_public_key = toy_hex (replicate 32 7), kp_not_before = [], kp_not_after = ''later'',
     kp_revoked_at = None\<rparr>"

definition toy_policy :: Ed25519IssuerPolicy where
  "toy_policy = \<lparr>ip_failure_domain = ''d'', ip_minimum_sequence = 1, ip_keys = [toy_key]\<rparr>"

lemma toy_key_id: "validate_key_id ''k1'' = Inr ()"
  by (simp add: validate_key_id_def is_ascii_alphanumeric_def)

lemma toy_signed: "\<exists>e'. sign_ed25519 toy_ext e ''k1'' sk = Inr e'"
  by (auto simp: sign_ed25519_def Let_def toy_ext_def unsigned_bytes_def canonical_encode_def encode_json_def content_digest_of_def
      canonical_digest_def digest_hex_def toy_key_id)

lemma toy_key_usable: "key_usable toy_ext toy_key (en_issued_at (toy_envelope kind content n ds)) (Some 4)"
  using toy_hex_roundtrip toy_key_id
  by (simp add: key_usable_def toy_key_def toy_ext_def toy_envelope_def validate_key_policy_def parse_time_def)

theorem sign_verify_roundtrip_witness:
  "\<exists>e'. sign_ed25519 toy_ext (toy_envelope ContractKind (Transition ''s'' ''a'' ''s'' ''x'') 1 []) ''k1'' (replicate 32 7) = Inr e' \<and>
     verify_signature toy_ext e' (Ed25519 toy_policy) (Some 4) = Inr ''k1''"
proof -
  obtain e' where e': "sign_ed25519 toy_ext (toy_envelope ContractKind (Transition ''s'' ''a'' ''s'' ''x'') 1 []) ''k1'' (replicate 32 7) = Inr e'"
    using toy_signed by blast
  from sign_verify_roundtrip [OF toy_lawful _ e' _ toy_key_usable, of toy_policy] e' show ?thesis
    by (simp add: toy_policy_def toy_key_def toy_ext_def toy_envelope_def)
qed

text \<open>An envelope passes the Ed25519 branch only with a valid signature over its unsigned part by a
  key the issuer lists, unrevoked and inside its validity interval at issue and at verification, and
  with a sequence number at or above the issuer's replay floor.\<close>

theorem verify_ed25519_sound:
  assumes "verify_signature x e (Ed25519 policy) time = Inr kid"
  shows "\<exists>key public bs hex signature. key \<in> set (ip_keys policy) \<and> kp_key_id key = kid \<and>
    key_usable x key (en_issued_at e) time \<and> ip_minimum_sequence policy \<le> en_sequence e \<and>
    x_hex_decode x (kp_public_key key) = Some public \<and> split_on CHR '':'' (en_signature e) = [''ed25519'', kid, hex] \<and>
    x_hex_decode x hex = Some signature \<and> unsigned_bytes x e = Inr bs \<and> x_verify x public bs signature"
proof -
  let ?parts = "split_on CHR '':'' (en_signature e)"
  from assms have n: "length ?parts = 3" "hd ?parts = ''ed25519''"
    by (auto simp: verify_signature_def verify_ed25519_def Let_def split: if_split_asm)
  then obtain k hex where parts: "?parts = [''ed25519'', k, hex]"
    by (cases ?parts rule: remdups_adj.cases) (auto simp: numeral_3_eq_3 length_Suc_conv)
  from assms obtain key where key: "find (\<lambda>key. kp_key_id key = kid) (ip_keys policy) = Some key" "k = kid"
      "key_usable x key (en_issued_at e) time" "ip_minimum_sequence policy \<le> en_sequence e"
    and sig: "\<exists>public bs signature. x_hex_decode x (kp_public_key key) = Some public \<and> x_hex_decode x hex = Some signature \<and>
        unsigned_bytes x e = Inr bs \<and> x_verify x public bs signature"
    by (auto simp: verify_signature_def verify_ed25519_def Let_def parts rbind_Inr_iff ok_or_Inr_iff ensure_Inr_iff parse_time_def
        key_usable_def not_less split: if_split_asm option.split_asm)
  have "key \<in> set (ip_keys policy)" "kp_key_id key = kid"
    using key(1) by (auto simp: find_Some_iff in_set_conv_nth)
  then show ?thesis using parts key sig by blast
qed

theorem verify_ed25519_sound_witness:
  "\<exists>e' key bs. sign_ed25519 toy_ext (toy_envelope ContractKind (Transition ''s'' ''a'' ''s'' ''x'') 1 []) ''k1'' (replicate 32 7) = Inr e' \<and>
     key \<in> set (ip_keys toy_policy) \<and> key_usable toy_ext key (en_issued_at e') (Some 4) \<and> unsigned_bytes toy_ext e' = Inr bs"
proof -
  obtain e' where e': "sign_ed25519 toy_ext (toy_envelope ContractKind (Transition ''s'' ''a'' ''s'' ''x'') 1 []) ''k1'' (replicate 32 7) = Inr e'"
    using toy_signed by blast
  have "verify_ed25519 toy_ext e' toy_policy (Some 4) = Inr ''k1''"
    using verify_signed [OF toy_lawful _ e' _ toy_key_usable, of toy_policy]
    by (simp add: toy_policy_def toy_key_def toy_ext_def toy_envelope_def)
  then have "verify_signature toy_ext e' (Ed25519 toy_policy) (Some 4) = Inr ''k1''" by (simp add: verify_signature_def)
  from verify_ed25519_sound [OF this] e' show ?thesis by blast
qed

end
