(* ===== verification/Service.thy ===== *)
theory Service
  imports Fragments
begin

text \<open>
  The service manifest and its validator (\<open>src/service.rs\<close>). The sets the validator fills to find
  duplicates are sets; hex decoding is a parameter.
\<close>

datatype HttpMethod = Delete | Get | Head | Patch | Post | Put

datatype EffectKind = ClockEffect | FilesystemEffect | NetworkEffect | RandomnessEffect | StateEffect

datatype EffectAccess = ReadAccess | ReadWriteAccess | WriteAccess

datatype StateAdapter = FilesystemAdapter | ObjectStore | Postgres | Queue

datatype Consistency = Eventual | Snapshot | Transactional

record HttpEndpoint =
  he_method :: HttpMethod
  he_path :: string
  he_request_schema_sha256 :: string
  he_response_schema_sha256 :: string

record Effect =
  ef_kind :: EffectKind
  ef_target :: string
  ef_access :: EffectAccess

record StateDependency =
  sd_name :: string
  sd_adapter :: StateAdapter
  sd_consistency :: Consistency
  sd_required :: bool

record ServiceLimits =
  sl_request_bytes :: u64
  sl_response_bytes :: u64
  sl_wall_time_ms :: u64
  sl_concurrent_requests :: u32

record ServiceManifest =
  sm_version :: string
  sm_component :: string
  sm_interface_version :: string
  sm_endpoints :: "HttpEndpoint list"
  sm_effects :: "Effect list"
  sm_state_dependencies :: "StateDependency list"
  sm_limits :: ServiceLimits

definition MAX_ENDPOINTS :: nat where "MAX_ENDPOINTS = 256"
definition MAX_DEPENDENCIES :: nat where "MAX_DEPENDENCIES = 64"
definition MAX_IDENTIFIER_BYTES :: nat where "MAX_IDENTIFIER_BYTES = 128"

definition invalid_service :: "string \<Rightarrow> Error" where
  "invalid_service message = InvalidRegistry message"

definition validate_identifier :: "string \<Rightarrow> string \<Rightarrow> (Error, unit) result" where
  "validate_identifier label value =
     (if value = [] \<or> length value > MAX_IDENTIFIER_BYTES \<or>
         \<not> list_all (\<lambda>c. is_ascii_alphanumeric c \<or> c \<in> set ''._:/-'') value
      then Inl (invalid_service (label @ '' is empty, too long, or contains unsafe characters'')) else Inr ())"

definition is_ascii_graphic :: "char \<Rightarrow> bool" where
  "is_ascii_graphic c \<longleftrightarrow> 33 \<le> (of_char c :: nat) \<and> (of_char c :: nat) \<le> 126"

primrec contains_double_slash :: "string \<Rightarrow> bool" where
  "contains_double_slash [] = False"
| "contains_double_slash (c # s) = ((c = CHR ''/'' \<and> s \<noteq> [] \<and> hd s = CHR ''/'') \<or> contains_double_slash s)"

definition validate_path :: "string \<Rightarrow> (Error, unit) result" where
  "validate_path path =
     (if \<not> (path \<noteq> [] \<and> hd path = CHR ''/'') \<or> length path > 1024 \<or>
         \<not> list_all (\<lambda>c. is_ascii_graphic c \<and> c \<noteq> char_of (92 :: nat)) path \<or>
         CHR ''?'' \<in> set path \<or> CHR ''#'' \<in> set path \<or> contains_double_slash path \<or>
         list_ex (\<lambda>segment. segment = ''.'' \<or> segment = ''..'') (split_on CHR ''/'' path)
      then Inl (invalid_service
        ''HTTP paths must be bounded absolute paths without query, fragment, empty interior, or traversal segments'')
      else Inr ())"

definition validate_digest :: "'x external_scheme \<Rightarrow> string \<Rightarrow> string \<Rightarrow> (Error, unit) result" where
  "validate_digest x label d =
     (if length d \<noteq> 64 \<or> (case x_hex_decode x d of None \<Rightarrow> True | Some bs \<Rightarrow> length bs \<noteq> 32)
      then Inl (invalid_service (label @ '' digest must be SHA-256 hex'')) else Inr ())"

text \<open>The three loops that insert into a set and refuse what was there before.\<close>

definition insert_unique :: "string \<Rightarrow> 'a set \<Rightarrow> 'a \<Rightarrow> (Error, 'a set) result" where
  "insert_unique message seen x = (if x \<in> seen then Inl (invalid_service message) else Inr (insert x seen))"

definition check_endpoint :: "'x external_scheme \<Rightarrow> (HttpMethod \<times> string) set \<Rightarrow> HttpEndpoint \<Rightarrow> (Error, (HttpMethod \<times> string) set) result" where
  "check_endpoint x routes endpoint =
     rbind (validate_path (he_path endpoint)) (\<lambda>_.
     rbind (validate_digest x ''request schema'' (he_request_schema_sha256 endpoint)) (\<lambda>_.
     rbind (validate_digest x ''response schema'' (he_response_schema_sha256 endpoint)) (\<lambda>_.
       insert_unique ''HTTP method and path pairs must be unique'' routes (he_method endpoint, he_path endpoint))))"

definition check_effect :: "Effect set \<Rightarrow> Effect \<Rightarrow> (Error, Effect set) result" where
  "check_effect effects effect =
     rbind (validate_identifier ''effect target'' (ef_target effect)) (\<lambda>_.
       insert_unique ''effect declarations must be unique'' effects effect)"

definition check_dependency :: "string set \<Rightarrow> StateDependency \<Rightarrow> (Error, string set) result" where
  "check_dependency names dependency =
     rbind (validate_identifier ''state dependency name'' (sd_name dependency)) (\<lambda>_.
       insert_unique ''state dependency names must be unique'' names (sd_name dependency))"

definition manifest_validate :: "'x external_scheme \<Rightarrow> ServiceManifest \<Rightarrow> (Error, unit) result" where
  "manifest_validate x m =
     (if sm_version m \<noteq> ''service-v1'' then Inl (invalid_service ''service manifest version must be service-v1'')
      else
     rbind (validate_identifier ''component'' (sm_component m)) (\<lambda>_.
     rbind (validate_identifier ''interface_version'' (sm_interface_version m)) (\<lambda>_.
       if sm_endpoints m = [] \<or> length (sm_endpoints m) > MAX_ENDPOINTS
       then Inl (invalid_service ''HTTP endpoints must contain between 1 and 256 entries'')
       else
     rbind (fold_results (check_endpoint x) {} (sm_endpoints m)) (\<lambda>_.
       if length (sm_effects m) > MAX_DEPENDENCIES \<or> length (sm_state_dependencies m) > MAX_DEPENDENCIES
       then Inl (invalid_service ''effect or state dependency count exceeds 64'')
       else
     rbind (fold_results check_effect {} (sm_effects m)) (\<lambda>_.
     rbind (fold_results check_dependency {} (sm_state_dependencies m)) (\<lambda>_.
       if (\<exists>effect \<in> set (sm_effects m). ef_kind effect = StateEffect \<and>
             \<not> (\<exists>dependency \<in> set (sm_state_dependencies m). sd_name dependency = ef_target effect)) \<or>
          (\<exists>dependency \<in> set (sm_state_dependencies m).
             \<not> (\<exists>effect \<in> set (sm_effects m). ef_kind effect = StateEffect \<and> ef_target effect = sd_name dependency))
       then Inl (invalid_service ''state effects and state dependencies must reference each other exactly'')
       else if \<not> (1 \<le> sl_request_bytes (sm_limits m) \<and> sl_request_bytes (sm_limits m) \<le> 67108864) \<or>
               \<not> (1 \<le> sl_response_bytes (sm_limits m) \<and> sl_response_bytes (sm_limits m) \<le> 67108864) \<or>
               \<not> (1 \<le> sl_wall_time_ms (sm_limits m) \<and> sl_wall_time_ms (sm_limits m) \<le> 300000) \<or>
               \<not> (1 \<le> sl_concurrent_requests (sm_limits m) \<and> sl_concurrent_requests (sm_limits m) \<le> 10000)
       then Inl (invalid_service ''service resource limits are zero or exceed safety maxima'')
       else Inr ()))))))"

section \<open>What the validator accepts\<close>

definition safe_identifier :: "string \<Rightarrow> bool" where
  "safe_identifier s \<longleftrightarrow> s \<noteq> [] \<and> length s \<le> 128 \<and> (\<forall>c \<in> set s. is_ascii_alphanumeric c \<or> c \<in> set ''._:/-'')"

definition schema_digest_ok :: "'x external_scheme \<Rightarrow> string \<Rightarrow> bool" where
  "schema_digest_ok x d \<longleftrightarrow> length d = 64 \<and> (\<exists>bs. x_hex_decode x d = Some bs \<and> length bs = 32)"

lemma validate_identifier_iff [valid_simps]: "validate_identifier label s = Inr u \<longleftrightarrow> safe_identifier s"
  by (auto simp: validate_identifier_def safe_identifier_def MAX_IDENTIFIER_BYTES_def list_all_iff)

lemma validate_digest_iff [valid_simps]: "validate_digest x label d = Inr u \<longleftrightarrow> schema_digest_ok x d"
  by (auto simp: validate_digest_def schema_digest_ok_def split: option.splits)

lemma fold_insert_unique:
  assumes "\<And>seen e seen'. f seen e = Inr seen' \<longleftrightarrow> ok e \<and> key e \<notin> seen \<and> seen' = insert (key e) seen"
  shows "fold_results f seen es = Inr seen' \<longleftrightarrow>
    (\<forall>e \<in> set es. ok e) \<and> distinct (map key es) \<and> key ` set es \<inter> seen = {} \<and> seen' = key ` set es \<union> seen"
proof (induction es arbitrary: seen)
  case (Cons e es)
  show ?case by (auto simp: rbind_Inr_iff assms Cons)
qed auto

text \<open>An accepted path is absolute and has no empty interior, traversal, query or fragment part.\<close>

definition safe_path :: "string \<Rightarrow> bool" where
  "safe_path path \<longleftrightarrow> length path \<le> 1024 \<and> (\<forall>c \<in> set path. is_ascii_graphic c \<and> c \<noteq> char_of (92 :: nat) \<and> c \<noteq> CHR ''?'' \<and> c \<noteq> CHR ''#'') \<and>
     (\<exists>segments. split_on CHR ''/'' path = [] # segments \<and> segments \<noteq> [] \<and> [] \<notin> set (butlast segments) \<and>
        ''.'' \<notin> set segments \<and> ''..'' \<notin> set segments)"


lemma split_on_head:
  "split_on c s = p # ps \<Longrightarrow> (p = [] \<and> ps \<noteq> []) \<longleftrightarrow> (s \<noteq> [] \<and> hd s = c)"
  by (cases s) (auto split: list.split_asm if_split_asm)

lemma double_slash_split: "contains_double_slash s \<longleftrightarrow> [] \<in> set (butlast (tl (split_on CHR ''/'' s)))"
proof (induction s)
  case (Cons c t)
  obtain p ps where sp: "split_on CHR ''/'' t = p # ps" by (cases "split_on CHR ''/'' t") auto
  show ?case
  proof (cases "c = CHR ''/''")
    case True
    have "[] \<in> set (butlast (p # ps)) \<longleftrightarrow> (p = [] \<and> ps \<noteq> []) \<or> [] \<in> set (butlast ps)"
      by (cases ps) auto
    then show ?thesis using True Cons split_on_head [OF sp] by (simp add: sp)
  qed (use Cons sp in simp)
qed simp

lemma validate_path_iff [valid_simps]: "validate_path p = Inr u \<longleftrightarrow> safe_path p"
proof (cases "p \<noteq> [] \<and> hd p = CHR ''/''")
  case True
  then obtain s where p: "p = CHR ''/'' # s" by (cases p) auto
  have d: "contains_double_slash p \<longleftrightarrow> [] \<in> set (butlast (split_on CHR ''/'' s))"
    unfolding double_slash_split by (simp add: p)
  have sp: "split_on CHR ''/'' p = [] # split_on CHR ''/'' s" by (simp add: p)
  have "validate_path p = Inr u \<longleftrightarrow> length p \<le> 1024 \<and> (\<forall>c \<in> set p. is_ascii_graphic c \<and> c \<noteq> char_of (92 :: nat)) \<and>
      CHR ''?'' \<notin> set p \<and> CHR ''#'' \<notin> set p \<and> [] \<notin> set (butlast (split_on CHR ''/'' s)) \<and>
      (\<forall>segment \<in> set (split_on CHR ''/'' s). segment \<noteq> ''.'' \<and> segment \<noteq> ''..'')"
    using True by (simp add: validate_path_def d sp list_all_iff list_ex_iff not_less)
  also have "\<dots> \<longleftrightarrow> safe_path p" unfolding safe_path_def sp by (simp, blast)
  finally show ?thesis .
next
  case False
  have "\<not> safe_path p"
  proof
    assume "safe_path p"
    then obtain segments where "split_on CHR ''/'' p = [] # segments" "segments \<noteq> []" by (auto simp: safe_path_def)
    with split_on_head [OF this(1)] False show False by blast
  qed
  with False show ?thesis by (auto simp: validate_path_def)
qed

definition endpoint_ok :: "'x external_scheme \<Rightarrow> HttpEndpoint \<Rightarrow> bool" where
  "endpoint_ok x e \<longleftrightarrow> safe_path (he_path e) \<and> schema_digest_ok x (he_request_schema_sha256 e) \<and>
     schema_digest_ok x (he_response_schema_sha256 e)"

definition manifest_ok :: "'x external_scheme \<Rightarrow> ServiceManifest \<Rightarrow> bool" where
  "manifest_ok x m \<longleftrightarrow> sm_version m = ''service-v1'' \<and> safe_identifier (sm_component m) \<and> safe_identifier (sm_interface_version m) \<and>
     sm_endpoints m \<noteq> [] \<and> length (sm_endpoints m) \<le> 256 \<and> (\<forall>e \<in> set (sm_endpoints m). endpoint_ok x e) \<and>
     distinct (map (\<lambda>e. (he_method e, he_path e)) (sm_endpoints m)) \<and>
     length (sm_effects m) \<le> 64 \<and> length (sm_state_dependencies m) \<le> 64 \<and>
     (\<forall>e \<in> set (sm_effects m). safe_identifier (ef_target e)) \<and> distinct (sm_effects m) \<and>
     (\<forall>d \<in> set (sm_state_dependencies m). safe_identifier (sd_name d)) \<and> distinct (map sd_name (sm_state_dependencies m)) \<and>
     {ef_target e |e. e \<in> set (sm_effects m) \<and> ef_kind e = StateEffect} = sd_name ` set (sm_state_dependencies m) \<and>
     sl_request_bytes (sm_limits m) \<in> {1..67108864} \<and> sl_response_bytes (sm_limits m) \<in> {1..67108864} \<and>
     sl_wall_time_ms (sm_limits m) \<in> {1..300000} \<and> sl_concurrent_requests (sm_limits m) \<in> {1..10000}"

lemma insert_unique_iff:
  "insert_unique msg seen y = Inr seen' \<longleftrightarrow> y \<notin> seen \<and> seen' = insert y seen"
  by (auto simp: insert_unique_def)

lemma check_endpoints:
  "fold_results (check_endpoint x) {} es = Inr seen \<longleftrightarrow> (\<forall>e \<in> set es. endpoint_ok x e) \<and>
     distinct (map (\<lambda>e. (he_method e, he_path e)) es) \<and> seen = (\<lambda>e. (he_method e, he_path e)) ` set es"
  by (subst fold_insert_unique [where ok = "endpoint_ok x" and key = "\<lambda>e. (he_method e, he_path e)"])
    (auto simp: check_endpoint_def endpoint_ok_def rbind_Inr_iff valid_simps insert_unique_iff)

lemma check_effects:
  "fold_results check_effect {} es = Inr seen \<longleftrightarrow>
     (\<forall>e \<in> set es. safe_identifier (ef_target e)) \<and> distinct es \<and> seen = set es"
  by (subst fold_insert_unique [where ok = "\<lambda>e. safe_identifier (ef_target e)" and key = id])
    (auto simp: check_effect_def rbind_Inr_iff valid_simps insert_unique_iff)

lemma check_dependencies:
  "fold_results check_dependency {} ds = Inr seen \<longleftrightarrow>
     (\<forall>d \<in> set ds. safe_identifier (sd_name d)) \<and> distinct (map sd_name ds) \<and> seen = sd_name ` set ds"
  by (subst fold_insert_unique [where ok = "\<lambda>d. safe_identifier (sd_name d)" and key = sd_name])
    (auto simp: check_dependency_def rbind_Inr_iff valid_simps insert_unique_iff)

lemma state_references:
  "\<not> ((\<exists>e \<in> E. k e = s \<and> \<not> (\<exists>d \<in> D. n d = t e)) \<or> (\<exists>d \<in> D. \<not> (\<exists>e \<in> E. k e = s \<and> t e = n d))) \<longleftrightarrow>
     {t e |e. e \<in> E \<and> k e = s} = n ` D"
  by (auto simp: set_eq_iff image_iff) metis+

text \<open>(C40) The service manifest validator accepts exactly the manifests of its specification: safe
  identifiers, absolute traversal-free paths, pairwise different routes, effects and dependency names,
  SHA-256 schema digests, state effects that name exactly the declared state dependencies, and limits
  within the safety maxima.\<close>

theorem manifest_validate_exact: "manifest_validate x m = Inr () \<longleftrightarrow> manifest_ok x m"
proof -
  have "manifest_validate x m = Inr () \<longleftrightarrow>
    sm_version m = ''service-v1'' \<and> safe_identifier (sm_component m) \<and> safe_identifier (sm_interface_version m) \<and>
     sm_endpoints m \<noteq> [] \<and> length (sm_endpoints m) \<le> 256 \<and>
     (\<exists>r. fold_results (check_endpoint x) {} (sm_endpoints m) = Inr r) \<and>
     length (sm_effects m) \<le> 64 \<and> length (sm_state_dependencies m) \<le> 64 \<and>
     (\<exists>r. fold_results check_effect {} (sm_effects m) = Inr r) \<and>
     (\<exists>r. fold_results check_dependency {} (sm_state_dependencies m) = Inr r) \<and>
     {ef_target e |e. e \<in> set (sm_effects m) \<and> ef_kind e = StateEffect} = sd_name ` set (sm_state_dependencies m) \<and>
     sl_request_bytes (sm_limits m) \<in> {1..67108864} \<and> sl_response_bytes (sm_limits m) \<in> {1..67108864} \<and>
     sl_wall_time_ms (sm_limits m) \<in> {1..300000} \<and> sl_concurrent_requests (sm_limits m) \<in> {1..10000}"
    unfolding manifest_validate_def state_references [symmetric]
    by (auto simp: rbind_Inr_iff valid_simps MAX_ENDPOINTS_def MAX_DEPENDENCIES_def)
  then show ?thesis
    by (simp add: check_endpoints check_effects check_dependencies manifest_ok_def conj_ac)
qed

end
