(* ===== verification/Oracle.thy ===== *)
theory Oracle
  imports Service
begin

text \<open>
  The loss oracle (\<open>src/oracle.rs\<close>): before a recovery the workspace is scanned and must hold neither a
  declared lost path nor a file with a forbidden digest. The file system is a snapshot: a tree of nodes
  under the recovery root, each with the fault the operating system reports when it is read, and the
  answers for the absolute paths outside the tree.
\<close>

section \<open>The file system\<close>

text \<open>
  A regular file delivers its bytes and then possibly a read error; a directory may fail to open, lists
  its entries in the order of the operating system and may then report an error; \<open>Inaccessible\<close> is a
  path whose metadata cannot be read. A symbolic link carries what it resolves to.
\<close>

datatype node =
    RegularFile bytes "string option"
  | Directory "string option" "(string \<times> node) list" "string option"
  | Symlink node
  | Special
  | Inaccessible string

type_synonym path = "string list"

record filesystem =
  fs_tree :: node
  fs_canonicalize :: "(string, string) result"
  fs_exists :: "string \<Rightarrow> (string, bool) result"
  fs_lstat :: "string \<Rightarrow> (bool \<times> string, unit) result"

definition checked_add :: "u64 \<Rightarrow> u64 \<Rightarrow> u64 option" where
  "checked_add a b = (if unat a + unat b < 2 ^ 64 then Some (a + b) else None)"

record LossAttestation =
  la_method :: string
  la_recovery_root :: string
  la_forbidden_paths_absent :: bool
  la_forbidden_digests_absent :: bool
  la_scanned_files :: u64
  la_scanned_bytes :: u64

section \<open>Collecting the files\<close>

definition count_entry :: "u64 \<Rightarrow> u64 \<Rightarrow> (Error, u64) result" where
  "count_entry max_entries visited =
     rbind (ok_or (SearchExhausted ''workspace entry counter overflow'') (checked_add visited 1)) (\<lambda>visited.
       if visited > max_entries then Inl (SearchExhausted ''workspace entry-count bound exceeded'') else Inr visited)"

fun count_entries :: "u64 \<Rightarrow> u64 \<Rightarrow> (string \<times> node) list \<Rightarrow> string option \<Rightarrow> (Error, u64) result" where
  "count_entries max_entries visited [] None = Inr visited"
| "count_entries max_entries visited [] (Some error) = rbind (count_entry max_entries visited) (\<lambda>_. Inl (Io error))"
| "count_entries max_entries visited (entry # entries) fault =
     rbind (count_entry max_entries visited) (\<lambda>visited. count_entries max_entries visited entries fault)"

lemma size_sort_key [simp]: "size_list f (sort_key k xs) = size_list f xs"
  by (simp add: size_list_conv_sum_list sum_mset_sum_list [symmetric])

function collect_regular_files :: "path \<Rightarrow> node \<Rightarrow> u64 \<Rightarrow> (path \<times> node) list \<times> u64 \<Rightarrow> (Error, (path \<times> node) list \<times> u64) result"
  and collect_entries :: "path \<Rightarrow> (string \<times> node) list \<Rightarrow> u64 \<Rightarrow> (path \<times> node) list \<times> u64 \<Rightarrow> (Error, (path \<times> node) list \<times> u64) result" where
  "collect_regular_files directory node max_entries (output, visited) =
     (case node of
        Directory None entries fault \<Rightarrow>
          rbind (count_entries max_entries visited entries fault) (\<lambda>visited.
            collect_entries directory (sort_key fst entries) max_entries (output, visited))
      | Directory (Some error) _ _ \<Rightarrow> Inl (Io error)
      | _ \<Rightarrow> Inl (Io ''Not a directory''))"
| "collect_entries directory [] max_entries st = Inr st"
| "collect_entries directory ((name, node) # entries) max_entries (output, visited) =
     (case node of
        Inaccessible error \<Rightarrow> Inl (Io error)
      | Symlink _ \<Rightarrow> Inl (InvalidEvidence ''recovery workspace contains a symlink'')
      | Directory _ _ _ \<Rightarrow>
          rbind (collect_regular_files (directory @ [name]) node max_entries (output, visited)) (\<lambda>st.
            collect_entries directory entries max_entries st)
      | RegularFile _ _ \<Rightarrow> collect_entries directory entries max_entries (output @ [(directory @ [name], node)], visited)
      | Special \<Rightarrow> Inl (InvalidEvidence ''recovery workspace contains a non-regular file''))"
  by pat_completeness auto
termination
  by (relation "measure (\<lambda>c. case c of Inl (_, node, _) \<Rightarrow> 2 * size node | Inr (_, entries, _) \<Rightarrow> 2 * size_list (\<lambda>e. Suc (size (snd e))) entries + 1)")
    (auto simp: size_prod_simp)

section \<open>Scanning\<close>

text \<open>The loop over the 64 KiB buffer; \<open>hashed\<close> is what the hasher has been fed.\<close>

function scan_chunks :: "u64 \<Rightarrow> u64 \<Rightarrow> bytes \<Rightarrow> bytes \<Rightarrow> string option \<Rightarrow> (Error, u64 \<times> bytes) result" where
  "scan_chunks max_bytes scanned hashed rest fault =
     (if rest = [] then (case fault of None \<Rightarrow> Inr (scanned, hashed) | Some error \<Rightarrow> Inl (Io error))
      else let chunk = take 65536 rest in
     rbind (ok_or (SearchExhausted ''workspace byte counter overflow'') (checked_add scanned (of_nat (length chunk)))) (\<lambda>scanned.
       if scanned > max_bytes then Inl (SearchExhausted ''workspace byte bound exceeded'')
       else scan_chunks max_bytes scanned (hashed @ chunk) (drop 65536 rest) fault))"
  by pat_completeness auto
termination by (relation "measure (\<lambda>(_, _, _, rest, _). length rest)") auto

declare scan_chunks.simps [simp del]

fun scan_path :: "'x external_scheme \<Rightarrow> string list \<Rightarrow> u64 \<Rightarrow> u64 \<Rightarrow> u64 \<times> u64 \<Rightarrow> path \<times> node \<Rightarrow> (Error, u64 \<times> u64) result" where
  "scan_path x forbidden_digests max_files max_bytes (scanned_files, scanned_bytes) (path, node) =
     (let scanned_files = scanned_files + 1 in
      if scanned_files > max_files then Inl (SearchExhausted ''workspace file-count bound exceeded'')
      else case node of
        RegularFile content fault \<Rightarrow>
          rbind (scan_chunks max_bytes scanned_bytes [] content fault) (\<lambda>(scanned_bytes, hashed).
            if x_hex_encode x (x_sha256 x hashed) \<in> set forbidden_digests
            then Inl (ArtifactPresent ''lost artifact digest exists in recovery workspace'')
            else Inr (scanned_files, scanned_bytes))
      | _ \<Rightarrow> Inl (Io ''Is a directory''))"

definition check_path :: "filesystem \<Rightarrow> string \<Rightarrow> (Error, unit) result" where
  "check_path fs path =
     rbind (map_err Io (fs_exists fs path)) (\<lambda>present.
       if present then Inl (ArtifactPresent ''a declared lost-artifact path still exists'') else Inr ())"

definition attest_absence :: "'x external_scheme \<Rightarrow> filesystem \<Rightarrow> string list \<Rightarrow> string list \<Rightarrow> u64 \<Rightarrow> u64 \<Rightarrow> (Error, LossAttestation) result" where
  "attest_absence x fs forbidden_paths forbidden_digests max_files max_bytes =
     rbind (map_err Io (fs_canonicalize fs)) (\<lambda>root.
     rbind (each (check_path fs) forbidden_paths) (\<lambda>_.
     rbind (collect_regular_files [] (fs_tree fs) max_files ([], 0)) (\<lambda>(paths, _).
     rbind (fold_results (scan_path x forbidden_digests max_files max_bytes) (0, 0) (sort_key fst paths)) (\<lambda>(scanned_files, scanned_bytes).
       Inr \<lparr>la_method = ''path-and-sha256-scan-v1'', la_recovery_root = root, la_forbidden_paths_absent = True,
         la_forbidden_digests_absent = True, la_scanned_files = scanned_files, la_scanned_bytes = scanned_bytes\<rparr>))))"


section \<open>What the scan establishes\<close>

text \<open>The files below a node, the number of entries below it, and that there are only directories that
  can be listed and regular files.\<close>

fun tree_nodes :: "node \<Rightarrow> node list" where
  "tree_nodes (RegularFile content fault) = [RegularFile content fault]"
| "tree_nodes (Directory _ entries _) = concat (map (\<lambda>e. tree_nodes (snd e)) entries)"
| "tree_nodes _ = []"

fun tree_entries :: "node \<Rightarrow> nat" where
  "tree_entries (Directory _ entries _) = length entries + sum_list (map (\<lambda>e. tree_entries (snd e)) entries)"
| "tree_entries _ = 0"

fun plain_tree :: "node \<Rightarrow> bool" where
  "plain_tree (RegularFile _ _) = True"
| "plain_tree (Directory open_fault entries fault) \<longleftrightarrow> open_fault = None \<and> fault = None \<and> (\<forall>e \<in> set entries. plain_tree (snd e))"
| "plain_tree _ = False"

definition is_directory :: "node \<Rightarrow> bool" where
  "is_directory node \<longleftrightarrow> (case node of Directory _ _ _ \<Rightarrow> True | _ \<Rightarrow> False)"

lemma unat_add_of_nat: "unat (v :: u64) + n < 2 ^ 64 \<Longrightarrow> unat (v + of_nat n) = unat v + n"
  by (simp add: unat_word_ariths unat_of_nat take_bit_nat_eq_self)

lemma u64_bound: "unat (v :: u64) < 2 ^ 64"
  using unsigned_less [of v, where 'a = nat] by simp

lemma count_entry_eq:
  "v \<le> lim \<Longrightarrow> unat v + 1 \<le> unat lim \<Longrightarrow> count_entry lim v = Inr (v + 1)"
  "v \<le> lim \<Longrightarrow> \<not> unat v + 1 \<le> unat lim \<Longrightarrow> \<exists>e. count_entry lim v = Inl e"
  using unat_add_of_nat [of v 1] u64_bound [of lim]
  by (auto simp: count_entry_def checked_add_def word_less_nat_alt word_le_nat_alt)

lemma count_entries_eq:
  assumes "v \<le> lim"
  shows "if fault = None \<and> unat v + length es \<le> unat lim then count_entries lim v es fault = Inr (v + of_nat (length es))
     else \<exists>e. count_entries lim v es fault = Inl e"
  using assms
proof (induction lim v es fault rule: count_entries.induct)
  case (2 lim v error)
  then show ?case by (cases "count_entry lim v") auto
next
  case (3 lim v e es fault)
  show ?case
  proof (cases "unat v + 1 \<le> unat lim")
    case True
    then have v: "count_entry lim v = Inr (v + 1)" "unat (v + 1) = unat v + 1"
      using 3(2) count_entry_eq(1) unat_add_of_nat [of v 1] u64_bound [of lim] by auto
    then have "v + 1 \<le> lim" using True by (simp add: word_le_nat_alt)
    with 3(1) [OF v(1)] v show ?thesis by (auto simp: add.assoc)
  next
    case False
    then show ?thesis using count_entry_eq(2) [OF 3(2)] by auto
  qed
qed (auto simp: word_le_nat_alt)

definition collected :: "(Error, (path \<times> node) list \<times> u64) result \<Rightarrow> (path \<times> node) list \<Rightarrow> u64 \<Rightarrow> u64 \<Rightarrow> bool \<Rightarrow> nat \<Rightarrow> node list \<Rightarrow> bool" where
  "collected r out v lim ok n nodes \<longleftrightarrow>
     (if ok \<and> unat v + n \<le> unat lim
      then \<exists>new. r = Inr (out @ new, v + of_nat n) \<and> mset (map snd new) = mset nodes else \<exists>e. r = Inl e)"

lemma sum_list_sort_key [simp]: "sum_list (map f (sort_key k xs)) = (sum_list (map f xs) :: nat)"
  by (simp add: sum_mset_sum_list [symmetric])

lemma concat_sort_key [simp]: "mset (concat (map f (sort_key k xs))) = mset (concat (map f xs))"
  by (simp add: mset_concat sum_mset_sum_list [symmetric] image_mset.compositionality comp_def)

lemma collected_then:
  assumes "collected r out v lim ok n nodes"
    and "\<And>new. ok \<Longrightarrow> unat v + n \<le> unat lim \<Longrightarrow> r = Inr (out @ new, v + of_nat n) \<Longrightarrow> collected (f (out @ new, v + of_nat n)) (out @ new) (v + of_nat n) lim ok' m nodes'"
  shows "collected (rbind r f) out v lim (ok \<and> ok') (n + m) (nodes @ nodes')"
proof (cases "ok \<and> unat v + n \<le> unat lim")
  case True
  then obtain new where new: "r = Inr (out @ new, v + of_nat n)" "mset (map snd new) = mset nodes"
    using assms(1) by (auto simp: collected_def)
  have v: "unat (v + of_nat n) = unat v + n" using True u64_bound [of lim] by (intro unat_add_of_nat) simp
  show ?thesis
  proof (cases "ok' \<and> unat v + n + m \<le> unat lim")
    case t: True
    then obtain new' where "f (out @ new, v + of_nat n) = Inr ((out @ new) @ new', v + of_nat n + of_nat m)" "mset (map snd new') = mset nodes'"
      using assms(2) [of new] True v new(1) by (auto simp: collected_def)
    with new True t show ?thesis unfolding collected_def by (auto simp: add.assoc intro!: exI [of _ "new @ new'"])
  next
    case False
    then have "\<exists>e. f (out @ new, v + of_nat n) = Inl e" using assms(2) [of new] True v new(1) by (auto simp: collected_def)
    with new False show ?thesis by (auto simp: collected_def add.assoc)
  qed
next
  case False
  then obtain e where "r = Inl e" using assms(1) by (auto simp: collected_def)
  with False show ?thesis by (auto simp: collected_def)
qed

lemma collect_regular_files_collected:
  shows "snd st \<le> lim \<Longrightarrow> collected (collect_regular_files d t lim st) (fst st) (snd st) lim (is_directory t \<and> plain_tree t) (tree_entries t) (tree_nodes t)"
    and "snd st' \<le> lim' \<Longrightarrow> collected (collect_entries d' es lim' st') (fst st') (snd st') lim' (\<forall>e \<in> set es. plain_tree (snd e))
      (sum_list (map (\<lambda>e. tree_entries (snd e)) es)) (concat (map (\<lambda>e. tree_nodes (snd e)) es))"
proof (induction d t lim st and d' es lim' st' rule: collect_regular_files_collect_entries.induct)
  case (1 d t lim out v)
  show ?case
  proof (cases "\<exists>es fault. t = Directory None es fault")
    case True
    then obtain es fault where t: "t = Directory None es fault" by blast
    show ?thesis
    proof (cases "fault = None \<and> unat v + length es \<le> unat lim")
      case c: True
      then have ce: "count_entries lim v es fault = Inr (v + of_nat (length es))" using count_entries_eq [of v lim fault es] 1(2) by simp
      have v: "unat (v + of_nat (length es)) = unat v + length es" using c u64_bound [of lim] by (intro unat_add_of_nat) simp
      have "collected (collect_entries d (sort_key fst es) lim (out, v + of_nat (length es))) out (v + of_nat (length es)) lim
          (\<forall>e \<in> set es. plain_tree (snd e)) (sum_list (map (\<lambda>e. tree_entries (snd e)) es)) (concat (map (\<lambda>e. tree_nodes (snd e)) (sort_key fst es)))"
        using 1(1) [OF t refl ce] c v by (simp add: word_le_nat_alt)
      then show ?thesis using c v ce by (auto simp: t collected_def is_directory_def add.assoc)
    next
      case c: False
      then obtain e where "count_entries lim v es fault = Inl e" using count_entries_eq [of v lim fault es] 1(2) by (auto split: if_splits)
      with c show ?thesis by (auto simp: t collected_def)
    qed
  next
    case False
    then show ?thesis by (cases t) (auto simp: collected_def is_directory_def split: option.split)
  qed
next
  case (3 d name t es lim out v)
  show ?case
  proof (cases t)
    case (Directory o' es' f')
    have "collected (rbind (collect_regular_files (d @ [name]) t lim (out, v)) (\<lambda>st. collect_entries d es lim st)) out v lim
      (plain_tree t \<and> (\<forall>e \<in> set es. plain_tree (snd e))) (tree_entries t + sum_list (map (\<lambda>e. tree_entries (snd e)) es))
      (tree_nodes t @ concat (map (\<lambda>e. tree_nodes (snd e)) es))"
    proof (rule collected_then)
      show r: "collected (collect_regular_files (d @ [name]) t lim (out, v)) out v lim (plain_tree t) (tree_entries t) (tree_nodes t)"
        using 3(2) [OF Directory] 3(4) by (simp add: Directory is_directory_def)
      fix new assume a: "plain_tree t" "unat v + tree_entries t \<le> unat lim"
        and st: "collect_regular_files (d @ [name]) t lim (out, v) = Inr (out @ new, v + of_nat (tree_entries t))"
      have "unat (v + of_nat (tree_entries t)) = unat v + tree_entries t" using a u64_bound [of lim] by (intro unat_add_of_nat) simp
      with a have "v + of_nat (tree_entries t) \<le> lim" by (simp add: word_le_nat_alt)
      show "collected (collect_entries d es lim (out @ new, v + of_nat (tree_entries t))) (out @ new) (v + of_nat (tree_entries t)) lim
         (\<forall>e\<in>set es. plain_tree (snd e)) (\<Sum>e\<leftarrow>es. tree_entries (snd e)) (concat (map (\<lambda>e. tree_nodes (snd e)) es))"
        using 3(3) [OF Directory st] \<open>v + of_nat (tree_entries t) \<le> lim\<close> by simp
    qed
    then show ?thesis by (simp add: Directory)
  next
    case (RegularFile c f)
    then show ?thesis using 3(1) [OF RegularFile] 3(4) by (auto simp: collected_def split: if_splits)
  qed (auto simp: collected_def)
qed (auto simp: collected_def word_le_nat_alt)

lemma scan_chunks_eq:
  assumes "v \<le> lim"
  shows "if fault = None \<and> unat v + length rest \<le> unat lim
    then scan_chunks lim v hashed rest fault = Inr (v + of_nat (length rest), hashed @ rest)
    else \<exists>e. scan_chunks lim v hashed rest fault = Inl e"
  using assms
proof (induction lim v hashed rest fault rule: scan_chunks.induct)
  case (1 lim v hashed rest fault)
  let ?n = "length (take 65536 rest)"
  show ?case
  proof (cases "rest = [] \<or> unat lim < unat v + ?n")
    case True
    have "v + of_nat ?n > lim" if "unat v + ?n < 2 ^ 64" "unat lim < unat v + ?n"
      using unat_add_of_nat [OF that(1)] that(2) by (simp add: word_less_nat_alt)
    then show ?thesis using True 1(2)
      by (auto simp: scan_chunks.simps [of lim v hashed rest fault] scan_chunks.simps [of lim v hashed "[]" None] checked_add_def Let_def word_le_nat_alt unat_of_nat take_bit_nat_eq_self split: option.split)
  next
    case False
    have b: "unat v + ?n < 2 ^ 64" using False u64_bound [of lim] by simp
    then have v: "unat (v + of_nat ?n) = unat v + ?n" by (rule unat_add_of_nat)
    then have le: "v + of_nat ?n \<le> lim" using False by (simp add: word_le_nat_alt)
    have ca: "checked_add v (of_nat ?n) = Some (v + of_nat ?n)"
      using b by (simp add: checked_add_def unat_of_nat take_bit_nat_eq_self)
    have s: "scan_chunks lim v hashed rest fault = scan_chunks lim (v + of_nat ?n) (hashed @ take 65536 rest) (drop 65536 rest) fault"
      using False le ca by (simp add: scan_chunks.simps [of lim v hashed rest fault] Let_def leD)
    have "?n + length (drop 65536 rest) = length rest" by simp
    then have l: "of_nat ?n + of_nat (length (drop 65536 rest)) = (of_nat (length rest) :: u64)"
      "unat v + ?n + length (drop 65536 rest) = unat v + length rest" by (metis of_nat_add, simp)
    have "if fault = None \<and> unat v + length rest \<le> unat lim
      then scan_chunks lim (v + of_nat ?n) (hashed @ take 65536 rest) (drop 65536 rest) fault =
        Inr (v + of_nat ?n + of_nat (length (drop 65536 rest)), (hashed @ take 65536 rest) @ drop 65536 rest)
      else \<exists>e. scan_chunks lim (v + of_nat ?n) (hashed @ take 65536 rest) (drop 65536 rest) fault = Inl e"
      using 1(1) [OF _ refl ok_or_Inr_iff [THEN iffD2, OF ca]] le False v l(2) by (simp only: not_less) simp
    then show ?thesis unfolding s add.assoc l(1) append_assoc append_take_drop_id .
  qed
qed

definition file_ok :: "'x external_scheme \<Rightarrow> string list \<Rightarrow> node \<Rightarrow> bool" where
  "file_ok x forbidden node \<longleftrightarrow>
     (\<exists>content. node = RegularFile content None \<and> x_hex_encode x (x_sha256 x content) \<notin> set forbidden)"

fun file_bytes :: "node \<Rightarrow> nat" where
  "file_bytes (RegularFile content _) = length content"
| "file_bytes _ = 0"

lemma scan_paths_iff:
  assumes "v \<le> limb" "unat n + length paths \<le> unat limf"
  shows "fold_results (scan_path x forbidden limf limb) (n, v) paths = Inr r \<longleftrightarrow>
    (\<forall>node \<in> snd ` set paths. file_ok x forbidden node) \<and> unat v + sum_list (map (\<lambda>p. file_bytes (snd p)) paths) \<le> unat limb \<and>
    r = (n + of_nat (length paths), v + of_nat (sum_list (map (\<lambda>p. file_bytes (snd p)) paths)))"
  using assms
proof (induction paths arbitrary: n v)
  case (Cons p paths)
  obtain path node where p: "p = (path, node)" by (cases p)
  have n: "unat (n + 1) = unat n + 1" using unat_add_of_nat [of n 1] Cons.prems(2) u64_bound [of limf] by simp
  then have nf: "\<not> n + 1 > limf" using Cons.prems(2) by (simp add: word_less_nat_alt)
  show ?case
  proof (cases "\<exists>content. node = RegularFile content None \<and> unat v + length content \<le> unat limb")
    case True
    then obtain content where c: "node = RegularFile content None" "unat v + length content \<le> unat limb" by blast
    have v: "unat (v + of_nat (length content)) = unat v + length content" using c(2) u64_bound [of limb] by (intro unat_add_of_nat) simp
    have s: "scan_chunks limb v [] content None = Inr (v + of_nat (length content), content)"
      using scan_chunks_eq [OF Cons.prems(1), of None content "[]"] c(2) by simp
    have le: "v + of_nat (length content) \<le> limb" using v c(2) by (simp add: word_le_nat_alt)
    show ?thesis using Cons.IH [OF le, of "n + 1"] n Cons.prems(2) nf s v c(2)
      by (auto simp: p c(1) file_ok_def Let_def add.assoc)
  next
    case False
    have "\<exists>e. scan_path x forbidden limf limb (n, v) p = Inl e"
    proof (cases node)
      case (RegularFile content fault)
      with False have "\<exists>e. scan_chunks limb v [] content fault = Inl e"
        using scan_chunks_eq [OF Cons.prems(1), of fault content "[]"] by (auto split: if_splits)
      then show ?thesis using RegularFile nf by (auto simp: p Let_def)
    qed (use nf in \<open>auto simp: p Let_def\<close>)
    moreover have "\<not> (file_ok x forbidden node \<and> unat v + (file_bytes node + m) \<le> unat limb)" for m
      using False by (auto simp: file_ok_def)
    ultimately show ?thesis by (auto simp: p)
  qed
qed (auto simp: word_le_nat_alt)

lemma nodes_le_entries: "length (tree_nodes t) \<le> tree_entries t + (if is_directory t then 0 else 1)"
proof (induction t rule: tree_nodes.induct)
  case (2 o' es f')
  have "length (concat (map (\<lambda>e. tree_nodes (snd e)) es')) \<le> length es' + sum_list (map (\<lambda>e. tree_entries (snd e)) es')"
    if "set es' \<subseteq> set es" for es'
    using that
  proof (induction es')
    case (Cons e es')
    have "length (tree_nodes (snd e)) \<le> tree_entries (snd e) + 1"
      using 2 [of e] Cons.prems by (auto split: if_splits)
    with Cons show ?case by simp
  qed simp
  then show ?case by (simp add: is_directory_def)
qed (auto simp: is_directory_def)

lemma check_path_iff: "check_path fs p = Inr () \<longleftrightarrow> fs_exists fs p = Inr False"
  by (auto simp: check_path_def rbind_Inr_iff map_err_Inr_iff split: if_splits)

lemma attest_absence_iff:
  "attest_absence x fs paths forbidden max_files max_bytes = Inr a \<longleftrightarrow>
    (\<exists>root. fs_canonicalize fs = Inr root \<and> (\<forall>p \<in> set paths. fs_exists fs p = Inr False) \<and>
      is_directory (fs_tree fs) \<and> plain_tree (fs_tree fs) \<and> tree_entries (fs_tree fs) \<le> unat max_files \<and>
      (\<forall>node \<in> set (tree_nodes (fs_tree fs)). file_ok x forbidden node) \<and>
      sum_list (map file_bytes (tree_nodes (fs_tree fs))) \<le> unat max_bytes \<and>
      a = \<lparr>la_method = ''path-and-sha256-scan-v1'', la_recovery_root = root, la_forbidden_paths_absent = True,
        la_forbidden_digests_absent = True, la_scanned_files = of_nat (length (tree_nodes (fs_tree fs))),
        la_scanned_bytes = of_nat (sum_list (map file_bytes (tree_nodes (fs_tree fs))))\<rparr>)"
proof -
  let ?t = "fs_tree fs" and ?r = "collect_regular_files [] (fs_tree fs) max_files ([], 0)"
  have c: "collected ?r [] 0 max_files (is_directory ?t \<and> plain_tree ?t) (tree_entries ?t) (tree_nodes ?t)"
    using collect_regular_files_collected(1) [of "([], 0)" max_files "[]" ?t] by simp
  show ?thesis
  proof (cases "is_directory ?t \<and> plain_tree ?t \<and> tree_entries ?t \<le> unat max_files")
    case True
    then obtain files v where f: "?r = Inr (files, v)" "mset (map snd files) = mset (tree_nodes ?t)"
      using c by (auto simp: collected_def)
    let ?fs = "sort_key fst files"
    have m: "mset (map snd ?fs) = mset (tree_nodes ?t)" using f(2) by simp
    have set: "snd ` set ?fs = set (tree_nodes ?t)" using arg_cong [OF m, of set_mset] by simp
    have len: "length ?fs = length (tree_nodes ?t)" using arg_cong [OF m, of size] by simp
    have "sum_mset (mset (map file_bytes (map snd ?fs))) = sum_mset (mset (map file_bytes (tree_nodes ?t)))"
      using m by (metis mset_map)
    then have sum: "sum_list (map (\<lambda>p. file_bytes (snd p)) ?fs) = sum_list (map file_bytes (tree_nodes ?t))"
      by (simp only: sum_mset_sum_list map_map comp_def)
    have "length ?fs \<le> unat max_files" using True nodes_le_entries [of ?t] len by simp
    then have scan: "fold_results (scan_path x forbidden max_files max_bytes) (0, 0) ?fs = Inr r \<longleftrightarrow>
        (\<forall>node \<in> set (tree_nodes ?t). file_ok x forbidden node) \<and> sum_list (map file_bytes (tree_nodes ?t)) \<le> unat max_bytes \<and>
        r = (of_nat (length (tree_nodes ?t)), of_nat (sum_list (map file_bytes (tree_nodes ?t))))" for r
      using scan_paths_iff [of 0 max_bytes 0 ?fs max_files x forbidden r] unfolding set sum len by simp
    show ?thesis using True
      by (auto simp: attest_absence_def f(1) scan rbind_Inr_iff map_err_Inr_iff each_Inr_iff check_path_iff
          simp del: collect_regular_files.simps)
  next
    case False
    then obtain e where "?r = Inl e" using c by (auto simp: collected_def split: if_splits)
    with False show ?thesis by (auto simp: attest_absence_def rbind_Inr_iff simp del: collect_regular_files.simps)
  qed
qed

section \<open>Properties\<close>

text \<open>(C36) The oracle is exact: an attestation is issued precisely when the workspace resolves, no declared
  path exists, the tree holds only readable directories and regular files, the number of entries and
  the number of bytes are within the bounds, and no file has a forbidden digest. The attestation
  reports every file and every byte.\<close>

theorem attest_absence_exact:
  "attest_absence x fs paths forbidden max_files max_bytes = Inr a \<longleftrightarrow>
    (\<exists>root. fs_canonicalize fs = Inr root \<and> (\<forall>p \<in> set paths. fs_exists fs p = Inr False) \<and>
      is_directory (fs_tree fs) \<and> plain_tree (fs_tree fs) \<and> tree_entries (fs_tree fs) \<le> unat max_files \<and>
      (\<forall>node \<in> set (tree_nodes (fs_tree fs)). file_ok x forbidden node) \<and>
      sum_list (map file_bytes (tree_nodes (fs_tree fs))) \<le> unat max_bytes \<and>
      a = \<lparr>la_method = ''path-and-sha256-scan-v1'', la_recovery_root = root, la_forbidden_paths_absent = True,
        la_forbidden_digests_absent = True, la_scanned_files = of_nat (length (tree_nodes (fs_tree fs))),
        la_scanned_bytes = of_nat (sum_list (map file_bytes (tree_nodes (fs_tree fs))))\<rparr>)"
  by (rule attest_absence_iff)


theorem attest_absence_exact_witness:
  "\<exists>a. attest_absence toy_ext \<lparr>fs_tree = Directory None [(''d'', Directory None [(''f'', RegularFile [65, 66] None)] None)] None,
      fs_canonicalize = Inr ''/r'', fs_exists = (\<lambda>_. Inr False), fs_lstat = (\<lambda>_. Inr ())\<rparr> [''/lost''] [''aa''] 2 2 = Inr a \<and>
    la_scanned_files a = 1 \<and> la_scanned_bytes a = 2"
  unfolding attest_absence_exact by (simp add: is_directory_def file_ok_def toy_ext_def)

text \<open>A forbidden digest that is not in the form the encoder prints protects nothing: the scan behaves
  as if it were not in the list. \<open>hex::encode\<close> prints lowercase digits, while the registry accepts
  digests in uppercase.\<close>

theorem forbidden_digest_inert:
  assumes "\<And>bs. x_hex_encode x bs \<noteq> d"
  shows "attest_absence x fs paths (d # forbidden) max_files max_bytes = attest_absence x fs paths forbidden max_files max_bytes"
proof -
  have "scan_path x (d # forbidden) max_files max_bytes st p = scan_path x forbidden max_files max_bytes st p" for st p
    using assms by (cases st; cases p) (auto simp: Let_def split: node.split intro!: rbind_cong)
  then have "scan_path x (d # forbidden) max_files max_bytes = scan_path x forbidden max_files max_bytes" by (intro ext)
  then show ?thesis by (simp add: attest_absence_def)
qed

theorem forbidden_digest_inert_witness:
  "attest_absence toy_ext \<lparr>fs_tree = Directory None [(''lost'', RegularFile [65] None)] None, fs_canonicalize = Inr ''/r'',
      fs_exists = (\<lambda>_. Inr False), fs_lstat = (\<lambda>_. Inr ())\<rparr> [] [''EB''] 9 9 =
   attest_absence toy_ext \<lparr>fs_tree = Directory None [(''lost'', RegularFile [65] None)] None, fs_canonicalize = Inr ''/r'',
      fs_exists = (\<lambda>_. Inr False), fs_lstat = (\<lambda>_. Inr ())\<rparr> [] [] 9 9"
proof (rule forbidden_digest_inert)
  fix bs
  have n: "nibble_char n \<noteq> CHR ''E''" if "n < 16" for n
  proof
    assume e: "nibble_char n = CHR ''E''"
    have "of_char (char_of (97 + n) :: char) = (97 + n :: nat)" using that by (simp add: of_char_of)
    with e show False by (simp add: nibble_char_def)
  qed
  have "CHR ''E'' \<notin> set (toy_hex bs)"
  proof (induction bs)
    case (Cons b bs)
    have "unat b div 16 < 16" "unat b mod 16 < 16" using unat_byte_bound [of b] by (simp_all add: less_mult_imp_div_less)
    then have "nibble_char (unat b div 16) \<noteq> CHR ''E''" "nibble_char (unat b mod 16) \<noteq> CHR ''E''" by (simp_all only: n not_False_eq_True)
    with Cons show ?case by (metis list.set_intros set_ConsD toy_hex.simps(2))
  qed simp
  then show "x_hex_encode toy_ext bs \<noteq> ''EB''" by (auto simp: toy_ext_def)
qed

end
