(* ===== verification/Machine.thy ===== *)
theory Machine
  imports Model
begin

text \<open>
  What a transition table means: a Mealy machine given by its step function, the output sequence of
  a run and idempotence of an input. The synthesizer reads a flat table keyed by (state, input), the
  checker a table of tables, each with its own interpreter; the locale \<open>interpreter\<close> states what
  both promise, and both are interpretations of it.
\<close>

type_synonym machine = "string \<Rightarrow> string \<Rightarrow> (string \<times> string) option"

primrec machine_outputs :: "machine \<Rightarrow> string \<Rightarrow> string list \<Rightarrow> string list option" where
  "machine_outputs step s [] = Some []"
| "machine_outputs step s (i # is) =
     (case step s i of None \<Rightarrow> None
      | Some (next, out) \<Rightarrow> map_option (\<lambda>outs. out # outs) (machine_outputs step next is))"

text \<open>Applying an input once more changes neither state nor output.\<close>

definition machine_idempotent :: "machine \<Rightarrow> string \<Rightarrow> string \<Rightarrow> bool option" where
  "machine_idempotent step s i =
     (case step s i of None \<Rightarrow> None
      | Some (next, out) \<Rightarrow> map_option (\<lambda>r. r = (next, out)) (step next i))"

text \<open>The machine is total on the grammar and stays within it.\<close>

definition machine_total :: "Grammar \<Rightarrow> machine \<Rightarrow> bool" where
  "machine_total g step \<longleftrightarrow> (\<forall>s \<in> set (gr_states g). \<forall>i \<in> set (gr_inputs g).
     \<exists>n \<in> set (gr_states g). \<exists>out \<in> set (gr_outputs g). step s i = Some (n, out))"

lemma machine_total_outputs:
  assumes "machine_total g step" "s \<in> set (gr_states g)" "set is \<subseteq> set (gr_inputs g)"
  shows "\<exists>outs. machine_outputs step s is = Some outs \<and> length outs = length is \<and> set outs \<subseteq> set (gr_outputs g)"
  using assms(2,3)
proof (induction "is" arbitrary: s)
  case (Cons i "is")
  from Cons.prems assms(1) obtain n out where
    n: "n \<in> set (gr_states g)" "out \<in> set (gr_outputs g)" "step s i = Some (n, out)"
    by (fastforce simp: machine_total_def)
  from Cons.IH [OF n(1)] Cons.prems n show ?case by auto
qed simp

lemma machine_total_idempotent:
  assumes "machine_total g step" "s \<in> set (gr_states g)" "i \<in> set (gr_inputs g)"
  shows "\<exists>b. machine_idempotent step s i = Some b"
proof -
  from assms obtain n out where n: "n \<in> set (gr_states g)" "step s i = Some (n, out)"
    by (fastforce simp: machine_total_def)
  moreover from n assms obtain n' out' where "step n i = Some (n', out')"
    by (fastforce simp: machine_total_def)
  ultimately show ?thesis by (simp add: machine_idempotent_def)
qed

text \<open>A machine over the grammar: total on it and undefined elsewhere.\<close>

definition machine_over :: "Grammar \<Rightarrow> machine \<Rightarrow> bool" where
  "machine_over g step \<longleftrightarrow> machine_total g step \<and>
     (\<forall>s i. step s i \<noteq> None \<longrightarrow> s \<in> set (gr_states g) \<and> i \<in> set (gr_inputs g))"

section \<open>Evidence as a specification\<close>

text \<open>What a fragment demands of a machine; a held-out trace is kept from the synthesizer.\<close>

fun meets :: "Grammar \<Rightarrow> machine \<Rightarrow> FragmentContent \<Rightarrow> bool" where
  "meets g m (Transition state input next_state output) = (m state input = Some (next_state, output))"
| "meets g m (Trace role state inputs outputs) = (machine_outputs m state inputs = Some outputs)"
| "meets g m (NegativeCase state inputs forbidden) =
     (\<exists>outs. machine_outputs m state inputs = Some outs \<and> outs \<noteq> forbidden)"
| "meets g m (MetamorphicProperty state input repetitions) =
     (2 \<le> repetitions \<and> machine_idempotent m state input = Some True)"
| "meets g m (StatePolicy states initial_state) = (states = gr_states g \<and> initial_state = gr_initial_state g)"

fun held_out :: "FragmentContent \<Rightarrow> bool" where
  "held_out (Trace HeldOut _ _ _) = True"
| "held_out _ = False"

text \<open>A fragment whose runs only use symbols of the grammar.\<close>

fun in_scope :: "Grammar \<Rightarrow> FragmentContent \<Rightarrow> bool" where
  "in_scope g (Trace role state inputs outputs) = (state \<in> set (gr_states g) \<and> set inputs \<subseteq> set (gr_inputs g))"
| "in_scope g (NegativeCase state inputs forbidden) = (state \<in> set (gr_states g) \<and> set inputs \<subseteq> set (gr_inputs g))"
| "in_scope g (MetamorphicProperty state input repetitions) = (state \<in> set (gr_states g) \<and> input \<in> set (gr_inputs g))"
| "in_scope g _ = True"

section \<open>Interpreters of tables\<close>

text \<open>
  \<open>run\<close> and \<open>stable\<close> are the loops of an interpreter after their first step: \<open>run\<close> carries the state
  and the outputs so far, \<open>stable\<close> the state and the number of repetitions left.
\<close>

locale interpreter =
  fixes look :: "'t \<Rightarrow> string \<Rightarrow> string \<Rightarrow> (string \<times> string) option"
    and run :: "'t \<Rightarrow> string \<Rightarrow> string list \<Rightarrow> string list \<Rightarrow> (Error, string list) result"
    and stable :: "'t \<Rightarrow> string \<Rightarrow> string \<Rightarrow> string \<Rightarrow> string \<Rightarrow> nat \<Rightarrow> (Error, bool) result"
    and bad_trace :: Error
    and bad_property :: Error
  assumes run_Nil: "run t s outs [] = Inr outs"
    and run_Cons: "run t s outs (i # is) =
      (case look t s i of None \<Rightarrow> Inl bad_trace | Some (next, out) \<Rightarrow> run t next (outs @ [out]) is)"
    and stable_0: "stable t i sn so s 0 = Inr True"
    and stable_Suc: "stable t i sn so s (Suc k) =
      (case look t s i of None \<Rightarrow> Inl bad_property
       | Some (next, out) \<Rightarrow> if next \<noteq> sn \<or> out \<noteq> so then Inr False else stable t i sn so next k)"
begin

text \<open>A run computes the outputs of the machine, and fails only where the machine has no step.\<close>

lemma run_machine:
  "run t s outs is = (case machine_outputs (look t) s is of None \<Rightarrow> Inl bad_trace | Some os \<Rightarrow> Inr (outs @ os))"
proof (induction "is" arbitrary: s outs)
  case (Cons i "is")
  then show ?case by (auto simp: run_Cons split: option.splits)
qed (simp add: run_Nil)

text \<open>Checking one repetition more than the first is enough: the result does not depend on how many.\<close>

lemma stable_fixed: "look t s i = Some (s, out) \<Longrightarrow> stable t i s out s k = Inr True"
  by (induction k) (auto simp: stable_0 stable_Suc)

lemma stable_machine:
  assumes "look t s i = Some (next, out)"
  shows "stable t i next out next (Suc k) =
    (case machine_idempotent (look t) s i of None \<Rightarrow> Inl bad_property | Some b \<Rightarrow> Inr b)"
  using assms by (auto simp: stable_Suc machine_idempotent_def stable_fixed split: option.splits)

end

end
