(* ===== verification/Synthesizer.thy ===== *)
theory Synthesizer
  imports Machine
begin

text \<open>
  The synthesizer (\<open>src/synthesizer.rs\<close>): bounded enumeration of every transition table of the
  grammar (\<open>fsm-v1\<close>) and the direct reading of a complete transition contract (\<open>fsm-v0\<close>). The
  recursion over the index of a cell is a recursion over the cells left; the mutable arguments of
  \<open>enumerate\<close> are the record \<open>Search\<close>, pushed and popped as in the source.
\<close>

type_synonym flat_table = "(string \<times> string, string \<times> string) btree_map"
type_synonym cell = "string \<times> string"

section \<open>The interpreter of the flat table\<close>

primrec execute_loop :: "flat_table \<Rightarrow> string \<Rightarrow> string list \<Rightarrow> string list \<Rightarrow> (Error, string list) result" where
  "execute_loop table state outputs [] = Inr outputs"
| "execute_loop table state outputs (input # inputs) =
     (case bt_get table (state, input) of
        None \<Rightarrow> Inl (InvalidEvidence ''trace uses an unknown symbol'')
      | Some (next_state, output) \<Rightarrow> execute_loop table next_state (outputs @ [output]) inputs)"

definition execute :: "flat_table \<Rightarrow> string \<Rightarrow> string list \<Rightarrow> (Error, string list) result" where
  "execute table initial_state inputs = execute_loop table initial_state [] inputs"

primrec idempotent_loop :: "flat_table \<Rightarrow> string \<Rightarrow> string \<Rightarrow> string \<Rightarrow> string \<Rightarrow> nat \<Rightarrow> (Error, bool) result" where
  "idempotent_loop table input stable_state stable_output state 0 = Inr True"
| "idempotent_loop table input stable_state stable_output state (Suc k) =
     (case bt_get table (state, input) of
        None \<Rightarrow> Inl (InvalidEvidence ''property uses an unknown symbol'')
      | Some (next_state, output) \<Rightarrow>
          if next_state \<noteq> stable_state \<or> output \<noteq> stable_output then Inr False
          else idempotent_loop table input stable_state stable_output next_state k)"

definition idempotent :: "flat_table \<Rightarrow> string \<Rightarrow> string \<Rightarrow> u32 \<Rightarrow> (Error, bool) result" where
  "idempotent table initial_state input repetitions =
     (case bt_get table (initial_state, input) of
        None \<Rightarrow> Inl (InvalidEvidence ''property uses an unknown symbol'')
      | Some (stable_state, stable_output) \<Rightarrow>
          idempotent_loop table input stable_state stable_output stable_state (unat repetitions - 1))"

section \<open>Evidence satisfaction\<close>

definition flat_table_of :: "Transition list \<Rightarrow> flat_table" where
  "flat_table_of transitions =
     bt_collect (map (\<lambda>t. ((tr_state t, tr_input t), (tr_next_state t, tr_output t))) transitions)"

definition satisfies_content :: "flat_table \<Rightarrow> Grammar \<Rightarrow> FragmentContent \<Rightarrow> (Error, bool) result" where
  "satisfies_content table g content =
     (case content of
        Transition state input next_state output \<Rightarrow>
          Inr (bt_get table (state, input) = Some (next_state, output))
      | Trace role initial_state inputs outputs \<Rightarrow>
          (case role of
             Training \<Rightarrow> rbind (execute table initial_state inputs) (\<lambda>observed. Inr (observed = outputs))
           | HeldOut \<Rightarrow> Inr True)
      | NegativeCase initial_state inputs forbidden_outputs \<Rightarrow>
          rbind (execute table initial_state inputs) (\<lambda>observed. Inr (observed \<noteq> forbidden_outputs))
      | MetamorphicProperty initial_state input repetitions \<Rightarrow>
          if repetitions < 2 then Inr False else idempotent table initial_state input repetitions
      | StatePolicy states initial_state \<Rightarrow>
          Inr (states = gr_states g \<and> initial_state = gr_initial_state g))"

primrec satisfies_loop :: "flat_table \<Rightarrow> Grammar \<Rightarrow> FragmentContent list \<Rightarrow> (Error, bool) result" where
  "satisfies_loop table g [] = Inr True"
| "satisfies_loop table g (content # contents) =
     rbind (satisfies_content table g content) (\<lambda>holds. if holds then satisfies_loop table g contents else Inr False)"

definition satisfies :: "Transition list \<Rightarrow> Grammar \<Rightarrow> FragmentContent list \<Rightarrow> (Error, bool) result" where
  "satisfies transitions g contents = satisfies_loop (flat_table_of transitions) g contents"

section \<open>Enumeration\<close>

record Search =
  se_assignment :: "Transition list"
  se_examined :: u64
  se_solutions :: "Transition list list"

text \<open>A loop with \<open>?\<close> in its body and a break once a second solution is known.\<close>

primrec for_choices :: "('a \<Rightarrow> Search \<Rightarrow> (Error, Search) result) \<Rightarrow> 'a list \<Rightarrow> Search \<Rightarrow> (Error, Search) result" where
  "for_choices body [] st = Inr st"
| "for_choices body (choice # choices) st =
     rbind (body choice st) (\<lambda>st'. if length (se_solutions st') > 1 then Inr st' else for_choices body choices st')"

definition examine :: "Grammar \<Rightarrow> FragmentContent list \<Rightarrow> Search \<Rightarrow> (Error, Search) result" where
  "examine g contents st =
     (if unat (se_examined st) + 1 \<ge> 2 ^ 64 then Inl (SearchExhausted ''candidate counter overflow'')
      else let st = st\<lparr>se_examined := se_examined st + 1\<rparr> in
        if se_examined st > gr_max_candidates g then Inl (SearchExhausted ''search budget exhausted'')
        else rbind (satisfies (se_assignment st) g contents) (\<lambda>holds.
          Inr (if holds then st\<lparr>se_solutions := se_solutions st @ [se_assignment st]\<rparr> else st)))"

primrec enumerate :: "cell list \<Rightarrow> cell list \<Rightarrow> Grammar \<Rightarrow> FragmentContent list \<Rightarrow> Search \<Rightarrow> (Error, Search) result" where
  "enumerate [] choices g contents st =
     (if length (se_solutions st) > 1 then Inr st else examine g contents st)"
| "enumerate (cell # cells) choices g contents st =
     (if length (se_solutions st) > 1 then Inr st
      else for_choices (\<lambda>(next_state, output) st.
             rbind (enumerate cells choices g contents
               (st\<lparr>se_assignment := se_assignment st @
                  [\<lparr>tr_state = fst cell, tr_input = snd cell, tr_next_state = next_state, tr_output = output\<rparr>]\<rparr>))
               (\<lambda>st'. Inr (st'\<lparr>se_assignment := butlast (se_assignment st')\<rparr>)))
           choices st)"

definition grammar_cells :: "Grammar \<Rightarrow> cell list" where
  "grammar_cells g = concat (map (\<lambda>state. map (\<lambda>input. (state, input)) (gr_inputs g)) (gr_states g))"

definition grammar_choices :: "Grammar \<Rightarrow> cell list" where
  "grammar_choices g = concat (map (\<lambda>state. map (\<lambda>output. (state, output)) (gr_outputs g)) (gr_states g))"

definition reconstruct_v1 :: "string \<Rightarrow> string \<Rightarrow> Grammar \<Rightarrow> FragmentContent list \<Rightarrow> (Error, Candidate \<times> u64) result" where
  "reconstruct_v1 component interface_version g contents =
     rbind (enumerate (grammar_cells g) (grammar_choices g) g contents
        \<lparr>se_assignment = [], se_examined = 0, se_solutions = []\<rparr>) (\<lambda>st.
       case se_solutions st of
         [] \<Rightarrow> Inl (ContradictoryEvidence ''no candidate satisfies the normalized evidence'')
       | [transitions] \<Rightarrow>
           Inr (\<lparr>cd_component = component, cd_interface_version = interface_version, cd_grammar = g,
                 cd_transitions = transitions\<rparr>, se_examined st)
       | _ \<Rightarrow> Inl (InsufficientEvidence ''evidence admits multiple candidates''))"

section \<open>The direct reconstruction\<close>

definition add_obligation :: "Grammar \<Rightarrow> (cell, Transition) btree_map \<Rightarrow> Transition \<Rightarrow> (Error, (cell, Transition) btree_map) result" where
  "add_obligation g obligations t =
     rbind (transition_validate g t) (\<lambda>_.
       case bt_get obligations (tr_state t, tr_input t) of
         Some previous \<Rightarrow>
           if previous \<noteq> t then Inl (ContradictoryEvidence ''contradictory transition obligations'')
           else Inr (bt_insert (tr_state t, tr_input t) t obligations)
       | None \<Rightarrow> Inr (bt_insert (tr_state t, tr_input t) t obligations))"

text \<open>The body of the two inner loops; the counter is checked against overflow, as built.\<close>

definition try_choice :: "Grammar \<Rightarrow> Transition \<Rightarrow> u64 \<times> Transition list \<Rightarrow> cell \<Rightarrow> (Error, u64 \<times> Transition list) result" where
  "try_choice g required = (\<lambda>(examined, transitions) (next_state, output).
     if unat examined + 1 \<ge> 2 ^ 64 then Inl (Panicked ''attempt to add with overflow'')
     else let examined = examined + 1 in
       if examined > gr_max_candidates g then Inl (SearchExhausted ''search budget exhausted'')
       else Inr (examined,
         if next_state = tr_next_state required \<and> output = tr_output required
         then transitions @ [required] else transitions))"

definition try_cell :: "Grammar \<Rightarrow> (cell, Transition) btree_map \<Rightarrow> u64 \<times> Transition list \<Rightarrow> cell \<Rightarrow> (Error, u64 \<times> Transition list) result" where
  "try_cell g obligations st cell =
     (case bt_get obligations cell of
        None \<Rightarrow> Inl (Panicked ''no entry found for key'')
      | Some required \<Rightarrow> fold_results (try_choice g required) st (grammar_choices g))"

definition reconstruct_v0 :: "string \<Rightarrow> string \<Rightarrow> Grammar \<Rightarrow> FragmentContent list \<Rightarrow> (Error, Candidate \<times> u64) result" where
  "reconstruct_v0 component interface_version g contents =
     rbind (fold_results (add_obligation g) [] (List.map_filter content_transition contents)) (\<lambda>obligations.
       let expected = length (gr_states g) * length (gr_inputs g) in
       if length obligations \<noteq> expected
       then Inl (InsufficientEvidence ''transition contract is not behaviorally complete'')
       else rbind (fold_results (try_cell g obligations) (0, []) (grammar_cells g)) (\<lambda>(examined, transitions).
         Inr (\<lparr>cd_component = component, cd_interface_version = interface_version, cd_grammar = g,
               cd_transitions = transitions\<rparr>, examined)))"

definition reconstruct :: "string \<Rightarrow> string \<Rightarrow> Grammar \<Rightarrow> FragmentContent list \<Rightarrow> (Error, Candidate \<times> u64) result" where
  "reconstruct component interface_version g contents =
     (if gr_version g = ''fsm-v0'' then reconstruct_v0 component interface_version g contents
      else if gr_version g = ''fsm-v1'' then reconstruct_v1 component interface_version g contents
      else Inl (InvalidRegistry ''unsupported grammar version''))"


section \<open>The interpreter computes the machine of the table\<close>

abbreviation flat_look :: "flat_table \<Rightarrow> machine" where
  "flat_look table \<equiv> (\<lambda>s i. bt_get table (s, i))"

interpretation flat: interpreter flat_look execute_loop idempotent_loop
  "InvalidEvidence ''trace uses an unknown symbol''" "InvalidEvidence ''property uses an unknown symbol''"
  by unfold_locales auto

lemma execute_machine:
  "execute table s is = (case machine_outputs (flat_look table) s is of
     None \<Rightarrow> Inl (InvalidEvidence ''trace uses an unknown symbol'') | Some outs \<Rightarrow> Inr outs)"
  by (simp add: execute_def flat.run_machine split: option.splits)

lemma repetitions_Suc: "\<not> (r :: u32) < 2 \<Longrightarrow> \<exists>k. unat r - Suc 0 = Suc k"
  by (auto simp: word_less_nat_alt intro!: exI [of _ "unat r - 2"])

lemma idempotent_machine:
  assumes "\<not> r < 2"
  shows "idempotent table s i r = (case machine_idempotent (flat_look table) s i of
     None \<Rightarrow> Inl (InvalidEvidence ''property uses an unknown symbol'') | Some b \<Rightarrow> Inr b)"
proof (cases "bt_get table (s, i)")
  case None
  then show ?thesis by (simp add: idempotent_def machine_idempotent_def)
next
  case (Some p)
  obtain k where k: "unat r - Suc 0 = Suc k" using repetitions_Suc [OF assms] ..
  obtain n out where p: "p = (n, out)" by (cases p)
  from Some p flat.stable_machine [of table s i n out k] show ?thesis by (simp add: idempotent_def k del: idempotent_loop.simps)
qed

lemma satisfies_content_meets:
  assumes "satisfies_content table g c = Inr b"
  shows "b \<longleftrightarrow> held_out c \<or> meets g (flat_look table) c"
  using assms
  by (cases c) (auto simp: satisfies_content_def execute_machine idempotent_machine not_less[symmetric]
      split: TraceRole.splits option.splits if_splits)

lemma satisfies_content_error:
  assumes "satisfies_content table g c = Inl e"
  shows "\<not> held_out c \<and> \<not> meets g (flat_look table) c"
  using assms
  by (cases c) (auto simp: satisfies_content_def execute_machine idempotent_machine not_less[symmetric]
      split: TraceRole.splits option.splits if_splits)

lemma satisfies_iff:
  "satisfies ts g cs = Inr True \<longleftrightarrow> (\<forall>c \<in> set cs. held_out c \<or> meets g (flat_look (flat_table_of ts)) c)"
proof -
  have "satisfies_loop table g cs = Inr True \<longleftrightarrow> (\<forall>c \<in> set cs. held_out c \<or> meets g (flat_look table) c)" for table
  proof (induction cs)
    case (Cons c cs)
    then show ?case
      by (cases "satisfies_content table g c") (auto dest: satisfies_content_meets satisfies_content_error)
  qed simp
  then show ?thesis by (simp add: satisfies_def)
qed

lemma satisfies_in_scope:
  assumes "machine_total g (flat_look (flat_table_of ts))" "\<forall>c \<in> set cs. held_out c \<or> in_scope g c"
  shows "is_ok (satisfies ts g cs)"
proof -
  have "is_ok (satisfies_content (flat_table_of ts) g c)" if "held_out c \<or> in_scope g c" for c
    using that
    by (cases c rule: held_out.cases)
      (auto simp: satisfies_content_def execute_machine idempotent_machine
        dest: machine_total_outputs [OF assms(1)] machine_total_idempotent [OF assms(1)])
  then have "is_ok (satisfies_loop (flat_table_of ts) g cs)"
    using assms(2)
  proof (induction cs)
    case (Cons c cs)
    then obtain b where "satisfies_content (flat_table_of ts) g c = Inr b"
      using \<open>\<And>c. held_out c \<or> in_scope g c \<Longrightarrow> is_ok (satisfies_content (flat_table_of ts) g c)\<close> [of c]
      by (auto simp: is_ok_iff)
    with Cons show ?case by simp
  qed simp
  then show ?thesis by (simp add: satisfies_def)
qed

section \<open>Enumeration is a scan of all tables\<close>

definition mk_transition :: "cell \<Rightarrow> cell \<Rightarrow> Transition" where
  "mk_transition cell choice =
     \<lparr>tr_state = fst cell, tr_input = snd cell, tr_next_state = fst choice, tr_output = snd choice\<rparr>"

primrec tables :: "cell list \<Rightarrow> cell list \<Rightarrow> Transition list list" where
  "tables [] choices = [[]]"
| "tables (cell # cells) choices =
     concat (map (\<lambda>choice. map (\<lambda>ts. mk_transition cell choice # ts) (tables cells choices)) choices)"

primrec scan :: "Grammar \<Rightarrow> FragmentContent list \<Rightarrow> Transition list list \<Rightarrow> Search \<Rightarrow> (Error, Search) result" where
  "scan g contents [] st = Inr st"
| "scan g contents (a # as) st =
     (if length (se_solutions st) > 1 then Inr st
      else rbind (examine g contents (st\<lparr>se_assignment := a\<rparr>)) (\<lambda>st'. scan g contents as (st'\<lparr>se_assignment := se_assignment st\<rparr>)))"

lemma scan_done: "length (se_solutions st) > 1 \<Longrightarrow> scan g contents as st = Inr st"
  by (cases as) auto

lemma scan_append: "scan g contents (as @ bs) st = rbind (scan g contents as st) (scan g contents bs)"
proof (induction as arbitrary: st)
  case (Cons a as)
  show ?case by (cases "examine g contents (st\<lparr>se_assignment := a\<rparr>)") (auto simp: Cons scan_done)
qed simp

lemma scan_assignment:
  "scan g contents as st = Inr st' \<Longrightarrow> se_assignment st' = se_assignment st"
  by (induction as arbitrary: st) (fastforce simp: rbind_Inr_iff split: if_split_asm)+

lemma scan_restore:
  "rbind (scan g contents as (st\<lparr>se_assignment := se_assignment st @ [t]\<rparr>))
     (\<lambda>st'. Inr (st'\<lparr>se_assignment := butlast (se_assignment st')\<rparr>)) = scan g contents as st"
proof (induction as arbitrary: st)
  case (Cons a as)
  show ?case
  proof (cases "examine g contents (st\<lparr>se_assignment := a\<rparr>)")
    case (Inr st1)
    then show ?thesis using Cons [of "st1\<lparr>se_assignment := se_assignment st\<rparr>"] by simp
  qed simp
qed simp

lemma enumerate_scan:
  "enumerate cells choices g contents st = scan g contents (map (\<lambda>ts. se_assignment st @ ts) (tables cells choices)) st"
proof (induction cells arbitrary: st)
  case Nil
  show ?case 
    by (cases "examine g contents st") (auto simp: examine_def Let_def rbind_Inr_iff split: if_split_asm)
next
  case (Cons cell cells)
  let ?body = "\<lambda>(next_state, output) st.
      rbind (enumerate cells choices g contents (st\<lparr>se_assignment := se_assignment st @
        [\<lparr>tr_state = fst cell, tr_input = snd cell, tr_next_state = next_state, tr_output = output\<rparr>]\<rparr>))
      (\<lambda>st'. Inr (st'\<lparr>se_assignment := butlast (se_assignment st')\<rparr>))"
  have body: "?body ch st = scan g contents (map (\<lambda>ts. se_assignment st @ mk_transition cell ch # ts) (tables cells choices)) st" for ch st
    using scan_restore [of g contents _ st "mk_transition cell ch"]
    by (cases ch) (simp add: Cons mk_transition_def)
  have loop: "\<not> length (se_solutions st) > 1 \<Longrightarrow> for_choices ?body chs st =
      scan g contents (concat (map (\<lambda>ch. map (\<lambda>ts. se_assignment st @ mk_transition cell ch # ts) (tables cells choices)) chs)) st" for chs st
  proof (induction chs arbitrary: st)
    case (Cons ch chs)
    let ?as = "map (\<lambda>ts. se_assignment st @ mk_transition cell ch # ts) (tables cells choices)"
    show ?case
    proof (cases "scan g contents ?as st")
      case (Inr st1)
      have "se_assignment st1 = se_assignment st" using Inr by (rule scan_assignment)
      with Inr Cons show ?thesis by (simp add: body scan_append scan_done del: case_prod_conv)
    qed (simp add: body scan_append del: case_prod_conv)
  qed simp
  show ?case
  proof (cases "length (se_solutions st) > 1")
    case False
    then show ?thesis using loop [OF False, of choices] by (simp add: map_concat comp_def)
  qed (simp add: scan_done)
qed

section \<open>Which tables are scanned\<close>

lemma tables_iff:
  "ts \<in> set (tables cells choices) \<longleftrightarrow>
     map (\<lambda>t. (tr_state t, tr_input t)) ts = cells \<and> (\<forall>t \<in> set ts. (tr_next_state t, tr_output t) \<in> set choices)"
proof (induction cells arbitrary: ts)
  case (Cons cell cells)
  have "t = mk_transition cell ch \<longleftrightarrow> (tr_state t, tr_input t) = cell \<and> (tr_next_state t, tr_output t) = ch" for t :: Transition and ch
    by (cases cell; cases ch) (auto simp: mk_transition_def)
  with Cons show ?case by (cases ts) (auto simp: image_iff)
qed auto

lemma length_tables: "length (tables cells choices) = length choices ^ length cells"
  by (induction cells) (auto simp: length_concat comp_def sum_list_triv)

lemma distinct_tables: "distinct choices \<Longrightarrow> distinct (tables cells choices)"
proof (induction cells)
  case (Cons cell cells)
  have inj: "mk_transition cell ch = mk_transition cell ch' \<longleftrightarrow> ch = ch'" for ch ch'
    by (cases ch; cases ch') (auto simp: mk_transition_def)
  have "distinct chs \<Longrightarrow> distinct (concat (map (\<lambda>choice. map (\<lambda>ts. mk_transition cell choice # ts) (tables cells choices)) chs))" for chs
    using Cons.IH [OF Cons.prems] by (induction chs) (auto simp: distinct_map inj_on_def inj)
  with Cons.prems show ?case by simp
qed simp

lemma set_cells: "set (grammar_cells g) = set (gr_states g) \<times> set (gr_inputs g)"
  by (auto simp: grammar_cells_def)

lemma set_choices: "set (grammar_choices g) = set (gr_states g) \<times> set (gr_outputs g)"
  by (auto simp: grammar_choices_def)

lemma length_cells: "length (grammar_cells g) = length (gr_states g) * length (gr_inputs g)"
  by (simp add: grammar_cells_def length_concat comp_def sum_list_triv)

lemma length_choices: "length (grammar_choices g) = length (gr_states g) * length (gr_outputs g)"
  by (simp add: grammar_choices_def length_concat comp_def sum_list_triv)

lemma distinct_pairs: "distinct xs \<Longrightarrow> distinct ys \<Longrightarrow> distinct (concat (map (\<lambda>x. map (\<lambda>y. (x, y)) ys) xs))"
  by (induction xs) (auto simp: distinct_map inj_on_def)

lemma grammar_ok_distinct:
  "grammar_ok g \<Longrightarrow> distinct (grammar_cells g)" "grammar_ok g \<Longrightarrow> distinct (grammar_choices g)"
  by (auto simp: grammar_cells_def grammar_choices_def grammar_ok_def symbols_ok_def intro!: distinct_pairs)

definition machine_of :: "Transition list \<Rightarrow> machine" where
  "machine_of ts = flat_look (flat_table_of ts)"

lemma machine_of_map:
  assumes "distinct (map (\<lambda>t. (tr_state t, tr_input t)) ts)"
  shows "machine_of ts s i = map_of (map (\<lambda>t. ((tr_state t, tr_input t), (tr_next_state t, tr_output t))) ts) (s, i)"
  using assms by (simp add: machine_of_def flat_table_of_def map_of_bt_collect_distinct comp_def)

lemma transition_eq:
  "t = \<lparr>tr_state = s, tr_input = i, tr_next_state = n, tr_output = out\<rparr> \<longleftrightarrow>
     tr_state t = s \<and> tr_input t = i \<and> tr_next_state t = n \<and> tr_output t = out" for t :: Transition
  by (cases t) auto

lemma bex_transition:
  "(\<exists>t \<in> A. s = tr_state t \<and> i = tr_input t \<and> n = tr_next_state t \<and> out = tr_output t) \<longleftrightarrow>
     \<lparr>tr_state = s, tr_input = i, tr_next_state = n, tr_output = out\<rparr> \<in> A" for A :: "Transition set"
  using transition_eq [of _ s i n out] by (metis (full_types))

lemma option_pair_eqI: "(\<And>a b. x = Some (a, b) \<longleftrightarrow> y = Some (a, b)) \<Longrightarrow> x = y"
  by (cases x; cases y) force+

lemma machine_of_iff:
  assumes "distinct (map (\<lambda>t. (tr_state t, tr_input t)) ts)"
  shows "machine_of ts s i = Some (n, out) \<longleftrightarrow> \<lparr>tr_state = s, tr_input = i, tr_next_state = n, tr_output = out\<rparr> \<in> set ts"
proof -
  have "machine_of ts s i = Some (n, out) \<longleftrightarrow>
      ((s, i), (n, out)) \<in> set (map (\<lambda>t. ((tr_state t, tr_input t), (tr_next_state t, tr_output t))) ts)"
    using assms by (subst machine_of_map) (simp_all add: map_of_eq_Some_iff comp_def)
  also have "\<dots> \<longleftrightarrow> \<lparr>tr_state = s, tr_input = i, tr_next_state = n, tr_output = out\<rparr> \<in> set ts"
    by (auto simp: image_iff bex_transition)
  finally show ?thesis .
qed

lemma table_machine_over:
  assumes "grammar_ok g" "ts \<in> set (tables (grammar_cells g) (grammar_choices g))"
  shows "machine_over g (machine_of ts)"
proof -
  from assms(2) have ts: "map (\<lambda>t. (tr_state t, tr_input t)) ts = grammar_cells g"
    "\<forall>t \<in> set ts. (tr_next_state t, tr_output t) \<in> set (grammar_choices g)" by (auto simp: tables_iff)
  have d: "distinct (map (\<lambda>t. (tr_state t, tr_input t)) ts)" using ts grammar_ok_distinct [OF assms(1)] by simp
  have cell: "(\<exists>t \<in> set ts. tr_state t = s \<and> tr_input t = i) \<longleftrightarrow> s \<in> set (gr_states g) \<and> i \<in> set (gr_inputs g)" for s i
  proof -
    have "(s, i) \<in> (\<lambda>t. (tr_state t, tr_input t)) ` set ts \<longleftrightarrow> (s, i) \<in> set (grammar_cells g)"
      by (simp add: ts(1) [symmetric])
    then show ?thesis by (auto simp: set_cells image_iff)
  qed
  have "\<exists>n \<in> set (gr_states g). \<exists>out \<in> set (gr_outputs g). machine_of ts s i = Some (n, out)"
    if "s \<in> set (gr_states g)" "i \<in> set (gr_inputs g)" for s i
  proof -
    from that cell obtain t where t: "t \<in> set ts" "tr_state t = s" "tr_input t = i" by blast
    have "\<lparr>tr_state = s, tr_input = i, tr_next_state = tr_next_state t, tr_output = tr_output t\<rparr> = t"
      using t(2,3) by (cases t) simp
    then have "machine_of ts s i = Some (tr_next_state t, tr_output t)"
      using t(1) by (simp only: machine_of_iff [OF d])
    with ts(2) t show ?thesis by (auto simp: set_choices)
  qed
  moreover have "s \<in> set (gr_states g) \<and> i \<in> set (gr_inputs g)" if "machine_of ts s i \<noteq> None" for s i
  proof -
    from that obtain n out where "machine_of ts s i = Some (n, out)" by auto
    then have "\<lparr>tr_state = s, tr_input = i, tr_next_state = n, tr_output = out\<rparr> \<in> set ts"
      by (simp only: machine_of_iff [OF d])
    then show ?thesis using cell [of s i] by (metis Transition.select_convs(1,2))
  qed
  ultimately show ?thesis by (auto simp: machine_over_def machine_total_def)
qed

lemma machine_over_table:
  assumes "grammar_ok g" "machine_over g m"
  obtains ts where "ts \<in> set (tables (grammar_cells g) (grammar_choices g))" "machine_of ts = m"
proof -
  let ?t = "\<lambda>(s, i). mk_transition (s, i) (the (m s i))"
  let ?ts = "map ?t (grammar_cells g)"
  have cell: "(tr_state (?t c), tr_input (?t c)) = c" for c by (cases c) (simp add: mk_transition_def)
  have keys: "map (\<lambda>t. (tr_state t, tr_input t)) ?ts = grammar_cells g"
    by (simp add: comp_def cell map_idI)
  have step: "\<exists>n out. m s i = Some (n, out) \<and> (n, out) \<in> set (grammar_choices g)" if "(s, i) \<in> set (grammar_cells g)" for s i
    using that assms(2) by (fastforce simp: set_cells set_choices machine_over_def machine_total_def)
  have "?ts \<in> set (tables (grammar_cells g) (grammar_choices g))"
    unfolding tables_iff using keys step by (fastforce simp: mk_transition_def)
  moreover have "machine_of ?ts s i = m s i" for s i
  proof -
    have d: "distinct (map (\<lambda>t. (tr_state t, tr_input t)) ?ts)" using keys grammar_ok_distinct [OF assms(1)] by simp
    have "machine_of ?ts s i = Some (n, out) \<longleftrightarrow> m s i = Some (n, out)" for n out
    proof
      assume "machine_of ?ts s i = Some (n, out)"
      then show "m s i = Some (n, out)" unfolding machine_of_iff [OF d] using step by (fastforce simp: mk_transition_def)
    next
      assume mi: "m s i = Some (n, out)"
      then have "(s, i) \<in> set (grammar_cells g)" using assms(2) by (auto simp: machine_over_def set_cells)
      then have "?t (s, i) \<in> set ?ts" by (simp only: set_map imageI)
      with mi show "machine_of ?ts s i = Some (n, out)" unfolding machine_of_iff [OF d] by (simp add: mk_transition_def)
    qed
    then show ?thesis by (rule option_pair_eqI)
  qed
  ultimately show thesis using that by blast
qed

section \<open>The outcome of the scan\<close>

abbreviation holds_for :: "Grammar \<Rightarrow> FragmentContent list \<Rightarrow> Transition list \<Rightarrow> bool" where
  "holds_for g contents ts \<equiv> satisfies ts g contents = Inr True"

lemma unat_Suc: "unat (n :: u64) + 1 < 2 ^ 64 \<Longrightarrow> unat (n + 1) = unat n + 1"
  using unat_add_lem [of n 1] by simp

lemma examine_InrD:
  assumes "examine g contents st = Inr st'"
  shows "se_solutions st' = se_solutions st @ (if holds_for g contents (se_assignment st) then [se_assignment st] else [])
    \<and> unat (se_examined st') = unat (se_examined st) + 1 \<and> se_examined st' \<le> gr_max_candidates g"
proof -
  obtain h where "satisfies (se_assignment st) g contents = Inr h"
    using assms by (auto simp: examine_def Let_def rbind_Inr_iff split: if_split_asm)
  with assms show ?thesis
    by (cases h) (auto simp: examine_def Let_def unat_Suc not_less not_le split: if_split_asm)
qed

lemma scan_solutions:
  assumes "scan g contents as st = Inr st'" "length (se_solutions st) \<le> 2"
  shows "se_solutions st' = take 2 (se_solutions st @ filter (holds_for g contents) as)
    \<and> (length (se_solutions st') \<le> 1 \<longrightarrow> unat (se_examined st') = unat (se_examined st) + length as)
    \<and> (se_examined st \<le> gr_max_candidates g \<longrightarrow> se_examined st' \<le> gr_max_candidates g)"
  using assms
proof (induction as arbitrary: st)
  case (Cons a as)
  show ?case
  proof (cases "length (se_solutions st) > 1")
    case True
    then have "st' = st" "length (se_solutions st) = 2" using Cons.prems by auto
    then show ?thesis by simp
  next
    case False
    with Cons.prems obtain st1 where
      1: "examine g contents (st\<lparr>se_assignment := a\<rparr>) = Inr st1"
        "scan g contents as (st1\<lparr>se_assignment := se_assignment st\<rparr>) = Inr st'"
      by (auto simp: rbind_Inr_iff)
    note e = examine_InrD [OF 1(1)]
    have "length (se_solutions (st1\<lparr>se_assignment := se_assignment st\<rparr>)) \<le> 2" using e False by simp
    moreover have "se_solutions st1 @ filter (holds_for g contents) as = se_solutions st @ filter (holds_for g contents) (a # as)"
      using e by simp
    ultimately show ?thesis using Cons.IH [OF 1(2)] e by (simp del: take_append filter.simps append_assoc)
  qed
qed simp

lemma scan_returns:
  assumes "\<forall>a \<in> set as. is_ok (satisfies a g contents)" "unat (se_examined st) + length as \<le> unat (gr_max_candidates g)"
  shows "\<exists>st'. scan g contents as st = Inr st'"
  using assms
proof (induction as arbitrary: st)
  case (Cons a as)
  have b: "unat (se_examined st) + 1 < 2 ^ 64"
    using Cons.prems(2) unsigned_less [of "gr_max_candidates g", where 'a = nat] by simp
  obtain h where h: "satisfies a g contents = Inr h" using Cons.prems(1) by (auto simp: is_ok_iff)
  have "se_examined st + 1 \<le> gr_max_candidates g" using Cons.prems(2) unat_Suc [OF b] by (simp add: word_le_nat_alt)
  then obtain st1 where st1: "examine g contents (st\<lparr>se_assignment := a\<rparr>) = Inr st1" "se_examined st1 = se_examined st + 1"
    using b h by (simp add: examine_def Let_def not_less [symmetric])
  have "\<exists>st'. scan g contents as (st1\<lparr>se_assignment := se_assignment st\<rparr>) = Inr st'"
    using Cons.prems b by (intro Cons.IH) (simp_all add: st1 unat_Suc)
  then show ?case by (simp add: st1)
qed simp

section \<open>Reconstruction by enumeration\<close>

abbreviation grammar_tables :: "Grammar \<Rightarrow> Transition list list" where
  "grammar_tables g \<equiv> tables (grammar_cells g) (grammar_choices g)"

abbreviation initial_search :: Search where
  "initial_search \<equiv> \<lparr>se_assignment = [], se_examined = 0, se_solutions = []\<rparr>"

definition search_space :: "Grammar \<Rightarrow> nat" where
  "search_space g = (length (gr_states g) * length (gr_outputs g)) ^ (length (gr_states g) * length (gr_inputs g))"

lemma length_grammar_tables: "length (grammar_tables g) = search_space g"
  by (simp add: length_tables length_cells length_choices search_space_def)

lemma enumerate_initial:
  "enumerate (grammar_cells g) (grammar_choices g) g contents initial_search = scan g contents (grammar_tables g) initial_search"
  by (simp add: enumerate_scan)

definition explains :: "Grammar \<Rightarrow> FragmentContent list \<Rightarrow> machine \<Rightarrow> bool" where
  "explains g contents m \<longleftrightarrow> machine_over g m \<and> (\<forall>c \<in> set contents. \<not> held_out c \<longrightarrow> meets g m c)"

lemma explains_tables:
  assumes "grammar_ok g"
  shows "explains g contents m \<longleftrightarrow>
    (\<exists>ts \<in> set (filter (holds_for g contents) (grammar_tables g)). machine_of ts = m)"
proof
  assume m: "explains g contents m"
  then obtain ts where "ts \<in> set (grammar_tables g)" "machine_of ts = m"
    using machine_over_table [OF assms] by (auto simp: explains_def)
  with m show "\<exists>ts \<in> set (filter (holds_for g contents) (grammar_tables g)). machine_of ts = m"
    by (auto simp: explains_def satisfies_iff machine_of_def)
next
  assume "\<exists>ts \<in> set (filter (holds_for g contents) (grammar_tables g)). machine_of ts = m"
  then show "explains g contents m" using table_machine_over [OF assms]
    by (auto simp: explains_def satisfies_iff machine_of_def)
qed

lemma machine_of_inj:
  assumes "grammar_ok g" "ts \<in> set (grammar_tables g)" "us \<in> set (grammar_tables g)" "machine_of ts = machine_of us"
  shows "ts = us"
proof (rule nth_equalityI)
  have k: "map (\<lambda>t. (tr_state t, tr_input t)) ts = grammar_cells g" "map (\<lambda>t. (tr_state t, tr_input t)) us = grammar_cells g"
    using assms(2,3) by (auto simp: tables_iff)
  show l: "length ts = length us" using arg_cong [OF k(1), of length] arg_cong [OF k(2), of length] by simp
  have d: "distinct (map (\<lambda>t. (tr_state t, tr_input t)) ts)" "distinct (map (\<lambda>t. (tr_state t, tr_input t)) us)"
    using k grammar_ok_distinct [OF assms(1)] by simp_all
  fix n assume n: "n < length ts"
  have key: "(tr_state (ts ! n), tr_input (ts ! n)) = (tr_state (us ! n), tr_input (us ! n))"
    using n l k by (metis (no_types, lifting) nth_map)
  have m: "machine_of xs (tr_state (xs ! n)) (tr_input (xs ! n)) = Some (tr_next_state (xs ! n), tr_output (xs ! n))"
    if "n < length xs" "distinct (map (\<lambda>t. (tr_state t, tr_input t)) xs)" for xs
  proof -
    have "\<lparr>tr_state = tr_state (xs ! n), tr_input = tr_input (xs ! n), tr_next_state = tr_next_state (xs ! n), tr_output = tr_output (xs ! n)\<rparr> = xs ! n"
      by (cases "xs ! n") simp
    then show ?thesis using that nth_mem by (simp only: machine_of_iff [OF that(2)])
  qed
  have "Some (tr_next_state (ts ! n), tr_output (ts ! n)) = Some (tr_next_state (us ! n), tr_output (us ! n))"
    using m [of ts] m [of us] n l d key assms(4) by simp
  with key show "ts ! n = us ! n" by (cases "ts ! n"; cases "us ! n") simp
qed


lemma reconstruct_v1_solution:
  assumes "reconstruct_v1 component iv g contents = Inr (cand, n)"
  shows "filter (holds_for g contents) (grammar_tables g) = [cd_transitions cand] \<and> unat n = search_space g \<and>
    n \<le> gr_max_candidates g \<and> cd_component cand = component \<and> cd_interface_version cand = iv \<and> cd_grammar cand = g"
proof -
  from assms obtain st where s: "scan g contents (grammar_tables g) initial_search = Inr st"
    unfolding reconstruct_v1_def enumerate_initial by (auto simp: rbind_Inr_iff)
  with assms have st: "scan g contents (grammar_tables g) initial_search = Inr st"
    "se_solutions st = [cd_transitions cand]" "n = se_examined st"
    "cd_component cand = component" "cd_interface_version cand = iv" "cd_grammar cand = g"
    unfolding reconstruct_v1_def enumerate_initial by (cases "se_solutions st" rule: remdups_adj.cases; auto)+
  from scan_solutions [OF st(1)] st(2) have "take 2 (filter (holds_for g contents) (grammar_tables g)) = [cd_transitions cand]"
    "unat n = search_space g" "n \<le> gr_max_candidates g"
    by (simp_all add: st(3) length_grammar_tables)
  then show ?thesis using st by (cases "filter (holds_for g contents) (grammar_tables g)" rule: remdups_adj.cases) auto
qed

lemma reconstruct_v1_outcome:
  assumes "grammar_ok g" "\<forall>c \<in> set contents. held_out c \<or> in_scope g c" "search_space g \<le> unat (gr_max_candidates g)"
  shows "reconstruct_v1 component iv g contents =
    (case filter (holds_for g contents) (grammar_tables g) of
       [] \<Rightarrow> Inl (ContradictoryEvidence ''no candidate satisfies the normalized evidence'')
     | [ts] \<Rightarrow> Inr (\<lparr>cd_component = component, cd_interface_version = iv, cd_grammar = g, cd_transitions = ts\<rparr>, of_nat (search_space g))
     | _ \<Rightarrow> Inl (InsufficientEvidence ''evidence admits multiple candidates''))"
proof -
  have "\<forall>a \<in> set (grammar_tables g). is_ok (satisfies a g contents)"
    using assms table_machine_over by (auto simp: machine_over_def machine_of_def intro!: satisfies_in_scope)
  then obtain st where st: "scan g contents (grammar_tables g) initial_search = Inr st"
    using scan_returns [of "grammar_tables g" g contents initial_search] assms(3) by (auto simp: length_grammar_tables)
  note sol = scan_solutions [OF st]
  show ?thesis
  proof (cases "filter (holds_for g contents) (grammar_tables g)" rule: remdups_adj.cases)
    case (2 ts)
    with sol have "unat (se_examined st) = search_space g" "se_solutions st = [ts]" by (auto simp: length_grammar_tables)
    then have "se_examined st = of_nat (search_space g)" by (simp add: \<open>unat (se_examined st) = search_space g\<close> [symmetric])
    with 2 \<open>se_solutions st = [ts]\<close> show ?thesis unfolding reconstruct_v1_def enumerate_initial by (simp add: st)
  qed (use sol in \<open>auto simp: reconstruct_v1_def enumerate_initial st numeral_2_eq_2\<close>)
qed

text \<open>(C3) When the enumeration returns a candidate, its machine is total over the grammar, meets every
  fragment the synthesizer may see, and is the only machine over the grammar that does; the whole
  search space was examined within the budget.\<close>

theorem reconstruct_v1_unique:
  assumes "grammar_ok g" "reconstruct_v1 component iv g contents = Inr (cand, n)"
  shows "{m. explains g contents m} = {machine_of (cd_transitions cand)} \<and>
    unat n = search_space g \<and> n \<le> gr_max_candidates g"
  using explains_tables [OF assms(1), of contents] reconstruct_v1_solution [OF assms(2)] by auto

definition sample_grammar :: Grammar where
  "sample_grammar = \<lparr>gr_version = ''fsm-v1'', gr_inputs = [''a''], gr_outputs = [''x'', ''y''], gr_states = [''s''],
     gr_initial_state = ''s'', gr_max_candidates = 16\<rparr>"

definition sample_contents :: "FragmentContent list" where
  "sample_contents = [StatePolicy [''s''] ''s'', Transition ''s'' ''a'' ''s'' ''x'', Trace HeldOut ''s'' [''a'', ''a''] [''x'', ''x'']]"

definition sample_candidate :: Candidate where
  "sample_candidate = \<lparr>cd_component = ''c'', cd_interface_version = ''1'', cd_grammar = sample_grammar,
     cd_transitions = [\<lparr>tr_state = ''s'', tr_input = ''a'', tr_next_state = ''s'', tr_output = ''x''\<rparr>]\<rparr>"

lemma sample_grammar_ok: "grammar_ok sample_grammar"
  by (simp add: grammar_ok_def symbols_ok_def sample_grammar_def)

lemma sample_reconstruct: "reconstruct_v1 ''c'' ''1'' sample_grammar sample_contents = Inr (sample_candidate, 2)"
  by (simp add: sample_grammar_def sample_contents_def sample_candidate_def reconstruct_v1_def grammar_cells_def
      grammar_choices_def examine_def satisfies_def satisfies_content_def flat_table_of_def bt_collect_def)

theorem reconstruct_v1_unique_witness:
  "{m. explains sample_grammar sample_contents m} = {machine_of (cd_transitions sample_candidate)} \<and>
    unat (2 :: u64) = search_space sample_grammar \<and> (2 :: u64) \<le> gr_max_candidates sample_grammar"
  by (rule reconstruct_v1_unique [OF sample_grammar_ok sample_reconstruct])

text \<open>(C31) Within the budget, and for evidence whose runs use only symbols of the grammar, the
  enumeration decides how many machines explain the evidence: none is contradictory evidence, two are
  insufficient evidence, and exactly one is returned.\<close>

theorem reconstruct_v1_decides:
  assumes "grammar_ok g" "\<forall>c \<in> set contents. held_out c \<or> in_scope g c" "search_space g \<le> unat (gr_max_candidates g)"
  shows "((\<nexists>m. explains g contents m) \<longrightarrow> reconstruct_v1 component iv g contents =
        Inl (ContradictoryEvidence ''no candidate satisfies the normalized evidence'')) \<and>
    ((\<exists>m m'. m \<noteq> m' \<and> explains g contents m \<and> explains g contents m') \<longrightarrow> reconstruct_v1 component iv g contents =
        Inl (InsufficientEvidence ''evidence admits multiple candidates'')) \<and>
    (\<forall>m. explains g contents m \<and> (\<forall>m'. explains g contents m' \<longrightarrow> m' = m) \<longrightarrow>
        (\<exists>cand n. reconstruct_v1 component iv g contents = Inr (cand, n) \<and> machine_of (cd_transitions cand) = m))"
proof -
  let ?sols = "filter (holds_for g contents) (grammar_tables g)"
  note out = reconstruct_v1_outcome [OF assms, of component iv]
  note ex = explains_tables [OF assms(1), of contents]
  have d: "distinct ?sols" using distinct_tables grammar_ok_distinct [OF assms(1)] by simp
  show ?thesis
  proof (cases ?sols rule: remdups_adj.cases)
    case 1
    have "\<nexists>m. explains g contents m" unfolding ex 1 by simp
    then show ?thesis using out 1 by simp
  next
    case (2 ts)
    have e: "explains g contents = (\<lambda>m. m = machine_of ts)" unfolding ex 2 by auto
    define cand where "cand = \<lparr>cd_component = component, cd_interface_version = iv, cd_grammar = g, cd_transitions = ts\<rparr>"
    have o: "reconstruct_v1 component iv g contents = Inr (cand, of_nat (search_space g))"
      unfolding out 2 cand_def by (simp only: list.case)
    have "cd_transitions cand = ts" unfolding cand_def by (simp only: Candidate.select_convs)
    with o show ?thesis unfolding e by blast
  next
    case (3 ts us rest)
    have "machine_of ts \<noteq> machine_of us"
    proof
      assume "machine_of ts = machine_of us"
      moreover have "ts \<in> set ?sols" "us \<in> set ?sols" unfolding 3 by simp_all
      ultimately have "ts = us" by (intro machine_of_inj [OF assms(1)]) simp_all
      then show False using d unfolding 3 by simp
    qed
    moreover have "explains g contents (machine_of ts)" "explains g contents (machine_of us)" unfolding ex 3 by auto
    moreover have "reconstruct_v1 component iv g contents = Inl (InsufficientEvidence ''evidence admits multiple candidates'')"
      using out 3 by simp
    ultimately show ?thesis by metis
  qed
qed

theorem reconstruct_v1_decides_witness:
  "\<exists>cand n. reconstruct_v1 ''c'' ''1'' sample_grammar sample_contents = Inr (cand, n) \<and>
     machine_of (cd_transitions cand) = machine_of (cd_transitions sample_candidate)"
proof -
  have "\<forall>c \<in> set sample_contents. held_out c \<or> in_scope sample_grammar c"
    "search_space sample_grammar \<le> unat (gr_max_candidates sample_grammar)"
    by (simp_all add: sample_contents_def sample_grammar_def search_space_def)
  note decides = reconstruct_v1_decides [OF sample_grammar_ok this, of "''c''" "''1''"]
  have "explains sample_grammar sample_contents m \<longleftrightarrow> m = machine_of (cd_transitions sample_candidate)" for m
    unfolding explains_tables [OF sample_grammar_ok] using reconstruct_v1_solution [OF sample_reconstruct] by auto
  with decides show ?thesis by blast
qed

section \<open>Reconstruction from a complete contract\<close>

abbreviation tr_cell :: "Transition \<Rightarrow> cell" where
  "tr_cell t \<equiv> (tr_state t, tr_input t)"

definition obligations_ok :: "Grammar \<Rightarrow> Transition list \<Rightarrow> (cell, Transition) btree_map \<Rightarrow> bool" where
  "obligations_ok g ts m \<longleftrightarrow> bt_wf m \<and> (\<forall>c t. bt_get m c = Some t \<longleftrightarrow> t \<in> set ts \<and> tr_cell t = c) \<and>
     (\<forall>t \<in> set ts. transition_ok g t)"

lemma add_obligation_ok:
  assumes "obligations_ok g ts m" "add_obligation g m t = Inr m'"
  shows "obligations_ok g (ts @ [t]) m'"
proof -
  have t: "transition_ok g t" "m' = bt_insert (tr_cell t) t m" "\<And>u. bt_get m (tr_cell t) = Some u \<Longrightarrow> u = t"
    using assms(2) by (auto simp: add_obligation_def rbind_Inr_iff valid_simps split: option.split_asm if_split_asm)
  have "bt_wf m" and k: "\<And>c u. bt_get m c = Some u \<longleftrightarrow> u \<in> set ts \<and> tr_cell u = c"
    using assms(1) by (auto simp: obligations_ok_def)
  have "bt_get m' c = Some u \<longleftrightarrow> u \<in> set (ts @ [t]) \<and> tr_cell u = c" for c u
    using \<open>bt_wf m\<close> t k [of c u] by (auto simp: t(2) k)
  then show ?thesis using assms(1) t(1) \<open>bt_wf m\<close> by (auto simp: obligations_ok_def t(2))
qed

lemma obligations_fold:
  "fold_results (add_obligation g) m ts = Inr m' \<Longrightarrow> obligations_ok g us m \<Longrightarrow> obligations_ok g (us @ ts) m'"
proof (induction ts arbitrary: m us)
  case (Cons t ts)
  then obtain m1 where m1: "add_obligation g m t = Inr m1" "fold_results (add_obligation g) m1 ts = Inr m'"
    by (auto simp: rbind_Inr_iff)
  from Cons.IH [OF m1(2) add_obligation_ok [OF Cons.prems(2) m1(1)]] show ?case by simp
qed simp

text \<open>A map over cells of the grammar with as many entries as there are cells has them all.\<close>

lemma obligations_complete:
  assumes "grammar_ok g" "obligations_ok g ts m" "length m = length (gr_states g) * length (gr_inputs g)"
  shows "fst ` set m = set (grammar_cells g)"
proof (rule card_subset_eq)
  have wf: "distinct (map fst m)" using assms(2) by (simp add: obligations_ok_def bt_wf_distinct)
  show "fst ` set m \<subseteq> set (grammar_cells g)"
  proof
    fix c assume "c \<in> fst ` set m"
    then obtain t where "bt_get m c = Some t" using wf by (force simp: map_of_eq_Some_iff)
    with assms(2) have "t \<in> set ts" "tr_cell t = c" unfolding obligations_ok_def by blast+
    with assms(2) show "c \<in> set (grammar_cells g)"
      by (auto simp: obligations_ok_def transition_ok_def set_cells)
  qed
  have "card (fst ` set m) = length m" using distinct_card [OF wf] by simp
  also have "\<dots> = card (set (grammar_cells g))"
    using distinct_card [OF grammar_ok_distinct(1) [OF assms(1)]] assms(3) by (simp add: length_cells)
  finally show "card (fst ` set m) = card (set (grammar_cells g))" .
qed simp

lemma max_candidates_small: "grammar_ok g \<Longrightarrow> unat (gr_max_candidates g) \<le> 1000000"
  by (simp add: grammar_ok_def word_le_nat_alt)

lemma try_choice_eq:
  assumes "grammar_ok g" "unat n \<le> unat (gr_max_candidates g)"
  shows "try_choice g req (n, ts) ch =
    (if unat n + 1 \<le> unat (gr_max_candidates g)
     then Inr (n + 1, ts @ (if ch = (tr_next_state req, tr_output req) then [req] else []))
     else Inl (SearchExhausted ''search budget exhausted''))"
proof -
  have b: "unat n + 1 < 2 ^ 64" using assms max_candidates_small by fastforce
  then have "n + 1 > gr_max_candidates g \<longleftrightarrow> \<not> unat n + 1 \<le> unat (gr_max_candidates g)"
    by (simp add: word_less_nat_alt unat_Suc not_le)
  with b show ?thesis by (cases ch) (auto simp: try_choice_def Let_def)
qed

lemma try_choices_InrD:
  assumes "grammar_ok g" "unat n \<le> unat (gr_max_candidates g)"
    "fold_results (try_choice g req) (n, ts) chs = Inr (n', ts')"
  shows "unat n' = unat n + length chs \<and> unat n' \<le> unat (gr_max_candidates g) \<and>
    ts' = ts @ map (\<lambda>_. req) (filter (\<lambda>ch. ch = (tr_next_state req, tr_output req)) chs)"
  using assms(2,3)
proof (induction chs arbitrary: n ts)
  case (Cons ch chs)
  have n: "unat n + 1 \<le> unat (gr_max_candidates g)"
    using Cons.prems by (auto simp: try_choice_eq [OF assms(1)] split: if_split_asm)
  then have "unat n + 1 < 2 ^ 64" using assms max_candidates_small by fastforce
  then have n1: "unat (n + 1) = unat n + 1" by (rule unat_Suc)
  from Cons.prems n have "fold_results (try_choice g req) (n + 1, ts @ (if ch = (tr_next_state req, tr_output req) then [req] else [])) chs = Inr (n', ts')"
    by (simp add: try_choice_eq [OF assms(1)])
  from Cons.IH [OF _ this] n n1 show ?case by auto
qed simp

lemma filter_eq_distinct: "distinct xs \<Longrightarrow> x \<in> set xs \<Longrightarrow> filter (\<lambda>y. y = x) xs = [x]"
  by (induction xs) (auto simp: filter_empty_conv)

lemma try_cell_Some:
  "bt_get m c = Some t \<Longrightarrow> try_cell g m st c = fold_results (try_choice g t) st (grammar_choices g)"
  by (simp add: try_cell_def)

lemma try_cells_InrD:
  assumes "grammar_ok g" "unat n \<le> unat (gr_max_candidates g)"
    "\<forall>c \<in> set cs. \<exists>t. bt_get m c = Some t \<and> transition_ok g t"
    "fold_results (try_cell g m) (n, ts) cs = Inr (n', ts')"
  shows "unat n' = unat n + length cs * length (grammar_choices g) \<and> unat n' \<le> unat (gr_max_candidates g) \<and>
    ts' = ts @ map (\<lambda>c. the (bt_get m c)) cs"
  using assms(2,3,4)
proof (induction cs arbitrary: n ts)
  case (Cons c cs)
  obtain t where t: "bt_get m c = Some t" "transition_ok g t" using Cons.prems(2) by auto
  with Cons.prems(3) obtain n1 ts1 where
    1: "fold_results (try_choice g t) (n, ts) (grammar_choices g) = Inr (n1, ts1)"
      "fold_results (try_cell g m) (n1, ts1) cs = Inr (n', ts')"
    by (auto simp: try_cell_Some rbind_Inr_iff)
  have "filter (\<lambda>ch. ch = (tr_next_state t, tr_output t)) (grammar_choices g) = [(tr_next_state t, tr_output t)]"
    using t(2) by (intro filter_eq_distinct grammar_ok_distinct assms(1)) (simp add: set_choices transition_ok_def)
  with try_choices_InrD [OF assms(1) Cons.prems(1) 1(1)]
  have "unat n1 = unat n + length (grammar_choices g)" "unat n1 \<le> unat (gr_max_candidates g)" "ts1 = ts @ [t]" by auto
  with Cons.IH [OF _ _ 1(2)] Cons.prems(2) t(1) show ?case by (simp add: algebra_simps)
qed simp

lemma try_choices_no_panic:
  assumes "grammar_ok g" "unat n \<le> unat (gr_max_candidates g)"
  shows "fold_results (try_choice g req) (n, ts) chs \<noteq> Inl (Panicked e)"
  using assms(2)
proof (induction chs arbitrary: n ts)
  case (Cons ch chs)
  show ?case
  proof (cases "unat n + 1 \<le> unat (gr_max_candidates g)")
    case True
    then have "unat n + 1 < 2 ^ 64" using assms max_candidates_small by fastforce
    then have "unat (n + 1) = unat n + 1" by (rule unat_Suc)
    with True Cons show ?thesis by (simp add: try_choice_eq [OF assms(1)])
  qed (use Cons.prems in \<open>simp add: try_choice_eq [OF assms(1)]\<close>)
qed simp

lemma try_cells_no_panic:
  assumes "grammar_ok g" "unat n \<le> unat (gr_max_candidates g)" "\<forall>c \<in> set cs. \<exists>t. bt_get m c = Some t"
  shows "fold_results (try_cell g m) (n, ts) cs \<noteq> Inl (Panicked e)"
  using assms(2,3)
proof (induction cs arbitrary: n ts)
  case (Cons c cs)
  obtain t where t: "bt_get m c = Some t" using Cons.prems(2) by auto
  show ?case
  proof (cases "fold_results (try_choice g t) (n, ts) (grammar_choices g)")
    case (Inl e')
    then show ?thesis using try_choices_no_panic [OF assms(1) Cons.prems(1)] t by (auto simp: try_cell_Some)
  next
    case (Inr p)
    obtain n1 ts1 where "p = (n1, ts1)" by (cases p)
    with Inr try_choices_InrD [OF assms(1) Cons.prems(1), of t ts "grammar_choices g" n1 ts1] Cons t
    show ?thesis by (auto simp: try_cell_Some)
  qed
qed simp

lemma reconstruct_v0_cases:
  assumes "grammar_ok g" "fold_results (add_obligation g) [] (List.map_filter content_transition contents) = Inr m"
    "length m = length (gr_states g) * length (gr_inputs g)"
  shows "\<forall>c \<in> set (grammar_cells g). \<exists>t. bt_get m c = Some t \<and> transition_ok g t \<and> tr_cell t = c \<and>
     t \<in> set (List.map_filter content_transition contents)"
    "\<forall>t \<in> set (List.map_filter content_transition contents). bt_get m (tr_cell t) = Some t \<and> tr_cell t \<in> set (grammar_cells g)"
proof -
  have "obligations_ok g [] []" by (simp add: obligations_ok_def)
  from obligations_fold [OF assms(2) this]
  have ok: "obligations_ok g (List.map_filter content_transition contents) m" by simp
  have keys: "fst ` set m = set (grammar_cells g)" by (rule obligations_complete [OF assms(1) ok assms(3)])
  show "\<forall>t \<in> set (List.map_filter content_transition contents). bt_get m (tr_cell t) = Some t \<and> tr_cell t \<in> set (grammar_cells g)"
    using ok by (auto simp: obligations_ok_def transition_ok_def set_cells)
  show "\<forall>c \<in> set (grammar_cells g). \<exists>t. bt_get m c = Some t \<and> transition_ok g t \<and> tr_cell t = c \<and>
     t \<in> set (List.map_filter content_transition contents)"
  proof
    fix c assume "c \<in> set (grammar_cells g)"
    then obtain t where "bt_get m c = Some t" using keys by (metis map_of_eq_None_iff option.exhaust)
    with ok show "\<exists>t. bt_get m c = Some t \<and> transition_ok g t \<and> tr_cell t = c \<and> t \<in> set (List.map_filter content_transition contents)"
      unfolding obligations_ok_def by blast
  qed
qed

lemma set_content_transitions:
  "t \<in> set (List.map_filter content_transition contents) \<longleftrightarrow> (\<exists>c \<in> set contents. content_transition c = Some t)"
  by (force simp: List.map_filter_def)

lemma content_transition_iff:
  "content_transition c = Some t \<longleftrightarrow> c = Transition (tr_state t) (tr_input t) (tr_next_state t) (tr_output t)"
  by (cases t; cases c) auto

definition is_contract :: "FragmentContent \<Rightarrow> bool" where
  "is_contract c \<longleftrightarrow> content_transition c \<noteq> None"

lemma reconstruct_v0_solution:
  assumes "grammar_ok g" "reconstruct_v0 component iv g contents = Inr (cand, n)"
  shows "cd_transitions cand \<in> set (grammar_tables g) \<and>
    set (cd_transitions cand) = set (List.map_filter content_transition contents) \<and>
    unat n = length (grammar_cells g) * length (grammar_choices g) \<and> n \<le> gr_max_candidates g"
proof -
  from assms(2) obtain m where m: "fold_results (add_obligation g) [] (List.map_filter content_transition contents) = Inr m"
    by (auto simp: reconstruct_v0_def rbind_Inr_iff)
  with assms(2) have len: "length m = length (gr_states g) * length (gr_inputs g)"
    by (auto simp: reconstruct_v0_def Let_def split: if_split_asm)
  with assms(2) m have f: "fold_results (try_cell g m) (0, []) (grammar_cells g) = Inr (n, cd_transitions cand)"
    by (auto simp: reconstruct_v0_def Let_def rbind_Inr_iff)
  note c = reconstruct_v0_cases [OF assms(1) m len]
  have r: "unat n = length (grammar_cells g) * length (grammar_choices g)" "unat n \<le> unat (gr_max_candidates g)"
    "cd_transitions cand = map (\<lambda>c. the (bt_get m c)) (grammar_cells g)"
    using try_cells_InrD [OF assms(1) _ _ f] c(1) by (auto simp: Ball_def)
  have "map (\<lambda>c. tr_cell (the (bt_get m c))) (grammar_cells g) = map id (grammar_cells g)"
    using c(1) by (intro map_cong) auto
  moreover have "\<forall>t \<in> set (cd_transitions cand). (tr_next_state t, tr_output t) \<in> set (grammar_choices g)"
    using c(1) by (auto simp: r(3) set_choices transition_ok_def)
  ultimately have "cd_transitions cand \<in> set (grammar_tables g)" by (simp add: tables_iff r(3) comp_def)
  moreover have "set (cd_transitions cand) = set (List.map_filter content_transition contents)"
    unfolding r(3) using c by (force simp: image_iff)
  ultimately show ?thesis using r by (simp add: word_le_nat_alt)
qed

text \<open>The direct reconstruction of a complete contract (\<open>fsm-v0\<close>) returns the table whose transitions
  are those of the contract; it is total over the grammar and the only machine that meets the
  contract, and the counter is the number of choices tried, within the budget.\<close>

theorem reconstruct_v0_unique:
  assumes "grammar_ok g" "reconstruct_v0 component iv g contents = Inr (cand, n)"
  shows "{m. explains g (filter is_contract contents) m} = {machine_of (cd_transitions cand)} \<and>
    unat n = length (grammar_cells g) * length (grammar_choices g) \<and> n \<le> gr_max_candidates g"
proof -
  let ?m = "machine_of (cd_transitions cand)"
  note sol = reconstruct_v0_solution [OF assms]
  have over: "machine_over g ?m" using table_machine_over [OF assms(1)] sol by blast
  have d: "distinct (map tr_cell (cd_transitions cand))"
    using sol grammar_ok_distinct [OF assms(1)] by (simp add: tables_iff)
  have meet: "meets g m c \<longleftrightarrow> m (tr_state t) (tr_input t) = Some (tr_next_state t, tr_output t)"
    if "content_transition c = Some t" for m c t
    using that by (simp add: content_transition_iff)
  have step: "?m s i = Some (n, out) \<longleftrightarrow> Transition s i n out \<in> set contents" for s i n out
    unfolding machine_of_iff [OF d] using sol by (simp add: set_content_transitions content_transition_iff)
  have "explains g (filter is_contract contents) ?m"
    using over step by (auto simp: explains_def is_contract_def meet content_transition_iff)
  moreover have "m = ?m" if m: "explains g (filter is_contract contents) m" for m
  proof (intro ext)
    fix s i
    show "m s i = ?m s i"
    proof (cases "?m s i")
      case None
      then have "s \<notin> set (gr_states g) \<or> i \<notin> set (gr_inputs g)"
        using over by (fastforce simp: machine_over_def machine_total_def)
      with m None show ?thesis unfolding explains_def machine_over_def by metis
    next
      case (Some p)
      obtain n out where p: "p = (n, out)" by (cases p)
      with Some step have "Transition s i n out \<in> set (filter is_contract contents)" by (simp add: is_contract_def)
      with m have "meets g m (Transition s i n out)" unfolding explains_def by fastforce
      with Some p show ?thesis by simp
    qed
  qed
  ultimately show ?thesis using sol by blast
qed

theorem reconstruct_v0_unique_witness:
  "{m. explains sample_grammar (filter is_contract sample_contents) m} = {machine_of (cd_transitions sample_candidate)} \<and>
    unat (2 :: u64) = length (grammar_cells sample_grammar) * length (grammar_choices sample_grammar) \<and>
    (2 :: u64) \<le> gr_max_candidates sample_grammar"
proof (rule reconstruct_v0_unique [OF sample_grammar_ok])
  show "reconstruct_v0 ''c'' ''1'' sample_grammar sample_contents = Inr (sample_candidate, 2)"
    by (simp add: sample_grammar_def sample_contents_def sample_candidate_def reconstruct_v0_def grammar_cells_def
        grammar_choices_def add_obligation_def transition_validate_def try_cell_def try_choice_def List.map_filter_def)
qed

lemma satisfies_no_panic: "satisfies ts g cs \<noteq> Inl (Panicked e)"
proof -
  have c: "satisfies_content table g c \<noteq> Inl (Panicked e)" for table c
    by (cases c) (auto simp: satisfies_content_def execute_machine idempotent_machine split: TraceRole.splits option.splits)
  have "satisfies_loop table g cs \<noteq> Inl (Panicked e)" for table
    by (induction cs) (auto simp: rbind_Inl_iff c)
  then show ?thesis by (simp add: satisfies_def)
qed

lemma scan_no_panic: "scan g contents as st \<noteq> Inl (Panicked e)"
proof (induction as arbitrary: st)
  case (Cons a as)
  have "examine g contents st \<noteq> Inl (Panicked e)" for st
    by (auto simp: examine_def Let_def rbind_Inl_iff satisfies_no_panic)
  with Cons show ?case by (auto simp: rbind_Inl_iff)
qed simp

lemma reconstruct_not_panicked:
  assumes "grammar_ok g"
  shows "reconstruct component iv g contents \<noteq> Inl (Panicked e)"
proof -
  have v1: "reconstruct_v1 component iv g contents \<noteq> Inl (Panicked e)"
    unfolding reconstruct_v1_def enumerate_initial by (auto simp: rbind_Inl_iff scan_no_panic split: list.splits)
  have add: "fold_results (add_obligation g) m ts \<noteq> Inl (Panicked e)" for m ts
    by (induction ts arbitrary: m)
      (auto simp: rbind_Inl_iff add_obligation_def transition_validate_def split: option.splits if_splits)
  have "fold_results (try_cell g m) (0, []) (grammar_cells g) \<noteq> Inl (Panicked e)"
    if "fold_results (add_obligation g) [] (List.map_filter content_transition contents) = Inr m"
      "length m = length (gr_states g) * length (gr_inputs g)" for m
    using reconstruct_v0_cases(1) [OF assms that] by (intro try_cells_no_panic [OF assms]) auto
  then have "reconstruct_v0 component iv g contents \<noteq> Inl (Panicked e)"
    by (auto simp: reconstruct_v0_def Let_def rbind_Inl_iff add)
  with v1 show ?thesis by (simp add: reconstruct_def)
qed

text \<open>For a valid grammar no reconstruction panics: the index into the obligations always finds its
  key and the counter never overflows.\<close>

theorem reconstruct_no_panic:
  assumes "grammar_ok g"
  shows "reconstruct component iv g contents \<noteq> Inl (Panicked e)"
  using assms by (rule reconstruct_not_panicked)

theorem reconstruct_no_panic_witness:
  "reconstruct ''c'' ''1'' sample_grammar [] \<noteq> Inl (Panicked ''no entry found for key'')"
  by (rule reconstruct_no_panic [OF sample_grammar_ok])

end
