(* ===== verification/Sandbox.thy ===== *)
theory Sandbox
  imports Service Synthesizer
begin

unbundle bit_operations_syntax

text \<open>
  The WebAssembly backend (\<open>src/sandbox.rs\<close>): \<open>compile\<close> emits the body of the function \<open>step\<close> as a
  sequence of instructions, \<open>verify\<close> runs the module on every transition of the candidate. The module
  encoder (\<open>wasm-encoder\<close>) and the engine (\<open>wasmi\<close>) are parameters. \<open>exec\<close> is the reduction of the
  WebAssembly specification for the instructions \<open>compile\<close> uses; it is what the emitted code is
  checked against.
\<close>

type_synonym i32 = "32 word"
type_synonym i64 = "64 word"

datatype instruction =
    LocalGet nat
  | I32Const i32
  | I32Eq
  | I32And
  | If
  | I64Const i64
  | Else
  | End

record sandbox_ext = fragments_ext +
  x_wasm_finish :: "instruction list \<Rightarrow> bytes"
  x_wasm_load :: "bytes \<Rightarrow> (string, nat) result"
  x_wasm_set_fuel :: "u64 \<Rightarrow> (string, unit) result"
  x_wasm_instantiate :: "bytes \<Rightarrow> u64 \<Rightarrow> (string, unit) result"
  x_wasm_typed_step :: "bytes \<Rightarrow> (string, unit) result"
  x_wasm_call :: "bytes \<Rightarrow> u64 \<Rightarrow> i32 \<Rightarrow> i32 \<Rightarrow> (string, i64) result"

record SandboxEvidence =
  se_engine :: string
  se_module_digest :: string
  se_imports :: nat
  se_fuel_per_call :: u64
  se_memory_limit_bytes :: nat
  se_verified_executions :: nat

section \<open>Compilation\<close>

primrec position :: "string list \<Rightarrow> string \<Rightarrow> nat option" where
  "position [] v = None"
| "position (x # xs) v = (if x = v then Some 0 else map_option Suc (position xs v))"

definition index_of :: "string list \<Rightarrow> string \<Rightarrow> (Error, i32) result" where
  "index_of values v =
     ok_or (InvalidEvidence ''candidate uses an unknown DSL symbol'')
       (case position values v of None \<Rightarrow> None | Some index \<Rightarrow> if index < 2 ^ 31 then Some (of_nat index) else None)"

definition pack :: "i32 \<Rightarrow> i32 \<Rightarrow> i64" where
  "pack next_state output = (push_bit 32 (scast next_state) OR scast output)"

definition compile_transition :: "Candidate \<Rightarrow> instruction list \<Rightarrow> Transition \<Rightarrow> (Error, instruction list) result" where
  "compile_transition c function t =
     rbind (index_of (gr_states (cd_grammar c)) (tr_state t)) (\<lambda>state.
     rbind (index_of (gr_inputs (cd_grammar c)) (tr_input t)) (\<lambda>input.
     rbind (index_of (gr_states (cd_grammar c)) (tr_next_state t)) (\<lambda>next_state.
     rbind (index_of (gr_outputs (cd_grammar c)) (tr_output t)) (\<lambda>output.
       Inr (function @ [LocalGet 0, I32Const state, I32Eq, LocalGet 1, I32Const input, I32Eq, I32And, If,
         I64Const (pack next_state output), Else])))))"

definition compile_body :: "Candidate \<Rightarrow> (Error, instruction list) result" where
  "compile_body c =
     rbind (fold_results (compile_transition c) [] (cd_transitions c)) (\<lambda>function.
       Inr (function @ [I64Const (-1)] @ map (\<lambda>_. End) (cd_transitions c) @ [End]))"

definition compile :: "'x sandbox_ext_scheme \<Rightarrow> Candidate \<Rightarrow> (Error, bytes) result" where
  "compile x c = rbind (compile_body c) (\<lambda>function. Inr (x_wasm_finish x function))"

section \<open>Verification and execution\<close>

definition load_module :: "'x sandbox_ext_scheme \<Rightarrow> bytes \<Rightarrow> (Error, nat) result" where
  "load_module x wasm =
     (if length wasm > 1048576 then Inl (SearchExhausted ''WebAssembly module exceeds the 1 MiB sandbox bound'')
      else map_err (\<lambda>error. CheckerRejected (''invalid WebAssembly: '' @ error)) (x_wasm_load x wasm))"

definition instantiate_step :: "'x sandbox_ext_scheme \<Rightarrow> bytes \<Rightarrow> u64 \<Rightarrow> (Error, unit) result" where
  "instantiate_step x wasm fuel =
     rbind (map_err CheckerRejected (x_wasm_set_fuel x fuel)) (\<lambda>_.
     rbind (map_err (\<lambda>error. CheckerRejected (''sandbox instantiation failed: '' @ error)) (x_wasm_instantiate x wasm fuel)) (\<lambda>_.
       map_err (\<lambda>error. CheckerRejected (''sandbox ABI mismatch: '' @ error)) (x_wasm_typed_step x wasm)))"

definition FUEL :: u64 where "FUEL = 10000"
definition MEMORY :: nat where "MEMORY = 65536"

definition verify_transition :: "'x sandbox_ext_scheme \<Rightarrow> Candidate \<Rightarrow> bytes \<Rightarrow> Transition \<Rightarrow> (Error, unit) result" where
  "verify_transition x c wasm t =
     rbind (map_err CheckerRejected (x_wasm_set_fuel x FUEL)) (\<lambda>_.
     rbind (index_of (gr_states (cd_grammar c)) (tr_state t)) (\<lambda>state.
     rbind (index_of (gr_inputs (cd_grammar c)) (tr_input t)) (\<lambda>input.
     rbind (map_err (\<lambda>error. CheckerRejected (''sandbox execution failed: '' @ error)) (x_wasm_call x wasm FUEL state input)) (\<lambda>observed.
     rbind (index_of (gr_states (cd_grammar c)) (tr_next_state t)) (\<lambda>next_state.
     rbind (index_of (gr_outputs (cd_grammar c)) (tr_output t)) (\<lambda>output.
       if observed \<noteq> pack next_state output
       then Inl (CheckerRejected ''sandbox behavior disagrees with the certified candidate'')
       else Inr ()))))))"

definition sandbox_verify :: "'x sandbox_ext_scheme \<Rightarrow> Candidate \<Rightarrow> bytes \<Rightarrow> (Error, SandboxEvidence) result" where
  "sandbox_verify x c wasm =
     rbind (load_module x wasm) (\<lambda>imports.
       if imports \<noteq> 0 then Inl (CheckerRejected ''candidate WebAssembly requests ambient capabilities'')
       else
     rbind (instantiate_step x wasm FUEL) (\<lambda>_.
     rbind (each (verify_transition x c wasm) (cd_transitions c)) (\<lambda>_.
       Inr \<lparr>se_engine = ''wasmi-1.1.0'', se_module_digest = bytes_digest (x_sha256 x) (x_hex_encode x) wasm,
         se_imports = imports, se_fuel_per_call = FUEL, se_memory_limit_bytes = MEMORY,
         se_verified_executions = length (cd_transitions c)\<rparr>)))"

definition rejects_capabilities :: "'x sandbox_ext_scheme \<Rightarrow> bytes \<Rightarrow> (Error, unit) result" where
  "rejects_capabilities x wasm =
     rbind (load_module x wasm) (\<lambda>imports.
       if imports \<noteq> 0 then Inl (CheckerRejected ''candidate WebAssembly requests ambient capabilities'') else Inr ())"

definition execute_untrusted_step :: "'x sandbox_ext_scheme \<Rightarrow> bytes \<Rightarrow> i32 \<Rightarrow> i32 \<Rightarrow> u64 \<Rightarrow> (Error, i64) result" where
  "execute_untrusted_step x wasm state input fuel =
     rbind (load_module x wasm) (\<lambda>imports.
       if imports \<noteq> 0 then Inl (CheckerRejected ''candidate WebAssembly requests ambient capabilities'')
       else
     rbind (instantiate_step x wasm fuel) (\<lambda>_.
       map_err (\<lambda>error. SearchExhausted (''sandbox fuel or execution bound reached: '' @ error)) (x_wasm_call x wasm fuel state input)))"

section \<open>The instructions\<close>

text \<open>
  \<open>skip_branch\<close> is the rest of the code after the \<open>Else\<close> (or \<open>End\<close>) of the current block, \<open>skip_block\<close>
  after its \<open>End\<close>; both pass over nested blocks, whose number is the argument. A stack holds 64-bit
  words; an \<open>i32\<close> is kept in its low half.
\<close>

fun skip_branch :: "nat \<Rightarrow> instruction list \<Rightarrow> instruction list" where
  "skip_branch n [] = []"
| "skip_branch n (If # is) = skip_branch (Suc n) is"
| "skip_branch 0 (Else # is) = is"
| "skip_branch (Suc n) (End # is) = skip_branch n is"
| "skip_branch 0 (End # is) = is"
| "skip_branch n (_ # is) = skip_branch n is"

fun skip_block :: "nat \<Rightarrow> instruction list \<Rightarrow> instruction list" where
  "skip_block n [] = []"
| "skip_block n (If # is) = skip_block (Suc n) is"
| "skip_block (Suc n) (End # is) = skip_block n is"
| "skip_block 0 (End # is) = is"
| "skip_block n (_ # is) = skip_block n is"

lemma length_skip: "length (skip_branch n is) \<le> length is" "length (skip_block n is) \<le> length is"
proof -
  show "length (skip_branch n is) \<le> length is" by (induction n "is" rule: skip_branch.induct) auto
  show "length (skip_block n is) \<le> length is" by (induction n "is" rule: skip_block.induct) auto
qed

function exec :: "i32 \<Rightarrow> i32 \<Rightarrow> instruction list \<Rightarrow> i64 list \<Rightarrow> i64 list option" where
  "exec a b [] st = Some st"
| "exec a b (LocalGet n # is) st = exec a b is (ucast (if n = 0 then a else b) # st)"
| "exec a b (I32Const k # is) st = exec a b is (ucast k # st)"
| "exec a b (I64Const k # is) st = exec a b is (k # st)"
| "exec a b (I32Eq # is) st =
     (case st of y # x # st' \<Rightarrow> exec a b is ((if (ucast x :: i32) = ucast y then 1 else 0) # st') | _ \<Rightarrow> None)"
| "exec a b (I32And # is) st =
     (case st of y # x # st' \<Rightarrow> exec a b is (ucast ((ucast x :: i32) AND ucast y) # st') | _ \<Rightarrow> None)"
| "exec a b (If # is) st =
     (case st of [] \<Rightarrow> None
      | c # st' \<Rightarrow> if (ucast c :: i32) \<noteq> 0 then exec a b is st' else exec a b (skip_branch 0 is) st')"
| "exec a b (Else # is) st = exec a b (skip_block 0 is) st"
| "exec a b (End # is) st = exec a b is st"
  by pat_completeness auto
termination
  by (relation "measure (\<lambda>(a, b, is, st). length is)")
    (auto simp: less_Suc_eq_le intro: length_skip)

definition run_step :: "instruction list \<Rightarrow> i32 \<Rightarrow> i32 \<Rightarrow> i64 option" where
  "run_step body state input = (case exec state input body [] of Some [v] \<Rightarrow> Some v | _ \<Rightarrow> None)"

unbundle bit_operations_syntax

section \<open>The emitted code\<close>

definition ix :: "string list \<Rightarrow> string \<Rightarrow> i32" where
  "ix values v = of_nat (the (position values v))"

lemma position_iff: "position xs v = None \<longleftrightarrow> v \<notin> set xs"
  by (induction xs) auto

lemma position_SomeD: "position xs v = Some k \<Longrightarrow> k < length xs \<and> xs ! k = v"
  by (induction xs arbitrary: k) (auto split: if_split_asm)

lemma index_of_iff: "index_of xs v = Inr k \<longleftrightarrow> v \<in> set xs \<and> the (position xs v) < 2 ^ 31 \<and> k = ix xs v"
  using position_iff [of xs v] by (auto simp: index_of_def ok_or_Inr_iff ix_def split: option.splits)

lemma position_small: "v \<in> set xs \<Longrightarrow> length xs \<le> 64 \<Longrightarrow> the (position xs v) < 2 ^ 31"
  using position_iff [of xs v] position_SomeD [of xs v] by fastforce

definition transition_code :: "Grammar \<Rightarrow> Transition \<Rightarrow> instruction list" where
  "transition_code g t =
     [LocalGet 0, I32Const (ix (gr_states g) (tr_state t)), I32Eq, LocalGet 1, I32Const (ix (gr_inputs g) (tr_input t)), I32Eq,
      I32And, If, I64Const (pack (ix (gr_states g) (tr_next_state t)) (ix (gr_outputs g) (tr_output t))), Else]"

definition body_of :: "Grammar \<Rightarrow> Transition list \<Rightarrow> instruction list" where
  "body_of g ts = concat (map (transition_code g) ts) @ [I64Const (-1)] @ map (\<lambda>_. End) ts @ [End]"

lemma compile_transition_code: "compile_transition c f t = Inr f' \<Longrightarrow> f' = f @ transition_code (cd_grammar c) t"
  by (auto simp: compile_transition_def rbind_Inr_iff index_of_iff transition_code_def)

lemma compile_transitions_code:
  "fold_results (compile_transition c) f ts = Inr f' \<Longrightarrow> f' = f @ concat (map (transition_code (cd_grammar c)) ts)"
  by (induction ts arbitrary: f) (fastforce simp: rbind_Inr_iff dest!: compile_transition_code)+

lemma compile_body_code: "compile_body c = Inr body \<Longrightarrow> body = body_of (cd_grammar c) (cd_transitions c)"
  by (auto simp: compile_body_def body_of_def rbind_Inr_iff dest!: compile_transitions_code)

text \<open>What the code computes: the packed target of the first matching transition, or -1.\<close>

fun first_match :: "Grammar \<Rightarrow> i32 \<Rightarrow> i32 \<Rightarrow> Transition list \<Rightarrow> i64" where
  "first_match g a b [] = -1"
| "first_match g a b (t # ts) =
     (if a = ix (gr_states g) (tr_state t) \<and> b = ix (gr_inputs g) (tr_input t)
      then pack (ix (gr_states g) (tr_next_state t)) (ix (gr_outputs g) (tr_output t)) else first_match g a b ts)"

lemma skip_body:
  "skip_block n (concat (map (transition_code g) ts) @ I64Const (-1) # map (\<lambda>_. End) ts @ r) = skip_block n r"
proof (induction ts arbitrary: n r)
  case (Cons t ts)
  have "map (\<lambda>_. End) ts @ End # r = End # map (\<lambda>_. End) ts @ r" by (induction ts) auto
  with Cons [of "Suc n" "End # r"] show ?case by (simp add: transition_code_def)
qed simp

lemma exec_body:
  "exec a b (concat (map (transition_code g) ts) @ I64Const (-1) # map (\<lambda>_. End) ts @ r) st = exec a b r (first_match g a b ts # st)"
proof (induction ts arbitrary: r st)
  case (Cons t ts)
  have e: "End # map (\<lambda>_. End) ts @ r = map (\<lambda>_. End) ts @ End # r" by (induction ts) auto
  have [simp]: "(ucast (ucast (w :: i32) :: i64) :: i32) = w" for w by (rule bit_word_eqI) (simp add: bit_simps)
  show ?case
    using Cons [of "End # r" st] skip_body [of 0 g ts "End # r"]
    by (simp add: transition_code_def [of g t] e)
qed simp

lemma run_body: "run_step (body_of g ts) a b = Some (first_match g a b ts)"
  using exec_body [of a b g ts "[End]" "[]"] by (simp add: run_step_def body_of_def)

section \<open>The code computes the machine\<close>

lemma ix_inj:
  assumes "v \<in> set xs" "w \<in> set xs" "length xs \<le> 64"
  shows "ix xs v = ix xs w \<longleftrightarrow> v = w"
proof
  obtain j k where jk: "position xs v = Some j" "position xs w = Some k"
    using assms(1,2) position_iff by (metis option.exhaust)
  then have "j < 2 ^ 32" "k < 2 ^ 32" using position_SomeD assms(3) by fastforce+
  moreover assume "ix xs v = ix xs w"
  moreover have "unat (of_nat n :: i32) = n" if "n < 2 ^ 32" for n
    using that by (simp add: unat_of_nat take_bit_nat_eq_self)
  ultimately have "j = k" using jk by (metis ix_def option.sel)
  with jk position_SomeD show "v = w" by metis
qed simp

lemma unat_ix: "v \<in> set xs \<Longrightarrow> length xs \<le> 64 \<Longrightarrow> unat (ix xs v) < 64 \<and> xs ! unat (ix xs v) = v"
proof -
  assume a: "v \<in> set xs" "length xs \<le> 64"
  then obtain k where k: "position xs v = Some k" using position_iff by (metis option.exhaust)
  with position_SomeD have "k < length xs" "xs ! k = v" by blast+
  then show ?thesis using k a(2) by (simp add: ix_def unat_of_nat take_bit_nat_eq_self)
qed

lemma first_match_machine:
  assumes "grammar_ok g" "distinct (map tr_cell ts)" "\<forall>t \<in> set ts. transition_ok g t"
    "s \<in> set (gr_states g)" "i \<in> set (gr_inputs g)"
  shows "first_match g (ix (gr_states g) s) (ix (gr_inputs g) i) ts =
    (case machine_of ts s i of None \<Rightarrow> -1 | Some (n, out) \<Rightarrow> pack (ix (gr_states g) n) (ix (gr_outputs g) out))"
proof -
  have b: "length (gr_states g) \<le> 64" "length (gr_inputs g) \<le> 64" using assms(1) by (auto simp: grammar_ok_def)
  have "first_match g (ix (gr_states g) s) (ix (gr_inputs g) i) us =
    (case map_of (map (\<lambda>t. (tr_cell t, (tr_next_state t, tr_output t))) us) (s, i) of None \<Rightarrow> -1
     | Some (n, out) \<Rightarrow> pack (ix (gr_states g) n) (ix (gr_outputs g) out))" if "set us \<subseteq> set ts" for us
    using that
  proof (induction us)
    case (Cons t us)
    then have "transition_ok g t" using assms(3) by simp
    then have "ix (gr_states g) s = ix (gr_states g) (tr_state t) \<longleftrightarrow> s = tr_state t"
      "ix (gr_inputs g) i = ix (gr_inputs g) (tr_input t) \<longleftrightarrow> i = tr_input t"
      using assms(4,5) b by (auto simp: transition_ok_def ix_inj)
    with Cons show ?case by auto
  qed simp
  then show ?thesis by (simp add: machine_of_map [OF assms(2)])
qed

lemma compile_body_succeeds:
  assumes "grammar_ok (cd_grammar c)" "\<forall>t \<in> set (cd_transitions c). transition_ok (cd_grammar c) t"
  shows "\<exists>body. compile_body c = Inr body"
proof -
  have i: "\<exists>k. index_of xs v = Inr k" if v: "v \<in> set xs" "length xs \<le> 64" for v xs
  proof -
    obtain k where k: "position xs v = Some k" using v(1) position_iff [of xs v] by auto
    then have "k < 64" using position_SomeD [OF k] v(2) by linarith
    with k show ?thesis by (simp add: index_of_def)
  qed
  have "\<exists>f'. fold_results (compile_transition c) f ts = Inr f'" if "set ts \<subseteq> set (cd_transitions c)" for f ts
    using that
  proof (induction ts arbitrary: f)
    case (Cons t ts)
    then have t: "transition_ok (cd_grammar c) t" using assms by simp
    have len: "length (gr_states (cd_grammar c)) \<le> 64" "length (gr_inputs (cd_grammar c)) \<le> 64" "length (gr_outputs (cd_grammar c)) \<le> 64"
      using assms(1) by (simp_all add: grammar_ok_def)
    obtain k1 where "index_of (gr_states (cd_grammar c)) (tr_state t) = Inr k1"
      using i len(1) t by (auto simp: transition_ok_def)
    moreover obtain k2 where "index_of (gr_inputs (cd_grammar c)) (tr_input t) = Inr k2"
      using i len(2) t by (auto simp: transition_ok_def)
    moreover obtain k3 where "index_of (gr_states (cd_grammar c)) (tr_next_state t) = Inr k3"
      using i len(1) t by (auto simp: transition_ok_def)
    moreover obtain k4 where "index_of (gr_outputs (cd_grammar c)) (tr_output t) = Inr k4"
      using i len(3) t by (auto simp: transition_ok_def)
    ultimately obtain f1 where "compile_transition c f t = Inr f1" by (simp add: compile_transition_def)
    with Cons show ?case by simp
  qed simp
  then obtain f' where "fold_results (compile_transition c) [] (cd_transitions c) = Inr f'" by blast
  then show ?thesis by (simp add: compile_body_def)
qed

lemma pack_bits:
  assumes "unat a < 64" "unat b < 64"
  shows "drop_bit 32 (pack a b) = ucast a \<and> (ucast (pack a b) :: i32) = b"
proof -
  have z: "\<not> bit w n" if "unat (w :: i32) < 64" "6 \<le> n" for w n
  proof -
    have "take_bit 6 w = w" using that(1) by (simp add: word_unat_eq_iff unsigned_take_bit_eq take_bit_nat_eq_self)
    then show ?thesis using that(2) by (metis bit_take_bit_iff not_le)
  qed
  have a: "bit (scast a :: i64) n \<longleftrightarrow> bit a n" and b: "bit (scast b :: i64) n \<longleftrightarrow> bit b n" if "n < 64" for n
    using that z [OF assms(1)] z [OF assms(2)] by (auto simp: bit_simps min_def)
  have "drop_bit 32 (pack a b) = ucast a"
  proof (rule bit_word_eqI)
    fix n assume "n < LENGTH(64)"
    then show "bit (drop_bit 32 (pack a b)) n \<longleftrightarrow> bit (ucast a :: i64) n"
      using a [of n] b [of "32 + n"] z [OF assms(1), of n] z [OF assms(2), of "32 + n"]
      by (cases "n < 32") (auto simp: pack_def bit_simps)
  qed
  moreover have "(ucast (pack a b) :: i32) = b"
  proof (rule bit_word_eqI)
    fix n assume "n < LENGTH(32)"
    then show "bit (ucast (pack a b) :: i32) n \<longleftrightarrow> bit b n"
      using b [of n] by (auto simp: pack_def bit_simps)
  qed
  ultimately show ?thesis by blast
qed

section \<open>Properties\<close>

text \<open>(C37) Compilation is correct: for a valid grammar and a deterministic table it succeeds, and the
  emitted function maps the indices of a state and an input to the packed indices of the machine's next
  state and output, or to -1 where the machine has no transition.\<close>

theorem compile_correct:
  assumes "grammar_ok (cd_grammar c)" "distinct (map tr_cell (cd_transitions c))"
    and "\<forall>t \<in> set (cd_transitions c). transition_ok (cd_grammar c) t"
    and "s \<in> set (gr_states (cd_grammar c))" "i \<in> set (gr_inputs (cd_grammar c))"
  shows "\<exists>body. compile_body c = Inr body \<and>
    run_step body (ix (gr_states (cd_grammar c)) s) (ix (gr_inputs (cd_grammar c)) i) =
      Some (case machine_of (cd_transitions c) s i of None \<Rightarrow> -1
        | Some (n, out) \<Rightarrow> pack (ix (gr_states (cd_grammar c)) n) (ix (gr_outputs (cd_grammar c)) out))"
proof -
  obtain body where "compile_body c = Inr body" using compile_body_succeeds [OF assms(1,3)] ..
  then show ?thesis using compile_body_code run_body first_match_machine [OF assms] by metis
qed

theorem compile_correct_witness:
  "\<exists>body. compile_body sample_candidate = Inr body \<and> run_step body 0 0 = Some 0"
proof -
  have m: "machine_of (cd_transitions sample_candidate) ''s'' ''a'' = Some (''s'', ''x'')"
    by (simp add: sample_candidate_def machine_of_def flat_table_of_def bt_collect_def)
  have "\<exists>body. compile_body sample_candidate = Inr body \<and>
    run_step body (ix (gr_states (cd_grammar sample_candidate)) ''s'') (ix (gr_inputs (cd_grammar sample_candidate)) ''a'') =
      Some (case machine_of (cd_transitions sample_candidate) ''s'' ''a'' of None \<Rightarrow> -1
        | Some (n, out) \<Rightarrow> pack (ix (gr_states (cd_grammar sample_candidate)) n) (ix (gr_outputs (cd_grammar sample_candidate)) out))"
    using sample_grammar_ok
    by (intro compile_correct) (simp_all add: sample_candidate_def sample_grammar_def transition_ok_def)
  then show ?thesis unfolding m by (simp add: sample_candidate_def sample_grammar_def ix_def pack_def)
qed

text \<open>When the sandbox verifies a module against a candidate, every transition's cell was executed by
  the engine within the fuel bound and returned a word whose high half is the index of the next state
  and whose low half is the index of the output; the module has no imports.\<close>

theorem sandbox_verify_sound:
  assumes "grammar_ok (cd_grammar c)" "sandbox_verify x c wasm = Inr evidence" "t \<in> set (cd_transitions c)"
  shows "\<exists>w. x_wasm_call x wasm FUEL (ix (gr_states (cd_grammar c)) (tr_state t)) (ix (gr_inputs (cd_grammar c)) (tr_input t)) = Inr w \<and>
    gr_states (cd_grammar c) ! unat (drop_bit 32 w) = tr_next_state t \<and>
    gr_outputs (cd_grammar c) ! unat (ucast w :: i32) = tr_output t \<and> x_wasm_load x wasm = Inr 0"
proof -
  let ?g = "cd_grammar c"
  have len: "length (gr_states ?g) \<le> 64" "length (gr_outputs ?g) \<le> 64" using assms(1) by (auto simp: grammar_ok_def)
  from assms(2) have load: "x_wasm_load x wasm = Inr 0" and all: "\<forall>t \<in> set (cd_transitions c). verify_transition x c wasm t = Inr ()"
    by (auto simp: sandbox_verify_def load_module_def rbind_Inr_iff map_err_Inr_iff each_Inr_iff split: if_split_asm)
  from all assms(3) have "verify_transition x c wasm t = Inr ()" by blast
  then have w: "x_wasm_call x wasm FUEL (ix (gr_states ?g) (tr_state t)) (ix (gr_inputs ?g) (tr_input t)) =
      Inr (pack (ix (gr_states ?g) (tr_next_state t)) (ix (gr_outputs ?g) (tr_output t)))"
    and mem: "tr_next_state t \<in> set (gr_states ?g)" "tr_output t \<in> set (gr_outputs ?g)"
    by (auto simp: verify_transition_def rbind_Inr_iff map_err_Inr_iff index_of_iff split: if_split_asm)
  have u: "unat (ix (gr_states ?g) (tr_next_state t)) < 64" "unat (ix (gr_outputs ?g) (tr_output t)) < 64"
    using unat_ix mem len by blast+
  have "unat (ucast (ix (gr_states ?g) (tr_next_state t)) :: i64) = unat (ix (gr_states ?g) (tr_next_state t))"
    using u(1) by (simp add: unsigned_ucast_eq take_bit_nat_eq_self)
  then show ?thesis using w load pack_bits [OF u] unat_ix [OF mem(1) len(1)] unat_ix [OF mem(2) len(2)] by simp
qed

text \<open>
  What is expected of the encoder and the engine: an encoded function of the code \<open>body\<close> loads with no
  imports, instantiates, and a call with as much fuel as there are instructions returns what the
  instructions compute.
\<close>

definition lawful_engine :: "'x sandbox_ext_scheme \<Rightarrow> instruction list \<Rightarrow> bool" where
  "lawful_engine x body \<longleftrightarrow>
     length (x_wasm_finish x body) \<le> 1048576 \<and> x_wasm_load x (x_wasm_finish x body) = Inr 0 \<and>
     x_wasm_set_fuel x FUEL = Inr () \<and> x_wasm_instantiate x (x_wasm_finish x body) FUEL = Inr () \<and>
     x_wasm_typed_step x (x_wasm_finish x body) = Inr () \<and>
     (\<forall>a b v. length body \<le> unat FUEL \<longrightarrow> run_step body a b = Some v \<longrightarrow> x_wasm_call x (x_wasm_finish x body) FUEL a b = Inr v)"

lemma length_body: "length (body_of g ts) = 11 * length ts + 2"
  by (induction ts) (simp_all add: body_of_def transition_code_def)

lemma verify_transition_succeeds:
  assumes "grammar_ok (cd_grammar c)" "distinct (map tr_cell (cd_transitions c))"
    and ok: "\<forall>t \<in> set (cd_transitions c). transition_ok (cd_grammar c) t"
    and t: "t \<in> set (cd_transitions c)"
    and eng: "lawful_engine x body" "compile_body c = Inr body" "length (cd_transitions c) \<le> 908"
  shows "verify_transition x c (x_wasm_finish x body) t = Inr ()"
proof -
  let ?g = "cd_grammar c"
  have tok: "transition_ok ?g t" using ok t by blast
  have body: "body = body_of ?g (cd_transitions c)" using compile_body_code [OF eng(2)] .
  have "(tr_cell t, (tr_next_state t, tr_output t)) \<in> set (map (\<lambda>t. (tr_cell t, (tr_next_state t, tr_output t))) (cd_transitions c))"
    using t by auto
  then have m: "machine_of (cd_transitions c) (tr_state t) (tr_input t) = Some (tr_next_state t, tr_output t)"
    using assms(2) by (simp add: machine_of_map map_of_eq_Some_iff comp_def del: set_map)
  have "run_step body (ix (gr_states ?g) (tr_state t)) (ix (gr_inputs ?g) (tr_input t)) =
      Some (pack (ix (gr_states ?g) (tr_next_state t)) (ix (gr_outputs ?g) (tr_output t)))"
    using first_match_machine [OF assms(1-3), of "tr_state t" "tr_input t"] tok m
    by (simp add: body run_body transition_ok_def)
  moreover have "length body \<le> unat FUEL" using eng(3) by (simp add: body length_body FUEL_def)
  ultimately have "x_wasm_call x (x_wasm_finish x body) FUEL (ix (gr_states ?g) (tr_state t)) (ix (gr_inputs ?g) (tr_input t)) =
      Inr (pack (ix (gr_states ?g) (tr_next_state t)) (ix (gr_outputs ?g) (tr_output t)))"
    using eng(1) by (simp add: lawful_engine_def)
  moreover have "index_of (gr_states ?g) (tr_state t) = Inr (ix (gr_states ?g) (tr_state t))"
    "index_of (gr_inputs ?g) (tr_input t) = Inr (ix (gr_inputs ?g) (tr_input t))"
    "index_of (gr_states ?g) (tr_next_state t) = Inr (ix (gr_states ?g) (tr_next_state t))"
    "index_of (gr_outputs ?g) (tr_output t) = Inr (ix (gr_outputs ?g) (tr_output t))"
    using tok assms(1) by (auto simp: index_of_iff transition_ok_def grammar_ok_def intro: position_small [simplified])
  ultimately show ?thesis using eng(1) by (simp add: verify_transition_def lawful_engine_def)
qed

text \<open>The compiler and the verifier agree: with an engine that computes the emitted instructions, the
  module compiled from a deterministic candidate with at most 908 transitions (the fuel of one call
  covers the code) passes the sandbox, and the evidence counts every transition.\<close>

theorem compile_then_verify:
  assumes "grammar_ok (cd_grammar c)" "distinct (map tr_cell (cd_transitions c))"
    and "\<forall>t \<in> set (cd_transitions c). transition_ok (cd_grammar c) t" "length (cd_transitions c) \<le> 908"
    and "\<And>body. compile_body c = Inr body \<Longrightarrow> lawful_engine x body"
  shows "\<exists>wasm. compile x c = Inr wasm \<and>
    sandbox_verify x c wasm = Inr \<lparr>se_engine = ''wasmi-1.1.0'', se_module_digest = bytes_digest (x_sha256 x) (x_hex_encode x) wasm,
      se_imports = 0, se_fuel_per_call = FUEL, se_memory_limit_bytes = MEMORY, se_verified_executions = length (cd_transitions c)\<rparr>"
proof -
  obtain body where body: "compile_body c = Inr body" using compile_body_succeeds [OF assms(1,3)] ..
  then have eng: "lawful_engine x body" by (rule assms(5))
  have "each (verify_transition x c (x_wasm_finish x body)) (cd_transitions c) = Inr ()"
    using verify_transition_succeeds [OF assms(1-3) _ eng body assms(4)] by (simp add: each_Inr_iff)
  moreover have "load_module x (x_wasm_finish x body) = Inr 0" "instantiate_step x (x_wasm_finish x body) FUEL = Inr ()"
    using eng by (simp_all add: lawful_engine_def load_module_def instantiate_step_def)
  ultimately show ?thesis using body by (simp add: compile_def sandbox_verify_def)
qed

text \<open>An engine for the witnesses: it runs the code of the sample candidate.\<close>

definition toy_engine :: sandbox_ext where
  "toy_engine = fragments_ext.extend toy_ext
     (sandbox_ext.fields (\<lambda>_. []) (\<lambda>_. Inr 0) (\<lambda>_. Inr ()) (\<lambda>_ _. Inr ()) (\<lambda>_. Inr ())
       (\<lambda>_ _ a b. case compile_body sample_candidate of Inl _ \<Rightarrow> Inl ''trap'' | Inr body \<Rightarrow>
          (case run_step body a b of None \<Rightarrow> Inl ''trap'' | Some v \<Rightarrow> Inr v)))"

lemma toy_engine_lawful: "compile_body sample_candidate = Inr body \<Longrightarrow> lawful_engine toy_engine body"
  by (simp add: lawful_engine_def toy_engine_def fragments_ext.defs sandbox_ext.defs)

lemma sample_transitions: "distinct (map tr_cell (cd_transitions sample_candidate))"
  "\<forall>t \<in> set (cd_transitions sample_candidate). transition_ok (cd_grammar sample_candidate) t"
  "grammar_ok (cd_grammar sample_candidate)"
  using sample_grammar_ok by (simp_all add: sample_candidate_def sample_grammar_def transition_ok_def)

theorem compile_then_verify_witness:
  "\<exists>wasm ev. compile toy_engine sample_candidate = Inr wasm \<and> sandbox_verify toy_engine sample_candidate wasm = Inr ev \<and>
     se_verified_executions ev = 1"
  using compile_then_verify [OF sample_transitions(3,1,2) _ toy_engine_lawful]
  by (auto simp: sample_candidate_def)

theorem sandbox_verify_sound_witness:
  "\<exists>w wasm. x_wasm_call toy_engine wasm FUEL 0 0 = Inr w \<and>
    gr_outputs (cd_grammar sample_candidate) ! unat (ucast w :: i32) = ''x''"
proof -
  have body: "compile_body sample_candidate = Inr (body_of sample_grammar (cd_transitions sample_candidate))"
    using compile_body_succeeds [OF sample_transitions(3,2)] compile_body_code [of sample_candidate] by (auto simp: sample_candidate_def)
  let ?wasm = "x_wasm_finish toy_engine (body_of sample_grammar (cd_transitions sample_candidate))"
  have eng: "lawful_engine toy_engine (body_of sample_grammar (cd_transitions sample_candidate))"
    using toy_engine_lawful [OF body] .
  have "each (verify_transition toy_engine sample_candidate ?wasm) (cd_transitions sample_candidate) = Inr ()"
    using verify_transition_succeeds [OF sample_transitions(3,1,2) _ eng body] by (simp add: each_Inr_iff sample_candidate_def)
  then obtain ev where "sandbox_verify toy_engine sample_candidate ?wasm = Inr ev"
    using eng by (simp add: sandbox_verify_def load_module_def instantiate_step_def lawful_engine_def)
  from sandbox_verify_sound [OF sample_transitions(3) this, of "\<lparr>tr_state = ''s'', tr_input = ''a'', tr_next_state = ''s'', tr_output = ''x''\<rparr>"]
  show ?thesis by (auto simp: sample_candidate_def sample_grammar_def ix_def)
qed

end
