(* ===== verification/Wire.thy ===== *)
theory Wire
  imports Model Codec
begin

text \<open>
  The checker wire format: the writer of \<open>src/checker_wire.rs\<close> and the reader of
  \<open>src/checker.rs\<close> (\<open>Reader\<close>, \<open>decode_candidate\<close>). The reader is a cursor into the input; both
  sides are length-prefixed and big-endian. Integers, strings, string vectors, transitions and the
  whole candidate are strict codecs, so a candidate has one encoding and an accepted input is the
  encoding of the candidate it gives.
\<close>

section \<open>Writing\<close>

definition MAGIC :: bytes where
  "MAGIC = map (\<lambda>c. of_nat (of_char c)) ''ANCKM1'' @ [0, 0]"

definition push_len :: "bytes \<Rightarrow> nat \<Rightarrow> (Error, bytes) result" where
  "push_len out value =
     (if value \<ge> 2 ^ 32 then Inl (CheckerRejected ''checker wire value is too large'')
      else Inr (out @ be_bytes 4 value))"

definition push_string :: "bytes \<Rightarrow> string \<Rightarrow> (Error, bytes) result" where
  "push_string out value = rbind (push_len out (length value)) (\<lambda>out'. Inr (out' @ as_bytes value))"

definition push_strings :: "bytes \<Rightarrow> string list \<Rightarrow> (Error, bytes) result" where
  "push_strings out values = rbind (push_len out (length values)) (\<lambda>out'. push_seq push_string out' values)"

definition push_transition :: "bytes \<Rightarrow> Transition \<Rightarrow> (Error, bytes) result" where
  "push_transition out t =
     rbind (push_string out (tr_state t)) (\<lambda>out.
     rbind (push_string out (tr_input t)) (\<lambda>out.
     rbind (push_string out (tr_next_state t)) (\<lambda>out.
       push_string out (tr_output t))))"

definition encode_candidate :: "Candidate \<Rightarrow> (Error, bytes) result" where
  "encode_candidate c =
     rbind (push_string MAGIC (cd_component c)) (\<lambda>out.
     rbind (push_string out (cd_interface_version c)) (\<lambda>out.
     rbind (push_string out (gr_version (cd_grammar c))) (\<lambda>out.
     rbind (push_strings out (gr_inputs (cd_grammar c))) (\<lambda>out.
     rbind (push_strings out (gr_outputs (cd_grammar c))) (\<lambda>out.
     rbind (push_strings out (gr_states (cd_grammar c))) (\<lambda>out.
     rbind (push_string out (gr_initial_state (cd_grammar c))) (\<lambda>out.
     rbind (push_len (out @ be_bytes 8 (unat (gr_max_candidates (cd_grammar c)))) (length (cd_transitions c))) (\<lambda>out.
       push_seq push_transition out (cd_transitions c)))))))))"

section \<open>Reading\<close>

record Reader =
  rd_input :: bytes
  rd_offset :: nat

text \<open>No slice is longer than \<open>usize\<close> can count, so an overflow of \<open>checked_add\<close> is a truncated input.\<close>

definition reader_take :: "nat \<Rightarrow> Reader \<Rightarrow> (Error, bytes \<times> Reader) result" where
  "reader_take len rd =
     (let e = rd_offset rd + len in
      if e \<le> length (rd_input rd)
      then Inr (take len (drop (rd_offset rd) (rd_input rd)), rd\<lparr>rd_offset := e\<rparr>)
      else Inl (CheckerRejected ''checker wire is truncated''))"

definition reader_length :: "Reader \<Rightarrow> (Error, nat \<times> Reader) result" where
  "reader_length rd = rbind (reader_take 4 rd) (\<lambda>(b, rd). Inr (from_be b, rd))"

definition reader_string :: "Reader \<Rightarrow> (Error, string \<times> Reader) result" where
  "reader_string rd =
     rbind (reader_length rd) (\<lambda>(len, rd).
       if len > 65536 then Inl (CheckerRejected ''checker wire string is too large'')
       else rbind (reader_take len rd) (\<lambda>(b, rd).
         case from_utf8 b of
           None \<Rightarrow> Inl (CheckerRejected ''checker wire string is not UTF-8'')
         | Some s \<Rightarrow> Inr (s, rd)))"

definition reader_strings :: "Reader \<Rightarrow> (Error, string list \<times> Reader) result" where
  "reader_strings rd =
     rbind (reader_length rd) (\<lambda>(count, rd).
       if count > 65536 then Inl (CheckerRejected ''checker wire vector is too large'')
       else pull_seq reader_string count rd)"

definition reader_transition :: "Reader \<Rightarrow> (Error, Transition \<times> Reader) result" where
  "reader_transition rd =
     rbind (reader_string rd) (\<lambda>(state, rd).
     rbind (reader_string rd) (\<lambda>(input, rd).
     rbind (reader_string rd) (\<lambda>(next_state, rd).
     rbind (reader_string rd) (\<lambda>(output, rd).
       Inr (\<lparr>tr_state = state, tr_input = input, tr_next_state = next_state, tr_output = output\<rparr>, rd)))))"

definition decode_candidate :: "bytes \<Rightarrow> (Error, Candidate) result" where
  "decode_candidate input =
     rbind (reader_take 8 \<lparr>rd_input = input, rd_offset = 0\<rparr>) (\<lambda>(magic, rd).
       if magic \<noteq> MAGIC then Inl (CheckerRejected ''checker wire magic mismatch'')
       else
     rbind (reader_string rd) (\<lambda>(component, rd).
     rbind (reader_string rd) (\<lambda>(interface_version, rd).
     rbind (reader_string rd) (\<lambda>(version, rd).
     rbind (reader_strings rd) (\<lambda>(inputs, rd).
     rbind (reader_strings rd) (\<lambda>(outputs, rd).
     rbind (reader_strings rd) (\<lambda>(states, rd).
     rbind (reader_string rd) (\<lambda>(initial_state, rd).
     rbind (reader_take 8 rd) (\<lambda>(max_candidates, rd).
     rbind (reader_length rd) (\<lambda>(count, rd).
       if count > 256 then Inl (CheckerRejected ''checker wire transition count exceeds the DSL bound'')
       else
     rbind (pull_seq reader_transition count rd) (\<lambda>(transitions, rd).
       if rd_offset rd \<noteq> length input then Inl (CheckerRejected ''checker wire has trailing data'')
       else Inr \<lparr>cd_component = component, cd_interface_version = interface_version,
         cd_grammar = \<lparr>gr_version = version, gr_inputs = inputs, gr_outputs = outputs, gr_states = states,
           gr_initial_state = initial_state, gr_max_candidates = of_nat (from_be max_candidates)\<rparr>,
         cd_transitions = transitions\<rparr>)))))))))))"


section \<open>Codecs of the format\<close>

definition rd_rest :: "Reader \<Rightarrow> bytes" where
  "rd_rest rd = drop (rd_offset rd) (rd_input rd)"

definition rd_adv :: "nat \<Rightarrow> Reader \<Rightarrow> Reader" where
  "rd_adv n rd = rd\<lparr>rd_offset := rd_offset rd + n\<rparr>"

interpretation reader: byte_source rd_rest rd_adv
  by unfold_locales (auto simp: rd_rest_def rd_adv_def add.commute add.assoc)

lemma rd_rest_bound:
  assumes "rd_rest rd = p @ r" "p \<noteq> []"
  shows "rd_offset rd + length p \<le> length (rd_input rd)"
proof -
  have "length (rd_input rd) - rd_offset rd = length p + length r"
    using arg_cong [OF assms(1), of length] by (simp add: rd_rest_def)
  moreover have "0 < length p" using assms(2) by simp
  ultimately show ?thesis by linarith
qed

lemma reader_take_append:
  "rd_rest rd = p @ r \<Longrightarrow> p \<noteq> [] \<Longrightarrow> length p = n \<Longrightarrow> reader_take n rd = Inr (p, rd_adv n rd)"
  using rd_rest_bound [of rd p r] by (auto simp: reader_take_def rd_rest_def rd_adv_def Let_def)

lemma reader_take_within:
  "rd_offset rd \<le> length (rd_input rd) \<Longrightarrow> rd_rest rd = p @ r \<Longrightarrow> length p = n \<Longrightarrow>
     reader_take n rd = Inr (p, rd_adv n rd)"
  by (auto simp: reader_take_def rd_rest_def rd_adv_def Let_def dest: arg_cong [of _ _ length])

lemma reader_take_InrD:
  assumes "reader_take n rd = Inr (p, rd')"
  shows "rd_rest rd = p @ rd_rest rd' \<and> rd' = rd_adv n rd \<and> length p = n"
  using assms by (auto simp: reader_take_def rd_rest_def rd_adv_def Let_def add.commute split: if_split_asm)
    (metis append_take_drop_id drop_drop)

interpretation len: strict_codec rd_rest rd_adv push_len reader_length "\<lambda>_. True"
proof unfold_locales
  fix out out' :: bytes and x
  assume "push_len out x = Inr out'"
  then show "\<exists>p. out' = out @ p \<and> (\<forall>o'. push_len o' x = Inr (o' @ p))"
    by (auto simp: push_len_def simp del: be_bytes.simps split: if_split_asm)
next
  fix x p r rd
  assume "push_len [] x = Inr p" "rd_rest rd = p @ r"
  then have p: "p = be_bytes 4 x" "x < 2 ^ 32" "reader_take 4 rd = Inr (p, rd_adv 4 rd)"
    by (auto simp: push_len_def simp del: be_bytes.simps split: if_split_asm intro!: reader_take_append
        dest: arg_cong [of _ _ length])
  moreover have "from_be (be_bytes 4 x) = x" using p(2) by (intro be_bytes_small) simp
  ultimately show "reader_length rd = Inr (x, rd_adv (length p) rd)"
    by (simp add: reader_length_def del: be_bytes.simps)
next
  fix rd rd' x
  assume "reader_length rd = Inr (x, rd')"
  then obtain b where b: "reader_take 4 rd = Inr (b, rd')" "x = from_be b"
    by (auto simp: reader_length_def rbind_Inr_iff)
  from reader_take_InrD [OF b(1)] have l: "length b = 4" "rd_rest rd = b @ rd_rest rd'" "rd' = rd_adv 4 rd" by auto
  have "be_bytes 4 x = b" using be_bytes_from_be [of b] b(2) l(1) by simp
  moreover have "x < 2 ^ 32" using from_be_bound [of b] b(2) l(1) by simp
  ultimately show "True \<and> (\<exists>p. push_len [] x = Inr p \<and> rd_rest rd = p @ rd_rest rd' \<and> rd' = rd_adv (length p) rd)"
    using l by (simp add: push_len_def)
qed

definition wire_text :: "string \<Rightarrow> bool" where
  "wire_text s \<longleftrightarrow> utf8 s \<and> length s \<le> 65536"

interpretation str: strict_codec rd_rest rd_adv push_string reader_string wire_text
proof unfold_locales
  fix out out' :: bytes and x
  assume "push_string out x = Inr out'"
  then show "\<exists>p. out' = out @ p \<and> (\<forall>o'. push_string o' x = Inr (o' @ p))"
    by (auto simp: push_string_def rbind_Inr_iff dest!: len.push_frame)
next
  fix x p r rd
  assume x: "wire_text x" "push_string [] x = Inr p" "rd_rest rd = p @ r"
  then obtain q where q: "push_len [] (length x) = Inr q" "p = q @ as_bytes x"
    by (auto simp: push_string_def rbind_Inr_iff)
  have 1: "reader_length rd = Inr (length x, rd_adv (length q) rd)"
    using len.pull_push [OF _ q(1), of rd "as_bytes x @ r"] x(3) q(2) by simp
  have 2: "rd_rest (rd_adv (length q) rd) = as_bytes x @ r"
    by (rule len.rest_after) (simp add: x(3) q(2))
  have "q \<noteq> []" using q(1) by (auto simp: push_len_def split: if_split_asm dest: arg_cong [of _ _ length])
  then have "rd_offset (rd_adv (length q) rd) \<le> length (rd_input rd)"
    using rd_rest_bound [of rd q "as_bytes x @ r"] x(3) q(2) by (simp add: rd_adv_def)
  then have "reader_take (length x) (rd_adv (length q) rd) = Inr (as_bytes x, rd_adv (length x) (rd_adv (length q) rd))"
    by (intro reader_take_within [OF _ 2]) (simp_all add: rd_adv_def)
  with 1 x(1) q(2) show "reader_string rd = Inr (x, rd_adv (length p) rd)"
    by (simp add: reader_string_def wire_text_def reader.adv_adv)
next
  fix rd rd' x
  assume "reader_string rd = Inr (x, rd')"
  then obtain n rd1 b where b: "reader_length rd = Inr (n, rd1)" "n \<le> 65536" "reader_take n rd1 = Inr (b, rd')"
    "from_utf8 b = Some x"
    by (auto simp: reader_string_def rbind_Inr_iff split: if_split_asm option.split_asm)
  from len.push_pull [OF b(1)] obtain q where
    q: "push_len [] n = Inr q" "rd_rest rd = q @ rd_rest rd1" "rd1 = rd_adv (length q) rd" by auto
  from reader_take_InrD [OF b(3)] from_utf8_SomeD [OF b(4)] q b(2) show
    "wire_text x \<and> (\<exists>p. push_string [] x = Inr p \<and> rd_rest rd = p @ rd_rest rd' \<and> rd' = rd_adv (length p) rd)"
    by (auto simp: push_string_def wire_text_def reader.adv_adv)
qed

definition wire_texts :: "string list \<Rightarrow> bool" where
  "wire_texts vs \<longleftrightarrow> length vs \<le> 65536 \<and> (\<forall>v \<in> set vs. wire_text v)"

interpretation strs: strict_codec rd_rest rd_adv push_strings reader_strings wire_texts
proof unfold_locales
  fix out out' :: bytes and x
  assume "push_strings out x = Inr out'"
  then obtain o1 where "push_len out (length x) = Inr o1" "push_seq push_string o1 x = Inr out'"
    by (auto simp: push_strings_def rbind_Inr_iff)
  with len.push_frame str.push_seq_frame show "\<exists>p. out' = out @ p \<and> (\<forall>o'. push_strings o' x = Inr (o' @ p))"
    unfolding push_strings_def by fastforce
next
  fix x p r rd
  assume x: "wire_texts x" "push_strings [] x = Inr p" "rd_rest rd = p @ r"
  then obtain q where q: "push_len [] (length x) = Inr q" "push_seq push_string q x = Inr p"
    by (auto simp: push_strings_def rbind_Inr_iff)
  from str.push_seq_frame [OF q(2)] obtain s where s: "p = q @ s" "push_seq push_string [] x = Inr s" by auto
  have 1: "reader_length rd = Inr (length x, rd_adv (length q) rd)"
    using len.pull_push [OF _ q(1), of rd "s @ r"] x(3) s(1) by simp
  have 2: "rd_rest (rd_adv (length q) rd) = s @ r"
    by (rule len.rest_after) (simp add: x(3) s(1))
  have "pull_seq reader_string (length x) (rd_adv (length q) rd) = Inr (x, rd_adv (length s) (rd_adv (length q) rd))"
    using x(1) by (intro str.pull_seq_push_seq [OF _ s(2) 2]) (simp add: wire_texts_def)
  with 1 x(1) s(1) show "reader_strings rd = Inr (x, rd_adv (length p) rd)"
    by (simp add: reader_strings_def wire_texts_def reader.adv_adv)
next
  fix rd rd' x
  assume "reader_strings rd = Inr (x, rd')"
  then obtain n rd1 where b: "reader_length rd = Inr (n, rd1)" "n \<le> 65536" "pull_seq reader_string n rd1 = Inr (x, rd')"
    by (auto simp: reader_strings_def rbind_Inr_iff split: if_split_asm)
  from len.push_pull [OF b(1)] obtain q where
    q: "push_len [] n = Inr q" "rd_rest rd = q @ rd_rest rd1" "rd1 = rd_adv (length q) rd" by auto
  from str.push_seq_pull_seq [OF b(3)] obtain s where
    s: "length x = n" "\<forall>v \<in> set x. wire_text v" "push_seq push_string [] x = Inr s" "rd_rest rd1 = s @ rd_rest rd'"
    "rd' = rd_adv (length s) rd1" by auto
  from str.push_seq_frame [OF s(3)] have "push_seq push_string q x = Inr (q @ s)" by simp
  with q s b(2) show
    "wire_texts x \<and> (\<exists>p. push_strings [] x = Inr p \<and> rd_rest rd = p @ rd_rest rd' \<and> rd' = rd_adv (length p) rd)"
    by (simp add: push_strings_def wire_texts_def reader.adv_adv)
qed

definition wire_transition :: "Transition \<Rightarrow> bool" where
  "wire_transition t \<longleftrightarrow> wire_text (tr_state t) \<and> wire_text (tr_input t) \<and> wire_text (tr_next_state t) \<and> wire_text (tr_output t)"

lemma push_transition_seq:
  "push_transition out t = push_seq push_string out [tr_state t, tr_input t, tr_next_state t, tr_output t]"
proof -
  have r: "rbind y Inr = y" for y :: "(Error, bytes) result" by (cases y) auto
  show ?thesis by (simp add: push_transition_def r)
qed

lemma reader_transition_seq:
  "reader_transition rd = rbind (pull_seq reader_string 4 rd) (\<lambda>(ss, rd).
     Inr (\<lparr>tr_state = ss ! 0, tr_input = ss ! 1, tr_next_state = ss ! 2, tr_output = ss ! 3\<rparr>, rd))"
  by (simp add: reader_transition_def numeral_eq_Suc case_prod_unfold rbind_def split: sum.splits)

interpretation trans: strict_codec rd_rest rd_adv push_transition reader_transition wire_transition
proof unfold_locales
  fix out out' :: bytes and x
  assume "push_transition out x = Inr out'"
  then show "\<exists>p. out' = out @ p \<and> (\<forall>o'. push_transition o' x = Inr (o' @ p))"
    unfolding push_transition_seq by (rule str.push_seq_frame)
next
  fix x p r rd
  assume x: "wire_transition x" "push_transition [] x = Inr p" "rd_rest rd = p @ r"
  have "pull_seq reader_string (length [tr_state x, tr_input x, tr_next_state x, tr_output x]) rd =
      Inr ([tr_state x, tr_input x, tr_next_state x, tr_output x], rd_adv (length p) rd)"
    using x by (intro str.pull_seq_push_seq) (auto simp: push_transition_seq wire_transition_def)
  then have "pull_seq reader_string 4 rd = Inr ([tr_state x, tr_input x, tr_next_state x, tr_output x], rd_adv (length p) rd)"
    by (simp only: list.size numeral_eq_Suc pred_numeral_simps) (simp add: numeral_eq_Suc)
  then show "reader_transition rd = Inr (x, rd_adv (length p) rd)"
    by (simp add: reader_transition_seq)
next
  fix rd rd' x
  assume "reader_transition rd = Inr (x, rd')"
  then obtain ss where ss: "pull_seq reader_string 4 rd = Inr (ss, rd')"
    "x = \<lparr>tr_state = ss ! 0, tr_input = ss ! 1, tr_next_state = ss ! 2, tr_output = ss ! 3\<rparr>"
    by (auto simp: reader_transition_seq rbind_Inr_iff)
  from str.push_seq_pull_seq [OF ss(1)] obtain p where
    p: "length ss = 4" "\<forall>v \<in> set ss. wire_text v" "push_seq push_string [] ss = Inr p" "rd_rest rd = p @ rd_rest rd'"
    "rd' = rd_adv (length p) rd" by auto
  from p(1) obtain a b c d where "ss = [a, b, c, d]"
    by (auto simp: numeral_eq_Suc length_Suc_conv)
  with ss p show "wire_transition x \<and>
      (\<exists>p. push_transition [] x = Inr p \<and> rd_rest rd = p @ rd_rest rd' \<and> rd' = rd_adv (length p) rd)"
    by (simp add: wire_transition_def push_transition_seq del: push_seq.simps)
qed

definition wire_candidate :: "Candidate \<Rightarrow> bool" where
  "wire_candidate c \<longleftrightarrow> wire_text (cd_component c) \<and> wire_text (cd_interface_version c)
     \<and> wire_text (gr_version (cd_grammar c)) \<and> wire_texts (gr_inputs (cd_grammar c))
     \<and> wire_texts (gr_outputs (cd_grammar c)) \<and> wire_texts (gr_states (cd_grammar c))
     \<and> wire_text (gr_initial_state (cd_grammar c)) \<and> length (cd_transitions c) \<le> 256
     \<and> (\<forall>t \<in> set (cd_transitions c). wire_transition t)"

lemma push_len_small: "n < 2 ^ 32 \<Longrightarrow> push_len out n = Inr (out @ be_bytes 4 n)"
  by (simp add: push_len_def)

lemma push_string_ok: "wire_text s \<Longrightarrow> push_string out s = Inr (out @ be_bytes 4 (length s) @ as_bytes s)"
  by (simp add: push_string_def push_len_def wire_text_def del: be_bytes.simps)

lemma push_seq_ok:
  "(\<And>x out. x \<in> set xs \<Longrightarrow> push out x = Inr (out @ enc x)) \<Longrightarrow> push_seq push out xs = Inr (out @ concat (map enc xs))"
  by (induction xs arbitrary: out) auto


text \<open>One field of the candidate: what is written is read back, and the cursor moves past it.\<close>

definition reads :: "(Reader \<Rightarrow> (Error, 'a \<times> Reader) result) \<Rightarrow> 'a \<Rightarrow> bytes \<Rightarrow> bool" where
  "reads pull x p \<longleftrightarrow> (\<forall>rd r. rd_rest rd = p @ r \<longrightarrow> pull rd = Inr (x, rd_adv (length p) rd))"

lemma reads_step:
  assumes "reads pull x p" "rd_rest rd = p @ r"
  obtains rd' where "pull rd = Inr (x, rd')" "rd_rest rd' = r" "rd' = rd_adv (length p) rd"
  using assms len.rest_after [OF assms(2)] by (simp add: reads_def)

lemma reads_take: "length p = n \<Longrightarrow> p \<noteq> [] \<Longrightarrow> reads (reader_take n) p p"
  using reader_take_append unfolding reads_def by blast

lemma reads_len: "push_len [] n = Inr p \<Longrightarrow> reads reader_length n p"
  unfolding reads_def by (blast intro: len.pull_push)

lemma reads_string: "wire_text s \<Longrightarrow> push_string [] s = Inr p \<Longrightarrow> reads reader_string s p"
  unfolding reads_def by (blast intro: str.pull_push)

lemma reads_strings: "wire_texts s \<Longrightarrow> push_strings [] s = Inr p \<Longrightarrow> reads reader_strings s p"
  unfolding reads_def by (blast intro: strs.pull_push)

lemma reads_transitions:
  "\<forall>t \<in> set ts. wire_transition t \<Longrightarrow> push_seq push_transition [] ts = Inr p \<Longrightarrow>
     reads (pull_seq reader_transition (length ts)) ts p"
  unfolding reads_def by (blast intro: trans.pull_seq_push_seq)

text \<open>The fields of an encoded candidate, one after the other.\<close>

lemma encode_candidateE:
  assumes "encode_candidate c = Inr bs"
  obtains p1 p2 p3 p4 p5 p6 p7 p8 p9 where
    "push_string [] (cd_component c) = Inr p1" "push_string [] (cd_interface_version c) = Inr p2"
    "push_string [] (gr_version (cd_grammar c)) = Inr p3" "push_strings [] (gr_inputs (cd_grammar c)) = Inr p4"
    "push_strings [] (gr_outputs (cd_grammar c)) = Inr p5" "push_strings [] (gr_states (cd_grammar c)) = Inr p6"
    "push_string [] (gr_initial_state (cd_grammar c)) = Inr p7" "push_len [] (length (cd_transitions c)) = Inr p8"
    "push_seq push_transition [] (cd_transitions c) = Inr p9"
    "bs = MAGIC @ p1 @ p2 @ p3 @ p4 @ p5 @ p6 @ p7 @ be_bytes 8 (unat (gr_max_candidates (cd_grammar c))) @ p8 @ p9"
proof -
  let ?g = "cd_grammar c"
  from assms obtain o1 o2 o3 o4 o5 o6 o7 o8 where
    o: "push_string MAGIC (cd_component c) = Inr o1" "push_string o1 (cd_interface_version c) = Inr o2"
    "push_string o2 (gr_version ?g) = Inr o3" "push_strings o3 (gr_inputs ?g) = Inr o4"
    "push_strings o4 (gr_outputs ?g) = Inr o5" "push_strings o5 (gr_states ?g) = Inr o6"
    "push_string o6 (gr_initial_state ?g) = Inr o7"
    "push_len (o7 @ be_bytes 8 (unat (gr_max_candidates ?g))) (length (cd_transitions c)) = Inr o8"
    "push_seq push_transition o8 (cd_transitions c) = Inr bs"
    by (auto simp: encode_candidate_def rbind_Inr_iff)
  from str.push_appendE [OF o(1)] obtain p1 where p1: "push_string [] (cd_component c) = Inr p1" "o1 = MAGIC @ p1" .
  from str.push_appendE [OF o(2)] obtain p2 where p2: "push_string [] (cd_interface_version c) = Inr p2" "o2 = o1 @ p2" .
  from str.push_appendE [OF o(3)] obtain p3 where p3: "push_string [] (gr_version ?g) = Inr p3" "o3 = o2 @ p3" .
  from strs.push_appendE [OF o(4)] obtain p4 where p4: "push_strings [] (gr_inputs ?g) = Inr p4" "o4 = o3 @ p4" .
  from strs.push_appendE [OF o(5)] obtain p5 where p5: "push_strings [] (gr_outputs ?g) = Inr p5" "o5 = o4 @ p5" .
  from strs.push_appendE [OF o(6)] obtain p6 where p6: "push_strings [] (gr_states ?g) = Inr p6" "o6 = o5 @ p6" .
  from str.push_appendE [OF o(7)] obtain p7 where p7: "push_string [] (gr_initial_state ?g) = Inr p7" "o7 = o6 @ p7" .
  from len.push_appendE [OF o(8)] obtain p8 where
    p8: "push_len [] (length (cd_transitions c)) = Inr p8" "o8 = (o7 @ be_bytes 8 (unat (gr_max_candidates ?g))) @ p8" .
  from trans.push_seq_frame [OF o(9)] obtain p9 where
    p9: "push_seq push_transition [] (cd_transitions c) = Inr p9" "bs = o8 @ p9" by auto
  show thesis using that [OF p1(1) p2(1) p3(1) p4(1) p5(1) p6(1) p7(1) p8(1) p9(1)]
    by (simp add: p1(2) p2(2) p3(2) p4(2) p5(2) p6(2) p7(2) p8(2) p9(2) del: be_bytes.simps)
qed

lemma encode_candidateI:
  assumes "push_string [] (cd_component c) = Inr p1" "push_string [] (cd_interface_version c) = Inr p2"
    "push_string [] (gr_version (cd_grammar c)) = Inr p3" "push_strings [] (gr_inputs (cd_grammar c)) = Inr p4"
    "push_strings [] (gr_outputs (cd_grammar c)) = Inr p5" "push_strings [] (gr_states (cd_grammar c)) = Inr p6"
    "push_string [] (gr_initial_state (cd_grammar c)) = Inr p7" "push_len [] (length (cd_transitions c)) = Inr p8"
    "push_seq push_transition [] (cd_transitions c) = Inr p9"
  shows "encode_candidate c = Inr (MAGIC @ p1 @ p2 @ p3 @ p4 @ p5 @ p6 @ p7 @
    be_bytes 8 (unat (gr_max_candidates (cd_grammar c))) @ p8 @ p9)"
proof -
  have t: "push_seq push_transition out (cd_transitions c) = Inr (out @ p9)" for out
    using trans.push_seq_frame [OF assms(9)] by auto
  show ?thesis
    by (simp add: encode_candidate_def str.push_append [OF assms(1)] str.push_append [OF assms(2)] str.push_append [OF assms(3)]
        strs.push_append [OF assms(4)] strs.push_append [OF assms(5)] strs.push_append [OF assms(6)]
        str.push_append [OF assms(7)] len.push_append [OF assms(8)] t del: be_bytes.simps)
qed

lemma length_MAGIC [simp]: "length MAGIC = 8"
  by (simp add: MAGIC_def)

lemma decode_encode_candidate:
  assumes "wire_candidate c" "encode_candidate c = Inr bs"
  shows "decode_candidate bs = Inr c"
proof -
  let ?g = "cd_grammar c" and ?w = "be_bytes 8 (unat (gr_max_candidates (cd_grammar c)))"
  from encode_candidateE [OF assms(2)] obtain p1 p2 p3 p4 p5 p6 p7 p8 p9 where p:
    "push_string [] (cd_component c) = Inr p1" "push_string [] (cd_interface_version c) = Inr p2"
    "push_string [] (gr_version ?g) = Inr p3" "push_strings [] (gr_inputs ?g) = Inr p4"
    "push_strings [] (gr_outputs ?g) = Inr p5" "push_strings [] (gr_states ?g) = Inr p6"
    "push_string [] (gr_initial_state ?g) = Inr p7" "push_len [] (length (cd_transitions c)) = Inr p8"
    "push_seq push_transition [] (cd_transitions c) = Inr p9"
    "bs = MAGIC @ p1 @ p2 @ p3 @ p4 @ p5 @ p6 @ p7 @ ?w @ p8 @ p9" .
  note ok = assms(1) [unfolded wire_candidate_def]
  define rd0 where "rd0 = \<lparr>rd_input = bs, rd_offset = 0\<rparr>"
  have r0: "rd_rest rd0 = MAGIC @ p1 @ p2 @ p3 @ p4 @ p5 @ p6 @ p7 @ ?w @ p8 @ p9"
    by (simp only: rd0_def rd_rest_def p(10)) simp
  have ne: "length xs = 8 \<Longrightarrow> xs \<noteq> []" for xs :: bytes by auto
  have w: "length ?w = 8" "?w \<noteq> []" "MAGIC \<noteq> []"
    by (simp, (rule ne, simp)+)
  obtain rd1 where 1: "reader_take 8 rd0 = Inr (MAGIC, rd1)" "rd_rest rd1 = p1 @ p2 @ p3 @ p4 @ p5 @ p6 @ p7 @ ?w @ p8 @ p9"
    "rd1 = rd_adv (length MAGIC) rd0"
    using reads_step [OF reads_take [OF length_MAGIC w(3)] r0] by blast
  obtain rd2 where 2: "reader_string rd1 = Inr (cd_component c, rd2)" "rd_rest rd2 = p2 @ p3 @ p4 @ p5 @ p6 @ p7 @ ?w @ p8 @ p9"
    "rd2 = rd_adv (length p1) rd1"
    using reads_step [OF reads_string [OF _ p(1)] 1(2)] ok by blast
  obtain rd3 where 3: "reader_string rd2 = Inr (cd_interface_version c, rd3)" "rd_rest rd3 = p3 @ p4 @ p5 @ p6 @ p7 @ ?w @ p8 @ p9"
    "rd3 = rd_adv (length p2) rd2"
    using reads_step [OF reads_string [OF _ p(2)] 2(2)] ok by blast
  obtain rd4 where 4: "reader_string rd3 = Inr (gr_version ?g, rd4)" "rd_rest rd4 = p4 @ p5 @ p6 @ p7 @ ?w @ p8 @ p9"
    "rd4 = rd_adv (length p3) rd3"
    using reads_step [OF reads_string [OF _ p(3)] 3(2)] ok by blast
  obtain rd5 where 5: "reader_strings rd4 = Inr (gr_inputs ?g, rd5)" "rd_rest rd5 = p5 @ p6 @ p7 @ ?w @ p8 @ p9"
    "rd5 = rd_adv (length p4) rd4"
    using reads_step [OF reads_strings [OF _ p(4)] 4(2)] ok by blast
  obtain rd6 where 6: "reader_strings rd5 = Inr (gr_outputs ?g, rd6)" "rd_rest rd6 = p6 @ p7 @ ?w @ p8 @ p9"
    "rd6 = rd_adv (length p5) rd5"
    using reads_step [OF reads_strings [OF _ p(5)] 5(2)] ok by blast
  obtain rd7 where 7: "reader_strings rd6 = Inr (gr_states ?g, rd7)" "rd_rest rd7 = p7 @ ?w @ p8 @ p9"
    "rd7 = rd_adv (length p6) rd6"
    using reads_step [OF reads_strings [OF _ p(6)] 6(2)] ok by blast
  obtain rd8 where 8: "reader_string rd7 = Inr (gr_initial_state ?g, rd8)" "rd_rest rd8 = ?w @ p8 @ p9"
    "rd8 = rd_adv (length p7) rd7"
    using reads_step [OF reads_string [OF _ p(7)] 7(2)] ok by blast
  obtain rd9 where 9: "reader_take 8 rd8 = Inr (?w, rd9)" "rd_rest rd9 = p8 @ p9" "rd9 = rd_adv (length ?w) rd8"
    using reads_step [OF reads_take [OF w(1,2)] 8(2)] by blast
  obtain rd10 where 10: "reader_length rd9 = Inr (length (cd_transitions c), rd10)" "rd_rest rd10 = p9 @ []"
    "rd10 = rd_adv (length p8) rd9"
    using reads_step [OF reads_len [OF p(8)] 9(2)] by auto
  obtain rd11 where 11: "pull_seq reader_transition (length (cd_transitions c)) rd10 = Inr (cd_transitions c, rd11)"
    "rd11 = rd_adv (length p9) rd10"
    using reads_step [OF reads_transitions [OF _ p(9)] 10(2)] ok by blast
  have "rd_offset rd11 = length bs"
    unfolding 1(3) 2(3) 3(3) 4(3) 5(3) 6(3) 7(3) 8(3) 9(3) 10(3) 11(2) rd0_def p(10) by (simp add: rd_adv_def del: be_bytes.simps)
  moreover have "of_nat (from_be ?w) = gr_max_candidates ?g" unfolding be_bytes_word by simp
  ultimately show ?thesis
    using ok unfolding decode_candidate_def rd0_def [symmetric]
    by (simp add: 1(1) 2(1) 3(1) 4(1) 5(1) 6(1) 7(1) 8(1) 9(1) 10(1) 11(1) del: be_bytes.simps)
qed

lemma encode_decode_candidate:
  assumes "decode_candidate bs = Inr c"
  shows "encode_candidate c = Inr bs \<and> wire_candidate c"
proof -
  define rd0 where "rd0 = \<lparr>rd_input = bs, rd_offset = 0\<rparr>"
  obtain m rd1 s1 rd2 s2 rd3 s3 rd4 s4 rd5 s5 rd6 s6 rd7 s7 rd8 w rd9 n rd10 ts rd11 where
    rd: "reader_take 8 rd0 = Inr (m, rd1)" "m = MAGIC" "reader_string rd1 = Inr (s1, rd2)" "reader_string rd2 = Inr (s2, rd3)"
    "reader_string rd3 = Inr (s3, rd4)" "reader_strings rd4 = Inr (s4, rd5)" "reader_strings rd5 = Inr (s5, rd6)"
    "reader_strings rd6 = Inr (s6, rd7)" "reader_string rd7 = Inr (s7, rd8)" "reader_take 8 rd8 = Inr (w, rd9)"
    "reader_length rd9 = Inr (n, rd10)" "n \<le> 256" "pull_seq reader_transition n rd10 = Inr (ts, rd11)"
    "rd_offset rd11 = length bs"
    "c = \<lparr>cd_component = s1, cd_interface_version = s2,
         cd_grammar = \<lparr>gr_version = s3, gr_inputs = s4, gr_outputs = s5, gr_states = s6,
           gr_initial_state = s7, gr_max_candidates = of_nat (from_be w)\<rparr>, cd_transitions = ts\<rparr>"
    using assms unfolding decode_candidate_def rd0_def [symmetric] by (auto simp: rbind_Inr_iff split: if_split_asm)
  from str.push_pull [OF rd(3)] obtain p1 where p1: "wire_text s1" "push_string [] s1 = Inr p1"
    "rd_rest rd1 = p1 @ rd_rest rd2" "rd2 = rd_adv (length p1) rd1" by blast
  from str.push_pull [OF rd(4)] obtain p2 where p2: "wire_text s2" "push_string [] s2 = Inr p2"
    "rd_rest rd2 = p2 @ rd_rest rd3" "rd3 = rd_adv (length p2) rd2" by blast
  from str.push_pull [OF rd(5)] obtain p3 where p3: "wire_text s3" "push_string [] s3 = Inr p3"
    "rd_rest rd3 = p3 @ rd_rest rd4" "rd4 = rd_adv (length p3) rd3" by blast
  from strs.push_pull [OF rd(6)] obtain p4 where p4: "wire_texts s4" "push_strings [] s4 = Inr p4"
    "rd_rest rd4 = p4 @ rd_rest rd5" "rd5 = rd_adv (length p4) rd4" by blast
  from strs.push_pull [OF rd(7)] obtain p5 where p5: "wire_texts s5" "push_strings [] s5 = Inr p5"
    "rd_rest rd5 = p5 @ rd_rest rd6" "rd6 = rd_adv (length p5) rd5" by blast
  from strs.push_pull [OF rd(8)] obtain p6 where p6: "wire_texts s6" "push_strings [] s6 = Inr p6"
    "rd_rest rd6 = p6 @ rd_rest rd7" "rd7 = rd_adv (length p6) rd6" by blast
  from str.push_pull [OF rd(9)] obtain p7 where p7: "wire_text s7" "push_string [] s7 = Inr p7"
    "rd_rest rd7 = p7 @ rd_rest rd8" "rd8 = rd_adv (length p7) rd7" by blast
  from len.push_pull [OF rd(11)] obtain p8 where p8: "push_len [] n = Inr p8"
    "rd_rest rd9 = p8 @ rd_rest rd10" "rd10 = rd_adv (length p8) rd9" by blast
  from trans.push_seq_pull_seq [OF rd(13)] obtain p9 where p9: "length ts = n" "\<forall>t \<in> set ts. wire_transition t"
    "push_seq push_transition [] ts = Inr p9" "rd_rest rd10 = p9 @ rd_rest rd11" "rd11 = rd_adv (length p9) rd10" by blast
  from reader_take_InrD [OF rd(1)] have m: "rd_rest rd0 = MAGIC @ rd_rest rd1" "rd1 = rd_adv 8 rd0" by (simp_all add: rd(2))
  from reader_take_InrD [OF rd(10)] have w: "rd_rest rd8 = w @ rd_rest rd9" "rd9 = rd_adv 8 rd8" "length w = 8" by simp_all
  have "rd_input rd11 = bs"
    by (simp add: m(2) w(2) p1(4) p2(4) p3(4) p4(4) p5(4) p6(4) p7(4) p8(3) p9(5) rd_adv_def rd0_def)
  then have "rd_rest rd11 = []" by (simp add: rd_rest_def rd(14))
  then have bs: "bs = MAGIC @ p1 @ p2 @ p3 @ p4 @ p5 @ p6 @ p7 @ w @ p8 @ p9"
    using m(1) w(1) p1(3) p2(3) p3(3) p4(3) p5(3) p6(3) p7(3) p8(2) p9(4) by (simp add: rd_rest_def rd0_def)
  have "from_be w < 2 ^ 64" using from_be_bound [of w] by (simp add: w(3))
  then have "unat (of_nat (from_be w) :: u64) = from_be w" by (simp add: unat_of_nat take_bit_nat_eq_self)
  then have "be_bytes 8 (unat (of_nat (from_be w) :: u64)) = w" using be_bytes_from_be [of w] by (simp add: w(3))
  moreover have "wire_candidate c"
    using rd(12) p1(1) p2(1) p3(1) p4(1) p5(1) p6(1) p7(1) p9(1,2) by (simp add: wire_candidate_def rd(15))
  ultimately show ?thesis
    using encode_candidateI [of c p1 p2 p3 p4 p5 p6 p7 p8 p9] p1(2) p2(2) p3(2) p4(2) p5(2) p6(2) p7(2) p8(1) p9(1,3)
    by (simp add: rd(15) bs)
qed

lemma wire_candidate_encodes: "wire_candidate c \<Longrightarrow> \<exists>bs. encode_candidate c = Inr bs"
proof -
  assume c: "wire_candidate c"
  have s: "wire_text s \<Longrightarrow> push_string [] s = Inr (be_bytes 4 (length s) @ as_bytes s)" for s
    by (simp add: push_string_ok del: be_bytes.simps)
  have ss: "wire_texts vs \<Longrightarrow> push_strings [] vs = Inr (be_bytes 4 (length vs) @ concat (map (\<lambda>s. be_bytes 4 (length s) @ as_bytes s) vs))" for vs
    by (simp add: push_strings_def push_len_small wire_texts_def push_seq_ok [OF push_string_ok] del: be_bytes.simps)
  have t: "wire_transition t \<Longrightarrow> push_transition out t = Inr (out @ concat (map (\<lambda>s. be_bytes 4 (length s) @ as_bytes s)
      [tr_state t, tr_input t, tr_next_state t, tr_output t]))" for t out
    unfolding push_transition_seq by (rule push_seq_ok, rule push_string_ok) (auto simp: wire_transition_def)
  have ts: "push_seq push_transition [] (cd_transitions c) = Inr ([] @ concat (map (\<lambda>t. concat (map (\<lambda>s. be_bytes 4 (length s) @ as_bytes s)
      [tr_state t, tr_input t, tr_next_state t, tr_output t])) (cd_transitions c)))"
    using c by (intro push_seq_ok t) (simp add: wire_candidate_def)
  from c show ?thesis
    using encode_candidateI [OF s s s ss ss ss s push_len_small ts] by (auto simp: wire_candidate_def)
qed

section \<open>Properties\<close>

text \<open>(C32) The wire format is a bijection between candidates within the reader's bounds and the inputs
  the reader accepts: the checker decodes exactly the candidate that was encoded, and no second
  byte string stands for the same candidate.\<close>

theorem wire_bijection:
  "decode_candidate bs = Inr c \<longleftrightarrow> wire_candidate c \<and> encode_candidate c = Inr bs"
  using decode_encode_candidate encode_decode_candidate by blast

text \<open>Encoding a candidate within the bounds succeeds, and decoding it gives it back.\<close>

theorem wire_total:
  assumes "wire_candidate c"
  shows "\<exists>bs. encode_candidate c = Inr bs \<and> decode_candidate bs = Inr c"
  using wire_candidate_encodes [OF assms] decode_encode_candidate [OF assms] by blast

definition wire_sample :: Candidate where
  "wire_sample = \<lparr>cd_component = ''lock'', cd_interface_version = ''1'',
     cd_grammar = \<lparr>gr_version = ''fsm-v1'', gr_inputs = [''a''], gr_outputs = [''x'', ''y''], gr_states = [''s''],
       gr_initial_state = ''s'', gr_max_candidates = 16\<rparr>,
     cd_transitions = [\<lparr>tr_state = ''s'', tr_input = ''a'', tr_next_state = ''s'', tr_output = ''x''\<rparr>]\<rparr>"

theorem wire_total_witness:
  "\<exists>bs. encode_candidate wire_sample = Inr bs \<and> decode_candidate bs = Inr wire_sample"
  by (rule wire_total)
    (simp add: wire_sample_def wire_candidate_def wire_text_def wire_texts_def wire_transition_def utf8_def as_bytes_def in_range_def)


section \<open>The encoder is injective\<close>

text \<open>\<open>unique push\<close>: an encoding followed by anything determines the value and what follows.\<close>

definition unique :: "(bytes \<Rightarrow> 'a \<Rightarrow> (Error, bytes) result) \<Rightarrow> bool" where
  "unique push \<longleftrightarrow> (\<forall>x y p q r s. push [] x = Inr p \<longrightarrow> push [] y = Inr q \<longrightarrow> p @ r = q @ s \<longrightarrow> x = y \<and> r = s)"

lemma uniqueD: "unique push \<Longrightarrow> push [] x = Inr p \<Longrightarrow> push [] y = Inr q \<Longrightarrow> p @ r = q @ s \<Longrightarrow> x = y \<and> r = s"
  unfolding unique_def by blast

lemma be_bytes_unique: "m < 256 ^ k \<Longrightarrow> n < 256 ^ k \<Longrightarrow> be_bytes k m @ r = be_bytes k n @ s \<longleftrightarrow> m = n \<and> r = s"
  by (metis append_eq_append_conv be_bytes_small length_be_bytes)

lemma unique_len: "unique push_len"
proof -
  have "m = n \<and> r = s" if "m < 2 ^ 32" "n < 2 ^ 32" "be_bytes 4 m @ r = be_bytes 4 n @ s" for m n :: nat and r s
    using be_bytes_unique [of m 4 n r s] that by simp
  then show ?thesis unfolding unique_def by (auto simp: push_len_def simp del: be_bytes.simps split: if_splits)
qed

lemma unique_string: "unique push_string"
  unfolding unique_def
proof (intro allI impI)
  fix x y p q and r s :: bytes
  assume a: "push_string [] x = Inr p" "push_string [] y = Inr q" "p @ r = q @ s"
  then obtain p' q' where pq: "push_len [] (length x) = Inr p'" "push_len [] (length y) = Inr q'" "p = p' @ as_bytes x" "q = q' @ as_bytes y"
    by (auto simp: push_string_def rbind_Inr_iff)
  then have "length x = length y" "as_bytes x @ r = as_bytes y @ s"
    using uniqueD [OF unique_len pq(1,2), of "as_bytes x @ r" "as_bytes y @ s"] a(3) by simp_all
  then show "x = y \<and> r = s" by (metis append_eq_append_conv bytes_str_as_bytes length_as_bytes)
qed

lemma unique_seq:
  assumes u: "unique push" and frame: "\<And>out x out'. push out x = Inr out' \<Longrightarrow> \<exists>p. push [] x = Inr p \<and> out' = out @ p"
  shows "push_seq push a xs = Inr (a @ p) \<Longrightarrow> push_seq push b ys = Inr (b @ q) \<Longrightarrow> length xs = length ys \<Longrightarrow> p @ r = q @ s \<Longrightarrow> xs = ys \<and> r = s"
proof (induction xs arbitrary: ys a b p q)
  case (Cons x xs)
  then obtain y ys' where ys: "ys = y # ys'" by (cases ys) auto
  have mono: "push_seq push out zs = Inr out' \<Longrightarrow> \<exists>p. out' = out @ p" for out zs out'
  proof (induction zs arbitrary: out)
    case (Cons z zs)
    then obtain o1 where o1: "push out z = Inr o1" "push_seq push o1 zs = Inr out'" by (auto simp: rbind_Inr_iff)
    from frame [OF o1(1)] Cons.IH [OF o1(2)] show ?case by auto
  qed simp
  from Cons.prems(1,2) obtain a1 b1 where ab: "push a x = Inr a1" "push_seq push a1 xs = Inr (a @ p)" "push b y = Inr b1" "push_seq push b1 ys' = Inr (b @ q)"
    by (auto simp: ys rbind_Inr_iff)
  obtain p1 where p1: "push [] x = Inr p1" "a1 = a @ p1" using frame [OF ab(1)] by blast
  obtain q1 where q1: "push [] y = Inr q1" "b1 = b @ q1" using frame [OF ab(3)] by blast
  obtain p2 where p2: "p = p1 @ p2" using mono [OF ab(2)] p1(2) by auto
  obtain q2 where q2: "q = q1 @ q2" using mono [OF ab(4)] q1(2) by auto
  have e: "x = y \<and> p2 @ r = q2 @ s" using uniqueD [OF u p1(1) q1(1), of "p2 @ r" "q2 @ s"] Cons.prems(4) p2 q2 by simp
  then show ?case using Cons.IH [of a1 p2 b1 ys' q2] ab(2,4) p1(2) q1(2) p2 q2 Cons.prems(3) by (simp add: ys)
qed simp

lemma str_frame: "push_string out x = Inr out' \<Longrightarrow> \<exists>p. push_string [] x = Inr p \<and> out' = out @ p"
  using str.push_frame by fastforce

lemma trans_frame: "push_transition out x = Inr out' \<Longrightarrow> \<exists>p. push_transition [] x = Inr p \<and> out' = out @ p"
  using trans.push_frame by fastforce

lemma unique_strings: "unique push_strings"
  unfolding unique_def
proof (intro allI impI)
  fix x y p q and r s :: bytes
  assume a: "push_strings [] x = Inr p" "push_strings [] y = Inr q" "p @ r = q @ s"
  then obtain p' q' where pq: "push_len [] (length x) = Inr p'" "push_len [] (length y) = Inr q'"
    "push_seq push_string p' x = Inr p" "push_seq push_string q' y = Inr q"
    by (auto simp: push_strings_def rbind_Inr_iff)
  from str.push_seq_frame [OF pq(3)] str.push_seq_frame [OF pq(4)] obtain p2 q2 where p2: "p = p' @ p2" "q = q' @ q2" by auto
  then have "length x = length y" "p2 @ r = q2 @ s"
    using uniqueD [OF unique_len pq(1,2), of "p2 @ r" "q2 @ s"] a(3) by simp_all
  then show "x = y \<and> r = s" using unique_seq [OF unique_string str_frame] pq(3,4) p2 by blast
qed

lemma unique_transition: "unique push_transition"
  unfolding unique_def
proof (intro allI impI)
  fix x y :: Transition and p q r s :: bytes
  assume a: "push_transition [] x = Inr p" "push_transition [] y = Inr q" "p @ r = q @ s"
  let ?f = "\<lambda>t. [tr_state t, tr_input t, tr_next_state t, tr_output t]"
  have "?f x = ?f y \<and> r = s"
    using a by (intro unique_seq [OF unique_string str_frame, of "[]" "?f x" p "[]" "?f y" q]) (simp_all only: push_transition_seq append_Nil, simp_all)
  then show "x = y \<and> r = s" by (simp add: Transition.equality)
qed

lemma encode_candidate_inj:
  assumes "encode_candidate c = Inr bs" "encode_candidate c' = Inr bs"
  shows "c = c'"
proof -
  obtain p1 p2 p3 p4 p5 p6 p7 p8 p9 where p:
    "push_string [] (cd_component c) = Inr p1" "push_string [] (cd_interface_version c) = Inr p2"
    "push_string [] (gr_version (cd_grammar c)) = Inr p3" "push_strings [] (gr_inputs (cd_grammar c)) = Inr p4"
    "push_strings [] (gr_outputs (cd_grammar c)) = Inr p5" "push_strings [] (gr_states (cd_grammar c)) = Inr p6"
    "push_string [] (gr_initial_state (cd_grammar c)) = Inr p7" "push_len [] (length (cd_transitions c)) = Inr p8"
    "push_seq push_transition [] (cd_transitions c) = Inr p9"
    "bs = MAGIC @ p1 @ p2 @ p3 @ p4 @ p5 @ p6 @ p7 @ be_bytes 8 (unat (gr_max_candidates (cd_grammar c))) @ p8 @ p9"
    using encode_candidateE [OF assms(1)] .
  obtain q1 q2 q3 q4 q5 q6 q7 q8 q9 where q:
    "push_string [] (cd_component c') = Inr q1" "push_string [] (cd_interface_version c') = Inr q2"
    "push_string [] (gr_version (cd_grammar c')) = Inr q3" "push_strings [] (gr_inputs (cd_grammar c')) = Inr q4"
    "push_strings [] (gr_outputs (cd_grammar c')) = Inr q5" "push_strings [] (gr_states (cd_grammar c')) = Inr q6"
    "push_string [] (gr_initial_state (cd_grammar c')) = Inr q7" "push_len [] (length (cd_transitions c')) = Inr q8"
    "push_seq push_transition [] (cd_transitions c') = Inr q9"
    "bs = MAGIC @ q1 @ q2 @ q3 @ q4 @ q5 @ q6 @ q7 @ be_bytes 8 (unat (gr_max_candidates (cd_grammar c'))) @ q8 @ q9"
    using encode_candidateE [OF assms(2)] .
  note s = uniqueD [OF unique_string] and ss = uniqueD [OF unique_strings]
  from p(10) q(10) have e0: "p1 @ p2 @ p3 @ p4 @ p5 @ p6 @ p7 @ be_bytes 8 (unat (gr_max_candidates (cd_grammar c))) @ p8 @ p9 =
    q1 @ q2 @ q3 @ q4 @ q5 @ q6 @ q7 @ be_bytes 8 (unat (gr_max_candidates (cd_grammar c'))) @ q8 @ q9" by (simp del: be_bytes.simps)
  note e1 = s [OF p(1) q(1) e0] note e2 = s [OF p(2) q(2) conjunct2 [OF e1]] note e3 = s [OF p(3) q(3) conjunct2 [OF e2]]
  note e4 = ss [OF p(4) q(4) conjunct2 [OF e3]] note e5 = ss [OF p(5) q(5) conjunct2 [OF e4]] note e6 = ss [OF p(6) q(6) conjunct2 [OF e5]]
  note e7 = s [OF p(7) q(7) conjunct2 [OF e6]]
  have "unat w < 256 ^ 8" for w :: u64 using unsigned_less [of w, where 'a = nat] by simp
  then have e8: "unat (gr_max_candidates (cd_grammar c)) = unat (gr_max_candidates (cd_grammar c')) \<and> p8 @ p9 = q8 @ q9"
    using conjunct2 [OF e7] be_bytes_unique by blast
  note e9 = uniqueD [OF unique_len p(8) q(8) conjunct2 [OF e8]]
  have "cd_transitions c = cd_transitions c'"
    using unique_seq [OF unique_transition trans_frame, of "[]" _ p9 "[]" _ q9 "[]" "[]"] p(9) q(9) e9 by simp
  then show ?thesis using e1 e2 e3 e4 e5 e6 e7 e8 by (simp add: Candidate.equality Grammar.equality word_unat_eq_iff)
qed

end
