(* ===== verification/Checker.thy ===== *)
theory Checker
  imports Wire Synthesizer
begin

text \<open>
  The independent checker (\<open>src/checker.rs\<close>): \<open>certify\<close> decodes a candidate from the wire, builds a
  table of tables of its own, checks it total and checks every obligation of the evidence with its
  own interpreter. Indexing the table by an unknown state would panic, which is the error
  \<open>Panicked\<close>; it is shown not to occur.
\<close>

type_synonym nested_table = "(string, (string, string \<times> string) btree_map) btree_map"

record Coverage =
  cv_mandatory_obligations :: nat
  cv_passed_obligations :: nat
  cv_held_out_traces :: nat
  cv_passed_held_out_traces :: nat
  cv_passed_negative_cases :: nat
  cv_passed_metamorphic_properties :: nat
  cv_uncovered_obligations :: nat

section \<open>The interpreter of the nested table\<close>

definition nested_look :: "nested_table \<Rightarrow> machine" where
  "nested_look table state input =
     (case bt_get table state of None \<Rightarrow> None | Some transitions \<Rightarrow> bt_get transitions input)"

primrec run_trace_loop :: "nested_table \<Rightarrow> string \<Rightarrow> string list \<Rightarrow> string list \<Rightarrow> (Error, string list) result" where
  "run_trace_loop table state outputs [] = Inr outputs"
| "run_trace_loop table state outputs (input # inputs) =
     (case nested_look table state input of
        None \<Rightarrow> Inl (CheckerRejected ''obligation uses an unknown symbol'')
      | Some (next_state, output) \<Rightarrow> run_trace_loop table next_state (outputs @ [output]) inputs)"

definition run_trace :: "nested_table \<Rightarrow> string \<Rightarrow> string list \<Rightarrow> (Error, string list) result" where
  "run_trace table initial_state inputs = run_trace_loop table initial_state [] inputs"

primrec check_idempotent_loop :: "nested_table \<Rightarrow> string \<Rightarrow> string \<Rightarrow> string \<Rightarrow> string \<Rightarrow> nat \<Rightarrow> (Error, bool) result" where
  "check_idempotent_loop table input stable_state stable_output state 0 = Inr True"
| "check_idempotent_loop table input stable_state stable_output state (Suc k) =
     (case nested_look table state input of
        None \<Rightarrow> Inl (CheckerRejected ''property uses an unknown symbol'')
      | Some (next_state, output) \<Rightarrow>
          if next_state \<noteq> stable_state \<or> output \<noteq> stable_output then Inr False
          else check_idempotent_loop table input stable_state stable_output next_state k)"

definition check_idempotent :: "nested_table \<Rightarrow> string \<Rightarrow> string \<Rightarrow> u32 \<Rightarrow> (Error, bool) result" where
  "check_idempotent table initial_state input repetitions =
     (case nested_look table initial_state input of
        None \<Rightarrow> Inl (CheckerRejected ''property uses an unknown symbol'')
      | Some (stable_state, stable_output) \<Rightarrow>
          check_idempotent_loop table input stable_state stable_output stable_state (unat repetitions - 1))"

text \<open>The loop over a held-out trace is written out in \<open>certify\<close>, with a message of its own.\<close>

primrec held_out_loop :: "nested_table \<Rightarrow> string \<Rightarrow> string list \<Rightarrow> string list \<Rightarrow> (Error, string list) result" where
  "held_out_loop table state observed [] = Inr observed"
| "held_out_loop table state observed (input # inputs) =
     (case nested_look table state input of
        None \<Rightarrow> Inl (CheckerRejected ''held-out trace uses an unknown input'')
      | Some (next_state, output) \<Rightarrow> held_out_loop table next_state (observed @ [output]) inputs)"

section \<open>Certification\<close>

definition reject :: "('e \<Rightarrow> string) \<Rightarrow> ('e, 'a) result \<Rightarrow> (Error, 'a) result" where
  "reject to_string r = map_err (\<lambda>error. CheckerRejected (to_string error)) r"

definition insert_transition :: "Grammar \<Rightarrow> nested_table \<Rightarrow> Transition \<Rightarrow> (Error, nested_table) result" where
  "insert_transition g table t =
     rbind (reject error_to_string (transition_validate g t)) (\<lambda>_.
       case bt_get table (tr_state t) of
         None \<Rightarrow> Inl (CheckerRejected ''candidate has an unknown state'')
       | Some state_table \<Rightarrow>
           if bt_get state_table (tr_input t) \<noteq> None
           then Inl (CheckerRejected ''candidate has duplicate transitions'')
           else Inr (bt_insert (tr_state t)
             (bt_insert (tr_input t) (tr_next_state t, tr_output t) state_table) table))"

definition build_table :: "Candidate \<Rightarrow> (Error, nested_table) result" where
  "build_table c =
     fold_results (insert_transition (cd_grammar c))
       (bt_collect (map (\<lambda>state. (state, [])) (gr_states (cd_grammar c)))) (cd_transitions c)"

record Counts =
  ct_passed :: nat
  ct_trace_count :: nat
  ct_state_policy_count :: nat
  ct_negative_count :: nat
  ct_metamorphic_count :: nat

definition check_content :: "Grammar \<Rightarrow> nested_table \<Rightarrow> Counts \<Rightarrow> FragmentContent \<Rightarrow> (Error, Counts) result" where
  "check_content g table n content =
     (case content of
        Transition state input next_state output \<Rightarrow>
          rbind (reject error_to_string (transition_validate g
            \<lparr>tr_state = state, tr_input = input, tr_next_state = next_state, tr_output = output\<rparr>)) (\<lambda>_.
            case bt_get table state of
              None \<Rightarrow> Inl (Panicked ''no entry found for key'')
            | Some state_table \<Rightarrow>
                if bt_get state_table input \<noteq> Some (next_state, output)
                then Inl (CheckerRejected ''candidate violates a mandatory transition'')
                else Inr (n\<lparr>ct_passed := ct_passed n + 1\<rparr>))
      | Trace role initial_state inputs outputs \<Rightarrow>
          (case role of
             HeldOut \<Rightarrow>
               if length inputs \<noteq> length outputs \<or> bt_get table initial_state = None
               then Inl (CheckerRejected ''held-out trace is malformed'')
               else rbind (held_out_loop table initial_state [] inputs) (\<lambda>observed.
                 if observed \<noteq> outputs then Inl (CheckerRejected ''candidate violates a held-out trace'')
                 else Inr (n\<lparr>ct_trace_count := ct_trace_count n + 1\<rparr>))
           | Training \<Rightarrow> Inr n)
      | NegativeCase initial_state inputs forbidden_outputs \<Rightarrow>
          rbind (run_trace table initial_state inputs) (\<lambda>observed.
            if observed = forbidden_outputs
            then Inl (CheckerRejected ''candidate violates a mandatory negative case'')
            else Inr (n\<lparr>ct_negative_count := ct_negative_count n + 1\<rparr>))
      | MetamorphicProperty initial_state input repetitions \<Rightarrow>
          if repetitions < 2 then Inl (CheckerRejected ''candidate violates a metamorphic property'')
          else rbind (check_idempotent table initial_state input repetitions) (\<lambda>holds.
            if \<not> holds then Inl (CheckerRejected ''candidate violates a metamorphic property'')
            else Inr (n\<lparr>ct_metamorphic_count := ct_metamorphic_count n + 1\<rparr>))
      | StatePolicy states initial_state \<Rightarrow>
          if states \<noteq> gr_states g \<or> initial_state \<noteq> gr_initial_state g
          then Inl (CheckerRejected ''candidate grammar violates the state policy'')
          else Inr (n\<lparr>ct_state_policy_count := ct_state_policy_count n + 1\<rparr>))"

definition certify :: "bytes \<Rightarrow> string \<Rightarrow> string \<Rightarrow> FragmentContent list \<Rightarrow> (Error, Coverage) result" where
  "certify candidate_json expected_component expected_interface_version contents =
     rbind (decode_candidate candidate_json) (\<lambda>candidate.
     rbind (reject error_to_string (grammar_validate (cd_grammar candidate))) (\<lambda>_.
       if cd_component candidate \<noteq> expected_component \<or> cd_interface_version candidate \<noteq> expected_interface_version
       then Inl (CheckerRejected ''candidate identity does not match the recovery target'')
       else
     rbind (build_table candidate) (\<lambda>table.
       let expected = length (gr_states (cd_grammar candidate)) * length (gr_inputs (cd_grammar candidate)) in
       if sum_list (map (\<lambda>(_, state_table). length state_table) table) \<noteq> expected
       then Inl (CheckerRejected ''candidate transition table is not total'')
       else
     rbind (fold_results (check_content (cd_grammar candidate) table)
        \<lparr>ct_passed = 0, ct_trace_count = 0, ct_state_policy_count = 0, ct_negative_count = 0, ct_metamorphic_count = 0\<rparr>
        contents) (\<lambda>n.
       if ct_passed n \<noteq> expected then Inl (CheckerRejected ''checker lacks a complete transition contract'')
       else if ct_trace_count n = 0 then Inl (CheckerRejected ''checker requires a held-out trace'')
       else if ct_state_policy_count n \<noteq> 1
       then Inl (CheckerRejected ''checker requires exactly one matching state policy'')
       else Inr \<lparr>cv_mandatory_obligations = expected, cv_passed_obligations = ct_passed n,
         cv_held_out_traces = ct_trace_count n, cv_passed_held_out_traces = ct_trace_count n,
         cv_passed_negative_cases = ct_negative_count n,
         cv_passed_metamorphic_properties = ct_metamorphic_count n, cv_uncovered_obligations = 0\<rparr>))))"


section \<open>The interpreter computes the machine of the table\<close>

interpretation nested: interpreter nested_look run_trace_loop check_idempotent_loop
  "CheckerRejected ''obligation uses an unknown symbol''" "CheckerRejected ''property uses an unknown symbol''"
  by unfold_locales auto

interpretation heldout: interpreter nested_look held_out_loop check_idempotent_loop
  "CheckerRejected ''held-out trace uses an unknown input''" "CheckerRejected ''property uses an unknown symbol''"
  by unfold_locales auto

lemma run_trace_machine:
  "run_trace table s is = (case machine_outputs (nested_look table) s is of
     None \<Rightarrow> Inl (CheckerRejected ''obligation uses an unknown symbol'') | Some outs \<Rightarrow> Inr outs)"
  by (simp add: run_trace_def nested.run_machine split: option.splits)

lemma held_out_machine:
  "held_out_loop table s [] is = (case machine_outputs (nested_look table) s is of
     None \<Rightarrow> Inl (CheckerRejected ''held-out trace uses an unknown input'') | Some outs \<Rightarrow> Inr outs)"
  by (simp add: heldout.run_machine split: option.splits)

lemma check_idempotent_machine:
  assumes "\<not> r < 2"
  shows "check_idempotent table s i r = (case machine_idempotent (nested_look table) s i of
     None \<Rightarrow> Inl (CheckerRejected ''property uses an unknown symbol'') | Some b \<Rightarrow> Inr b)"
proof (cases "nested_look table s i")
  case None
  then show ?thesis by (simp add: check_idempotent_def machine_idempotent_def)
next
  case (Some p)
  obtain k where k: "unat r - Suc 0 = Suc k" using repetitions_Suc [OF assms] ..
  obtain n out where p: "p = (n, out)" by (cases p)
  from Some p nested.stable_machine [of table s i n out k] show ?thesis
    by (simp add: check_idempotent_def k del: check_idempotent_loop.simps)
qed

section \<open>Building the table\<close>

definition table_size :: "nested_table \<Rightarrow> nat" where
  "table_size table = sum_list (map (\<lambda>(_, state_table). length state_table) table)"

definition table_ok :: "Grammar \<Rightarrow> Transition list \<Rightarrow> nested_table \<Rightarrow> bool" where
  "table_ok g ts table \<longleftrightarrow> bt_wf table \<and> fst ` set table = set (gr_states g) \<and>
     (\<forall>s st. bt_get table s = Some st \<longrightarrow> bt_wf st) \<and>
     (\<forall>s i n out. nested_look table s i = Some (n, out) \<longleftrightarrow>
        \<lparr>tr_state = s, tr_input = i, tr_next_state = n, tr_output = out\<rparr> \<in> set ts) \<and>
     distinct (map tr_cell ts) \<and> (\<forall>t \<in> set ts. transition_ok g t) \<and> table_size table = length ts"

lemma table_size_replace:
  "bt_wf table \<Longrightarrow> bt_get table s = Some st \<Longrightarrow>
     table_size (bt_insert s st' table) + length st = table_size table + length st'"
proof (induction s st' table rule: bt_insert.induct)
  case (2 k v k' v' m)
  have "\<not> k < k'" if "k \<noteq> k'"
    using 2(2,3) that by (auto simp: bt_wf_Cons dest!: map_of_SomeD)
  with 2 show ?case by (auto simp: table_size_def bt_wf_Cons split: if_split_asm)
qed simp

lemma bt_get_keys: "s \<in> fst ` set m \<longleftrightarrow> (\<exists>v. bt_get m s = Some v)"
  by (metis map_of_eq_None_iff option.exhaust option.simps(3))

lemma insert_transition_ok:
  assumes ok: "table_ok g ts table" and ins: "insert_transition g table t = Inr table'"
  shows "table_ok g (ts @ [t]) table'"
proof -
  from ins obtain st where t: "transition_ok g t" "bt_get table (tr_state t) = Some st" "bt_get st (tr_input t) = None"
    "table' = bt_insert (tr_state t) (bt_insert (tr_input t) (tr_next_state t, tr_output t) st) table"
    by (auto simp: insert_transition_def reject_def result_simps valid_simps
        split: option.split_asm if_split_asm simp del: not_None_eq)
  from ok have wf: "bt_wf table" "bt_wf st"
    and look: "\<And>s i n out. nested_look table s i = Some (n, out) \<longleftrightarrow>
        \<lparr>tr_state = s, tr_input = i, tr_next_state = n, tr_output = out\<rparr> \<in> set ts"
    using t(2) unfolding table_ok_def by blast+
  have none: "nested_look table (tr_state t) (tr_input t) = None" using t by (simp add: nested_look_def)
  have new: "nested_look table' s i = (if (s, i) = tr_cell t then Some (tr_next_state t, tr_output t) else nested_look table s i)" for s i
    using wf t(2) by (simp add: nested_look_def t(4))
  have fresh: "tr_cell u \<noteq> tr_cell t" if "u \<in> set ts" for u
  proof
    assume "tr_cell u = tr_cell t"
    moreover have "nested_look table (tr_state u) (tr_input u) = Some (tr_next_state u, tr_output u)"
    proof -
      have "\<lparr>tr_state = tr_state u, tr_input = tr_input u, tr_next_state = tr_next_state u, tr_output = tr_output u\<rparr> = u"
        by (cases u) simp
      with that show ?thesis by (simp only: look)
    qed
    ultimately show False using none by simp
  qed
  have rt: "t = \<lparr>tr_state = tr_state t, tr_input = tr_input t, tr_next_state = tr_next_state t, tr_output = tr_output t\<rparr>"
    by (cases t) simp
  have "nested_look table' s i = Some (n, out) \<longleftrightarrow>
        \<lparr>tr_state = s, tr_input = i, tr_next_state = n, tr_output = out\<rparr> \<in> set (ts @ [t])" for s i n out
    unfolding new using fresh none look [of s i n out] by (cases t) auto
  moreover have "table_size table' = length (ts @ [t])"
    using table_size_replace [OF wf(1) t(2), of "bt_insert (tr_input t) (tr_next_state t, tr_output t) st"]
      ok t(3) length_bt_insert [OF wf(2), of "tr_input t" "(tr_next_state t, tr_output t)"]
    by (auto simp: t(4) table_ok_def map_of_eq_None_iff)
  moreover have "fst ` set table' = set (gr_states g)"
    using ok t(1) by (simp add: t(4) table_ok_def transition_ok_def insert_absorb)
  moreover have "bt_get table' s = Some st' \<Longrightarrow> bt_wf st'" for s st'
    using ok wf by (auto simp: t(4) table_ok_def split: if_split_asm)
  moreover have "distinct (map tr_cell (ts @ [t]))"
    using ok fresh unfolding table_ok_def by (simp add: image_iff) metis
  moreover have "\<forall>u \<in> set (ts @ [t]). transition_ok g u" using ok t(1) by (simp add: table_ok_def)
  moreover have "bt_wf table'" using wf by (simp add: t(4))
  ultimately show ?thesis unfolding table_ok_def by blast
qed

lemma fold_insert_ok:
  "fold_results (insert_transition g) table ts = Inr table' \<Longrightarrow> table_ok g us table \<Longrightarrow> table_ok g (us @ ts) table'"
proof (induction ts arbitrary: table us)
  case (Cons t ts)
  then obtain t1 where t1: "insert_transition g table t = Inr t1" "fold_results (insert_transition g) t1 ts = Inr table'"
    by (auto simp: rbind_Inr_iff)
  from Cons.IH [OF t1(2) insert_transition_ok [OF Cons.prems(2) t1(1)]] show ?case by simp
qed simp

lemma empty_table_ok: "table_ok g [] (bt_collect (map (\<lambda>state. (state, [])) (gr_states g)))"
proof -
  let ?t = "bt_collect (map (\<lambda>state. (state, [] :: (string, string \<times> string) btree_map)) (gr_states g))"
  have e: "bt_get ?t s = Some st \<Longrightarrow> st = []" for s st
    unfolding map_of_bt_collect by (drule map_of_SomeD) (auto simp: rev_map)
  have k: "fst ` set ?t = set (gr_states g)" by (simp add: image_image)
  have "st = []" if "(s, st) \<in> set ?t" for s st
    using that e bt_wf_distinct [OF bt_wf_collect] by (metis map_of_eq_Some_iff)
  then have "table_size ?t = 0" by (auto simp: table_size_def)
  moreover have "nested_look ?t s i = None" for s i
    using e [of s] by (cases "bt_get ?t s") (auto simp: nested_look_def)
  moreover have "bt_wf st" if "bt_get ?t s = Some st" for s st using e [OF that] by simp
  ultimately show ?thesis using k unfolding table_ok_def by simp
qed

lemma build_table_ok: "build_table c = Inr table \<Longrightarrow> table_ok (cd_grammar c) (cd_transitions c) table"
  unfolding build_table_def using fold_insert_ok [OF _ empty_table_ok] by fastforce

text \<open>Building the table fails only on an invalid or a repeated transition.\<close>

lemma insert_transition_succeeds:
  assumes "table_ok g ts table" "transition_ok g t" "tr_cell t \<notin> set (map tr_cell ts)"
  shows "\<exists>table'. insert_transition g table t = Inr table'"
proof -
  have v: "transition_validate g t = Inr ()" using assms(2) by (simp add: valid_simps)
  have "tr_state t \<in> fst ` set table" using assms by (simp add: table_ok_def transition_ok_def)
  then obtain st where st: "bt_get table (tr_state t) = Some st" by (auto simp: bt_get_keys)
  have "bt_get st (tr_input t) = None"
  proof (rule ccontr)
    assume "bt_get st (tr_input t) \<noteq> None"
    then obtain n out where "nested_look table (tr_state t) (tr_input t) = Some (n, out)"
      using st by (auto simp: nested_look_def)
    then have "\<lparr>tr_state = tr_state t, tr_input = tr_input t, tr_next_state = n, tr_output = out\<rparr> \<in> set ts"
      using assms(1) unfolding table_ok_def by blast
    with assms(3) show False by (force simp: image_iff)
  qed
  with v st show ?thesis by (simp add: insert_transition_def reject_def)
qed

lemma fold_insert_succeeds:
  "table_ok g us table \<Longrightarrow> \<forall>t \<in> set ts. transition_ok g t \<Longrightarrow> distinct (map tr_cell (us @ ts)) \<Longrightarrow>
     \<exists>table'. fold_results (insert_transition g) table ts = Inr table'"
proof (induction ts arbitrary: us table)
  case (Cons t ts)
  obtain t1 where t1: "insert_transition g table t = Inr t1"
    using insert_transition_succeeds [OF Cons.prems(1), of t] Cons.prems(2,3) by auto
  from Cons.IH [OF insert_transition_ok [OF Cons.prems(1) t1]] Cons.prems t1 show ?case by simp
qed simp

lemma build_table_iff:
  "(\<exists>table. build_table c = Inr table) \<longleftrightarrow>
     distinct (map tr_cell (cd_transitions c)) \<and> (\<forall>t \<in> set (cd_transitions c). transition_ok (cd_grammar c) t)"
proof
  assume "\<exists>table. build_table c = Inr table"
  then show "distinct (map tr_cell (cd_transitions c)) \<and> (\<forall>t \<in> set (cd_transitions c). transition_ok (cd_grammar c) t)"
    using build_table_ok by (fastforce simp: table_ok_def)
next
  assume "distinct (map tr_cell (cd_transitions c)) \<and> (\<forall>t \<in> set (cd_transitions c). transition_ok (cd_grammar c) t)"
  then show "\<exists>table. build_table c = Inr table"
    unfolding build_table_def using fold_insert_succeeds [OF empty_table_ok] by simp
qed

lemma table_machine: "table_ok g ts table \<Longrightarrow> nested_look table = machine_of ts"
proof (intro ext option_pair_eqI)
  fix s i n out assume "table_ok g ts table"
  then show "nested_look table s i = Some (n, out) \<longleftrightarrow> machine_of ts s i = Some (n, out)"
    by (simp add: table_ok_def machine_of_iff)
qed

text \<open>As many distinct transitions as there are cells make a machine over the grammar.\<close>

definition total_table :: "Grammar \<Rightarrow> Transition list \<Rightarrow> bool" where
  "total_table g ts \<longleftrightarrow> distinct (map tr_cell ts) \<and> (\<forall>t \<in> set ts. transition_ok g t) \<and>
     length ts = length (gr_states g) * length (gr_inputs g)"

lemma total_table_cells:
  assumes "grammar_ok g" "total_table g ts"
  shows "set (map tr_cell ts) = set (grammar_cells g)"
proof (rule card_subset_eq)
  show "set (map tr_cell ts) \<subseteq> set (grammar_cells g)"
    using assms(2) by (auto simp: total_table_def transition_ok_def set_cells)
  have "card (set (map tr_cell ts)) = length ts" using assms(2) by (metis distinct_card length_map total_table_def)
  also have "\<dots> = card (set (grammar_cells g))"
    using distinct_card [OF grammar_ok_distinct(1) [OF assms(1)]] assms(2) by (simp add: total_table_def length_cells)
  finally show "card (set (map tr_cell ts)) = card (set (grammar_cells g))" .
qed simp

lemma total_table_machine:
  assumes "grammar_ok g" "total_table g ts"
  shows "machine_over g (machine_of ts)"
proof -
  have d: "distinct (map tr_cell ts)" using assms(2) by (simp add: total_table_def)
  have "\<exists>n \<in> set (gr_states g). \<exists>out \<in> set (gr_outputs g). machine_of ts s i = Some (n, out)"
    if "s \<in> set (gr_states g)" "i \<in> set (gr_inputs g)" for s i
  proof -
    have "(s, i) \<in> set (map tr_cell ts)" unfolding total_table_cells [OF assms] using that by (simp add: set_cells)
    then obtain t where t: "t \<in> set ts" "tr_state t = s" "tr_input t = i" by auto
    have "\<lparr>tr_state = s, tr_input = i, tr_next_state = tr_next_state t, tr_output = tr_output t\<rparr> = t"
      using t(2,3) by (cases t) simp
    with t(1) have "machine_of ts s i = Some (tr_next_state t, tr_output t)" by (simp only: machine_of_iff [OF d])
    with t(1) assms(2) show ?thesis by (auto simp: total_table_def transition_ok_def)
  qed
  moreover have "s \<in> set (gr_states g) \<and> i \<in> set (gr_inputs g)" if "machine_of ts s i = Some (n, out)" for s i n out
    using that assms(2) unfolding machine_of_iff [OF d] by (fastforce simp: total_table_def transition_ok_def)
  ultimately show ?thesis unfolding machine_over_def machine_total_def by (metis option.exhaust surj_pair)
qed


section \<open>Checking the evidence\<close>

text \<open>What the checker demands of a fragment: training traces are not checked again, and a held-out
  trace must start in a declared state.\<close>

fun certified :: "Grammar \<Rightarrow> machine \<Rightarrow> FragmentContent \<Rightarrow> bool" where
  "certified g m (Trace Training s is os) = True"
| "certified g m (Trace HeldOut s is os) = (s \<in> set (gr_states g) \<and> meets g m (Trace HeldOut s is os))"
| "certified g m c = meets g m c"

fun is_policy :: "FragmentContent \<Rightarrow> bool" where
  "is_policy (StatePolicy _ _) = True"
| "is_policy _ = False"

fun is_negative :: "FragmentContent \<Rightarrow> bool" where
  "is_negative (NegativeCase _ _ _) = True"
| "is_negative _ = False"

fun is_metamorphic :: "FragmentContent \<Rightarrow> bool" where
  "is_metamorphic (MetamorphicProperty _ _ _) = True"
| "is_metamorphic _ = False"

definition add_counts :: "Counts \<Rightarrow> FragmentContent list \<Rightarrow> Counts" where
  "add_counts n cs = \<lparr>ct_passed = ct_passed n + length (filter is_contract cs),
     ct_trace_count = ct_trace_count n + length (filter held_out cs),
     ct_state_policy_count = ct_state_policy_count n + length (filter is_policy cs),
     ct_negative_count = ct_negative_count n + length (filter is_negative cs),
     ct_metamorphic_count = ct_metamorphic_count n + length (filter is_metamorphic cs)\<rparr>"

lemma machine_outputs_length: "machine_outputs m s is = Some os \<Longrightarrow> length os = length is"
  by (induction "is" arbitrary: s os) (auto split: option.split_asm)

lemma check_content_iff:
  assumes "table_ok g ts table" "machine_over g (nested_look table)"
  shows "check_content g table n c = Inr n' \<longleftrightarrow> certified g (nested_look table) c \<and> n' = add_counts n [c]"
proof (cases c)
  case (Transition s i nx out)
  have look: "nested_look table s i = Some (nx, out) \<Longrightarrow> transition_ok g \<lparr>tr_state = s, tr_input = i, tr_next_state = nx, tr_output = out\<rparr>"
    using assms(1) unfolding table_ok_def by blast
  show ?thesis
  proof (cases "transition_ok g \<lparr>tr_state = s, tr_input = i, tr_next_state = nx, tr_output = out\<rparr>")
    case True
    then have "s \<in> fst ` set table" using assms(1) by (simp add: table_ok_def transition_ok_def)
    then obtain st where st: "bt_get table s = Some st" by (auto simp: bt_get_keys)
    have "transition_validate g \<lparr>tr_state = s, tr_input = i, tr_next_state = nx, tr_output = out\<rparr> = Inr ()"
      using True by (simp add: valid_simps)
    then show ?thesis
      using st by (auto simp: Transition check_content_def reject_def nested_look_def add_counts_def is_contract_def)
  next
    case False
    then obtain e where "transition_validate g \<lparr>tr_state = s, tr_input = i, tr_next_state = nx, tr_output = out\<rparr> = Inl e"
      by (metis sum.exhaust transition_validate_iff)
    then show ?thesis using False look by (auto simp: Transition check_content_def reject_def)
  qed
next
  case (Trace role s ins outs)
  have "bt_get table s = None \<longleftrightarrow> s \<notin> set (gr_states g)"
    using assms(1) by (auto simp: table_ok_def map_of_eq_None_iff)
  then show ?thesis
    by (cases role) (auto simp: Trace check_content_def held_out_machine add_counts_def is_contract_def
        split: option.splits dest: machine_outputs_length)
next
  case (NegativeCase s ins outs)
  then show ?thesis
    by (auto simp: check_content_def run_trace_machine add_counts_def is_contract_def split: option.splits)
next
  case (MetamorphicProperty s i r)
  show ?thesis
  proof (cases "r < 2")
    case True
    then show ?thesis by (auto simp: MetamorphicProperty check_content_def)
  next
    case False
    then show ?thesis
      by (cases "machine_idempotent (nested_look table) s i")
        (auto simp: MetamorphicProperty check_content_def check_idempotent_machine not_less add_counts_def is_contract_def)
  qed
next
  case (StatePolicy states s)
  then show ?thesis by (auto simp: check_content_def add_counts_def is_contract_def)
qed

lemma add_counts_Cons: "add_counts (add_counts n [c]) cs = add_counts n (c # cs)"
  by (simp add: add_counts_def)

lemma check_contents_iff:
  assumes "table_ok g ts table" "machine_over g (nested_look table)"
  shows "fold_results (check_content g table) n cs = Inr n' \<longleftrightarrow>
    (\<forall>c \<in> set cs. certified g (nested_look table) c) \<and> n' = add_counts n cs"
proof (induction cs arbitrary: n)
  case Nil
  show ?case by (auto simp: add_counts_def)
next
  case (Cons c cs)
  show ?case by (auto simp: rbind_Inr_iff check_content_iff [OF assms] Cons add_counts_Cons)
qed

definition coverage_of :: "Grammar \<Rightarrow> FragmentContent list \<Rightarrow> Coverage" where
  "coverage_of g cs = \<lparr>cv_mandatory_obligations = length (gr_states g) * length (gr_inputs g),
     cv_passed_obligations = length (filter is_contract cs),
     cv_held_out_traces = length (filter held_out cs), cv_passed_held_out_traces = length (filter held_out cs),
     cv_passed_negative_cases = length (filter is_negative cs),
     cv_passed_metamorphic_properties = length (filter is_metamorphic cs), cv_uncovered_obligations = 0\<rparr>"

text \<open>The abstract specification of the checker.\<close>

definition accepts :: "Candidate \<Rightarrow> string \<Rightarrow> string \<Rightarrow> FragmentContent list \<Rightarrow> bool" where
  "accepts c component iv contents \<longleftrightarrow>
     grammar_ok (cd_grammar c) \<and> cd_component c = component \<and> cd_interface_version c = iv \<and>
     total_table (cd_grammar c) (cd_transitions c) \<and>
     (\<forall>content \<in> set contents. certified (cd_grammar c) (machine_of (cd_transitions c)) content) \<and>
     length (filter is_contract contents) = length (gr_states (cd_grammar c)) * length (gr_inputs (cd_grammar c)) \<and>
     filter held_out contents \<noteq> [] \<and> length (filter is_policy contents) = 1"

lemma certify_decoded:
  assumes "decode_candidate bs = Inr c"
  shows "certify bs component iv contents = Inr cov \<longleftrightarrow>
    accepts c component iv contents \<and> cov = coverage_of (cd_grammar c) contents"
proof (cases "grammar_ok (cd_grammar c) \<and> cd_component c = component \<and> cd_interface_version c = iv \<and>
    (\<exists>table. build_table c = Inr table)")
  case False
  have "\<not> accepts c component iv contents"
    using False by (auto simp: accepts_def total_table_def build_table_iff)
  moreover have "certify bs component iv contents \<noteq> Inr cov"
  proof
    assume "certify bs component iv contents = Inr cov"
    then have "is_ok (grammar_validate (cd_grammar c))" "cd_component c = component" "cd_interface_version c = iv" "is_ok (build_table c)"
      using assms by (auto simp: certify_def reject_def rbind_Inr_iff map_err_Inr_iff split: if_split_asm)
    with False show False by (auto simp: is_ok_iff valid_simps)
  qed
  ultimately show ?thesis by blast
next
  case True
  then obtain table where t: "build_table c = Inr table" by blast
  note ok = build_table_ok [OF t]
  have size: "sum_list (map (\<lambda>(_, state_table). length state_table) table) = length (cd_transitions c)"
    using ok by (simp add: table_ok_def table_size_def)
  have tt: "total_table (cd_grammar c) (cd_transitions c) \<longleftrightarrow>
      length (cd_transitions c) = length (gr_states (cd_grammar c)) * length (gr_inputs (cd_grammar c))"
    using True by (auto simp: total_table_def build_table_iff)
  have v: "grammar_validate (cd_grammar c) = Inr ()" using True by (simp add: valid_simps)
  show ?thesis
  proof (cases "total_table (cd_grammar c) (cd_transitions c)")
    case False
    then show ?thesis using assms True t v tt size by (simp add: certify_def reject_def accepts_def Let_def)
  next
    case total: True
    have m: "nested_look table = machine_of (cd_transitions c)" by (rule table_machine [OF ok])
    have over: "machine_over (cd_grammar c) (nested_look table)"
      unfolding m using True total by (intro total_table_machine) auto
    show ?thesis
      using assms True t v tt total size
      by (auto simp: certify_def reject_def accepts_def Let_def rbind_Inr_iff check_contents_iff [OF ok over] m
          add_counts_def coverage_of_def filter_empty_conv)
  qed
qed


section \<open>Every failure is a rejection\<close>

definition rejecting :: "(Error, 'a) result \<Rightarrow> bool" where
  "rejecting r \<longleftrightarrow> (\<forall>e. r = Inl e \<longrightarrow> (\<exists>m. e = CheckerRejected m))"

lemma rejecting_simps [simp]: "rejecting (Inr x)" "rejecting (Inl (CheckerRejected m))" "rejecting (reject f r)"
  by (auto simp: rejecting_def reject_def map_err_def split: sum.split_asm)

lemma rejecting_bind: "rejecting r \<Longrightarrow> (\<And>x. r = Inr x \<Longrightarrow> rejecting (f x)) \<Longrightarrow> rejecting (rbind r f)"
  by (cases r) (auto simp: rejecting_def)

lemma rejecting_bind_pair:
  "rejecting r \<Longrightarrow> (\<And>x y. r = Inr (x, y) \<Longrightarrow> rejecting (f x y)) \<Longrightarrow> rejecting (rbind r (\<lambda>(x, y). f x y))"
  by (rule rejecting_bind) auto

lemma rejecting_pull_seq: "(\<And>rd. rejecting (pull rd)) \<Longrightarrow> rejecting (pull_seq pull n rd)"
  by (induction n arbitrary: rd) (auto intro!: rejecting_bind_pair)

lemma rejecting_readers [simp]:
  "rejecting (reader_take n rd)" "rejecting (reader_length rd)" "rejecting (reader_string rd)"
  "rejecting (reader_strings rd)" "rejecting (reader_transition rd)"
proof -
  show t: "rejecting (reader_take n rd)" for n rd by (simp add: reader_take_def Let_def)
  show l: "rejecting (reader_length rd)" for rd by (simp add: reader_length_def t rejecting_bind_pair)
  show s: "rejecting (reader_string rd)" for rd
    by (auto simp: reader_string_def intro!: rejecting_bind_pair l t split: option.split)
  show "rejecting (reader_strings rd)"
    by (auto simp: reader_strings_def intro!: rejecting_bind_pair rejecting_pull_seq l s)
  show "rejecting (reader_transition rd)"
    by (auto simp: reader_transition_def intro!: rejecting_bind_pair s)
qed

lemma rejecting_decode: "rejecting (decode_candidate bs)"
  by (auto simp: decode_candidate_def intro!: rejecting_bind_pair rejecting_pull_seq)

lemma rejecting_fold:
  assumes "\<And>s x. x \<in> set xs \<Longrightarrow> rejecting (f s x)"
  shows "rejecting (fold_results f s xs)"
  using assms by (induction xs arbitrary: s) (auto intro!: rejecting_bind)

lemma rejecting_build: "rejecting (build_table c)"
  unfolding build_table_def
  by (rule rejecting_fold) (auto simp: insert_transition_def intro!: rejecting_bind split: option.split)

lemma rejecting_check:
  assumes "table_ok g ts table"
  shows "rejecting (check_content g table n c)"
proof -
  have "\<exists>st. bt_get table s = Some st"
    if "transition_validate g \<lparr>tr_state = s, tr_input = i, tr_next_state = nx, tr_output = out\<rparr> = Inr u" for s i nx out u
    using that assms by (simp add: valid_simps table_ok_def transition_ok_def bt_get_keys [symmetric])
  note st = this
  show ?thesis
  proof (cases c)
    case (Transition s i nx out)
    show ?thesis
    proof (cases "transition_validate g \<lparr>tr_state = s, tr_input = i, tr_next_state = nx, tr_output = out\<rparr>")
      case (Inr u)
      from st [OF Inr] obtain st where "bt_get table s = Some st" ..
      then show ?thesis using Inr by (simp add: Transition check_content_def reject_def)
    qed (simp add: Transition check_content_def reject_def)
  qed (auto simp: check_content_def run_trace_machine held_out_machine check_idempotent_machine
        split: option.split TraceRole.split intro!: rejecting_bind)
qed

lemma certify_rejecting: "rejecting (certify bs component iv contents)"
  unfolding certify_def
  by (auto simp: Let_def intro!: rejecting_bind rejecting_decode rejecting_build rejecting_fold rejecting_check [OF build_table_ok])

text \<open>The checker either certifies or rejects: whatever the bytes and the evidence, a failure is a
  \<open>CheckerRejected\<close> error, so no other refusal code and no panic can come out of it.\<close>

theorem certify_fails_closed:
  "\<exists>cov m. certify bs component iv contents = Inr cov \<or> certify bs component iv contents = Inl (CheckerRejected m)"
  using certify_rejecting [of bs component iv contents]
  by (cases "certify bs component iv contents") (auto simp: rejecting_def)

text \<open>(C2) The checker implements its specification: it certifies an input exactly when the input is the
  wire encoding of a candidate that \<open>accepts\<close> describes - a valid grammar, the expected identity, a
  total and deterministic table, every obligation of the evidence met by its machine, a full count of
  transition fragments, a held-out trace and one state policy - and it reports the counts of the
  evidence.\<close>

theorem certify_refines:
  "certify bs component iv contents = Inr cov \<longleftrightarrow>
    (\<exists>c. wire_candidate c \<and> encode_candidate c = Inr bs \<and> accepts c component iv contents \<and>
      cov = coverage_of (cd_grammar c) contents)"
proof (cases "decode_candidate bs")
  case (Inl e)
  then have "\<not> (\<exists>c. wire_candidate c \<and> encode_candidate c = Inr bs)"
    using decode_encode_candidate by fastforce
  with Inl show ?thesis by (auto simp: certify_def)
next
  case (Inr c)
  have eq: "wire_candidate c' \<and> encode_candidate c' = Inr bs \<longleftrightarrow> c' = c" for c'
    using Inr decode_encode_candidate [of c' bs] encode_decode_candidate [of bs c] by auto
  show ?thesis unfolding certify_decoded [OF Inr] conj_assoc [symmetric] eq by auto
qed

section \<open>What certified evidence determines\<close>

lemma distinct_transition_cells:
  assumes "\<forall>c \<in> set cs. certified g m c" "distinct (filter is_contract cs)"
  shows "length (filter is_contract cs) = card {(s, i). \<exists>n out. Transition s i n out \<in> set cs}"
proof -
  let ?cs = "set (filter is_contract cs)" and ?cell = "\<lambda>c. (fc_state c, fc_input c)"
  have t: "c \<in> ?cs \<longleftrightarrow> c \<in> set cs \<and> (\<exists>s i n out. c = Transition s i n out)" for c
    by (cases c) (auto simp: is_contract_def)
  have "inj_on ?cell ?cs"
  proof (rule inj_onI)
    fix c d assume cd: "c \<in> ?cs" "d \<in> ?cs" "?cell c = ?cell d"
    then obtain s i n out n' out' where eq: "c = Transition s i n out" "d = Transition s i n' out'"
      unfolding t by auto
    have "certified g m c" "certified g m d" using cd(1,2) assms(1) unfolding t by blast+
    then show "c = d" by (simp add: eq)
  qed
  then have "card (?cell ` ?cs) = card ?cs" by (rule card_image)
  moreover have "?cell ` ?cs = {(s, i). \<exists>n out. Transition s i n out \<in> set cs}"
  proof (intro set_eqI iffI)
    fix x assume "x \<in> {(s, i). \<exists>n out. Transition s i n out \<in> set cs}"
    then obtain s i n out where x: "x = (s, i)" "Transition s i n out \<in> set cs" by auto
    then have "Transition s i n out \<in> ?cs" unfolding t by blast
    then show "x \<in> ?cell ` ?cs" by (rule rev_image_eqI) (simp add: x)
  next
    fix x assume "x \<in> ?cell ` ?cs"
    then obtain c where "c \<in> ?cs" "x = ?cell c" by blast
    then show "x \<in> {(s, i). \<exists>n out. Transition s i n out \<in> set cs}" unfolding t by (simp, elim conjE exE) (simp, blast)
  qed
  ultimately show ?thesis using distinct_card [OF assms(2)] by simp
qed

lemma contract_covers:
  assumes "accepts c component iv cs" "distinct (filter is_contract cs)"
    "s \<in> set (gr_states (cd_grammar c))" "i \<in> set (gr_inputs (cd_grammar c))"
  shows "\<exists>n out. Transition s i n out \<in> set cs"
proof -
  let ?g = "cd_grammar c" and ?m = "machine_of (cd_transitions c)"
  let ?cov = "{(s, i). \<exists>n out. Transition s i n out \<in> set cs}"
  have acc: "grammar_ok ?g" "total_table ?g (cd_transitions c)" "\<forall>c \<in> set cs. certified ?g ?m c"
    "length (filter is_contract cs) = length (grammar_cells ?g)"
    using assms(1) by (auto simp: accepts_def length_cells)
  have over: "machine_over ?g ?m" using acc by (intro total_table_machine)
  have "?cov \<subseteq> set (grammar_cells ?g)"
  proof clarify
    fix s i n out assume "Transition s i n out \<in> set cs"
    with acc(3) have "?m s i = Some (n, out)" by fastforce
    with over show "(s, i) \<in> set (grammar_cells ?g)" by (auto simp: machine_over_def set_cells)
  qed
  moreover have "card ?cov = card (set (grammar_cells ?g))"
    using distinct_transition_cells [OF acc(3) assms(2)] acc(4) distinct_card [OF grammar_ok_distinct(1) [OF acc(1)]] by simp
  ultimately have "?cov = set (grammar_cells ?g)" by (intro card_subset_eq) auto
  then have "(s, i) \<in> ?cov" using assms(3,4) by (simp add: set_cells)
  then show ?thesis by simp
qed

lemma sample_accepted: "accepts sample_candidate ''c'' ''1'' sample_contents"
  using sample_grammar_ok by (simp add: accepts_def sample_candidate_def total_table_def transition_ok_def sample_contents_def
      sample_grammar_def is_contract_def machine_of_def flat_table_of_def bt_collect_def)

lemma sample_wire: "wire_candidate sample_candidate"
  by (simp add: sample_candidate_def sample_grammar_def wire_candidate_def wire_text_def wire_texts_def wire_transition_def
      utf8_def as_bytes_def in_range_def)

lemma certify_determines:
  assumes "certify bs component iv contents = Inr cov" "decode_candidate bs = Inr c"
    and "distinct (filter is_contract contents)"
  shows "(\<forall>s \<in> set (gr_states (cd_grammar c)). \<forall>i \<in> set (gr_inputs (cd_grammar c)).
        \<exists>n out. Transition s i n out \<in> set contents) \<and>
    {m. explains (cd_grammar c) (filter is_contract contents) m} = {machine_of (cd_transitions c)}"
proof -
  let ?g = "cd_grammar c" and ?m = "machine_of (cd_transitions c)"
  have acc: "accepts c component iv contents" using assms by (simp add: certify_decoded)
  note cov = contract_covers [OF acc assms(3)]
  have over: "machine_over ?g ?m" using acc by (intro total_table_machine) (auto simp: accepts_def)
  have cert: "\<forall>content \<in> set contents. certified ?g ?m content" using acc by (simp add: accepts_def)
  have self: "explains ?g (filter is_contract contents) ?m"
    unfolding explains_def
  proof (intro conjI ballI impI over)
    fix content assume "content \<in> set (filter is_contract contents)"
    then have "certified ?g ?m content" "is_contract content" using cert by auto
    then show "meets ?g ?m content" by (cases content) (auto simp: is_contract_def)
  qed
  have eq: "m s i = ?m s i" if m: "explains ?g (filter is_contract contents) m" for m s i
  proof (cases "s \<in> set (gr_states ?g) \<and> i \<in> set (gr_inputs ?g)")
    case True
    then obtain n out where t: "Transition s i n out \<in> set contents" using cov by blast
    then have "Transition s i n out \<in> set (filter is_contract contents)" by (simp add: is_contract_def)
    with m self have "meets ?g m (Transition s i n out)" "meets ?g ?m (Transition s i n out)"
      unfolding explains_def by fastforce+
    then show ?thesis by simp
  next
    case False
    then have "m s i = None" "?m s i = None" using m over unfolding explains_def machine_over_def by metis+
    then show ?thesis by simp
  qed
  have "m = ?m" if "explains ?g (filter is_contract contents) m" for m
    using eq [OF that] by (intro ext)
  then show ?thesis using cov self by blast
qed

text \<open>When the transition fragments are pairwise different, a certificate means that the evidence
  covers the behaviour completely: every state and input has a fragment, and the certified machine is
  the only machine over the grammar that meets the fragments.\<close>

theorem certify_complete_contract:
  assumes "certify bs component iv contents = Inr cov" "decode_candidate bs = Inr c"
    and "distinct (filter is_contract contents)"
  shows "(\<forall>s \<in> set (gr_states (cd_grammar c)). \<forall>i \<in> set (gr_inputs (cd_grammar c)).
        \<exists>n out. Transition s i n out \<in> set contents) \<and>
    {m. explains (cd_grammar c) (filter is_contract contents) m} = {machine_of (cd_transitions c)}"
  using assms by (rule certify_determines)

theorem certify_complete_contract_witness:
  "(\<exists>n out. Transition ''s'' ''a'' n out \<in> set sample_contents) \<and>
    {m. explains sample_grammar (filter is_contract sample_contents) m} = {machine_of (cd_transitions sample_candidate)}"
proof -
  obtain bs where bs: "encode_candidate sample_candidate = Inr bs" using wire_candidate_encodes [OF sample_wire] ..
  have dec: "decode_candidate bs = Inr sample_candidate" by (rule decode_encode_candidate [OF sample_wire bs])
  have cert: "certify bs ''c'' ''1'' sample_contents = Inr (coverage_of sample_grammar sample_contents)"
    using sample_accepted by (simp add: certify_decoded [OF dec]) (simp add: sample_candidate_def)
  have "distinct (filter is_contract sample_contents)" by (simp add: sample_contents_def is_contract_def)
  from certify_complete_contract [OF cert dec this] show ?thesis by (simp add: sample_candidate_def sample_grammar_def)
qed

lemma certified_visible: "\<not> held_out c \<Longrightarrow> meets g m c \<Longrightarrow> certified g m c"
  by (cases c rule: held_out.cases) auto

text \<open>The checker and the synthesizer agree on the evidence: for the candidate an enumeration
  returned, certification can only fail for what the synthesizer does not look at - a held-out trace
  or the counts of transition fragments, held-out traces and state policies.\<close>

theorem certify_reconstruction:
  assumes "grammar_ok g" "reconstruct_v1 component iv g contents = Inr (cand, n)"
    and "wire_candidate cand" "encode_candidate cand = Inr bs"
  shows "certify bs component iv contents = Inr cov \<longleftrightarrow>
    (\<forall>c \<in> set contents. held_out c \<longrightarrow> certified g (machine_of (cd_transitions cand)) c) \<and>
    length (filter is_contract contents) = length (gr_states g) * length (gr_inputs g) \<and>
    filter held_out contents \<noteq> [] \<and> length (filter is_policy contents) = 1 \<and> cov = coverage_of g contents"
proof -
  let ?m = "machine_of (cd_transitions cand)"
  have sol: "filter (holds_for g contents) (grammar_tables g) = [cd_transitions cand]" "cd_component cand = component"
    "cd_interface_version cand = iv" "cd_grammar cand = g"
    using reconstruct_v1_solution [OF assms(2)] by auto
  then have table: "cd_transitions cand \<in> set (grammar_tables g)" "holds_for g contents (cd_transitions cand)"
  proof -
    have "cd_transitions cand \<in> set (filter (holds_for g contents) (grammar_tables g))" by (simp only: sol(1)) simp
    then show "cd_transitions cand \<in> set (grammar_tables g)" "holds_for g contents (cd_transitions cand)" by auto
  qed
  have vis: "certified g ?m c" if "c \<in> set contents" "\<not> held_out c" for c
    using table(2) that by (intro certified_visible) (auto simp: satisfies_iff machine_of_def)
  have keys: "map tr_cell (cd_transitions cand) = grammar_cells g" using table(1) by (simp add: tables_iff)
  have "tr_cell t \<in> set (grammar_cells g)" if "t \<in> set (cd_transitions cand)" for t
    unfolding keys [symmetric] using that by simp
  then have "\<forall>t \<in> set (cd_transitions cand). transition_ok g t"
    using table(1) by (auto simp: tables_iff transition_ok_def set_choices set_cells)
  moreover have "length (cd_transitions cand) = length (grammar_cells g)"
    using arg_cong [OF keys, of length] by (simp only: length_map)
  ultimately have "total_table g (cd_transitions cand)"
    using keys grammar_ok_distinct(1) [OF assms(1)] by (simp add: total_table_def length_cells)
  then show ?thesis
    unfolding certify_decoded [OF decode_encode_candidate [OF assms(3,4)]]
    using assms(1) vis sol by (auto simp: accepts_def)
qed

theorem certify_reconstruction_witness:
  "\<exists>bs. certify bs ''c'' ''1'' sample_contents = Inr (coverage_of sample_grammar sample_contents)"
proof -
  obtain bs where bs: "encode_candidate sample_candidate = Inr bs" using wire_candidate_encodes [OF sample_wire] ..
  have "certify bs ''c'' ''1'' sample_contents = Inr (coverage_of sample_grammar sample_contents)"
    unfolding certify_reconstruction [OF sample_grammar_ok sample_reconstruct sample_wire bs]
    using sample_accepted by (simp add: accepts_def sample_candidate_def)
  then show ?thesis ..
qed

end
