(* ===== verification/Protocol.thy ===== *)
theory Protocol
  imports Oracle Sandbox Checker
begin

text \<open>
  The recovery protocol (\<open>src/protocol.rs\<close>): the registry and its validator, bounded reading of the
  workspace, and \<open>recover\<close>, which composes collection, freshness, the loss oracle, reconstruction, the
  independent checker and the sandbox into a certificate or a refusal. Deserialization and the JSON
  trees of the digested values are parameters.
\<close>

section \<open>The registry\<close>

record LossOraclePolicy =
  lo_forbidden_paths :: "string list"
  lo_forbidden_sha256 :: "string list"

record ResourceLimits =
  rl_max_fragments :: nat
  rl_max_fragment_bytes :: u64
  rl_max_workspace_files :: u64
  rl_max_workspace_bytes :: u64

record ExperimentRegistration =
  er_seed :: u64
  er_baselines :: "string list"
  er_primary_metrics :: "string list"
  er_secondary_metrics :: "string list"

record EvidenceWindow =
  ew_not_before :: string
  ew_not_after :: string

record Registry =
  rg_component :: string
  rg_interface_version :: string
  rg_grammar :: Grammar
  rg_required_domains :: nat
  rg_trusted_issuers :: "(string, IssuerPolicy) btree_map"
  rg_loss_oracle :: LossOraclePolicy
  rg_resource_limits :: ResourceLimits
  rg_experiment :: ExperimentRegistration
  rg_evidence_window :: "EvidenceWindow option"
  rg_service_manifest :: "ServiceManifest option"

record protocol_ext = sandbox_ext +
  x_parse_registry :: "bytes \<Rightarrow> (string, Registry) result"
  x_parse_envelope :: "bytes \<Rightarrow> (string, Envelope) result"
  x_candidate_value :: "Candidate serialize"
  x_envelope_value :: "Envelope serialize"
  x_contents_value :: "FragmentContent list serialize"
  x_manifest_value :: "ServiceManifest serialize"

definition is_absolute :: "string \<Rightarrow> bool" where
  "is_absolute path \<longleftrightarrow> path \<noteq> [] \<and> hd path = CHR ''/''"

definition check_manifest :: "'x external_scheme \<Rightarrow> Registry \<Rightarrow> (Error, unit) result" where
  "check_manifest x registry =
     (case rg_service_manifest registry of
        None \<Rightarrow> Inr ()
      | Some manifest \<Rightarrow>
          rbind (manifest_validate x manifest) (\<lambda>_.
            if sm_component manifest \<noteq> rg_component registry \<or> sm_interface_version manifest \<noteq> rg_interface_version registry
            then Inl (InvalidRegistry ''service manifest identity does not match the recovery registry'') else Inr ()))"

definition validate_registry :: "'x external_scheme \<Rightarrow> Registry \<Rightarrow> (Error, unit) result" where
  "validate_registry x registry =
     (let limits = rg_resource_limits registry; experiment = rg_experiment registry; lost = rg_loss_oracle registry in
      if rg_component registry = [] \<or> rg_interface_version registry = []
      then Inl (InvalidRegistry ''component and interface version are mandatory'')
      else
     rbind (check_manifest x registry) (\<lambda>_.
      if rg_required_domains registry = 0 \<or> rl_max_fragments limits = 0 \<or> rl_max_fragment_bytes limits = 0 \<or>
         rl_max_workspace_files limits = 0 \<or> rl_max_workspace_bytes limits = 0
      then Inl (InvalidRegistry ''domain and resource bounds must be positive'')
      else if rg_required_domains registry > length (rg_trusted_issuers registry) \<or> rl_max_fragments limits > 10000 \<or>
         rl_max_fragment_bytes limits > 1048576 \<or> rl_max_workspace_files limits > 100000 \<or>
         rl_max_workspace_bytes limits > 1073741824
      then Inl (InvalidRegistry ''configured recovery bounds exceed M0 safety maxima'')
      else if er_baselines experiment = [] \<or> er_primary_metrics experiment = [] \<or> er_secondary_metrics experiment = []
      then Inl (InvalidRegistry ''experiment baselines and metrics are mandatory'')
      else if lo_forbidden_paths lost = [] \<or> lo_forbidden_sha256 lost = [] \<or>
         (\<exists>path \<in> set (lo_forbidden_paths lost). \<not> is_absolute path)
      then Inl (InvalidRegistry ''loss oracle requires absolute paths and forbidden digests'')
      else if \<exists>value \<in> set (lo_forbidden_sha256 lost). length value \<noteq> 64 \<or> x_hex_decode x value = None
      then Inl (InvalidRegistry ''forbidden artifact digests must be SHA-256 hex'')
      else each (\<lambda>(_, policy). validate_issuer_policy x policy) (rg_trusted_issuers registry)))"

section \<open>Reading the workspace\<close>

primrec child :: "(string \<times> node) list \<Rightarrow> string \<Rightarrow> node" where
  "child [] name = Inaccessible ''No such file or directory''"
| "child (e # es) name = (if fst e = name then snd e else child es name)"

definition join :: "node \<Rightarrow> string \<Rightarrow> node" where
  "join directory name =
     (case directory of Directory _ entries _ \<Rightarrow> child entries name | _ \<Rightarrow> Inaccessible ''Not a directory'')"

text \<open>\<open>read_bounded\<close> looks at the path itself; \<open>read_dir\<close> follows a symbolic link.\<close>

definition read_bounded :: "node \<Rightarrow> u64 \<Rightarrow> (Error, bytes) result" where
  "read_bounded node max_bytes =
     (case node of
        Inaccessible error \<Rightarrow> Inl (Io error)
      | RegularFile content fault \<Rightarrow>
          if length content > unat max_bytes then Inl (SearchExhausted ''JSON input byte bound exceeded'')
          else (case fault of Some error \<Rightarrow> Inl (Io error) | None \<Rightarrow> Inr content)
      | _ \<Rightarrow> Inl (InvalidEvidence ''JSON input is not a regular file''))"

fun read_dir :: "node \<Rightarrow> (Error, (string \<times> node) list \<times> string option) result" where
  "read_dir (Directory None entries fault) = Inr (entries, fault)"
| "read_dir (Directory (Some error) _ _) = Inl (Io error)"
| "read_dir (Symlink target) = read_dir target"
| "read_dir (Inaccessible error) = Inl (Io error)"
| "read_dir _ = Inl (Io ''Not a directory'')"

definition extension :: "string \<Rightarrow> string option" where
  "extension name =
     (let parts = split_on CHR ''.'' name in
      if length parts < 2 \<or> (length parts = 2 \<and> hd parts = []) then None else Some (last parts))"

definition json_entry :: "nat \<Rightarrow> nat \<times> (string \<times> node) list \<Rightarrow> string \<times> node \<Rightarrow> (Error, nat \<times> (string \<times> node) list) result" where
  "json_entry max_files st entry =
     (let entries = fst st + 1 in
      if entries \<ge> 2 ^ 64 then Inl (SearchExhausted ''fragment entry counter overflow'')
      else if entries > max_files then Inl (SearchExhausted ''fragment-directory entry bound exceeded'')
      else case snd entry of
        Inaccessible error \<Rightarrow> Inl (Io error)
      | RegularFile _ _ \<Rightarrow>
          if extension (fst entry) = Some ''json'' then Inr (entries, snd st @ [entry])
          else Inl (InvalidEvidence ''fragment directory contains a non-JSON file'')
      | _ \<Rightarrow> Inl (InvalidEvidence ''fragment directory contains a non-regular file''))"

definition regular_json_files :: "node \<Rightarrow> nat \<Rightarrow> (Error, (string \<times> node) list) result" where
  "regular_json_files directory max_files =
     rbind (read_dir directory) (\<lambda>(listing, fault).
     rbind (fold_results (json_entry max_files) (0, []) listing) (\<lambda>(_, paths).
       case fault of Some error \<Rightarrow> Inl (Io error) | None \<Rightarrow> Inr paths))"

definition read_registry :: "'x protocol_ext_scheme \<Rightarrow> filesystem \<Rightarrow> (Error, Registry) result" where
  "read_registry x fs =
     rbind (read_bounded (join (fs_tree fs) ''registry.json'') 131072) (\<lambda>bs.
       map_err (\<lambda>error. InvalidRegistry (''registry JSON is invalid: '' @ error)) (x_parse_registry x bs))"

definition read_envelope :: "'x protocol_ext_scheme \<Rightarrow> u64 \<Rightarrow> string \<times> node \<Rightarrow> (Error, Envelope) result" where
  "read_envelope x max_bytes entry =
     rbind (read_bounded (snd entry) max_bytes) (\<lambda>bs.
       map_err (\<lambda>error. InvalidEvidence (''fragment JSON is invalid: '' @ error)) (x_parse_envelope x bs))"

definition fresh_envelope :: "'x external_scheme \<Rightarrow> int \<Rightarrow> int \<Rightarrow> Envelope \<Rightarrow> (Error, unit) result" where
  "fresh_envelope x not_before not_after envelope =
     rbind (ok_or (InvalidEvidence ''issued_at is invalid'') (x_strptime x (en_issued_at envelope))) (\<lambda>issued_at.
       if issued_at < not_before \<or> issued_at > not_after
       then Inl (InvalidEvidence ''fragment falls outside the registered freshness window'') else Inr ())"

definition validate_freshness :: "'x external_scheme \<Rightarrow> Envelope list \<Rightarrow> EvidenceWindow option \<Rightarrow> (Error, unit) result" where
  "validate_freshness x envelopes window =
     (case window of
        None \<Rightarrow> Inr ()
      | Some window \<Rightarrow>
          rbind (ok_or (InvalidRegistry ''evidence not_before is invalid'') (x_strptime x (ew_not_before window))) (\<lambda>not_before.
          rbind (ok_or (InvalidRegistry ''evidence not_after is invalid'') (x_strptime x (ew_not_after window))) (\<lambda>not_after.
            if not_before > not_after then Inl (InvalidRegistry ''evidence freshness window is inverted'')
            else each (fresh_envelope x not_before not_after) envelopes)))"

section \<open>Recovery\<close>

datatype RecoveryMode = Full | TraceOnly | CentralizedContract

fun mode_keeps :: "RecoveryMode \<Rightarrow> FragmentContent \<Rightarrow> bool" where
  "mode_keeps Full content = True"
| "mode_keeps TraceOnly content = (case content of Transition _ _ _ _ \<Rightarrow> False | _ \<Rightarrow> True)"
| "mode_keeps CentralizedContract content = (case content of Trace _ _ _ _ \<Rightarrow> False | _ \<Rightarrow> True)"

record SearchBounds =
  sb_max_candidates :: u64
  sb_examined :: u64

record StateTransform =
  st_mode :: string
  st_schema_digest :: string

record Certificate =
  ct_protocol_version :: string
  ct_component :: string
  ct_interface_version :: string
  ct_service_manifest_digest :: "string option"
  ct_survivor_envelope_digests :: "string list"
  ct_normalized_constraints_digest :: string
  ct_failure_domains :: "string list"
  ct_verification_audit :: "VerificationAudit list option"
  ct_grammar_version :: string
  ct_search_bounds :: SearchBounds
  ct_candidate_digest :: string
  ct_non_identical_to_forbidden_artifacts :: bool
  ct_checker_identity :: string
  ct_coverage :: Coverage
  ct_sandbox :: SandboxEvidence
  ct_state_transform :: StateTransform
  ct_loss_attestation :: LossAttestation
  ct_experiment :: ExperimentRegistration
  ct_deployment_preconditions :: "string list"

datatype RecoveryResult =
    Certified (rr_candidate: Candidate) (rr_candidate_wasm_hex: string) (rr_certificate: Certificate)
  | Refused RefusalCode string

fun is_certified :: "RecoveryResult \<Rightarrow> bool" where
  "is_certified (Certified _ _ _) = True"
| "is_certified (Refused _ _) = False"

abbreviation digest_of :: "'x protocol_ext_scheme \<Rightarrow> 'a serialize \<Rightarrow> 'a \<Rightarrow> (Error, string) result" where
  "digest_of x to_value v \<equiv> canonical_digest (x_sha256 x) (x_hex_encode x) (x_json_vec x) to_value v"

definition read_envelopes :: "'x protocol_ext_scheme \<Rightarrow> filesystem \<Rightarrow> ResourceLimits \<Rightarrow> (Error, Envelope list) result" where
  "read_envelopes x fs limits =
     rbind (regular_json_files (join (fs_tree fs) ''fragments'') (rl_max_fragments limits)) (\<lambda>fragment_paths.
       let fragment_paths = sort_key fst fragment_paths in
       if length fragment_paths > rl_max_fragments limits then Inl (SearchExhausted ''fragment-count bound exceeded'')
       else collect_results (read_envelope x (rl_max_fragment_bytes limits)) fragment_paths)"

definition schemas_of :: "Envelope list \<Rightarrow> FragmentContent list" where
  "schemas_of envelopes = map en_content (filter (\<lambda>e. en_kind e = StateSchemaKind) envelopes)"

definition certificate_of :: "'x protocol_ext_scheme \<Rightarrow> Registry \<Rightarrow> CollectedEvidence \<Rightarrow> LossAttestation \<Rightarrow> string \<Rightarrow> u64 \<Rightarrow> Coverage \<Rightarrow>
    SandboxEvidence \<Rightarrow> (Error, Certificate) result" where
  "certificate_of x registry evidence attestation candidate_digest examined coverage sandbox =
     rbind (collect_results (digest_of x (x_envelope_value x)) (ce_envelopes evidence)) (\<lambda>survivors.
     rbind (case rg_service_manifest registry of None \<Rightarrow> Inr None
            | Some manifest \<Rightarrow> rbind (digest_of x (x_manifest_value x) manifest) (\<lambda>d. Inr (Some d))) (\<lambda>manifest_digest.
     rbind (digest_of x (x_contents_value x) (map en_content (ce_envelopes evidence))) (\<lambda>constraints.
     rbind (if schemas_of (ce_envelopes evidence) = [] then Inl (Panicked ''index out of bounds'')
            else digest_of x (x_content_value x) (hd (schemas_of (ce_envelopes evidence)))) (\<lambda>schema.
       Inr \<lparr>ct_protocol_version = ''regeneration-v0'', ct_component = rg_component registry,
         ct_interface_version = rg_interface_version registry, ct_service_manifest_digest = manifest_digest,
         ct_survivor_envelope_digests = survivors, ct_normalized_constraints_digest = constraints,
         ct_failure_domains = ce_domains evidence,
         ct_verification_audit = (if \<exists>event \<in> set (ce_audit evidence). va_key_id event \<noteq> ''legacy-hmac''
           then Some (ce_audit evidence) else None),
         ct_grammar_version = gr_version (rg_grammar registry),
         ct_search_bounds = \<lparr>sb_max_candidates = gr_max_candidates (rg_grammar registry), sb_examined = examined\<rparr>,
         ct_candidate_digest = candidate_digest, ct_non_identical_to_forbidden_artifacts = True,
         ct_checker_identity = ''anasemble.checker.separate-semantics-shared-serde-v0'', ct_coverage = coverage,
         ct_sandbox = sandbox, ct_state_transform = \<lparr>st_mode = ''identity'', st_schema_digest = schema\<rparr>,
         ct_loss_attestation = attestation, ct_experiment = rg_experiment registry,
         ct_deployment_preconditions = [''candidate digest unchanged'', ''atomic install'', ''rollback available'']\<rparr>))))"

definition rebuild :: "'x protocol_ext_scheme \<Rightarrow> Registry \<Rightarrow> RecoveryMode \<Rightarrow> CollectedEvidence \<Rightarrow> LossAttestation \<Rightarrow> (Error, RecoveryResult) result" where
  "rebuild x registry mode evidence attestation =
     (let all_contents = map en_content (ce_envelopes evidence);
          synthesis_contents = filter (mode_keeps mode) all_contents;
          expected_schema = StatePolicy (gr_states (rg_grammar registry)) (gr_initial_state (rg_grammar registry)) in
      if schemas_of (ce_envelopes evidence) \<noteq> [expected_schema]
      then Inl (InvalidEvidence ''state policy does not exactly match the grammar'')
      else
     rbind (reconstruct (rg_component registry) (rg_interface_version registry) (rg_grammar registry) synthesis_contents) (\<lambda>(candidate, examined).
     rbind (encode_candidate candidate) (\<lambda>checker_candidate.
     rbind (digest_of x (x_candidate_value x) candidate) (\<lambda>candidate_digest.
      if candidate_digest \<in> set (lo_forbidden_sha256 (rg_loss_oracle registry))
      then Inl (CheckerRejected ''candidate is byte-identical to a forbidden artifact'')
      else
     rbind (certify checker_candidate (rg_component registry) (rg_interface_version registry) all_contents) (\<lambda>coverage.
     rbind (compile x candidate) (\<lambda>candidate_wasm.
     rbind (sandbox_verify x candidate candidate_wasm) (\<lambda>sandbox.
     rbind (certificate_of x registry evidence attestation candidate_digest examined coverage sandbox) (\<lambda>certificate.
       Inr (Certified candidate (x_hex_encode x candidate_wasm) certificate)))))))))"

definition recover :: "'x protocol_ext_scheme \<Rightarrow> filesystem \<Rightarrow> RecoveryMode \<Rightarrow> (Error, RecoveryResult) result" where
  "recover x fs mode =
     rbind (read_registry x fs) (\<lambda>registry.
     rbind (grammar_validate (rg_grammar registry)) (\<lambda>_.
     rbind (validate_registry x registry) (\<lambda>_.
     rbind (read_envelopes x fs (rg_resource_limits registry)) (\<lambda>envelopes.
     rbind (collect x envelopes (rg_trusted_issuers registry) (rg_required_domains registry) (rg_component registry)
        (rg_interface_version registry)) (\<lambda>evidence.
     rbind (validate_freshness x (ce_envelopes evidence) (rg_evidence_window registry)) (\<lambda>_.
     rbind (attest_absence x fs (lo_forbidden_paths (rg_loss_oracle registry)) (lo_forbidden_sha256 (rg_loss_oracle registry))
        (rl_max_workspace_files (rg_resource_limits registry)) (rl_max_workspace_bytes (rg_resource_limits registry))) (\<lambda>attestation.
       rebuild x registry mode evidence attestation)))))))"

definition run_with_mode :: "'x protocol_ext_scheme \<Rightarrow> filesystem \<Rightarrow> RecoveryMode \<Rightarrow> RecoveryResult" where
  "run_with_mode x fs mode =
     (case recover x fs mode of Inr r \<Rightarrow> r | Inl error \<Rightarrow> Refused (refusal_code error) (error_to_string error))"

definition run_recovery :: "'x protocol_ext_scheme \<Rightarrow> filesystem \<Rightarrow> RecoveryResult" where
  "run_recovery x fs = run_with_mode x fs Full"

section \<open>Registered facts\<close>

definition registered_experiment :: "'x protocol_ext_scheme \<Rightarrow> filesystem \<Rightarrow> (Error, ExperimentRegistration) result" where
  "registered_experiment x fs =
     rbind (read_registry x fs) (\<lambda>registry. rbind (validate_registry x registry) (\<lambda>_. Inr (rg_experiment registry)))"

definition registered_baselines :: "'x protocol_ext_scheme \<Rightarrow> filesystem \<Rightarrow> (Error, string list) result" where
  "registered_baselines x fs = rbind (registered_experiment x fs) (\<lambda>e. Inr (er_baselines e))"

primrec backup_available :: "filesystem \<Rightarrow> string list \<Rightarrow> (Error, bool) result" where
  "backup_available fs [] = Inr False"
| "backup_available fs (path # paths) =
     (case fs_lstat fs path of
        Inr _ \<Rightarrow> Inr True
      | Inl (not_found, error) \<Rightarrow> if not_found then backup_available fs paths else Inl (Io error))"

definition registered_backup_available :: "'x protocol_ext_scheme \<Rightarrow> filesystem \<Rightarrow> (Error, bool) result" where
  "registered_backup_available x fs =
     rbind (read_registry x fs) (\<lambda>registry.
     rbind (validate_registry x registry) (\<lambda>_.
       backup_available fs (lo_forbidden_paths (rg_loss_oracle registry))))"

definition registered_candidate_limit :: "'x protocol_ext_scheme \<Rightarrow> filesystem \<Rightarrow> (Error, u64) result" where
  "registered_candidate_limit x fs =
     rbind (read_registry x fs) (\<lambda>registry.
     rbind (validate_registry x registry) (\<lambda>_. Inr (gr_max_candidates (rg_grammar registry))))"


section \<open>No panic\<close>

definition no_panic :: "(Error, 'a) result \<Rightarrow> bool" where
  "no_panic r \<longleftrightarrow> (\<forall>m. r \<noteq> Inl (Panicked m))"

named_theorems no_panic_intros \<open>operations that do not panic\<close>

lemma no_panic_Inr [simp, no_panic_intros]: "no_panic (Inr x)"
  by (simp add: no_panic_def)

lemma no_panic_Inl [simp]: "no_panic (Inl e) \<longleftrightarrow> (\<forall>m. e \<noteq> Panicked m)"
  by (simp add: no_panic_def)

lemma no_panic_if [no_panic_intros]: "(c \<Longrightarrow> no_panic a) \<Longrightarrow> (\<not> c \<Longrightarrow> no_panic b) \<Longrightarrow> no_panic (if c then a else b)"
  by simp

lemma no_panic_option [no_panic_intros]: "no_panic a \<Longrightarrow> (\<And>y. no_panic (f y)) \<Longrightarrow> no_panic (case v of None \<Rightarrow> a | Some y \<Rightarrow> f y)"
  by (cases v) auto

lemma no_panic_pair [no_panic_intros]: "(\<And>a b. p = (a, b) \<Longrightarrow> no_panic (f a b)) \<Longrightarrow> no_panic (case p of (a, b) \<Rightarrow> f a b)"
  by (cases p) auto

lemma no_panic_rbind [no_panic_intros]: "no_panic r \<Longrightarrow> (\<And>x. r = Inr x \<Longrightarrow> no_panic (f x)) \<Longrightarrow> no_panic (rbind r f)"
  by (cases r) auto

lemma no_panic_map_err [no_panic_intros]: "(\<And>e m. g e \<noteq> Panicked m) \<Longrightarrow> no_panic (map_err g r)"
  by (cases r) auto

lemma no_panic_ok_or [no_panic_intros]: "(\<And>m. e \<noteq> Panicked m) \<Longrightarrow> no_panic (ok_or e v)"
  by (cases v) auto

lemma no_panic_ensure [no_panic_intros]: "(\<And>m. e \<noteq> Panicked m) \<Longrightarrow> no_panic (ensure c e)"
  by (cases c) auto

lemma no_panic_each [no_panic_intros]: "(\<And>x. x \<in> set xs \<Longrightarrow> no_panic (f x)) \<Longrightarrow> no_panic (each f xs)"
  by (induction xs) (auto intro: no_panic_rbind)

lemma no_panic_collect [no_panic_intros]: "(\<And>x. x \<in> set xs \<Longrightarrow> no_panic (f x)) \<Longrightarrow> no_panic (collect_results f xs)"
  by (induction xs) (auto intro!: no_panic_rbind)

lemma no_panic_fold [no_panic_intros]: "(\<And>s x. x \<in> set xs \<Longrightarrow> no_panic (f s x)) \<Longrightarrow> no_panic (fold_results f s xs)"
  by (induction xs arbitrary: s) (auto intro!: no_panic_rbind)

lemma no_panic_digest [no_panic_intros]: "no_panic (canonical_digest sha hex vec val v)"
proof -
  have "map_core e \<noteq> Panicked m" for e m by (cases e) auto
  then show ?thesis by (auto simp: canonical_digest_def intro: no_panic_intros)
qed

lemma no_panic_encode [no_panic_intros]: "no_panic (canonical_encode vec val v)"
proof -
  have "map_core e \<noteq> Panicked m" for e m by (cases e) auto
  then show ?thesis by (auto simp: canonical_encode_def intro: no_panic_intros)
qed

lemma no_panic_key_policy [no_panic_intros]: "no_panic (validate_key_policy x key)"
  unfolding validate_key_policy_def validate_key_id_def parse_time_def
  by (auto intro!: no_panic_intros split: option.split)

lemma no_panic_issuer_policy [no_panic_intros]: "no_panic (validate_issuer_policy x p)"
  unfolding validate_issuer_policy_def
  by (auto intro!: no_panic_intros split: option.split IssuerPolicy.split)

lemma no_panic_manifest [no_panic_intros]: "no_panic (manifest_validate x m)"
  unfolding manifest_validate_def invalid_service_def validate_identifier_def check_endpoint_def check_effect_def
    check_dependency_def validate_path_def validate_digest_def insert_unique_def
  by (intro no_panic_intros) (simp_all (no_asm))

lemma no_panic_registry [no_panic_intros]: "no_panic (validate_registry x r)"
  unfolding validate_registry_def check_manifest_def Let_def
  by (intro no_panic_intros) (simp_all (no_asm))

lemma no_panic_grammar [no_panic_intros]: "no_panic (grammar_validate g)"
  using grammar_validate_registry [of g] by (auto simp: no_panic_def)

lemma no_panic_read_bounded [no_panic_intros]: "no_panic (read_bounded n m)"
  by (auto simp: read_bounded_def split: node.split option.split)

lemma no_panic_read_dir [no_panic_intros]: "no_panic (read_dir n)"
  by (induction n rule: read_dir.induct) auto

lemma no_panic_envelopes [no_panic_intros]: "no_panic (read_envelopes x fs l)"
  unfolding read_envelopes_def regular_json_files_def json_entry_def read_envelope_def Let_def
  by (auto intro!: no_panic_intros split: option.split node.split)

lemma no_panic_verify_signature [no_panic_intros]: "no_panic (verify_signature x e p t)"
  unfolding verify_signature_def verify_legacy_def verify_ed25519_def unsigned_bytes_def Let_def parse_time_def
  by (auto intro!: no_panic_intros split: IssuerPolicy.split option.split)

lemma no_panic_collect_one [no_panic_intros]: "no_panic (collect_one x tr c iv t st e)"
  unfolding collect_one_def content_digest_of_def
  by (auto intro!: no_panic_intros split: option.split)

lemma no_panic_collect_at [no_panic_intros]: "no_panic (collect x es tr req c iv)"
proof -
  have "no_panic (reject_cycles (dependency_graph es))" if "closed_graph (dependency_graph es)"
    using reject_cycles_iff [OF that] by simp
  moreover have "(\<exists>(_, ds) \<in> set (dependency_graph es). \<exists>item \<in> set ds. bt_get (dependency_graph es) item = None) \<longleftrightarrow>
      \<not> closed_graph (dependency_graph es)"
    unfolding closed_graph_def by force
  ultimately show ?thesis
    unfolding collect_def collect_at_def Let_def by (auto intro!: no_panic_intros)
qed

lemma no_panic_freshness [no_panic_intros]: "no_panic (validate_freshness x es w)"
  unfolding validate_freshness_def fresh_envelope_def
  by (auto intro!: no_panic_intros split: option.split)

lemma no_panic_count_entries [no_panic_intros]: "no_panic (count_entries m v es f)"
  by (induction m v es f rule: count_entries.induct) (auto simp: count_entry_def intro!: no_panic_intros)

lemma no_panic_collect_files [no_panic_intros]:
  "no_panic (collect_regular_files d n m st)" "no_panic (collect_entries d es m st)"
proof (induction d n m st and d es m st rule: collect_regular_files_collect_entries.induct)
  case (1 d n m out v)
  then show ?case by (auto intro!: no_panic_intros split: node.split option.split)
next
  case (3 d name n es m out v)
  then show ?case by (cases n) (auto simp del: collect_regular_files.simps intro!: no_panic_rbind)
qed auto

lemma no_panic_scan_chunks [no_panic_intros]: "no_panic (scan_chunks m s h r f)"
proof (induction m s h r f rule: scan_chunks.induct)
  case (1 m s h r f)
  then show ?case unfolding scan_chunks.simps [of m s h r f] Let_def
    by (cases "r = []") (auto intro!: no_panic_intros split: option.split)
qed

lemma no_panic_attest [no_panic_intros]: "no_panic (attest_absence x fs ps ds m n)"
proof -
  have "no_panic (scan_path x ds m n st p)" for st p
    by (cases st; cases p) (auto simp: Let_def intro!: no_panic_intros split: node.split)
  then show ?thesis unfolding attest_absence_def check_path_def
    by (auto simp del: collect_regular_files.simps intro!: no_panic_intros)
qed

lemma no_panic_encode_candidate [no_panic_intros]: "no_panic (encode_candidate c)"
proof -
  have l: "no_panic (push_len out n)" for out n by (simp add: push_len_def)
  have s: "no_panic (push_string out n)" for out n unfolding push_string_def by (intro no_panic_intros l) 
  have q: "(\<And>out v. no_panic (push out v)) \<Longrightarrow> no_panic (push_seq push out vs)" for push and out and vs :: "'b list"
    by (induction vs arbitrary: out) (auto intro: no_panic_rbind)
  have t: "no_panic (push_transition out n)" for out n unfolding push_transition_def by (intro no_panic_intros s)
  show ?thesis unfolding encode_candidate_def push_strings_def by (intro no_panic_intros s l q t)
qed

lemma no_panic_certify [no_panic_intros]: "no_panic (certify bs c iv contents)"
  using certify_rejecting [of bs c iv contents] by (auto simp: no_panic_def rejecting_def)

lemma no_panic_index_of [no_panic_intros]: "no_panic (index_of vs v)"
  unfolding index_of_def by (intro no_panic_intros) simp

lemma no_panic_compile [no_panic_intros]: "no_panic (compile x c)"
  unfolding compile_def compile_body_def compile_transition_def by (intro no_panic_intros)

lemma no_panic_sandbox [no_panic_intros]: "no_panic (sandbox_verify x c w)"
  unfolding sandbox_verify_def load_module_def instantiate_step_def verify_transition_def
  by (intro no_panic_intros) simp_all

lemma no_panic_certificate [no_panic_intros]:
  "schemas_of (ce_envelopes evidence) \<noteq> [] \<Longrightarrow> no_panic (certificate_of x registry evidence a d n cov sb)"
  unfolding certificate_of_def by (intro no_panic_intros) simp_all

lemma no_panic_rebuild:
  assumes "grammar_ok (rg_grammar registry)"
  shows "no_panic (rebuild x registry mode evidence attestation)"
proof -
  have "no_panic (reconstruct c iv (rg_grammar registry) contents)" for c iv contents
    using reconstruct_not_panicked [OF assms] by (simp add: no_panic_def)
  then show ?thesis unfolding rebuild_def Let_def by (intro no_panic_intros) simp_all
qed

lemma no_panic_recover: "no_panic (recover x fs mode)"
  unfolding recover_def read_registry_def
  by (intro no_panic_intros no_panic_rebuild) (simp_all add: grammar_validate_iff)

lemma recover_certified: "recover x fs mode = Inr r \<Longrightarrow> is_certified r"
  by (auto simp: recover_def rebuild_def rbind_Inr_iff Let_def split: if_split_asm)

lemma refusal_code_internal: "refusal_code e = RInternalError \<longleftrightarrow> (\<exists>m. e = Panicked m)"
  by (cases e) auto

section \<open>What a certificate means\<close>

lemma reconstruct_identity:
  "reconstruct component iv g contents = Inr (cand, n) \<Longrightarrow> cd_component cand = component \<and> cd_interface_version cand = iv \<and> cd_grammar cand = g"
  by (auto simp: reconstruct_def reconstruct_v0_def Let_def rbind_Inr_iff dest: reconstruct_v1_solution split: if_split_asm)

lemma certify_accepts:
  assumes "encode_candidate cand = Inr bs" "certify bs component iv contents = Inr cov"
  shows "decode_candidate bs = Inr cand \<and> accepts cand component iv contents"
proof -
  from assms(2) obtain c where c: "decode_candidate bs = Inr c" by (auto simp: certify_def rbind_Inr_iff)
  then have "c = cand" using encode_decode_candidate encode_candidate_inj assms(1) by blast
  with c assms(2) show ?thesis by (simp add: certify_decoded)
qed

lemma admissible_distinct_contents:
  assumes "admissible x trusted required component iv time (set es)" "distinct es"
  shows "distinct (map en_content es)"
proof -
  have "inj_on en_content (set es)"
  proof (rule inj_onI)
    fix a b assume ab: "a \<in> set es" "b \<in> set es" "en_content a = en_content b"
    from assms(1) have ok: "\<forall>e \<in> set es. fragment_ok x trusted component iv time e" and inj: "inj_on en_content_digest (set es)"
      by (simp_all add: admissible_def)
    have "content_digest_of x (en_content a) = Inr (en_content_digest a)" "content_digest_of x (en_content b) = Inr (en_content_digest b)"
      using ok ab(1,2) unfolding fragment_ok_def by blast+
    with ab inj show "a = b" by (auto dest: inj_onD)
  qed
  with assms(2) show ?thesis by (simp add: distinct_map)
qed

definition recovery_sound :: "'x protocol_ext_scheme \<Rightarrow> filesystem \<Rightarrow> Registry \<Rightarrow> Envelope list \<Rightarrow> Candidate \<Rightarrow> string \<Rightarrow> bool" where
  "recovery_sound x fs registry envelopes cand digest \<longleftrightarrow>
     admissible x (rg_trusted_issuers registry) (rg_required_domains registry) (rg_component registry) (rg_interface_version registry) None (set envelopes) \<and>
     cd_component cand = rg_component registry \<and> cd_interface_version cand = rg_interface_version registry \<and> cd_grammar cand = rg_grammar registry \<and>
     {m. explains (rg_grammar registry) (filter is_contract (map en_content envelopes)) m} = {machine_of (cd_transitions cand)} \<and>
     (\<forall>e \<in> set envelopes. certified (rg_grammar registry) (machine_of (cd_transitions cand)) (en_content e)) \<and>
     (\<forall>p \<in> set (lo_forbidden_paths (rg_loss_oracle registry)). fs_exists fs p = Inr False) \<and>
     (\<forall>node \<in> set (tree_nodes (fs_tree fs)). file_ok x (lo_forbidden_sha256 (rg_loss_oracle registry)) node) \<and>
     digest_of x (x_candidate_value x) cand = Inr digest \<and> digest \<notin> set (lo_forbidden_sha256 (rg_loss_oracle registry))"

lemma explains_mset: "set cs = set cs' \<Longrightarrow> explains g cs m = explains g cs' m"
  by (simp add: explains_def)

lemma rebuild_sound:
  assumes "rebuild x registry mode evidence att = Inr (Certified cand wasm cert)"
    and "collect x envelopes (rg_trusted_issuers registry) (rg_required_domains registry) (rg_component registry) (rg_interface_version registry) = Inr evidence"
    and "attest_absence x fs (lo_forbidden_paths (rg_loss_oracle registry)) (lo_forbidden_sha256 (rg_loss_oracle registry)) mf mb = Inr att"
  shows "recovery_sound x fs registry envelopes cand (ct_candidate_digest cert)"
proof -
  let ?g = "rg_grammar registry" and ?all = "map en_content (ce_envelopes evidence)"
  from assms(2) have adm: "distinct envelopes" "set (ce_envelopes evidence) = set envelopes" "distinct (ce_envelopes evidence)"
    "admissible x (rg_trusted_issuers registry) (rg_required_domains registry) (rg_component registry) (rg_interface_version registry) None (set envelopes)"
    by (auto simp: collect_def collect_at_iff parse_verification_time_def)
  from assms(1) obtain n bs cov where r: "reconstruct (rg_component registry) (rg_interface_version registry) ?g (filter (mode_keeps mode) ?all) = Inr (cand, n)"
    "encode_candidate cand = Inr bs" "digest_of x (x_candidate_value x) cand = Inr (ct_candidate_digest cert)"
    "ct_candidate_digest cert \<notin> set (lo_forbidden_sha256 (rg_loss_oracle registry))"
    "certify bs (rg_component registry) (rg_interface_version registry) ?all = Inr cov"
    by (auto simp: rebuild_def certificate_of_def rbind_Inr_iff Let_def split: if_split_asm)
  note id = reconstruct_identity [OF r(1)]
  note acc = certify_accepts [OF r(2,5)]
  have d: "distinct (filter is_contract ?all)"
    using admissible_distinct_contents [of x _ _ _ _ None "ce_envelopes evidence"] adm by simp
  have "{m. explains ?g (filter is_contract ?all) m} = {machine_of (cd_transitions cand)}"
    using certify_determines [OF r(5) _ d] acc id by auto
  then have "{m. explains ?g (filter is_contract (map en_content envelopes)) m} = {machine_of (cd_transitions cand)}"
    using explains_mset [of "filter is_contract ?all" "filter is_contract (map en_content envelopes)" ?g] adm(2) by simp
  moreover have "\<forall>e \<in> set envelopes. certified ?g (machine_of (cd_transitions cand)) (en_content e)"
    using acc id adm(2) by (auto simp: accepts_def)
  ultimately show ?thesis using adm(4) id r(3,4) assms(3) by (auto simp: recovery_sound_def attest_absence_iff)
qed

lemma certified_recovery:
  assumes "run_with_mode x fs mode = Certified cand wasm cert"
  shows "\<exists>registry envelopes. read_registry x fs = Inr registry \<and> grammar_ok (rg_grammar registry) \<and>
    read_envelopes x fs (rg_resource_limits registry) = Inr envelopes \<and>
    recovery_sound x fs registry envelopes cand (ct_candidate_digest cert)"
proof -
  from assms have "recover x fs mode = Inr (Certified cand wasm cert)" by (simp add: run_with_mode_def split: sum.split_asm)
  then obtain registry envelopes evidence att where "read_registry x fs = Inr registry" "grammar_ok (rg_grammar registry)"
    "read_envelopes x fs (rg_resource_limits registry) = Inr envelopes"
    "collect x envelopes (rg_trusted_issuers registry) (rg_required_domains registry) (rg_component registry) (rg_interface_version registry) = Inr evidence"
    "attest_absence x fs (lo_forbidden_paths (rg_loss_oracle registry)) (lo_forbidden_sha256 (rg_loss_oracle registry))
      (rl_max_workspace_files (rg_resource_limits registry)) (rl_max_workspace_bytes (rg_resource_limits registry)) = Inr att"
    "rebuild x registry mode evidence att = Inr (Certified cand wasm cert)"
    by (auto simp: recover_def rbind_Inr_iff grammar_validate_iff)
  with rebuild_sound show ?thesis by blast
qed

lemma certified_grammar: "run_with_mode x fs mode = Certified cand wasm cert \<Longrightarrow> grammar_validate (cd_grammar cand) = Inr ()"
  using certified_recovery [of x fs mode cand wasm cert] by (auto simp: recovery_sound_def grammar_validate_iff)

section \<open>Properties\<close>

text \<open>(C1) A certified recovery is sound, in every mode: the registry was read and its grammar is valid, the
  fragments of the workspace are admissible evidence for the registered component, the candidate is the
  one machine over the registered grammar that meets the contract fragments and it meets every other
  fragment the checker looks at, no declared path exists, no file of the workspace has a forbidden
  digest, and neither has the candidate.\<close>

theorem certified_sound:
  assumes "run_with_mode x fs mode = Certified cand wasm cert"
  shows "\<exists>registry envelopes. read_registry x fs = Inr registry \<and> grammar_ok (rg_grammar registry) \<and>
    read_envelopes x fs (rg_resource_limits registry) = Inr envelopes \<and>
    recovery_sound x fs registry envelopes cand (ct_candidate_digest cert)"
  using assms by (rule certified_recovery)

text \<open>(C38) A recovery always ends in a certificate or a refusal with a cause: no input makes it panic.\<close>

theorem run_never_panics: "run_with_mode x fs mode \<noteq> Refused RInternalError message"
  using no_panic_recover [of x fs mode] recover_certified [of x fs mode]
  by (auto simp: run_with_mode_def no_panic_def refusal_code_internal split: sum.split)


text \<open>A recovery that succeeds: three fragments of one issuer determine the sample candidate.\<close>

definition demo_envelopes :: "Envelope list" where
  "demo_envelopes = [toy_envelope StateSchemaKind (StatePolicy [''s''] ''s'') 1 [],
     toy_envelope ContractKind (Transition ''s'' ''a'' ''s'' ''x'') 2 [],
     toy_envelope TraceKind (Trace HeldOut ''s'' [''a'', ''a''] [''x'', ''x'']) 3 []]"

definition demo_registry :: Registry where
  "demo_registry = \<lparr>rg_component = ''c'', rg_interface_version = ''1'', rg_grammar = sample_grammar, rg_required_domains = 1,
     rg_trusted_issuers = toy_trusted,
     rg_loss_oracle = \<lparr>lo_forbidden_paths = [''/lost''], lo_forbidden_sha256 = [replicate 64 CHR ''a'']\<rparr>,
     rg_resource_limits = \<lparr>rl_max_fragments = 10, rl_max_fragment_bytes = 10, rl_max_workspace_files = 10, rl_max_workspace_bytes = 10\<rparr>,
     rg_experiment = \<lparr>er_seed = 0, er_baselines = [''b''], er_primary_metrics = [''p''], er_secondary_metrics = [''s'']\<rparr>,
     rg_evidence_window = None, rg_service_manifest = None\<rparr>"

definition demo_ext :: protocol_ext where
  "demo_ext = sandbox_ext.extend toy_engine (protocol_ext.fields (\<lambda>_. Inr demo_registry)
     (\<lambda>bs. Inr (demo_envelopes ! length bs)) (\<lambda>_. Inr (JString ''k'')) (\<lambda>_. Inr JNull) (\<lambda>_. Inr JNull) (\<lambda>_. Inr JNull))"

definition demo_fs :: filesystem where
  "demo_fs = \<lparr>fs_tree = Directory None [(''registry.json'', RegularFile [] None),
       (''fragments'', Directory None [(''b.json'', RegularFile [0] None), (''a.json'', RegularFile [] None), (''c.json'', RegularFile [0, 0] None)] None)] None,
     fs_canonicalize = Inr ''/w'', fs_exists = (\<lambda>_. Inr False), fs_lstat = (\<lambda>_. Inl (True, ''''))\<rparr>"

text \<open>The parameters of a component that builds on the protocol extend these by \<open>m\<close>.\<close>

definition demo_with :: "'m \<Rightarrow> 'm protocol_ext_scheme" where
  "demo_with m = protocol_ext.extend demo_ext m"

lemmas demo_ext_fields = demo_with_def demo_ext_def sandbox_ext.defs protocol_ext.defs toy_engine_def fragments_ext.defs toy_ext_def

lemma demo_fields: "x_sha256 (demo_with m) = id" "x_hex_encode (demo_with m) = toy_hex" "x_hex_decode (demo_with m) = toy_unhex"
  "x_hmac (demo_with m) = (\<lambda>k m. k)" "x_strptime (demo_with m) = (\<lambda>s. Some (int (length s)))"
  "x_parse_registry (demo_with m) bs = Inr demo_registry" "x_parse_envelope (demo_with m) bs = Inr (demo_envelopes ! length bs)"
  "x_candidate_value (demo_with m) c = Inr (JString ''k'')" "x_envelope_value (demo_with m) e = Inr JNull"
  "x_contents_value (demo_with m) cs = Inr JNull" "x_content_value (demo_with m) content = Inr (JString (toy_content content))"
  "x_json_vec (demo_with m) (JString s) = Inr (as_bytes s)" "x_json_vec (demo_with m) JNull = Inr []"
  "x_unsigned_value (demo_with m) u = Inr (JString (en_issuer u))"
  by (simp_all add: demo_ext_fields)

lemma demo_registry_fields: "rg_trusted_issuers demo_registry = toy_trusted" "rg_required_domains demo_registry = 1" "rg_component demo_registry = ''c''"
  "rg_interface_version demo_registry = ''1''" "rg_evidence_window demo_registry = None" "rg_service_manifest demo_registry = None"
  "lo_forbidden_paths (rg_loss_oracle demo_registry) = [''/lost'']" "lo_forbidden_sha256 (rg_loss_oracle demo_registry) = [replicate 64 CHR ''a'']"
  "rl_max_workspace_files (rg_resource_limits demo_registry) = 10" "rl_max_workspace_bytes (rg_resource_limits demo_registry) = 10"
  "rg_grammar demo_registry = sample_grammar" "gr_states sample_grammar = [''s'']" "gr_initial_state sample_grammar = ''s''"
  by (simp_all add: demo_registry_def sample_grammar_def del: replicate.simps)

lemma demo_registry_read: "read_registry (demo_with m) demo_fs = Inr demo_registry"
  by (simp add: read_registry_def demo_fs_def join_def read_bounded_def demo_fields)

lemma toy_unhex_replicate: "toy_unhex (replicate (2 * n) CHR ''a'') \<noteq> None"
  by (induction n) (auto simp: numeral_eq_Suc)

lemma demo_registry_valid: "validate_registry (demo_with m) demo_registry = Inr ()"
  using toy_unhex_replicate [of 32] toy_hex_roundtrip
  by (simp add: validate_registry_def check_manifest_def demo_registry_def toy_trusted_def is_absolute_def validate_issuer_policy_def
      policy_failure_domain_def demo_fields del: replicate.simps)

lemma demo_envelopes_read: "read_envelopes (demo_with m) demo_fs (rg_resource_limits demo_registry) = Inr demo_envelopes"
  by (simp add: read_envelopes_def demo_fs_def demo_registry_def join_def regular_json_files_def json_entry_def extension_def
      read_envelope_def read_bounded_def demo_envelopes_def demo_fields)

lemma demo_envelope_ok:
  assumes "kind_matches_content kind content"
  shows "fragment_ok (demo_with m) toy_trusted ''c'' ''1'' None (toy_envelope kind content n ds)"
  using assms toy_hex_roundtrip
  by (auto simp: fragment_ok_def toy_envelope_def toy_trusted_def policy_failure_domain_def verify_signature_def
      verify_legacy_def unsigned_bytes_def canonical_encode_def encode_json_def content_digest_of_def canonical_digest_def digest_hex_def demo_fields)

lemma demo_digests: "toy_hex (as_bytes ''p'') = ''ha''" "toy_hex (as_bytes ''t'') = ''he''" "toy_hex (as_bytes ''r'') = ''hc''"
  by code_simp+

lemma demo_admissible: "admissible (demo_with m) toy_trusted 1 ''c'' ''1'' None (set demo_envelopes)"
proof -
  have "\<forall>e \<in> set demo_envelopes. fragment_ok (demo_with m) toy_trusted ''c'' ''1'' None e"
    by (simp add: demo_envelopes_def demo_envelope_ok)
  moreover have "dep_edges (set demo_envelopes) = {}"
    by (auto simp: dep_edges_def demo_envelopes_def toy_envelope_def)
  ultimately show ?thesis
    by (simp add: admissible_def inj_on_def demo_envelopes_def toy_envelope_def demo_digests acyclic_def)
qed

lemma demo_collect: "\<exists>ev. collect (demo_with m) demo_envelopes toy_trusted 1 ''c'' ''1'' = Inr ev \<and> ce_envelopes ev = demo_envelopes"
proof -
  have "distinct demo_envelopes" by (simp add: demo_envelopes_def toy_envelope_def)
  moreover have "sort_envelopes demo_envelopes = demo_envelopes" by (simp add: demo_envelopes_def toy_envelope_def)
  ultimately show ?thesis using demo_admissible by (simp add: collect_def collect_at_iff parse_verification_time_def)
qed

lemma demo_attest: "\<exists>a. attest_absence (demo_with m) demo_fs [''/lost''] [replicate 64 CHR ''a''] 10 10 = Inr a"
proof -
  have l: "toy_hex bs \<noteq> replicate 64 CHR ''a''" if "length bs < 32" for bs
  proof -
    have "length (toy_hex bs) = 2 * length bs" by (induction bs) auto
    then show ?thesis using that by (metis length_replicate less_irrefl mult_2 numeral_Bit0 add_mono_thms_linordered_field(5))
  qed
  have "file_ok (demo_with m) [replicate 64 CHR ''a''] (RegularFile c None)" if "length c < 32" for c
    using l [OF that] by (simp add: file_ok_def demo_fields del: replicate.simps)
  then show ?thesis unfolding attest_absence_iff demo_fs_def
    by (simp add: is_directory_def del: replicate.simps)
qed

lemma demo_compile: "\<exists>w sb. compile (demo_with m) sample_candidate = Inr w \<and> sandbox_verify (demo_with m) sample_candidate w = Inr sb"
proof -
  obtain body where body: "compile_body sample_candidate = Inr body" using compile_body_succeeds [OF sample_transitions(3,2)] ..
  have eng: "lawful_engine (demo_with m) body" using toy_engine_lawful [OF body] by (simp add: lawful_engine_def demo_ext_fields)
  have "each (verify_transition (demo_with m) sample_candidate (x_wasm_finish (demo_with m) body)) (cd_transitions sample_candidate) = Inr ()"
    using verify_transition_succeeds [OF sample_transitions(3,1,2) _ eng body] by (simp add: each_Inr_iff sample_candidate_def)
  then show ?thesis using eng body
    by (simp add: compile_def sandbox_verify_def load_module_def instantiate_step_def lawful_engine_def)
qed

lemma demo_rebuild:
  assumes "ce_envelopes ev = demo_envelopes"
  shows "\<exists>w cert. rebuild (demo_with m) demo_registry Full ev a = Inr (Certified sample_candidate w cert)"
proof -
  have all: "map en_content demo_envelopes = sample_contents" by (simp add: demo_envelopes_def sample_contents_def toy_envelope_def)
  have sch: "schemas_of demo_envelopes = [StatePolicy [''s''] ''s'']" by (simp add: schemas_of_def demo_envelopes_def toy_envelope_def)
  obtain bs where bs: "encode_candidate sample_candidate = Inr bs" using wire_candidate_encodes [OF sample_wire] ..
  have cert: "certify bs ''c'' ''1'' sample_contents = Inr (coverage_of sample_grammar sample_contents)"
    using sample_accepted by (simp add: certify_decoded [OF decode_encode_candidate [OF sample_wire bs]]) (simp add: sample_candidate_def)
  have rec: "reconstruct ''c'' ''1'' sample_grammar sample_contents = Inr (sample_candidate, 2)"
    using sample_reconstruct by (simp add: reconstruct_def sample_grammar_def)
  obtain w sb where w: "compile (demo_with m) sample_candidate = Inr w" "sandbox_verify (demo_with m) sample_candidate w = Inr sb"
    using demo_compile [of m] by blast
  have dig: "digest_of (demo_with m) (x_candidate_value (demo_with m)) sample_candidate = Inr (toy_hex (as_bytes ''k''))"
    "digest_of (demo_with m) (x_contents_value (demo_with m)) cs = Inr []"
    "digest_of (demo_with m) (x_envelope_value (demo_with m)) e = Inr []"
    "digest_of (demo_with m) (x_content_value (demo_with m)) content = Inr (toy_hex (as_bytes (toy_content content)))" for cs e content
    by (simp_all add: canonical_digest_def digest_hex_def encode_json_def demo_fields)
  have k: "toy_hex (as_bytes ''k'') \<noteq> replicate 64 CHR ''a''" by code_simp
  have "\<exists>ds. collect_results (digest_of (demo_with m) (x_envelope_value (demo_with m))) es = Inr ds" for es
    using collect_results_map [of es _ "\<lambda>_. []"] dig(3) by blast
  then obtain ds where ds: "collect_results (digest_of (demo_with m) (x_envelope_value (demo_with m))) demo_envelopes = Inr ds" by blast
  show ?thesis using w ds k
    by (simp add: rebuild_def Let_def assms all sch demo_registry_fields rec bs dig cert certificate_of_def del: replicate.simps)
qed

lemma demo_certified: "\<exists>w cert. run_with_mode (demo_with m) demo_fs Full = Certified sample_candidate w cert"
proof -
  obtain ev where ev: "collect (demo_with m) demo_envelopes toy_trusted 1 ''c'' ''1'' = Inr ev" "ce_envelopes ev = demo_envelopes" using demo_collect [of m] by blast
  obtain a where a: "attest_absence (demo_with m) demo_fs [''/lost''] [replicate 64 CHR ''a''] 10 10 = Inr a" using demo_attest [of m] ..
  obtain w cert where r: "rebuild (demo_with m) demo_registry Full ev a = Inr (Certified sample_candidate w cert)" using demo_rebuild [OF ev(2), of m a] by blast
  have g: "grammar_validate sample_grammar = Inr ()" using sample_grammar_ok by (simp add: grammar_validate_iff)
  have "recover (demo_with m) demo_fs Full = Inr (Certified sample_candidate w cert)"
    unfolding recover_def demo_registry_read rbind_simps demo_registry_valid demo_envelopes_read demo_registry_fields g ev(1) a r
    by (simp add: validate_freshness_def r)
  then show ?thesis by (simp add: run_with_mode_def)
qed

theorem certified_sound_witness:
  "\<exists>w cert. run_with_mode (demo_with ()) demo_fs Full = Certified sample_candidate w cert \<and>
    {m. explains sample_grammar (filter is_contract (map en_content demo_envelopes)) m} = {machine_of (cd_transitions sample_candidate)}"
proof -
  obtain w cert where r: "run_with_mode (demo_with ()) demo_fs Full = Certified sample_candidate w cert" using demo_certified [of "()"] by blast
  from certified_sound [OF r] have "recovery_sound (demo_with ()) demo_fs demo_registry demo_envelopes sample_candidate (ct_candidate_digest cert)"
    by (auto simp: demo_registry_read demo_envelopes_read)
  then have "{m. explains (rg_grammar demo_registry) (filter is_contract (map en_content demo_envelopes)) m} = {machine_of (cd_transitions sample_candidate)}"
    unfolding recovery_sound_def by blast
  then show ?thesis using r by (simp add: demo_registry_def)
qed

end
