(* ===== verification/Hash_Chain.thy ===== *)
theory Hash_Chain
  imports Main
begin

text \<open>
  Hash chains, as the audit events of a recovery job (\<open>operations.rs\<close>) and the event log
  (\<open>anasemble-events\<close>) use them: every element names the digest of its predecessor, and its own digest
  covers that name. The locale states what the two have in common, and its lemmas are interpreted for both:
  a chain that ends in a given digest is the only one that does, unless two different elements have the
  same digest.
\<close>

fun linked :: "('e \<Rightarrow> 'd option) \<Rightarrow> ('e \<Rightarrow> 'd option) \<Rightarrow> 'd option \<Rightarrow> 'e list \<Rightarrow> bool" where
  "linked predecessor digest previous [] = True"
| "linked predecessor digest previous (e # es) =
     (predecessor e = previous \<and> digest e \<noteq> None \<and> linked predecessor digest (digest e) es)"

definition chain_head :: "('e \<Rightarrow> 'd option) \<Rightarrow> 'e list \<Rightarrow> 'd option" where
  "chain_head digest es = (if es = [] then None else digest (last es))"

definition collides :: "('e \<Rightarrow> 'c) \<Rightarrow> ('e \<Rightarrow> 'd option) \<Rightarrow> 'e list \<Rightarrow> 'e list \<Rightarrow> bool" where
  "collides content digest es fs \<longleftrightarrow> (\<exists>e \<in> set es. \<exists>f \<in> set fs. content e \<noteq> content f \<and> digest e = digest f)"

lemma linked_append:
  "linked p d previous (es @ fs) \<longleftrightarrow> linked p d previous es \<and> linked p d (if es = [] then previous else d (last es)) fs"
  by (induction es arbitrary: previous) auto

lemma linked_snoc: "linked p d None (es @ [e]) \<longleftrightarrow> linked p d None es \<and> p e = chain_head d es \<and> d e \<noteq> None"
  by (auto simp: linked_append chain_head_def)

lemma linked_head: "linked p d None es \<Longrightarrow> chain_head d es = None \<longleftrightarrow> es = []"
  by (cases es rule: rev_cases) (auto simp: linked_snoc chain_head_def)

locale hash_chain =
  fixes content :: "'e \<Rightarrow> 'c" and predecessor :: "'e \<Rightarrow> 'd option" and digest :: "'e \<Rightarrow> 'd option"
  assumes covers: "content e = content f \<Longrightarrow> predecessor e = predecessor f"
begin

lemma same_head_same_chain:
  assumes "linked predecessor digest None es" "linked predecessor digest None fs"
    and "chain_head digest es = chain_head digest fs"
  shows "map content es = map content fs \<or> collides content digest es fs"
  using assms
proof (induction es arbitrary: fs rule: rev_induct)
  case Nil
  then show ?case using linked_head [of predecessor digest fs] by (simp add: chain_head_def)
next
  case (snoc e es)
  from snoc.prems have "fs \<noteq> []" using linked_head [of predecessor digest fs] by (auto simp: chain_head_def linked_snoc)
  then obtain gs f where fs: "fs = gs @ [f]" by (cases fs rule: rev_cases) auto
  have d: "digest e = digest f" using snoc.prems(3) by (simp add: fs chain_head_def)
  show ?case
  proof (cases "content e = content f")
    case True
    with snoc.prems covers [OF True] have "chain_head digest es = chain_head digest gs" by (simp add: fs linked_snoc)
    with snoc.IH [of gs] snoc.prems have "map content es = map content gs \<or> collides content digest es gs"
      by (simp add: fs linked_snoc)
    with True show ?thesis by (auto simp: fs collides_def)
  next
    case False
    with d show ?thesis by (auto simp: fs collides_def)
  qed
qed

end

end
