(* ===== verification/Operations.thy ===== *)
theory Operations
  imports Protocol Hash_Chain "HOL-Library.Sublist"
begin

text \<open>
  The durable job queue of the control plane (\<open>src/operations.rs\<close>): a directory of job records with a
  hash-linked audit trail each, a directory of results, a lock and a runner lease. The store is a record
  of the two directories (file name and bytes), the lock file and the lease file. An operation returns
  its result and the store it leaves behind, so that writes made before an error are kept.

  Reading and writing a file of the store succeeds; the lock file is present only when a process died
  while holding it. The clock, the process, path resolution and serialization are parameters.
\<close>

section \<open>Data\<close>

record OperationsConfig =
  oc_version :: string
  oc_max_queued :: nat
  oc_max_batch :: nat
  oc_max_attempts :: u32
  oc_lease_seconds :: u64

datatype JobState = Pending | Running | JobCertified | JobRefused | Failed

record JobEvent =
  je_sequence :: u32
  je_at_unix :: u64
  je_kind :: string
  je_previous_sha256 :: "string option"
  je_event_sha256 :: string

record RecoveryJob =
  rj_version :: string
  rj_job_id :: string
  rj_workspace :: string
  rj_workspace_sha256 :: string
  rj_submitted_unix :: u64
  rj_state :: JobState
  rj_attempts :: u32
  rj_lease_expires_unix :: "u64 option"
  rj_result_sha256 :: "string option"
  rj_refusal_code :: "RefusalCode option"
  rj_events :: "JobEvent list"
  rj_record_sha256 :: string

record EnqueueReceipt =
  eq_job_id :: string
  eq_workspace_sha256 :: string
  eq_state :: JobState

record OperationsMetrics =
  om_jobs_total :: u64
  om_pending :: u64
  om_running :: u64
  om_certified :: u64
  om_refused :: u64
  om_failed :: u64
  om_restart_recoveries :: u64
  om_attempts_total :: u64

record OperationsStatus =
  os_version :: string
  os_healthy :: bool
  os_queue_capacity :: nat
  os_queue_available :: nat
  os_metrics :: OperationsMetrics
  os_diagnostic_codes :: "string list"

record BatchReceipt =
  br_claimed :: u64
  br_certified :: u64
  br_refused :: u64
  br_failed :: u64
  br_recovered_after_restart :: u64

record SupportJob =
  sj_job_id :: string
  sj_workspace_sha256 :: string
  sj_state :: JobState
  sj_attempts :: u32
  sj_refusal_code :: "RefusalCode option"
  sj_event_digests :: "string list"

record SupportBundle =
  su_version :: string
  su_generated_unix :: u64
  su_config_sha256 :: string
  su_status :: OperationsStatus
  su_jobs :: "SupportJob list"
  su_bundle_sha256 :: string

record PrunedJob =
  pj_job_id :: string
  pj_record_sha256 :: string
  pj_result_sha256 :: "string option"

record PruneReceipt =
  pr_version :: string
  pr_jobs :: "PrunedJob list"

datatype RunFailurePoint = NoFailure | AfterClaim

record RunnerLeaseRecord =
  rl_version :: string
  rl_runner_id :: string
  rl_expires_unix :: u64

record OperationsStore =
  st_config :: OperationsConfig
  st_jobs :: "(string, bytes) btree_map"
  st_results :: "(string, bytes) btree_map"
  st_locked :: bool
  st_lease :: "bytes option"

record operations_ext = protocol_ext +
  x_job_value :: "RecoveryJob serialize"
  x_parse_job :: "bytes \<Rightarrow> (string, RecoveryJob) result"
  x_event_value :: "JobEvent serialize"
  x_id_value :: "(string \<times> u64) serialize"
  x_files_value :: "(string, string) btree_map serialize"
  x_result_value :: "RecoveryResult serialize"
  x_config_value :: "OperationsConfig serialize"
  x_bundle_value :: "SupportBundle serialize"
  x_lease_value :: "RunnerLeaseRecord serialize"
  x_parse_lease :: "bytes \<Rightarrow> (string, RunnerLeaseRecord) result"
  x_parse_json :: "bytes \<Rightarrow> (string, json) result"
  x_canonicalize :: "string \<Rightarrow> (string, string) result"

definition MAX_JOBS :: nat where "MAX_JOBS = 1024"
definition MAX_RECORD_BYTES :: nat where "MAX_RECORD_BYTES = 65536"
definition MAX_WORKSPACE_FILES :: nat where "MAX_WORKSPACE_FILES = 1024"
definition MAX_WORKSPACE_BYTES :: nat where "MAX_WORKSPACE_BYTES = 64 * 1024 * 1024"
definition MAX_RESULT_BYTES :: nat where "MAX_RESULT_BYTES = 16 * 1024 * 1024"

definition invalid_op :: "string \<Rightarrow> Error" where
  "invalid_op message = InvalidEvidence message"

section \<open>Operations on the store\<close>

type_synonym 'a op = "OperationsStore \<Rightarrow> (Error, 'a) result \<times> OperationsStore"

definition ret :: "'a \<Rightarrow> 'a op" where
  "ret v st = (Inr v, st)"

definition fail :: "Error \<Rightarrow> 'a op" where
  "fail e st = (Inl e, st)"

definition lift :: "(OperationsStore \<Rightarrow> (Error, 'a) result) \<Rightarrow> 'a op" where
  "lift f st = (f st, st)"

definition obind :: "'a op \<Rightarrow> ('a \<Rightarrow> 'b op) \<Rightarrow> 'b op" where
  "obind m f st = (case m st of (Inl e, st') \<Rightarrow> (Inl e, st') | (Inr v, st') \<Rightarrow> f v st')"

primrec ofold :: "('s \<Rightarrow> 'a \<Rightarrow> 's op) \<Rightarrow> 's \<Rightarrow> 'a list \<Rightarrow> 's op" where
  "ofold f s [] = ret s"
| "ofold f s (v # vs) = obind (f s v) (\<lambda>s'. ofold f s' vs)"

text \<open>\<open>Lock::acquire\<close> gives up when the lock file stays; the guard removes it on every return.\<close>

definition locked :: "'a op \<Rightarrow> 'a op" where
  "locked m st = (if st_locked st then (Inl (invalid_op ''operations store is locked''), st) else m st)"

abbreviation op_digest :: "'x operations_ext_scheme \<Rightarrow> 'a serialize \<Rightarrow> 'a \<Rightarrow> (Error, string) result" where
  "op_digest x to_value v \<equiv> canonical_digest (x_sha256 x) (x_hex_encode x) (x_json_vec x) to_value v"

abbreviation op_encode :: "'x operations_ext_scheme \<Rightarrow> 'a serialize \<Rightarrow> 'a \<Rightarrow> (Error, bytes) result" where
  "op_encode x to_value v \<equiv> canonical_encode (x_json_vec x) to_value v"

section \<open>Configuration\<close>

definition config_validate :: "OperationsConfig \<Rightarrow> (Error, unit) result" where
  "config_validate c =
     (if oc_version c \<noteq> ''operations-config-v1'' \<or> \<not> (1 \<le> oc_max_queued c \<and> oc_max_queued c \<le> MAX_JOBS) \<or>
         \<not> (1 \<le> oc_max_batch c \<and> oc_max_batch c \<le> 64) \<or> \<not> (1 \<le> oc_max_attempts c \<and> oc_max_attempts c \<le> 10) \<or>
         \<not> (10 \<le> oc_lease_seconds c \<and> oc_lease_seconds c \<le> 86400)
      then Inl (invalid_op ''operations configuration is outside supported bounds'') else Inr ())"

definition config_default :: OperationsConfig where
  "config_default = \<lparr>oc_version = ''operations-config-v1'', oc_max_queued = 256, oc_max_batch = 8, oc_max_attempts = 3, oc_lease_seconds = 300\<rparr>"

record LegacyConfig =
  lc_version :: string
  lc_queue_capacity :: nat
  lc_jobs_per_run :: nat
  lc_attempts :: u32
  lc_lease_seconds :: u64

definition config_migrate :: "(bytes \<Rightarrow> (string, json) result) \<Rightarrow> (json \<Rightarrow> string option) \<Rightarrow> (json \<Rightarrow> (string, OperationsConfig) result) \<Rightarrow>
    (json \<Rightarrow> (string, LegacyConfig) result) \<Rightarrow> bytes \<Rightarrow> (Error, OperationsConfig) result" where
  "config_migrate parse version_of to_config to_legacy input =
     rbind (map_err Json (parse input)) (\<lambda>value.
       if version_of value = Some ''operations-config-v1'' then
         rbind (map_err Json (to_config value)) (\<lambda>config. rbind (config_validate config) (\<lambda>_. Inr config))
       else if version_of value = Some ''operations-config-v0'' then
         rbind (map_err Json (to_legacy value)) (\<lambda>legacy.
           if lc_version legacy \<noteq> ''operations-config-v0'' then Inl (invalid_op ''legacy operations configuration is invalid'')
           else let config = \<lparr>oc_version = ''operations-config-v1'', oc_max_queued = lc_queue_capacity legacy,
                  oc_max_batch = lc_jobs_per_run legacy, oc_max_attempts = lc_attempts legacy, oc_lease_seconds = lc_lease_seconds legacy\<rparr> in
             rbind (config_validate config) (\<lambda>_. Inr config))
       else Inl (invalid_op ''operations configuration version is unsupported''))"

definition store_create :: "OperationsConfig \<Rightarrow> bool \<Rightarrow> (Error, OperationsStore) result" where
  "store_create config root_exists =
     rbind (config_validate config) (\<lambda>_.
       if root_exists then Inl (invalid_op ''operations root already exists'')
       else Inr \<lparr>st_config = config, st_jobs = [], st_results = [], st_locked = False, st_lease = None\<rparr>)"

definition validate_directory :: "node \<Rightarrow> (Error, unit) result" where
  "validate_directory node =
     (case node of
        Directory _ _ _ \<Rightarrow> Inr ()
      | Inaccessible error \<Rightarrow> Inl (Io error)
      | _ \<Rightarrow> Inl (invalid_op ''operations path must be a real directory''))"

definition read_regular :: "node \<Rightarrow> nat \<Rightarrow> (Error, bytes) result" where
  "read_regular node max_bytes =
     (case node of
        Inaccessible error \<Rightarrow> Inl (Io error)
      | RegularFile content fault \<Rightarrow>
          if length content > max_bytes then Inl (invalid_op ''operations file is invalid or exceeds its byte bound'')
          else (case fault of Some error \<Rightarrow> Inl (Io error) | None \<Rightarrow> Inr content)
      | _ \<Rightarrow> Inl (invalid_op ''operations file is invalid or exceeds its byte bound''))"

definition store_open :: "(bytes \<Rightarrow> (string, json) result) \<Rightarrow> (json \<Rightarrow> string option) \<Rightarrow> (json \<Rightarrow> (string, OperationsConfig) result) \<Rightarrow>
    (json \<Rightarrow> (string, LegacyConfig) result) \<Rightarrow> node \<Rightarrow> (Error, OperationsConfig) result" where
  "store_open parse version_of to_config to_legacy root =
     rbind (validate_directory root) (\<lambda>_.
     rbind (validate_directory (join root ''jobs'')) (\<lambda>_.
     rbind (validate_directory (join root ''results'')) (\<lambda>_.
     rbind (read_regular (join root ''config.json'') 65536) (\<lambda>bs.
       config_migrate parse version_of to_config to_legacy bs))))"

section \<open>Records\<close>

definition is_ascii_hexdigit :: "char \<Rightarrow> bool" where
  "is_ascii_hexdigit c \<longleftrightarrow>
     (let n = (of_char c :: nat) in (48 \<le> n \<and> n \<le> 57) \<or> (65 \<le> n \<and> n \<le> 70) \<or> (97 \<le> n \<and> n \<le> 102))"

definition validate_job_id :: "string \<Rightarrow> (Error, unit) result" where
  "validate_job_id value =
     (if length value \<noteq> 28 \<or> take 4 value \<noteq> ''job-'' \<or> \<not> list_all is_ascii_hexdigit (drop 4 value)
      then Inl (invalid_op ''recovery job ID is invalid'') else Inr ())"

definition append_event :: "'x operations_ext_scheme \<Rightarrow> RecoveryJob \<Rightarrow> u64 \<Rightarrow> string \<Rightarrow> (Error, RecoveryJob) result" where
  "append_event x job at_unix kind =
     (if length (rj_events job) \<ge> 64 \<or> length kind > 64 then Inl (invalid_op ''job audit event bound exceeded'')
      else let event = \<lparr>je_sequence = of_nat (length (rj_events job)), je_at_unix = at_unix, je_kind = kind,
                 je_previous_sha256 = (if rj_events job = [] then None else Some (je_event_sha256 (last (rj_events job)))),
                 je_event_sha256 = []\<rparr> in
        rbind (op_digest x (x_event_value x) event) (\<lambda>d.
          Inr (job\<lparr>rj_events := rj_events job @ [event\<lparr>je_event_sha256 := d\<rparr>]\<rparr>)))"

definition seal_record :: "'x operations_ext_scheme \<Rightarrow> RecoveryJob \<Rightarrow> (Error, RecoveryJob) result" where
  "seal_record x job =
     (let job = job\<lparr>rj_record_sha256 := []\<rparr> in
      rbind (op_digest x (x_job_value x) job) (\<lambda>d. Inr (job\<lparr>rj_record_sha256 := d\<rparr>)))"

fun check_chain :: "'x operations_ext_scheme \<Rightarrow> nat \<Rightarrow> string option \<Rightarrow> JobEvent list \<Rightarrow> (Error, unit) result" where
  "check_chain x index previous [] = Inr ()"
| "check_chain x index previous (event # events) =
     (if unat (je_sequence event) \<noteq> index \<or> je_previous_sha256 event \<noteq> previous
      then Inl (invalid_op ''recovery job audit chain is discontinuous'')
      else rbind (op_digest x (x_event_value x) (event\<lparr>je_event_sha256 := []\<rparr>)) (\<lambda>d.
        if d \<noteq> je_event_sha256 event then Inl (invalid_op ''recovery job audit event digest is invalid'')
        else check_chain x (Suc index) (Some (je_event_sha256 event)) events))"

definition validate_job :: "'x operations_ext_scheme \<Rightarrow> RecoveryJob \<Rightarrow> (Error, unit) result" where
  "validate_job x job =
     rbind (validate_job_id (rj_job_id job)) (\<lambda>_.
       if rj_version job \<noteq> ''recovery-job-v1'' \<or> rj_events job = [] \<or> length (rj_events job) > 64
       then Inl (invalid_op ''recovery job structure is invalid'')
       else
     rbind (check_chain x 0 None (rj_events job)) (\<lambda>_.
     rbind (op_digest x (x_job_value x) (job\<lparr>rj_record_sha256 := []\<rparr>)) (\<lambda>d.
       if d \<noteq> rj_record_sha256 job then Inl (invalid_op ''recovery job record digest is invalid'') else Inr ())))"

definition add_metrics :: "OperationsMetrics \<Rightarrow> RecoveryJob \<Rightarrow> OperationsMetrics" where
  "add_metrics m job =
     (let m = m\<lparr>om_jobs_total := om_jobs_total m + 1, om_attempts_total := om_attempts_total m + ucast (rj_attempts job),
            om_restart_recoveries := om_restart_recoveries m +
              of_nat (length (filter (\<lambda>e. je_kind e = ''JOB_RECOVERED_AFTER_RESTART'') (rj_events job)))\<rparr> in
      case rj_state job of
        Pending \<Rightarrow> m\<lparr>om_pending := om_pending m + 1\<rparr>
      | Running \<Rightarrow> m\<lparr>om_running := om_running m + 1\<rparr>
      | JobCertified \<Rightarrow> m\<lparr>om_certified := om_certified m + 1\<rparr>
      | JobRefused \<Rightarrow> m\<lparr>om_refused := om_refused m + 1\<rparr>
      | Failed \<Rightarrow> m\<lparr>om_failed := om_failed m + 1\<rparr>)"

definition metrics :: "RecoveryJob list \<Rightarrow> OperationsMetrics" where
  "metrics jobs = foldl add_metrics \<lparr>om_jobs_total = 0, om_pending = 0, om_running = 0, om_certified = 0, om_refused = 0,
     om_failed = 0, om_restart_recoveries = 0, om_attempts_total = 0\<rparr> jobs"

section \<open>Workspace digests\<close>

text \<open>
  The loop pops a directory from a stack, pushes its subdirectories and records the digest of its files
  under their path relative to the workspace.
\<close>

record Scan =
  sc_files :: "(string, string) btree_map"
  sc_total :: u64

definition join_path :: "string \<Rightarrow> string \<Rightarrow> string" where
  "join_path directory name = (if directory = [] then name else directory @ ''/'' @ name)"

definition scan_entry :: "'x operations_ext_scheme \<Rightarrow> string \<Rightarrow> (string \<times> node) list \<times> Scan \<Rightarrow> string \<times> node \<Rightarrow>
    (Error, (string \<times> node) list \<times> Scan) result" where
  "scan_entry x directory st entry =
     (case snd entry of
        Inaccessible error \<Rightarrow> Inl (Io error)
      | Symlink _ \<Rightarrow> Inl (invalid_op ''operations workspace contains a symbolic link'')
      | Directory _ _ _ \<Rightarrow> Inr (fst st @ [(join_path directory (fst entry), snd entry)], snd st)
      | Special \<Rightarrow> Inl (invalid_op ''operations workspace contains a non-regular entry'')
      | RegularFile content fault \<Rightarrow>
          if length (sc_files (snd st)) \<ge> MAX_WORKSPACE_FILES then Inl (invalid_op ''operations workspace exceeds 1024 files'')
          else rbind (ok_or (invalid_op ''operations workspace byte count overflow'')
              (if length content < 2 ^ 64 then checked_add (sc_total (snd st)) (of_nat (length content)) else None)) (\<lambda>total.
            if unat total > MAX_WORKSPACE_BYTES then Inl (invalid_op ''operations workspace exceeds 64 MiB'')
            else if \<not> utf8 (join_path directory (fst entry)) then Inl (invalid_op ''operations workspace path is not UTF-8'')
            else case fault of Some error \<Rightarrow> Inl (Io error)
              | None \<Rightarrow> Inr (fst st, \<lparr>sc_files = bt_insert (join_path directory (fst entry))
                    (bytes_digest (x_sha256 x) (x_hex_encode x) content) (sc_files (snd st)), sc_total = total\<rparr>)))"

text \<open>\<open>validate_directory\<close> followed by \<open>read_dir\<close>.\<close>

definition open_directory :: "node \<Rightarrow> (Error, (string \<times> node) list \<times> string option) result" where
  "open_directory node =
     (case node of
        Directory None entries fault \<Rightarrow> Inr (entries, fault)
      | Directory (Some error) _ _ \<Rightarrow> Inl (Io error)
      | Inaccessible error \<Rightarrow> Inl (Io error)
      | _ \<Rightarrow> Inl (invalid_op ''operations path must be a real directory''))"

lemma size_stack_append [simp]: "size_list f (xs @ ys) = size_list f xs + size_list f ys"
  by (induction xs) auto

lemma scan_entry_stack:
  assumes "fold_results (scan_entry x d) (stack, sc) entries = Inr (stack', sc')"
  shows "size_list (\<lambda>e. size (snd e)) stack' \<le> size_list (\<lambda>e. size (snd e)) stack + size_list (\<lambda>e. size (snd e)) entries"
  using assms
proof (induction entries arbitrary: stack sc)
  case (Cons e entries)
  then obtain st1 sc1 where s: "scan_entry x d (stack, sc) e = Inr (st1, sc1)" "fold_results (scan_entry x d) (st1, sc1) entries = Inr (stack', sc')"
    by (auto simp: rbind_Inr_iff)
  from s(1) have "size_list (\<lambda>e. size (snd e)) st1 \<le> size_list (\<lambda>e. size (snd e)) stack + Suc (size (snd e))"
    by (auto simp: scan_entry_def rbind_Inr_iff split: node.split_asm if_split_asm option.split_asm)
  with Cons.IH [OF s(2)] show ?case by simp
qed simp

function scan_stack :: "'x operations_ext_scheme \<Rightarrow> (string \<times> node) list \<Rightarrow> Scan \<Rightarrow> (Error, Scan) result" where
  "scan_stack x stack sc =
     (if stack = [] then Inr sc
      else let (directory, node) = last stack in
     rbind (open_directory node) (\<lambda>(entries, fault).
     rbind (fold_results (scan_entry x directory) (butlast stack, sc) entries) (\<lambda>(stack', sc').
       case fault of Some error \<Rightarrow> Inl (Io error) | None \<Rightarrow> scan_stack x stack' sc')))"
  by pat_completeness auto
termination
proof (relation "measure (\<lambda>(_, stack, _). size_list (\<lambda>e. size (snd e)) stack)", goal_cases)
  case (2 x stack sc p directory node q entries fault r stack' sc')
  then have m: "size_list (\<lambda>e. size (snd e)) stack' \<le> size_list (\<lambda>e. size (snd e)) (butlast stack) + size_list (\<lambda>e. size (snd e)) entries"
    using scan_entry_stack by metis
  from 2 have l: "last stack = (directory, node)" by simp
  have "stack = butlast stack @ [(directory, node)]" using 2 l append_butlast_last_id [of stack] by simp
  then have "size_list (\<lambda>e. size (snd e)) stack = size_list (\<lambda>e. size (snd e)) (butlast stack @ [(directory, node)])" by (rule arg_cong)
  then have "size_list (\<lambda>e. size (snd e)) stack = size_list (\<lambda>e. size (snd e)) (butlast stack) + Suc (size node)" by simp
  moreover have le: "size_list (\<lambda>e. size (snd e)) es \<le> size_list (\<lambda>x. Suc (size (snd x))) es" for es :: "(string \<times> node) list"
    by (induction es) auto
  from 2 have "open_directory node = Inr (entries, fault)" by simp
  then have "node = Directory None entries fault" by (auto simp: open_directory_def split: node.split_asm option.split_asm)
  then have "size_list (\<lambda>e. size (snd e)) entries \<le> size node" using le [of entries] by (simp add: size_prod_simp)
  ultimately show ?case using m by simp
qed simp

declare scan_stack.simps [simp del]

text \<open>\<open>nodes\<close> is the file system at the time of the operation.\<close>

definition digest_workspace_reference :: "'x operations_ext_scheme \<Rightarrow> (string \<Rightarrow> node) \<Rightarrow> string \<Rightarrow> (Error, string) result" where
  "digest_workspace_reference x nodes path =
     rbind (scan_stack x [([], nodes path)] \<lparr>sc_files = [], sc_total = 0\<rparr>) (\<lambda>sc.
       op_digest x (x_files_value x) (sc_files sc))"

section \<open>Reading and replacing jobs\<close>

definition job_path :: "string \<Rightarrow> string" where
  "job_path job_id = job_id @ ''.json''"

definition temporary_path :: "string \<Rightarrow> string" where
  "temporary_path job_id = ''.'' @ job_id @ ''.tmp''"

definition read_record :: "'x operations_ext_scheme \<Rightarrow> bytes \<Rightarrow> (Error, RecoveryJob) result" where
  "read_record x bs =
     (if length bs > MAX_RECORD_BYTES then Inl (invalid_op ''operations file is invalid or exceeds its byte bound'')
      else rbind (map_err Json (x_parse_job x bs)) (\<lambda>job. rbind (validate_job x job) (\<lambda>_. Inr job)))"

primrec check_names :: "nat \<Rightarrow> string list \<Rightarrow> (Error, unit) result" where
  "check_names n [] = Inr ()"
| "check_names n (name # names) =
     (if n \<ge> MAX_JOBS then Inl (invalid_op ''operations job count exceeded 4096'')
      else if extension name \<noteq> Some ''json'' then Inl (invalid_op ''operations jobs directory contains an unknown entry'')
      else check_names (Suc n) names)"

definition read_jobs :: "'x operations_ext_scheme \<Rightarrow> OperationsStore \<Rightarrow> (Error, RecoveryJob list) result" where
  "read_jobs x st =
     rbind (check_names 0 (map fst (st_jobs st))) (\<lambda>_. collect_results (\<lambda>(_, bs). read_record x bs) (st_jobs st))"

definition read_job :: "'x operations_ext_scheme \<Rightarrow> string \<Rightarrow> OperationsStore \<Rightarrow> (Error, RecoveryJob) result" where
  "read_job x job_id st =
     rbind (validate_job_id job_id) (\<lambda>_.
     rbind (ok_or (Io ''No such file or directory'') (bt_get (st_jobs st) (job_path job_id))) (\<lambda>bs. read_record x bs))"

definition replace_job :: "'x operations_ext_scheme \<Rightarrow> RecoveryJob \<Rightarrow> RecoveryJob op" where
  "replace_job x job st =
     (case rbind (seal_record x job) (\<lambda>job. rbind (op_encode x (x_job_value x) job) (\<lambda>bs.
          if bt_get (st_jobs st) (temporary_path (rj_job_id job)) \<noteq> None
          then Inl (invalid_op ''stale operations temporary file requires operator action'') else Inr (job, bs))) of
        Inl e \<Rightarrow> (Inl e, st)
      | Inr (job, bs) \<Rightarrow> (Inr job, st\<lparr>st_jobs := bt_insert (job_path (rj_job_id job)) bs (st_jobs st)\<rparr>))"

section \<open>Queueing\<close>

definition is_queued :: "RecoveryJob \<Rightarrow> bool" where
  "is_queued job \<longleftrightarrow> rj_state job = Pending \<or> rj_state job = Running"

definition new_job :: "string \<Rightarrow> string \<Rightarrow> string \<Rightarrow> u64 \<Rightarrow> RecoveryJob" where
  "new_job job_id workspace workspace_sha256 submitted_unix =
     \<lparr>rj_version = ''recovery-job-v1'', rj_job_id = job_id, rj_workspace = workspace, rj_workspace_sha256 = workspace_sha256,
      rj_submitted_unix = submitted_unix, rj_state = Pending, rj_attempts = 0, rj_lease_expires_unix = None, rj_result_sha256 = None,
      rj_refusal_code = None, rj_events = [], rj_record_sha256 = []\<rparr>"

definition admit :: "'x operations_ext_scheme \<Rightarrow> string \<Rightarrow> string \<Rightarrow> u64 \<Rightarrow> OperationsStore \<Rightarrow> (Error, string \<times> bytes) result" where
  "admit x workspace workspace_sha256 submitted_unix st =
     rbind (read_jobs x st) (\<lambda>jobs.
       if length (filter is_queued jobs) \<ge> oc_max_queued (st_config st)
       then Inl (invalid_op ''operations queue backpressure limit reached'')
       else
     rbind (op_encode x (x_id_value x) (workspace_sha256, submitted_unix)) (\<lambda>id_material.
       let job_id = ''job-'' @ take 24 (bytes_digest (x_sha256 x) (x_hex_encode x) id_material) in
       if bt_get (st_jobs st) (job_path job_id) \<noteq> None then Inl (invalid_op ''duplicate recovery job already exists'')
       else
     rbind (append_event x (new_job job_id workspace workspace_sha256 submitted_unix) submitted_unix ''JOB_ENQUEUED'') (\<lambda>job.
     rbind (seal_record x job) (\<lambda>job.
     rbind (op_encode x (x_job_value x) job) (\<lambda>bs. Inr (job_id, bs))))))"

definition enqueue :: "'x operations_ext_scheme \<Rightarrow> (string \<Rightarrow> node) \<Rightarrow> string \<Rightarrow> u64 \<Rightarrow> EnqueueReceipt op" where
  "enqueue x nodes workspace submitted_unix st =
     (case rbind (map_err Io (x_canonicalize x workspace)) (\<lambda>workspace.
        rbind (validate_directory (nodes workspace)) (\<lambda>_.
        rbind (digest_workspace_reference x nodes workspace) (\<lambda>d. Inr (workspace, d)))) of
        Inl e \<Rightarrow> (Inl e, st)
      | Inr (workspace, workspace_sha256) \<Rightarrow>
          locked (\<lambda>st. case admit x workspace workspace_sha256 submitted_unix st of
              Inl e \<Rightarrow> (Inl e, st)
            | Inr (job_id, bs) \<Rightarrow>
                (Inr \<lparr>eq_job_id = job_id, eq_workspace_sha256 = workspace_sha256, eq_state = Pending\<rparr>,
                 st\<lparr>st_jobs := bt_insert (job_path job_id) bs (st_jobs st)\<rparr>)) st)"

section \<open>Claiming and finishing\<close>

definition saturating_add :: "u64 \<Rightarrow> u64 \<Rightarrow> u64" where
  "saturating_add a b = (if unat a + unat b < 2 ^ 64 then a + b else - 1)"

definition lease_expired :: "u64 \<Rightarrow> RecoveryJob \<Rightarrow> bool" where
  "lease_expired now job \<longleftrightarrow>
     rj_state job = Running \<and> (case rj_lease_expires_unix job of None \<Rightarrow> False | Some deadline \<Rightarrow> deadline \<le> now)"

definition recover_expired :: "'x operations_ext_scheme \<Rightarrow> u64 \<Rightarrow> u64 \<times> RecoveryJob list \<Rightarrow> RecoveryJob \<Rightarrow> (u64 \<times> RecoveryJob list) op" where
  "recover_expired x now acc job st =
     (if \<not> lease_expired now job then (Inr (fst acc, snd acc @ [job]), st)
      else if rj_attempts job \<ge> oc_max_attempts (st_config st)
      then obind (lift (\<lambda>_. append_event x (job\<lparr>rj_state := Failed, rj_lease_expires_unix := None\<rparr>) now ''RESTART_ATTEMPTS_EXHAUSTED''))
        (\<lambda>job. obind (replace_job x job) (\<lambda>job. ret (fst acc, snd acc @ [job]))) st
      else obind (lift (\<lambda>_. append_event x (job\<lparr>rj_state := Pending, rj_lease_expires_unix := None\<rparr>) now ''JOB_RECOVERED_AFTER_RESTART''))
        (\<lambda>job. obind (replace_job x job) (\<lambda>job. ret (fst acc + 1, snd acc @ [job]))) st)"

definition claim_job :: "'x operations_ext_scheme \<Rightarrow> u64 \<Rightarrow> RecoveryJob \<Rightarrow> RecoveryJob op" where
  "claim_job x now job st =
     obind (lift (\<lambda>st. append_event x (job\<lparr>rj_state := Running, rj_attempts := rj_attempts job + 1,
         rj_lease_expires_unix := Some (saturating_add now (oc_lease_seconds (st_config st)))\<rparr>) now ''JOB_CLAIMED''))
       (replace_job x) st"

definition claim_next :: "'x operations_ext_scheme \<Rightarrow> u64 \<Rightarrow> (RecoveryJob \<times> u64) option op" where
  "claim_next x now = locked (
     obind (lift (read_jobs x)) (\<lambda>jobs.
     obind (ofold (recover_expired x now) (0, []) jobs) (\<lambda>(recovered, jobs).
       case find (\<lambda>job. rj_state job = Pending) (sort_key (\<lambda>job. (rj_submitted_unix job, rj_job_id job)) jobs) of
         None \<Rightarrow> ret None
       | Some job \<Rightarrow> obind (claim_job x now job) (\<lambda>job. ret (Some (job, recovered))))))"

definition finish :: "'x operations_ext_scheme \<Rightarrow> string \<Rightarrow> u64 \<Rightarrow> JobState \<Rightarrow> string \<Rightarrow> RefusalCode option \<Rightarrow> unit op" where
  "finish x job_id now state result_sha256 code = locked (
     obind (lift (read_job x job_id)) (\<lambda>job.
       if rj_state job \<noteq> Running then fail (invalid_op ''job completion lost its running lease'')
       else if state \<noteq> JobCertified \<and> state \<noteq> JobRefused then fail (invalid_op ''job completion state is invalid'')
       else
     obind (lift (\<lambda>_. append_event x (job\<lparr>rj_state := state, rj_lease_expires_unix := None, rj_result_sha256 := Some result_sha256,
         rj_refusal_code := code\<rparr>) now (if state = JobCertified then ''JOB_CERTIFIED'' else ''JOB_REFUSED''))) (\<lambda>job.
     obind (replace_job x job) (\<lambda>_. ret ()))))"

definition finish_failed :: "'x operations_ext_scheme \<Rightarrow> string \<Rightarrow> u64 \<Rightarrow> string \<Rightarrow> unit op" where
  "finish_failed x job_id now event = locked (
     obind (lift (read_job x job_id)) (\<lambda>job.
     obind (lift (\<lambda>_. append_event x (job\<lparr>rj_state := Failed, rj_lease_expires_unix := None\<rparr>) now event)) (\<lambda>job.
     obind (replace_job x job) (\<lambda>_. ret ()))))"

definition write_result :: "string \<Rightarrow> bytes \<Rightarrow> unit op" where
  "write_result job_id bs st =
     (case bt_get (st_results st) (job_path job_id) of
        Some existing \<Rightarrow>
          if length existing > MAX_RESULT_BYTES then (Inl (invalid_op ''operations file is invalid or exceeds its byte bound''), st)
          else if existing \<noteq> bs then (Inl (invalid_op ''job result conflicts with durable result''), st) else (Inr (), st)
      | None \<Rightarrow> (Inr (), st\<lparr>st_results := bt_insert (job_path job_id) bs (st_results st)\<rparr>))"

section \<open>The runner\<close>

record Process =
  ps_pid :: nat
  ps_root :: string
  ps_clock :: u64

definition runner_id_of :: "'x operations_ext_scheme \<Rightarrow> Process \<Rightarrow> string" where
  "runner_id_of x p = bytes_digest (x_sha256 x) (x_hex_encode x)
     (as_bytes (show_nat (ps_pid p) @ '':'' @ show_nat (unat (ps_clock p)) @ '':'' @ ps_root p))"

definition read_lease :: "'x operations_ext_scheme \<Rightarrow> bytes \<Rightarrow> (Error, RunnerLeaseRecord) result" where
  "read_lease x bs =
     (if length bs > 16384 then Inl (invalid_op ''operations file is invalid or exceeds its byte bound'')
      else map_err Json (x_parse_lease x bs))"

definition acquire_runner :: "'x operations_ext_scheme \<Rightarrow> Process \<Rightarrow> unit op" where
  "acquire_runner x p = locked (\<lambda>st.
     case op_encode x (x_lease_value x) \<lparr>rl_version = ''runner-lease-v1'', rl_runner_id = runner_id_of x p,
         rl_expires_unix = saturating_add (ps_clock p) (oc_lease_seconds (st_config st))\<rparr> of
       Inl e \<Rightarrow> (Inl e, st)
     | Inr bs \<Rightarrow>
         (case st_lease st of
            None \<Rightarrow> (Inr (), st\<lparr>st_lease := Some bs\<rparr>)
          | Some file \<Rightarrow>
              (case read_lease x file of
                 Inl e \<Rightarrow> (Inl e, st)
               | Inr existing \<Rightarrow>
                   if rl_version existing \<noteq> ''runner-lease-v1'' \<or> rl_expires_unix existing > ps_clock p
                   then (Inl (invalid_op ''another job runner owns the operations store''), st)
                   else (Inr (), st\<lparr>st_lease := Some bs\<rparr>))))"

definition renew_runner_lease :: "'x operations_ext_scheme \<Rightarrow> string \<Rightarrow> u64 \<Rightarrow> unit op" where
  "renew_runner_lease x runner_id clock = locked (\<lambda>st.
     case rbind (ok_or (Io ''No such file or directory'') (st_lease st)) (\<lambda>file.
         rbind (read_lease x file) (\<lambda>record.
           if rl_runner_id record \<noteq> runner_id \<or> rl_version record \<noteq> ''runner-lease-v1''
           then Inl (invalid_op ''runner lease ownership changed'')
           else op_encode x (x_lease_value x) (record\<lparr>rl_expires_unix := saturating_add clock (oc_lease_seconds (st_config st))\<rparr>))) of
       Inl e \<Rightarrow> (Inl e, st)
     | Inr bs \<Rightarrow> (Inr (), st\<lparr>st_lease := Some bs\<rparr>))"

definition drop_runner :: "'x operations_ext_scheme \<Rightarrow> string \<Rightarrow> OperationsStore \<Rightarrow> OperationsStore" where
  "drop_runner x runner_id st =
     (case st_lease st of
        None \<Rightarrow> st
      | Some file \<Rightarrow>
          (case read_lease x file of Inl _ \<Rightarrow> st
           | Inr record \<Rightarrow> if rl_runner_id record = runner_id then st\<lparr>st_lease := None\<rparr> else st))"

definition complete_job :: "'x operations_ext_scheme \<Rightarrow> u64 \<Rightarrow> RecoveryJob \<Rightarrow> RecoveryResult \<Rightarrow> BatchReceipt \<Rightarrow> BatchReceipt op" where
  "complete_job x now job result receipt =
     obind (lift (\<lambda>_. op_encode x (x_result_value x) result)) (\<lambda>encoded.
       if length encoded > MAX_RESULT_BYTES
       then obind (finish_failed x (rj_job_id job) now ''RESULT_BOUND_EXCEEDED'') (\<lambda>_.
         ret (receipt\<lparr>br_failed := br_failed receipt + 1\<rparr>))
       else
     obind (write_result (rj_job_id job) encoded) (\<lambda>_.
       case result of
         Certified _ _ _ \<Rightarrow>
           obind (finish x (rj_job_id job) now JobCertified (bytes_digest (x_sha256 x) (x_hex_encode x) encoded) None) (\<lambda>_.
             ret (receipt\<lparr>br_certified := br_certified receipt + 1\<rparr>))
       | Refused code _ \<Rightarrow>
           obind (finish x (rj_job_id job) now JobRefused (bytes_digest (x_sha256 x) (x_hex_encode x) encoded) (Some code)) (\<lambda>_.
             ret (receipt\<lparr>br_refused := br_refused receipt + 1\<rparr>))))"

primrec batch_loop :: "'x operations_ext_scheme \<Rightarrow> (string \<Rightarrow> node) \<Rightarrow> u64 \<Rightarrow> RunFailurePoint \<Rightarrow> (string \<Rightarrow> RecoveryResult) \<Rightarrow> nat \<Rightarrow> BatchReceipt \<Rightarrow> BatchReceipt op" where
  "batch_loop x nodes now failure executor 0 receipt = ret receipt"
| "batch_loop x nodes now failure executor (Suc n) receipt =
     obind (claim_next x now) (\<lambda>claimed.
       case claimed of
         None \<Rightarrow> ret receipt
       | Some (job, recovered) \<Rightarrow>
           let receipt = receipt\<lparr>br_claimed := br_claimed receipt + 1, br_recovered_after_restart := br_recovered_after_restart receipt + recovered\<rparr> in
           if failure = AfterClaim then fail (invalid_op ''injected interruption after durable job claim'')
           else
         obind (lift (\<lambda>_. digest_workspace_reference x nodes (rj_workspace job))) (\<lambda>d.
         obind (if d \<noteq> rj_workspace_sha256 job
           then obind (finish_failed x (rj_job_id job) now ''WORKSPACE_CHANGED_AFTER_ADMISSION'') (\<lambda>_.
             ret (receipt\<lparr>br_failed := br_failed receipt + 1\<rparr>))
           else complete_job x now job (executor (rj_workspace job)) receipt) (\<lambda>receipt.
         batch_loop x nodes now failure executor n receipt)))"

definition empty_receipt :: BatchReceipt where
  "empty_receipt = \<lparr>br_claimed = 0, br_certified = 0, br_refused = 0, br_failed = 0, br_recovered_after_restart = 0\<rparr>"

definition run_batch :: "'x operations_ext_scheme \<Rightarrow> (string \<Rightarrow> node) \<Rightarrow> Process \<Rightarrow> u64 \<Rightarrow> RunFailurePoint \<Rightarrow> (string \<Rightarrow> RecoveryResult) \<Rightarrow> BatchReceipt op" where
  "run_batch x nodes p now failure executor st =
     (case acquire_runner x p st of
        (Inl e, st) \<Rightarrow> (Inl e, st)
      | (Inr _, st) \<Rightarrow>
          (case batch_loop x nodes now failure executor (oc_max_batch (st_config st)) empty_receipt st of
             (r, st) \<Rightarrow> (r, drop_runner x (runner_id_of x p) st)))"

text \<open>\<open>files\<close> gives the snapshot of a workspace.\<close>

definition run_recovery_batch :: "'x operations_ext_scheme \<Rightarrow> (string \<Rightarrow> node) \<Rightarrow> (string \<Rightarrow> filesystem) \<Rightarrow> Process \<Rightarrow> u64 \<Rightarrow> RunFailurePoint \<Rightarrow> BatchReceipt op" where
  "run_recovery_batch x nodes files p now failure =
     run_batch x nodes p now failure (\<lambda>workspace. run_recovery x (files workspace))"

section \<open>Reporting and pruning\<close>

definition status_of :: "OperationsConfig \<Rightarrow> RecoveryJob list \<Rightarrow> OperationsStatus" where
  "status_of config jobs =
     (let m = metrics jobs; queued = unat (saturating_add (om_pending m) (om_running m));
          codes = (if queued \<ge> oc_max_queued config then [''QUEUE_SATURATED''] else []) @
            (if om_failed m > 0 then [''FAILED_JOBS_PRESENT''] else []) @ (if om_running m > 0 then [''LEASED_JOBS_PRESENT''] else []) in
      \<lparr>os_version = ''operations-status-v1'', os_healthy = (codes = []), os_queue_capacity = oc_max_queued config,
        os_queue_available = oc_max_queued config - queued, os_metrics = m, os_diagnostic_codes = codes\<rparr>)"

definition status :: "'x operations_ext_scheme \<Rightarrow> OperationsStatus op" where
  "status x = locked (lift (\<lambda>st. rbind (read_jobs x st) (\<lambda>jobs. Inr (status_of (st_config st) jobs))))"

definition job_result :: "'x operations_ext_scheme \<Rightarrow> string \<Rightarrow> json op" where
  "job_result x job_id = locked (lift (\<lambda>st.
     rbind (read_job x job_id st) (\<lambda>job.
       if rj_state job \<noteq> JobCertified \<and> rj_state job \<noteq> JobRefused then Inl (invalid_op ''job does not have a terminal recovery result'')
       else
     rbind (ok_or (invalid_op ''terminal job result digest is absent'') (rj_result_sha256 job)) (\<lambda>expected.
     rbind (ok_or (Io ''No such file or directory'') (bt_get (st_results st) (job_path job_id))) (\<lambda>bs.
       if length bs > MAX_RESULT_BYTES then Inl (invalid_op ''operations file is invalid or exceeds its byte bound'')
       else if bytes_digest (x_sha256 x) (x_hex_encode x) bs \<noteq> expected then Inl (invalid_op ''terminal job result digest is invalid'')
       else map_err Json (x_parse_json x bs))))))"

definition support_job :: "RecoveryJob \<Rightarrow> SupportJob" where
  "support_job job = \<lparr>sj_job_id = rj_job_id job, sj_workspace_sha256 = rj_workspace_sha256 job, sj_state = rj_state job,
     sj_attempts = rj_attempts job, sj_refusal_code = rj_refusal_code job, sj_event_digests = map je_event_sha256 (rj_events job)\<rparr>"

definition support_bundle :: "'x operations_ext_scheme \<Rightarrow> u64 \<Rightarrow> SupportBundle op" where
  "support_bundle x generated_unix = locked (lift (\<lambda>st.
     rbind (read_jobs x st) (\<lambda>jobs.
     rbind (op_digest x (x_config_value x) (st_config st)) (\<lambda>config_sha256.
       let bundle = \<lparr>su_version = ''support-bundle-v1'', su_generated_unix = generated_unix, su_config_sha256 = config_sha256,
         su_status = status_of (st_config st) jobs, su_jobs = map support_job jobs, su_bundle_sha256 = []\<rparr> in
     rbind (op_digest x (x_bundle_value x) bundle) (\<lambda>d. Inr (bundle\<lparr>su_bundle_sha256 := d\<rparr>))))))"

definition is_terminal :: "RecoveryJob \<Rightarrow> bool" where
  "is_terminal job \<longleftrightarrow> rj_state job = JobCertified \<or> rj_state job = JobRefused \<or> rj_state job = Failed"

definition prune_job :: "'x operations_ext_scheme \<Rightarrow> PrunedJob list \<Rightarrow> RecoveryJob \<Rightarrow> PrunedJob list op" where
  "prune_job x removed job st =
     (let file = job_path (rj_job_id job);
          delete = (\<lambda>st. st\<lparr>st_jobs := filter (\<lambda>e. fst e \<noteq> file) (st_jobs st)\<rparr>);
          removed' = removed @ [\<lparr>pj_job_id = rj_job_id job, pj_record_sha256 = rj_record_sha256 job, pj_result_sha256 = rj_result_sha256 job\<rparr>] in
      case bt_get (st_results st) file of
        Some bs \<Rightarrow>
          if length bs > MAX_RESULT_BYTES then (Inl (invalid_op ''operations file is invalid or exceeds its byte bound''), st)
          else if rj_result_sha256 job \<noteq> Some (bytes_digest (x_sha256 x) (x_hex_encode x) bs)
          then (Inl (invalid_op ''pruned job result digest is inconsistent''), st)
          else (Inr removed', delete (st\<lparr>st_results := filter (\<lambda>e. fst e \<noteq> file) (st_results st)\<rparr>))
      | None \<Rightarrow>
          if rj_result_sha256 job \<noteq> None then (Inl (invalid_op ''pruned job result is missing''), st)
          else (Inr removed', delete st))"

definition prune_terminal :: "'x operations_ext_scheme \<Rightarrow> u64 \<Rightarrow> nat \<Rightarrow> PruneReceipt op" where
  "prune_terminal x submitted_before_unix max_remove =
     (if \<not> (1 \<le> max_remove \<and> max_remove \<le> 256) then fail (invalid_op ''prune limit must be between one and 256'')
      else locked (
     obind (lift (read_jobs x)) (\<lambda>jobs.
     obind (ofold (prune_job x) [] (take max_remove (sort_key (\<lambda>job. (rj_submitted_unix job, rj_job_id job))
         (filter (\<lambda>job. rj_submitted_unix job < submitted_before_unix \<and> is_terminal job) jobs)))) (\<lambda>removed.
       ret \<lparr>pr_version = ''prune-receipt-v1'', pr_jobs = removed\<rparr>))))"


section \<open>The invariant of the store\<close>

text \<open>The job a file holds, and what is true of every job.\<close>

definition job_at :: "'x operations_ext_scheme \<Rightarrow> OperationsStore \<Rightarrow> string \<Rightarrow> RecoveryJob option" where
  "job_at x st job_id =
     (case bt_get (st_jobs st) (job_path job_id) of None \<Rightarrow> None
      | Some bs \<Rightarrow> (case x_parse_job x bs of Inl _ \<Rightarrow> None | Inr job \<Rightarrow> Some job))"

text \<open>
  The life of a job: one event when it is queued, two for every attempt that ended (claimed, then
  finished, failed or recovered), one for an attempt under way; only a running job holds a lease, only a
  finished one has a result, and the number of attempts stays within the configured bound.
\<close>

fun lifecycle :: "OperationsConfig \<Rightarrow> RecoveryJob \<Rightarrow> bool" where
  "lifecycle c job \<longleftrightarrow>
     (let n = unat (rj_attempts job); lim = unat (oc_max_attempts c) in
      case rj_state job of
        Pending \<Rightarrow> n < lim \<and> length (rj_events job) = 2 * n + 1 \<and> rj_lease_expires_unix job = None \<and> rj_result_sha256 job = None \<and> rj_refusal_code job = None
      | Running \<Rightarrow> 1 \<le> n \<and> n \<le> lim \<and> length (rj_events job) = 2 * n \<and> rj_lease_expires_unix job \<noteq> None \<and> rj_result_sha256 job = None \<and> rj_refusal_code job = None
      | JobCertified \<Rightarrow> 1 \<le> n \<and> n \<le> lim \<and> length (rj_events job) = 2 * n + 1 \<and> rj_lease_expires_unix job = None \<and> rj_result_sha256 job \<noteq> None \<and> rj_refusal_code job = None
      | JobRefused \<Rightarrow> 1 \<le> n \<and> n \<le> lim \<and> length (rj_events job) = 2 * n + 1 \<and> rj_lease_expires_unix job = None \<and> rj_result_sha256 job \<noteq> None \<and> rj_refusal_code job \<noteq> None
      | Failed \<Rightarrow> 1 \<le> n \<and> n \<le> lim \<and> length (rj_events job) = 2 * n + 1 \<and> rj_lease_expires_unix job = None \<and> rj_result_sha256 job = None \<and> rj_refusal_code job = None)"

declare lifecycle.simps [simp del]

definition job_ok :: "'x operations_ext_scheme \<Rightarrow> OperationsConfig \<Rightarrow> RecoveryJob \<Rightarrow> bool" where
  "job_ok x c job \<longleftrightarrow> validate_job x job = Inr () \<and> lifecycle c job"

definition queued_ids :: "'x operations_ext_scheme \<Rightarrow> OperationsStore \<Rightarrow> string set" where
  "queued_ids x st = {job_id. \<exists>job. job_at x st job_id = Some job \<and> is_queued job}"

definition store_ok :: "'x operations_ext_scheme \<Rightarrow> OperationsStore \<Rightarrow> bool" where
  "store_ok x st \<longleftrightarrow> config_validate (st_config st) = Inr () \<and> bt_wf (st_jobs st) \<and>
     (\<forall>name \<in> fst ` set (st_jobs st). \<exists>job_id job. name = job_path job_id \<and> job_at x st job_id = Some job) \<and>
     (\<forall>job_id job. job_at x st job_id = Some job \<longrightarrow> rj_job_id job = job_id \<and> job_ok x (st_config st) job) \<and>
     card (queued_ids x st) \<le> oc_max_queued (st_config st)"

text \<open>What an operation may do to a job: it keeps what was submitted, appends to the audit trail, never
  lowers the number of attempts and leaves a terminal job alone.\<close>

definition advances :: "RecoveryJob \<Rightarrow> RecoveryJob \<Rightarrow> bool" where
  "advances job job' \<longleftrightarrow> rj_job_id job' = rj_job_id job \<and> rj_workspace job' = rj_workspace job \<and>
     rj_workspace_sha256 job' = rj_workspace_sha256 job \<and> rj_submitted_unix job' = rj_submitted_unix job \<and>
     prefix (rj_events job) (rj_events job') \<and> rj_attempts job \<le> rj_attempts job' \<and> (is_terminal job \<longrightarrow> job' = job)"

definition evolves :: "'x operations_ext_scheme \<Rightarrow> OperationsStore \<Rightarrow> OperationsStore \<Rightarrow> bool" where
  "evolves x st st' \<longleftrightarrow> st_config st' = st_config st \<and> queued_ids x st' \<subseteq> queued_ids x st \<and>
     (\<forall>job_id job. job_at x st job_id = Some job \<longrightarrow>
        (\<exists>job'. advances job job' \<and> (job_at x st' job_id = Some job' \<or> is_terminal job')))"

lemma advances_refl [simp]: "advances job job"
  by (simp add: advances_def)

lemma advances_trans: "advances a b \<Longrightarrow> advances b c \<Longrightarrow> advances a c"
  unfolding advances_def by (auto intro: prefix_order.trans order_trans)

lemma advances_terminal: "advances a b \<Longrightarrow> is_terminal a \<Longrightarrow> b = a"
  by (simp add: advances_def)

lemma evolves_refl [simp]: "evolves x st st"
  unfolding evolves_def by (auto intro: advances_refl)

lemma evolves_trans: "evolves x a b \<Longrightarrow> evolves x b c \<Longrightarrow> evolves x a c"
proof -
  assume a: "evolves x a b" and b: "evolves x b c"
  have "\<exists>job'. advances job job' \<and> (job_at x c i = Some job' \<or> is_terminal job')" if "job_at x a i = Some job" for i job
  proof -
    from a that obtain j where j: "advances job j" "job_at x b i = Some j \<or> is_terminal j" unfolding evolves_def by blast
    show ?thesis
    proof (cases "is_terminal j")
      case False
      with j b obtain k where "advances j k" "job_at x c i = Some k \<or> is_terminal k" unfolding evolves_def by blast
      with j(1) advances_trans show ?thesis by blast
    qed (use j in blast)
  qed
  with a b show ?thesis unfolding evolves_def by auto
qed

lemma job_path_inj [simp]: "job_path a = job_path b \<longleftrightarrow> a = b"
  by (simp add: job_path_def)

lemma job_at_insert:
  assumes "bt_wf (st_jobs st)" "x_parse_job x bs = Inr job"
  shows "job_at x (st\<lparr>st_jobs := bt_insert (job_path job_id) bs (st_jobs st)\<rparr>) i = (if i = job_id then Some job else job_at x st i)"
  using assms by (simp add: job_at_def)

lemma job_at_other [simp]: "job_at x (st\<lparr>st_results := r\<rparr>) i = job_at x st i" "job_at x (st\<lparr>st_lease := l\<rparr>) i = job_at x st i"
  "job_at x (st\<lparr>st_locked := b\<rparr>) i = job_at x st i"
  by (simp_all add: job_at_def)

lemma store_ok_other [simp]: "store_ok x (st\<lparr>st_results := r\<rparr>) = store_ok x st" "store_ok x (st\<lparr>st_lease := l\<rparr>) = store_ok x st"
  "store_ok x (st\<lparr>st_locked := b\<rparr>) = store_ok x st"
  by (simp_all add: store_ok_def queued_ids_def)

lemma evolves_other [simp]: "evolves x st (st\<lparr>st_results := r\<rparr>)" "evolves x st (st\<lparr>st_lease := l\<rparr>)" "evolves x st (st\<lparr>st_locked := b\<rparr>)"
  unfolding evolves_def by (auto simp: queued_ids_def intro: advances_refl)

lemma finite_queued [simp]: "finite (queued_ids x st)"
proof -
  have "job_path ` queued_ids x st \<subseteq> fst ` set (st_jobs st)"
    by (force simp: queued_ids_def job_at_def split: option.split_asm dest!: map_of_SomeD)
  then have "finite (job_path ` queued_ids x st)" by (rule finite_subset) simp
  then show ?thesis by (rule finite_imageD) (auto simp: inj_on_def)
qed

text \<open>Replacing a job by one it advances to.\<close>

lemma put_job:
  assumes ok: "store_ok x st" and old: "job_at x st (rj_job_id job) = Some old" and adv: "advances old job"
    and new: "job_ok x (st_config st) job" and bs: "x_parse_job x bs = Inr job"
    and q: "is_queued job \<Longrightarrow> is_queued old"
  shows "store_ok x (st\<lparr>st_jobs := bt_insert (job_path (rj_job_id job)) bs (st_jobs st)\<rparr>)"
    and "evolves x st (st\<lparr>st_jobs := bt_insert (job_path (rj_job_id job)) bs (st_jobs st)\<rparr>)"
    and "job_at x (st\<lparr>st_jobs := bt_insert (job_path (rj_job_id job)) bs (st_jobs st)\<rparr>) i = (if i = rj_job_id job then Some job else job_at x st i)"
proof -
  let ?st = "st\<lparr>st_jobs := bt_insert (job_path (rj_job_id job)) bs (st_jobs st)\<rparr>"
  have wf: "bt_wf (st_jobs st)" using ok by (simp add: store_ok_def)
  show at: "job_at x ?st i = (if i = rj_job_id job then Some job else job_at x st i)" for i
    by (rule job_at_insert [OF wf bs])
  have sub: "queued_ids x ?st \<subseteq> queued_ids x st" using old q by (auto simp: queued_ids_def at split: if_split_asm)
  show "evolves x st ?st" unfolding evolves_def using sub adv old by (auto simp: at intro: advances_refl)
  have "card (queued_ids x ?st) \<le> card (queued_ids x st)" by (rule card_mono [OF _ sub]) simp
  then have "card (queued_ids x ?st) \<le> oc_max_queued (st_config st)" using ok by (simp add: store_ok_def)
  moreover have "\<exists>i j. name = job_path i \<and> job_at x ?st i = Some j" if "name \<in> fst ` set (st_jobs ?st)" for name
  proof (cases "name = job_path (rj_job_id job)")
    case False
    then have "name \<in> fst ` set (st_jobs st)" using that by simp
    then obtain i j where "name = job_path i" "job_at x st i = Some j" using ok unfolding store_ok_def by blast
    with at [of i] show ?thesis by (cases "i = rj_job_id job") auto
  qed (use at [of "rj_job_id job"] in auto)
  ultimately show "store_ok x ?st" using ok new wf unfolding store_ok_def by (auto simp: at)
qed

section \<open>A logic for operations\<close>

definition valid_op :: "'x operations_ext_scheme \<Rightarrow> (OperationsStore \<Rightarrow> bool) \<Rightarrow> 'a op \<Rightarrow> ('a \<Rightarrow> OperationsStore \<Rightarrow> bool) \<Rightarrow> bool" where
  "valid_op x P m Q \<longleftrightarrow> (\<forall>st r st'. store_ok x st \<longrightarrow> P st \<longrightarrow> m st = (r, st') \<longrightarrow>
     store_ok x st' \<and> evolves x st st' \<and> (\<forall>v. r = Inr v \<longrightarrow> Q v st'))"

named_theorems op_rules \<open>rules for valid operations\<close>

lemma valid_ret: "(\<And>st. P st \<Longrightarrow> Q v st) \<Longrightarrow> valid_op x P (ret v) Q"
  by (auto simp: valid_op_def ret_def)

lemma valid_fail [op_rules]: "valid_op x P (fail e) Q"
  by (auto simp: valid_op_def fail_def)

lemma valid_lift: "(\<And>st v. store_ok x st \<Longrightarrow> P st \<Longrightarrow> f st = Inr v \<Longrightarrow> Q v st) \<Longrightarrow> valid_op x P (lift f) Q"
  by (auto simp: valid_op_def lift_def)

lemma valid_bind:
  assumes "valid_op x P m R" "\<And>v. valid_op x (R v) (f v) Q"
  shows "valid_op x P (obind m f) Q"
  unfolding valid_op_def
proof (intro allI impI)
  fix st r st' assume a: "store_ok x st" "P st" "obind m f st = (r, st')"
  obtain r1 s1 where m: "m st = (r1, s1)" by (cases "m st")
  have 1: "store_ok x s1" "evolves x st s1" "\<And>v. r1 = Inr v \<Longrightarrow> R v s1"
    using assms(1) a(1,2) m unfolding valid_op_def by blast+
  show "store_ok x st' \<and> evolves x st st' \<and> (\<forall>v. r = Inr v \<longrightarrow> Q v st')"
  proof (cases r1)
    case (Inl e)
    with a(3) m 1 show ?thesis by (auto simp: obind_def)
  next
    case (Inr v)
    with a(3) m have "f v s1 = (r, st')" by (simp add: obind_def)
    with assms(2) [of v] 1 Inr have "store_ok x st' \<and> evolves x s1 st' \<and> (\<forall>v. r = Inr v \<longrightarrow> Q v st')"
      unfolding valid_op_def by blast
    with 1(2) evolves_trans show ?thesis by blast
  qed
qed

lemma valid_conseq: "valid_op x P m Q \<Longrightarrow> (\<And>st. P' st \<Longrightarrow> P st) \<Longrightarrow> (\<And>v st. Q v st \<Longrightarrow> Q' v st) \<Longrightarrow> valid_op x P' m Q'"
  unfolding valid_op_def by blast

lemma valid_locked: "valid_op x P m Q \<Longrightarrow> valid_op x P (locked m) Q"
  by (auto simp: valid_op_def locked_def split: if_split_asm)

lemma valid_if: "(c \<Longrightarrow> valid_op x P a Q) \<Longrightarrow> (\<not> c \<Longrightarrow> valid_op x P b Q) \<Longrightarrow> valid_op x P (if c then a else b) Q"
  by simp

lemma valid_fold:
  assumes "\<And>s v vs. valid_op x (I s (v # vs)) (f s v) (\<lambda>s'. I s' vs)"
  shows "valid_op x (I s vs) (ofold f s vs) (\<lambda>s'. I s' [])"
proof (induction vs arbitrary: s)
  case Nil
  show ?case by (simp add: valid_ret)
next
  case (Cons v vs)
  show ?case unfolding ofold.simps by (rule valid_bind [OF assms Cons])
qed

section \<open>Records stay valid\<close>

primrec chain_end :: "string option \<Rightarrow> JobEvent list \<Rightarrow> string option" where
  "chain_end p [] = p"
| "chain_end p (e # es) = chain_end (Some (je_event_sha256 e)) es"

lemma chain_end_last: "chain_end p es = (if es = [] then p else Some (je_event_sha256 (last es)))"
  by (induction es arbitrary: p) auto

lemma check_chain_append:
  "check_chain x i p (es @ fs) = rbind (check_chain x i p es) (\<lambda>_. check_chain x (i + length es) (chain_end p es) fs)"
proof (induction es arbitrary: i p)
  case (Cons a es)
  show ?case
    by (cases "op_digest x (x_event_value x) (a\<lparr>je_event_sha256 := []\<rparr>)") (simp_all add: Cons)
qed simp

definition structure_ok :: "'x operations_ext_scheme \<Rightarrow> RecoveryJob \<Rightarrow> bool" where
  "structure_ok x job \<longleftrightarrow> validate_job_id (rj_job_id job) = Inr () \<and> rj_version job = ''recovery-job-v1'' \<and>
     length (rj_events job) \<le> 64 \<and> check_chain x 0 None (rj_events job) = Inr ()"

lemma validate_job_structure: "validate_job x job = Inr () \<Longrightarrow> structure_ok x job"
  by (auto simp: validate_job_def structure_ok_def rbind_Inr_iff split: if_split_asm)

lemma seal_valid:
  "structure_ok x job \<Longrightarrow> rj_events job \<noteq> [] \<Longrightarrow> seal_record x job = Inr job' \<Longrightarrow> validate_job x job' = Inr ()"
  by (auto simp: seal_record_def structure_ok_def validate_job_def rbind_Inr_iff)

lemma append_event_structure:
  assumes "append_event x job now kind = Inr job'" "structure_ok x job"
  shows "structure_ok x job' \<and> (\<exists>e. job' = job\<lparr>rj_events := rj_events job @ [e]\<rparr>)"
proof -
  from assms(1) obtain d where len: "length (rj_events job) < 64"
    and d: "op_digest x (x_event_value x) \<lparr>je_sequence = of_nat (length (rj_events job)), je_at_unix = now, je_kind = kind,
       je_previous_sha256 = (if rj_events job = [] then None else Some (je_event_sha256 (last (rj_events job)))), je_event_sha256 = []\<rparr> = Inr d"
    and job': "job' = job\<lparr>rj_events := rj_events job @ [\<lparr>je_sequence = of_nat (length (rj_events job)), je_at_unix = now, je_kind = kind,
       je_previous_sha256 = (if rj_events job = [] then None else Some (je_event_sha256 (last (rj_events job)))), je_event_sha256 = d\<rparr>]\<rparr>"
    by (auto simp: append_event_def Let_def rbind_Inr_iff split: if_split_asm)
  have u: "unat (of_nat (length (rj_events job)) :: u32) = length (rj_events job)"
    using len by (simp add: unat_of_nat take_bit_nat_eq_self)
  have "check_chain x 0 None (rj_events job') = Inr ()"
    using assms(2) d u unfolding job' by (simp add: check_chain_append chain_end_last structure_ok_def rbind_Inr_iff)
  then show ?thesis using assms(2) len by (auto simp: structure_ok_def job')
qed


section \<open>The audit chain\<close>

definition event_content :: "JobEvent \<Rightarrow> JobEvent" where
  "event_content e = e\<lparr>je_event_sha256 := []\<rparr>"

definition audit_digest :: "'x operations_ext_scheme \<Rightarrow> JobEvent \<Rightarrow> string option" where
  "audit_digest x e = (case op_digest x (x_event_value x) (event_content e) of Inl _ \<Rightarrow> None | Inr d \<Rightarrow> Some d)"

interpretation audit_chain: hash_chain event_content je_previous_sha256 "audit_digest x" for x
proof
  fix e f assume "event_content e = event_content f"
  then have "je_previous_sha256 (event_content e) = je_previous_sha256 (event_content f)" by simp
  then show "je_previous_sha256 e = je_previous_sha256 f" by (simp add: event_content_def)
qed

lemma check_chain_linked:
  "check_chain x i p es = Inr () \<Longrightarrow>
     linked je_previous_sha256 (audit_digest x) p es \<and> (\<forall>e \<in> set es. audit_digest x e = Some (je_event_sha256 e))"
proof (induction es arbitrary: i p)
  case (Cons e es)
  then have d: "op_digest x (x_event_value x) (event_content e) = Inr (je_event_sha256 e)" "je_previous_sha256 e = p"
    "check_chain x (Suc i) (Some (je_event_sha256 e)) es = Inr ()"
    by (auto simp: event_content_def rbind_Inr_iff split: if_split_asm)
  then have "audit_digest x e = Some (je_event_sha256 e)" by (simp add: audit_digest_def)
  with Cons.IH [OF d(3)] d show ?case by simp
qed simp

lemma chains_equal:
  assumes "check_chain x 0 None es = Inr ()" "check_chain x 0 None fs = Inr ()" "map event_content es = map event_content fs"
  shows "es = fs"
proof (rule nth_equalityI)
  show len: "length es = length fs" using map_eq_imp_length_eq [OF assms(3)] .
  fix i assume i: "i < length es"
  have c: "event_content (es ! i) = event_content (fs ! i)"
    using arg_cong [OF assms(3), of "\<lambda>l. l ! i"] i len by simp
  have "Some (je_event_sha256 (es ! i)) = Some (je_event_sha256 (fs ! i))"
    using check_chain_linked [OF assms(1)] check_chain_linked [OF assms(2)] i len c by (metis audit_digest_def nth_mem)
  with c show "es ! i = fs ! i" by (cases "es ! i"; cases "fs ! i") (simp add: event_content_def)
qed

section \<open>Every operation keeps the invariant\<close>

text \<open>The parser reads back what the encoder wrote.\<close>

definition job_codec :: "'x operations_ext_scheme \<Rightarrow> bool" where
  "job_codec x \<longleftrightarrow> (\<forall>job bs. op_encode x (x_job_value x) job = Inr bs \<longrightarrow> x_parse_job x bs = Inr job)"

text \<open>\<open>at c F\<close>: the store has the configuration \<open>c\<close> and holds the jobs \<open>F\<close>.\<close>

definition holds :: "'x operations_ext_scheme \<Rightarrow> OperationsConfig \<Rightarrow> (string \<Rightarrow> RecoveryJob option) \<Rightarrow> OperationsStore \<Rightarrow> bool" where
  "holds x c F st \<longleftrightarrow> st_config st = c \<and> job_at x st = F"

lemma not_terminal: "\<not> is_terminal job \<longleftrightarrow> is_queued job"
  by (cases "rj_state job") (auto simp: is_terminal_def is_queued_def)

lemma lifecycle_sealed [simp]: "lifecycle c (job\<lparr>rj_record_sha256 := d\<rparr>) = lifecycle c job"
  by (cases "rj_state job") (simp_all add: lifecycle.simps Let_def)

lemma structure_sealed [simp]: "structure_ok x (job\<lparr>rj_record_sha256 := d\<rparr>) = structure_ok x job"
  by (simp add: structure_ok_def)

lemma valid_replace:
  assumes codec: "job_codec x" and old: "F (rj_job_id job) = Some old" "is_queued old" "advances old job"
    and new: "structure_ok x job" "rj_events job \<noteq> []" "lifecycle c job"
  shows "valid_op x (holds x c F) (replace_job x job)
    (\<lambda>job' st. holds x c (F(rj_job_id job \<mapsto> job')) st \<and> (\<exists>d. job' = job\<lparr>rj_record_sha256 := d\<rparr>))"
  unfolding valid_op_def
proof (intro allI impI)
  fix st r st' assume a: "store_ok x st" "holds x c F st" "replace_job x job st = (r, st')"
  show "store_ok x st' \<and> evolves x st st' \<and> (\<forall>job'. r = Inr job' \<longrightarrow>
    holds x c (F(rj_job_id job \<mapsto> job')) st' \<and> (\<exists>d. job' = job\<lparr>rj_record_sha256 := d\<rparr>))"
  proof (cases r)
    case (Inl e)
    then have "st' = st" using a(3) by (auto simp: replace_job_def split: sum.split_asm)
    then show ?thesis using a Inl by simp
  next
    case (Inr job')
    then obtain bs where bs: "seal_record x job = Inr job'" "op_encode x (x_job_value x) job' = Inr bs"
      "st' = st\<lparr>st_jobs := bt_insert (job_path (rj_job_id job')) bs (st_jobs st)\<rparr>"
      using a(3) by (auto simp: replace_job_def rbind_Inr_iff split: sum.split_asm if_split_asm)
    then obtain d where d: "job' = job\<lparr>rj_record_sha256 := d\<rparr>" by (auto simp: seal_record_def rbind_Inr_iff Let_def)
    have "job_ok x c job'" using seal_valid [OF new(1,2) bs(1)] new(3) by (simp add: job_ok_def d)
    moreover have "advances old job'" using old(2,3) not_terminal [of old] by (simp add: advances_def d)
    moreover have "job_at x st (rj_job_id job') = Some old" "st_config st = c" using a(2) old(1) by (simp_all add: holds_def d)
    moreover have "x_parse_job x bs = Inr job'" using codec bs(2) by (auto simp: job_codec_def)
    ultimately have p: "store_ok x st'" "evolves x st st'" "job_at x st' i = (if i = rj_job_id job' then Some job' else job_at x st i)" for i
      using put_job [of x st job' old bs] a(1) old(2) unfolding bs(3) by auto
    have "job_at x st' = F(rj_job_id job \<mapsto> job')" using p(3) a(2) by (auto simp: holds_def d fun_eq_iff)
    then show ?thesis using p(1,2) Inr d a(2) bs(3) by (auto simp: holds_def)
  qed
qed

text \<open>The common shape of the transitions: change some fields, append an event, replace the record.\<close>

lemma valid_touch:
  assumes codec: "job_codec x" and old: "F (rj_job_id old) = Some old" "is_queued old" "job_ok x c old"
    and job: "rj_job_id job = rj_job_id old" "rj_version job = rj_version old" "rj_events job = rj_events old"
      "rj_workspace job = rj_workspace old" "rj_workspace_sha256 job = rj_workspace_sha256 old" "rj_submitted_unix job = rj_submitted_unix old"
      "rj_attempts old \<le> rj_attempts job" "\<And>e. lifecycle c (job\<lparr>rj_events := rj_events old @ [e]\<rparr>)"
  shows "valid_op x (holds x c F) (obind (lift (\<lambda>_. append_event x job now kind)) (replace_job x))
    (\<lambda>job' st. holds x c (F(rj_job_id old \<mapsto> job')) st \<and> rj_job_id job' = rj_job_id old \<and> rj_state job' = rj_state job \<and> rj_submitted_unix job' = rj_submitted_unix old)"
proof (rule valid_bind)
  let ?R = "\<lambda>job1 st. holds x c F st \<and> structure_ok x job1 \<and> (\<exists>e. job1 = job\<lparr>rj_events := rj_events old @ [e]\<rparr>)"
  have "structure_ok x old" using validate_job_structure [of x old] old(3) by (simp add: job_ok_def)
  then have "structure_ok x job" using job by (simp add: structure_ok_def)
  then show "valid_op x (holds x c F) (lift (\<lambda>_. append_event x job now kind)) ?R"
    using append_event_structure [of x job now kind] job(3) by (intro valid_lift) auto
  fix job1
  show "valid_op x (?R job1) (replace_job x job1)
    (\<lambda>job' st. holds x c (F(rj_job_id old \<mapsto> job')) st \<and> rj_job_id job' = rj_job_id old \<and> rj_state job' = rj_state job \<and> rj_submitted_unix job' = rj_submitted_unix old)"
  proof (cases "structure_ok x job1 \<and> (\<exists>e. job1 = job\<lparr>rj_events := rj_events old @ [e]\<rparr>)")
    case True
    then obtain e where e: "job1 = job\<lparr>rj_events := rj_events old @ [e]\<rparr>" by blast
    have "advances old job1" using job old(2) not_terminal [of old] by (simp add: advances_def e)
    then have "valid_op x (holds x c F) (replace_job x job1) (\<lambda>job' st. holds x c (F(rj_job_id job1 \<mapsto> job')) st \<and> (\<exists>d. job' = job1\<lparr>rj_record_sha256 := d\<rparr>))"
      using True old job by (intro valid_replace [OF codec]) (auto simp: e)
    then show ?thesis by (rule valid_conseq) (auto simp: e job)
  qed (auto simp: valid_op_def)
qed

lemma attempts_bounded: "store_ok x st \<Longrightarrow> 1 \<le> unat (oc_max_attempts (st_config st)) \<and> unat (oc_max_attempts (st_config st)) \<le> 10"
  by (auto simp: store_ok_def config_validate_def word_le_nat_alt split: if_split_asm)

lemma lease_expired_running: "lease_expired now job \<Longrightarrow> rj_state job = Running"
  by (simp add: lease_expired_def)


definition all_held :: "(string \<Rightarrow> RecoveryJob option) \<Rightarrow> RecoveryJob list \<Rightarrow> bool" where
  "all_held F jobs \<longleftrightarrow> distinct (map rj_job_id jobs) \<and> (\<forall>job \<in> set jobs. F (rj_job_id job) = Some job)"

lemma store_ok_jobs: "store_ok x st \<Longrightarrow> job_at x st i = Some job \<Longrightarrow> rj_job_id job = i \<and> job_ok x (st_config st) job"
  by (simp add: store_ok_def)


lemma valid_assume:
  assumes "\<And>st0. store_ok x st0 \<Longrightarrow> P st0 \<Longrightarrow> valid_op x (\<lambda>st. st = st0) m Q"
  shows "valid_op x P m Q"
  using assms unfolding valid_op_def by blast

lemma valid_recover_expired:
  assumes codec: "job_codec x"
  shows "valid_op x (\<lambda>st. all_held (job_at x st) (snd acc @ job # jobs)) (recover_expired x now acc job)
    (\<lambda>acc' st. all_held (job_at x st) (snd acc' @ jobs))"
proof (rule valid_assume)
  fix st0 assume ok: "store_ok x st0" and held: "all_held (job_at x st0) (snd acc @ job # jobs)"
  let ?c = "st_config st0" and ?F = "job_at x st0"
  have at: "?F (rj_job_id job) = Some job" using held by (simp add: all_held_def)
  have jok: "job_ok x ?c job" using store_ok_jobs [OF ok at] by simp
  have pre: "st = st0 \<Longrightarrow> holds x ?c ?F st" for st by (simp add: holds_def)
  have post: "all_held (job_at x st) (snd acc @ job' # jobs)" if "holds x ?c (?F(rj_job_id job \<mapsto> job')) st" "rj_job_id job' = rj_job_id job" for job' st
    using that held by (auto simp: all_held_def holds_def) (metis image_eqI)+
  have touch: "valid_op x (\<lambda>st. st = st0) (obind (lift (\<lambda>_. append_event x (job\<lparr>rj_state := s, rj_lease_expires_unix := None\<rparr>) now kind))
      (\<lambda>job. obind (replace_job x job) (\<lambda>job. ret (n, snd acc @ [job])))) (\<lambda>acc' st. all_held (job_at x st) (snd acc' @ jobs))"
    if exp: "lease_expired now job" and s: "\<And>e. lifecycle ?c (job\<lparr>rj_state := s, rj_lease_expires_unix := None, rj_events := rj_events job @ [e]\<rparr>)" for s kind and n :: u64
  proof -
    have q: "is_queued job" using exp by (simp add: lease_expired_def is_queued_def)
    have assoc: "obind m (\<lambda>v. obind (f v) g) = obind (obind m f) g" for m :: "RecoveryJob op" and f :: "RecoveryJob \<Rightarrow> RecoveryJob op" and g :: "RecoveryJob \<Rightarrow> (u64 \<times> RecoveryJob list) op"
      by (rule ext) (auto simp: obind_def split: prod.split sum.split)
    let ?t = "lift (\<lambda>_. append_event x (job\<lparr>rj_state := s, rj_lease_expires_unix := None\<rparr>) now kind)"
    have "valid_op x (holds x ?c ?F) (obind ?t (replace_job x))
      (\<lambda>job' st. holds x ?c (?F(rj_job_id job \<mapsto> job')) st \<and> rj_job_id job' = rj_job_id job \<and>
        rj_state job' = rj_state (job\<lparr>rj_state := s, rj_lease_expires_unix := None\<rparr>) \<and> rj_submitted_unix job' = rj_submitted_unix job)"
      using at q jok s by (intro valid_touch [OF codec]) simp_all
    then have "valid_op x (\<lambda>st. st = st0) (obind ?t (replace_job x))
      (\<lambda>job' st. holds x ?c (?F(rj_job_id job \<mapsto> job')) st \<and> rj_job_id job' = rj_job_id job)"
      by (rule valid_conseq) (auto intro: pre)
    then show ?thesis unfolding assoc [of ?t "replace_job x" "\<lambda>job. ret (n, snd acc @ [job])"]
      by (rule valid_bind) (rule valid_ret, simp add: post)
  qed
  have run: "lease_expired now job \<Longrightarrow> 1 \<le> unat (rj_attempts job) \<and> unat (rj_attempts job) \<le> unat (oc_max_attempts ?c) \<and> length (rj_events job) = 2 * unat (rj_attempts job)
      \<and> rj_result_sha256 job = None \<and> rj_refusal_code job = None"
    using jok by (simp add: job_ok_def lifecycle.simps lease_expired_def Let_def)
  consider "\<not> lease_expired now job" | "lease_expired now job" "rj_attempts job \<ge> oc_max_attempts ?c" | "lease_expired now job" "\<not> rj_attempts job \<ge> oc_max_attempts ?c"
    by blast
  then show "valid_op x (\<lambda>st. st = st0) (recover_expired x now acc job) (\<lambda>acc' st. all_held (job_at x st) (snd acc' @ jobs))"
  proof cases
    case 1
    then show ?thesis using held ok by (auto simp: valid_op_def recover_expired_def)
  next
    case 2
    then have "valid_op x (\<lambda>st. st = st0) (obind (lift (\<lambda>_. append_event x (job\<lparr>rj_state := Failed, rj_lease_expires_unix := None\<rparr>) now ''RESTART_ATTEMPTS_EXHAUSTED''))
      (\<lambda>job. obind (replace_job x job) (\<lambda>job. ret (fst acc, snd acc @ [job])))) (\<lambda>acc' st. all_held (job_at x st) (snd acc' @ jobs))"
      using run by (intro touch) (auto simp: lifecycle.simps Let_def)
    then show ?thesis using 2 by (auto simp: valid_op_def recover_expired_def)
  next
    case 3
    then have "valid_op x (\<lambda>st. st = st0) (obind (lift (\<lambda>_. append_event x (job\<lparr>rj_state := Pending, rj_lease_expires_unix := None\<rparr>) now ''JOB_RECOVERED_AFTER_RESTART''))
      (\<lambda>job. obind (replace_job x job) (\<lambda>job. ret (fst acc + 1, snd acc @ [job])))) (\<lambda>acc' st. all_held (job_at x st) (snd acc' @ jobs))"
      using run by (intro touch) (auto simp: lifecycle.simps Let_def word_le_nat_alt)
    then show ?thesis using 3 by (auto simp: valid_op_def recover_expired_def)
  qed
qed

lemma read_jobs_held:
  assumes ok: "store_ok x st" and "read_jobs x st = Inr jobs"
  shows "all_held (job_at x st) jobs" "rj_job_id ` set jobs = {i. job_at x st i \<noteq> None}"
proof -
  have wf: "distinct (map fst (st_jobs st))" using ok by (simp add: store_ok_def bt_wf_distinct)
  from assms(2) have all: "list_all2 (\<lambda>(name, bs) job. read_record x bs = Inr job) (st_jobs st) jobs"
    by (auto simp: read_jobs_def rbind_Inr_iff collect_results_Inr_iff case_prod_unfold)
  have name: "name = job_path (rj_job_id job) \<and> job_at x st (rj_job_id job) = Some job"
    if e: "(name, bs) \<in> set (st_jobs st)" "read_record x bs = Inr job" for name bs job
  proof -
    have "name \<in> fst ` set (st_jobs st)" using e(1) by force
    then obtain i j where i: "name = job_path i" "job_at x st i = Some j" using ok unfolding store_ok_def by blast
    have "bt_get (st_jobs st) name = Some bs" using e(1) wf by (simp add: map_of_eq_Some_iff)
    moreover have "x_parse_job x bs = Inr job" using e(2) by (auto simp: read_record_def rbind_Inr_iff map_err_Inr_iff split: if_split_asm)
    ultimately have "j = job" using i by (simp add: job_at_def)
    then show ?thesis using i store_ok_jobs [OF ok i(2)] by simp
  qed
  have names: "map job_path (map rj_job_id jobs) = map fst (st_jobs st)"
    using all name
  proof (induction rule: list_all2_induct)
    case (Cons e es job jobs)
    obtain n bs where e: "e = (n, bs)" by (cases e)
    have "map job_path (map rj_job_id jobs) = map fst es" by (rule Cons.IH) (use Cons.prems in auto)
    then show ?case using Cons.hyps(1) Cons.prems [of n bs job] by (simp add: e)
  qed simp
  then have "distinct (map job_path (map rj_job_id jobs))" using wf by simp
  then have "distinct (map rj_job_id jobs)" by (rule distinct_map [THEN iffD1, THEN conjunct1])
  moreover have "job_at x st (rj_job_id job) = Some job" if j: "job \<in> set jobs" for job
  proof -
    obtain n where n: "n < length jobs" "job = jobs ! n" using j by (auto simp: in_set_conv_nth)
    then have m: "n < length (st_jobs st)" "read_record x (snd (st_jobs st ! n)) = Inr job"
      using all by (simp_all add: list_all2_conv_all_nth case_prod_unfold)
    then have "(fst (st_jobs st ! n), snd (st_jobs st ! n)) \<in> set (st_jobs st)" by simp
    with m(2) name show ?thesis by blast
  qed
  ultimately show held: "all_held (job_at x st) jobs" by (simp add: all_held_def)
  have "set (map job_path (map rj_job_id jobs)) = set (map fst (st_jobs st))" by (rule arg_cong [OF names])
  then have n: "job_path ` rj_job_id ` set jobs = fst ` set (st_jobs st)" by (simp add: image_image)
  have "i \<in> rj_job_id ` set jobs" if "job_at x st i \<noteq> None" for i
  proof -
    have "job_path i \<in> fst ` set (st_jobs st)" using that by (force simp: job_at_def split: option.split_asm dest!: map_of_SomeD)
    then have "job_path i \<in> job_path ` rj_job_id ` set jobs" using n by simp
    then show ?thesis by auto
  qed
  then show "rj_job_id ` set jobs = {i. job_at x st i \<noteq> None}" using held by (auto simp: all_held_def)
qed

lemma find_SomeD: "find P xs = Some v \<Longrightarrow> v \<in> set xs \<and> P v"
  by (induction xs) (auto split: if_split_asm)

lemma valid_at: "m st0 = m' st0 \<Longrightarrow> valid_op x (\<lambda>st. st = st0) m' Q \<Longrightarrow> valid_op x (\<lambda>st. st = st0) m Q"
  by (simp add: valid_op_def)

lemma valid_claim_job:
  assumes codec: "job_codec x" and p: "rj_state job = Pending"
  shows "valid_op x (\<lambda>st. job_at x st (rj_job_id job) = Some job) (claim_job x now job)
    (\<lambda>job' st. job_at x st (rj_job_id job') = Some job' \<and> rj_state job' = Running)"
proof (rule valid_assume)
  fix st0 assume ok: "store_ok x st0" and at: "job_at x st0 (rj_job_id job) = Some job"
  let ?c = "st_config st0" and ?F = "job_at x st0"
  let ?new = "job\<lparr>rj_state := Running, rj_attempts := rj_attempts job + 1, rj_lease_expires_unix := Some (saturating_add now (oc_lease_seconds ?c))\<rparr>"
  have jok: "job_ok x ?c job" using store_ok_jobs [OF ok at] by simp
  then have life: "unat (rj_attempts job) < unat (oc_max_attempts ?c)" "length (rj_events job) = 2 * unat (rj_attempts job) + 1"
    "rj_result_sha256 job = None" "rj_refusal_code job = None" using p by (simp_all add: job_ok_def lifecycle.simps Let_def)
  have u: "unat (rj_attempts job + 1) = unat (rj_attempts job) + 1"
    using life(1) attempts_bounded [OF ok] by (simp add: unat_word_ariths)
  have "valid_op x (holds x ?c ?F) (obind (lift (\<lambda>_. append_event x ?new now ''JOB_CLAIMED'')) (replace_job x))
    (\<lambda>job' st. holds x ?c (?F(rj_job_id job \<mapsto> job')) st \<and> rj_job_id job' = rj_job_id job \<and> rj_state job' = rj_state ?new \<and> rj_submitted_unix job' = rj_submitted_unix job)"
    using at jok p life u by (intro valid_touch [OF codec]) (simp_all add: is_queued_def lifecycle.simps Let_def word_le_nat_alt)
  then have "valid_op x (\<lambda>st. st = st0) (obind (lift (\<lambda>_. append_event x ?new now ''JOB_CLAIMED'')) (replace_job x))
    (\<lambda>job' st. job_at x st (rj_job_id job') = Some job' \<and> rj_state job' = Running)"
    by (rule valid_conseq) (simp_all add: holds_def)
  then show "valid_op x (\<lambda>st. st = st0) (claim_job x now job) (\<lambda>job' st. job_at x st (rj_job_id job') = Some job' \<and> rj_state job' = Running)"
    by (rule valid_at [rotated]) (simp add: claim_job_def obind_def lift_def)
qed

lemma valid_claim_next:
  assumes codec: "job_codec x"
  shows "valid_op x (\<lambda>_. True) (claim_next x now)
    (\<lambda>r st. case r of None \<Rightarrow> True | Some (job, _) \<Rightarrow> job_at x st (rj_job_id job) = Some job \<and> rj_state job = Running)"
  unfolding claim_next_def
proof (intro valid_locked valid_bind)
  show "valid_op x (\<lambda>_. True) (lift (read_jobs x)) (\<lambda>jobs st. all_held (job_at x st) jobs)"
    by (rule valid_lift) (simp add: read_jobs_held(1))
  fix jobs
  show "valid_op x (\<lambda>st. all_held (job_at x st) jobs) (ofold (recover_expired x now) (0, []) jobs) (\<lambda>acc st. all_held (job_at x st) (snd acc))"
    using valid_fold [where x = x and I = "\<lambda>acc jobs st. all_held (job_at x st) (snd acc @ jobs)" and f = "recover_expired x now" and s = "(0, [])" and vs = jobs,
      OF valid_recover_expired [OF codec]] by simp
  fix acc :: "u64 \<times> RecoveryJob list"
  obtain n js where acc: "acc = (n, js)" by (cases acc)
  let ?f = "find (\<lambda>job. rj_state job = Pending) (sort_key (\<lambda>job. (rj_submitted_unix job, rj_job_id job)) js)"
  show "valid_op x (\<lambda>st. all_held (job_at x st) (snd acc)) (case acc of (recovered, jobs) \<Rightarrow>
      case find (\<lambda>job. rj_state job = Pending) (sort_key (\<lambda>job. (rj_submitted_unix job, rj_job_id job)) jobs) of None \<Rightarrow> ret None
      | Some job \<Rightarrow> obind (claim_job x now job) (\<lambda>job. ret (Some (job, recovered))))
     (\<lambda>r st. case r of None \<Rightarrow> True | Some (job, _) \<Rightarrow> job_at x st (rj_job_id job) = Some job \<and> rj_state job = Running)"
  proof (cases ?f)
    case None
    then show ?thesis by (simp add: acc valid_ret)
  next
    case (Some job)
    from find_SomeD [OF Some] have job: "job \<in> set js" "rj_state job = Pending" by simp_all
    show ?thesis unfolding acc prod.case Some option.case
    proof (rule valid_bind)
      show "valid_op x (\<lambda>st. all_held (job_at x st) (snd (n, js))) (claim_job x now job) (\<lambda>job' st. job_at x st (rj_job_id job') = Some job' \<and> rj_state job' = Running)"
        using job(1) by (intro valid_conseq [OF valid_claim_job [OF codec job(2)]]) (auto simp: all_held_def)
    qed (rule valid_ret, simp)
  qed
qed


definition running :: "'x operations_ext_scheme \<Rightarrow> string \<Rightarrow> OperationsStore \<Rightarrow> bool" where
  "running x job_id st \<longleftrightarrow> (\<exists>job. job_at x st job_id = Some job \<and> rj_state job = Running)"

lemma read_job_at:
  assumes "read_job x job_id st = Inr job"
  shows "job_at x st job_id = Some job"
  using assms by (auto simp: read_job_def read_record_def job_at_def rbind_Inr_iff ok_or_Inr_iff map_err_Inr_iff split: if_split_asm)

text \<open>A running job ends: the completion of a job as an update of its record.\<close>

lemma valid_complete:
  assumes codec: "job_codec x"
    and state: "\<And>e. lifecycle c job \<Longrightarrow> rj_state job = Running \<Longrightarrow> lifecycle c ((g job)\<lparr>rj_events := rj_events job @ [e]\<rparr>)"
    and g: "rj_job_id (g job) = rj_job_id job" "rj_version (g job) = rj_version job" "rj_events (g job) = rj_events job"
      "rj_workspace (g job) = rj_workspace job" "rj_workspace_sha256 (g job) = rj_workspace_sha256 job"
      "rj_submitted_unix (g job) = rj_submitted_unix job" "rj_attempts (g job) = rj_attempts job"
    and run: "rj_state job = Running"
  shows "valid_op x (\<lambda>st. st_config st = c \<and> job_at x st (rj_job_id job) = Some job)
    (obind (lift (\<lambda>_. append_event x (g job) now kind)) (\<lambda>job. obind (replace_job x job) (\<lambda>_. ret ()))) (\<lambda>_ _. True)"
proof (rule valid_assume)
  fix st0 assume ok: "store_ok x st0" and p: "st_config st0 = c \<and> job_at x st0 (rj_job_id job) = Some job"
  let ?t = "lift (\<lambda>_. append_event x (g job) now kind)" and ?F = "job_at x st0"
  have jok: "job_ok x c job" using store_ok_jobs [OF ok] p by blast
  have assoc: "obind ?t (\<lambda>job. obind (replace_job x job) (\<lambda>_. ret ())) = obind (obind ?t (replace_job x)) (\<lambda>_. ret ())"
    by (rule ext) (auto simp: obind_def split: prod.split sum.split)
  have "valid_op x (holds x c ?F) (obind ?t (replace_job x))
    (\<lambda>job' st. holds x c (?F(rj_job_id job \<mapsto> job')) st \<and> rj_job_id job' = rj_job_id job \<and> rj_state job' = rj_state (g job) \<and> rj_submitted_unix job' = rj_submitted_unix job)"
    using jok p run g state by (intro valid_touch [OF codec]) (simp_all add: is_queued_def job_ok_def)
  then have "valid_op x (\<lambda>st. st = st0) (obind ?t (replace_job x)) (\<lambda>_ _. True)"
    by (rule valid_conseq) (use p in \<open>auto simp: holds_def\<close>)
  then show "valid_op x (\<lambda>st. st = st0) (obind ?t (\<lambda>job. obind (replace_job x job) (\<lambda>_. ret ()))) (\<lambda>_ _. True)"
    unfolding assoc by (rule valid_bind) (rule valid_ret, simp)
qed

lemma valid_config:
  assumes "\<And>c. valid_op x (\<lambda>st. st_config st = c \<and> P st) m Q"
  shows "valid_op x P m Q"
  using assms unfolding valid_op_def by blast

lemma valid_finish:
  assumes codec: "job_codec x" and code: "code = None \<longleftrightarrow> state = JobCertified"
  shows "valid_op x (\<lambda>_. True) (finish x job_id now state d code) (\<lambda>_ _. True)"
  unfolding finish_def
proof (intro valid_locked valid_bind)
  show "valid_op x (\<lambda>_. True) (lift (read_job x job_id)) (\<lambda>job st. job_at x st (rj_job_id job) = Some job)"
    by (rule valid_lift) (use read_job_at store_ok_jobs in blast)
  fix job
  let ?g = "\<lambda>job. job\<lparr>rj_state := state, rj_lease_expires_unix := None, rj_result_sha256 := Some d, rj_refusal_code := code\<rparr>"
  have c: "valid_op x (\<lambda>st. st_config st = c \<and> job_at x st (rj_job_id job) = Some job)
      (obind (lift (\<lambda>_. append_event x (?g job) now k)) (\<lambda>job. obind (replace_job x job) (\<lambda>_. ret ()))) (\<lambda>_ _. True)"
    if "rj_state job = Running" "state = JobCertified \<or> state = JobRefused" for c k
    using that code by (intro valid_complete [OF codec, of _ job ?g]) (auto simp: lifecycle.simps Let_def)
  show "valid_op x (\<lambda>st. job_at x st (rj_job_id job) = Some job)
     (if rj_state job \<noteq> Running then fail (invalid_op ''job completion lost its running lease'')
      else if state \<noteq> JobCertified \<and> state \<noteq> JobRefused then fail (invalid_op ''job completion state is invalid'')
           else obind (lift (\<lambda>_. append_event x (?g job) now (if state = JobCertified then ''JOB_CERTIFIED'' else ''JOB_REFUSED'')))
             (\<lambda>job. obind (replace_job x job) (\<lambda>_. ret ()))) (\<lambda>_ _. True)"
    by (intro valid_if op_rules valid_config [OF c]) auto
qed

lemma valid_finish_failed:
  assumes codec: "job_codec x"
  shows "valid_op x (running x job_id) (finish_failed x job_id now event) (\<lambda>_ _. True)"
  unfolding finish_failed_def
proof (rule valid_locked, rule valid_bind)
  show "valid_op x (running x job_id) (lift (read_job x job_id)) (\<lambda>job st. job_at x st (rj_job_id job) = Some job \<and> rj_state job = Running)"
  proof (rule valid_lift)
    fix st job assume a: "store_ok x st" "running x job_id st" "read_job x job_id st = Inr job"
    from read_job_at [OF a(3)] a(2) store_ok_jobs [OF a(1)] show "job_at x st (rj_job_id job) = Some job \<and> rj_state job = Running"
      by (auto simp: running_def)
  qed
  fix job
  let ?g = "\<lambda>job. job\<lparr>rj_state := Failed, rj_lease_expires_unix := None\<rparr>"
  have c: "valid_op x (\<lambda>st. st_config st = c \<and> job_at x st (rj_job_id job) = Some job)
      (obind (lift (\<lambda>_. append_event x (?g job) now event)) (\<lambda>job. obind (replace_job x job) (\<lambda>_. ret ()))) (\<lambda>_ _. True)"
    if "rj_state job = Running" for c
    using that by (intro valid_complete [OF codec, of _ job ?g]) (auto simp: lifecycle.simps Let_def)
  show "valid_op x (\<lambda>st. job_at x st (rj_job_id job) = Some job \<and> rj_state job = Running)
     (obind (lift (\<lambda>_. append_event x (?g job) now event)) (\<lambda>job. obind (replace_job x job) (\<lambda>_. ret ()))) (\<lambda>_ _. True)"
  proof (cases "rj_state job = Running")
    case True
    then show ?thesis by (intro valid_conseq [OF valid_config [OF c]]) auto
  qed (simp add: valid_op_def)
qed

lemma valid_write_result:
  "valid_op x (running x i) (write_result job_id bs) (\<lambda>_. running x i)"
  by (auto simp: valid_op_def write_result_def running_def split: option.split_asm if_split_asm)

lemma valid_weaken: "valid_op x (\<lambda>_. True) m Q \<Longrightarrow> valid_op x P m Q"
  by (auto simp: valid_op_def)

lemma valid_complete_job:
  assumes codec: "job_codec x"
  shows "valid_op x (running x (rj_job_id job)) (complete_job x now job result receipt) (\<lambda>_ _. True)"
  unfolding complete_job_def
proof (intro valid_bind valid_if)
  show "valid_op x (running x (rj_job_id job)) (lift (\<lambda>_. op_encode x (x_result_value x) result)) (\<lambda>_. running x (rj_job_id job))"
    by (rule valid_lift)
  show "valid_op x (running x (rj_job_id job)) (finish_failed x (rj_job_id job) now e) (\<lambda>_ _. True)" for e
    by (rule valid_finish_failed [OF codec])
  show "valid_op x (running x (rj_job_id job)) (write_result (rj_job_id job) bs) (\<lambda>_. running x (rj_job_id job))" for bs
    by (rule valid_write_result)
  show "valid_op x (running x (rj_job_id job)) (case result of
        Certified _ _ _ \<Rightarrow> obind (finish x (rj_job_id job) now JobCertified (bytes_digest (x_sha256 x) (x_hex_encode x) bs) None) (\<lambda>_.
             ret (receipt\<lparr>br_certified := br_certified receipt + 1\<rparr>))
      | Refused code _ \<Rightarrow> obind (finish x (rj_job_id job) now JobRefused (bytes_digest (x_sha256 x) (x_hex_encode x) bs) (Some code)) (\<lambda>_.
             ret (receipt\<lparr>br_refused := br_refused receipt + 1\<rparr>))) (\<lambda>_ _. True)" for bs
    by (cases result) (auto intro!: valid_bind [OF valid_weaken [OF valid_finish [OF codec]]] valid_ret)
qed (auto intro: valid_ret)

lemma valid_batch_loop:
  assumes codec: "job_codec x"
  shows "valid_op x (\<lambda>_. True) (batch_loop x nodes now failure executor n receipt) (\<lambda>_ _. True)"
proof (induction n arbitrary: receipt)
  case 0
  show ?case by (simp add: valid_ret)
next
  case (Suc n)
  show ?case unfolding batch_loop.simps
  proof (rule valid_bind [OF valid_claim_next [OF codec]])
    fix claimed
    show "valid_op x (\<lambda>st. case claimed of None \<Rightarrow> True | Some (job, _) \<Rightarrow> job_at x st (rj_job_id job) = Some job \<and> rj_state job = Running)
      (case claimed of None \<Rightarrow> ret receipt
       | Some (job, recovered) \<Rightarrow>
           let receipt = receipt\<lparr>br_claimed := br_claimed receipt + 1, br_recovered_after_restart := br_recovered_after_restart receipt + recovered\<rparr> in
           if failure = AfterClaim then fail (invalid_op ''injected interruption after durable job claim'')
           else
         obind (lift (\<lambda>_. digest_workspace_reference x nodes (rj_workspace job))) (\<lambda>d.
         obind (if d \<noteq> rj_workspace_sha256 job
           then obind (finish_failed x (rj_job_id job) now ''WORKSPACE_CHANGED_AFTER_ADMISSION'') (\<lambda>_.
             ret (receipt\<lparr>br_failed := br_failed receipt + 1\<rparr>))
           else complete_job x now job (executor (rj_workspace job)) receipt) (\<lambda>receipt.
         batch_loop x nodes now failure executor n receipt))) (\<lambda>_ _. True)"
    proof (cases claimed)
      case None
      then show ?thesis by (simp add: valid_ret)
    next
      case (Some p)
      obtain job r where p: "p = (job, r)" by (cases p)
      have "valid_op x (running x (rj_job_id job)) (if failure = AfterClaim then fail (invalid_op ''injected interruption after durable job claim'')
           else
         obind (lift (\<lambda>_. digest_workspace_reference x nodes (rj_workspace job))) (\<lambda>d.
         obind (if d \<noteq> rj_workspace_sha256 job
           then obind (finish_failed x (rj_job_id job) now ''WORKSPACE_CHANGED_AFTER_ADMISSION'') (\<lambda>_.
             ret (receipt\<lparr>br_failed := br_failed receipt + 1\<rparr>))
           else complete_job x now job (executor (rj_workspace job)) receipt) (\<lambda>receipt.
         batch_loop x nodes now failure executor n receipt))) (\<lambda>_ _. True)" for receipt
        by (intro valid_if op_rules valid_bind [where R = "\<lambda>_. running x (rj_job_id job)"] valid_bind [where R = "\<lambda>_ _. True", OF _ Suc]
            valid_bind [where R = "\<lambda>_ _. True", OF valid_finish_failed [OF codec]] valid_complete_job [OF codec] valid_lift valid_ret) simp_all
      then show ?thesis unfolding Some p option.case prod.case Let_def
        by (rule valid_conseq) (auto simp: running_def)
    qed
  qed
qed


lemma valid_acquire: "valid_op x (\<lambda>_. True) (acquire_runner x p) (\<lambda>_ _. True)"
  by (auto simp: valid_op_def acquire_runner_def locked_def split: sum.split_asm option.split_asm if_split_asm)

lemma valid_renew: "valid_op x (\<lambda>_. True) (renew_runner_lease x r t) (\<lambda>_ _. True)"
  by (auto simp: valid_op_def renew_runner_lease_def locked_def split: sum.split_asm if_split_asm)

lemma drop_runner_cases: "drop_runner x r st = st \<or> drop_runner x r st = st\<lparr>st_lease := None\<rparr>"
  by (auto simp: drop_runner_def split: option.split sum.split)

lemma valid_run_batch:
  assumes "job_codec x"
  shows "valid_op x (\<lambda>_. True) (run_batch x nodes p now failure executor) (\<lambda>_ _. True)"
  unfolding valid_op_def
proof (intro allI impI)
  fix st r st' assume a: "store_ok x st" "True" "run_batch x nodes p now failure executor st = (r, st')"
  obtain r1 s1 where 1: "acquire_runner x p st = (r1, s1)" by (cases "acquire_runner x p st")
  have ok1: "store_ok x s1" "evolves x st s1" using valid_acquire a(1) 1 unfolding valid_op_def by blast+
  show "store_ok x st' \<and> evolves x st st' \<and> (\<forall>v. r = Inr v \<longrightarrow> True)"
  proof (cases r1)
    case (Inl e)
    then show ?thesis using a(3) 1 ok1 by (simp add: run_batch_def)
  next
    case (Inr u)
    obtain r2 s2 where 2: "batch_loop x nodes now failure executor (oc_max_batch (st_config s1)) empty_receipt s1 = (r2, s2)"
      by (cases "batch_loop x nodes now failure executor (oc_max_batch (st_config s1)) empty_receipt s1")
    have ok2: "store_ok x s2" "evolves x s1 s2" using valid_batch_loop [OF assms] ok1(1) 2 unfolding valid_op_def by blast+
    have "st' = drop_runner x (runner_id_of x p) s2" using a(3) 1 2 Inr by (simp add: run_batch_def)
    then have "st' = s2 \<or> st' = s2\<lparr>st_lease := None\<rparr>" using drop_runner_cases by metis
    moreover have "evolves x st s2" using ok1(2) ok2(2) by (rule evolves_trans)
    moreover have "evolves x st (s2\<lparr>st_lease := None\<rparr>)" using evolves_trans [OF calculation(2) evolves_other(2)] .
    ultimately show ?thesis using ok2(1) by auto
  qed
qed

lemma map_of_filter_key: "map_of (filter (\<lambda>e. fst e \<noteq> k) m) i = (if i = k then None else map_of m i)"
  by (induction m) auto

lemma bt_wf_filter: "bt_wf m \<Longrightarrow> bt_wf (filter P m)"
  by (induction m) (auto simp: bt_wf_Cons)

lemma job_at_delete:
  "job_at x (st\<lparr>st_jobs := filter (\<lambda>e. fst e \<noteq> job_path k) (st_jobs st)\<rparr>) i = (if i = k then None else job_at x st i)"
  by (simp add: job_at_def map_of_filter_key)

lemma delete_job:
  assumes ok: "store_ok x st" and at: "job_at x st k = Some job" and t: "is_terminal job"
  shows "store_ok x (st\<lparr>st_jobs := filter (\<lambda>e. fst e \<noteq> job_path k) (st_jobs st)\<rparr>)"
    and "evolves x st (st\<lparr>st_jobs := filter (\<lambda>e. fst e \<noteq> job_path k) (st_jobs st)\<rparr>)"
proof -
  let ?st = "st\<lparr>st_jobs := filter (\<lambda>e. fst e \<noteq> job_path k) (st_jobs st)\<rparr>"
  have sub: "queued_ids x ?st \<subseteq> queued_ids x st" by (auto simp: queued_ids_def job_at_delete split: if_split_asm)
  show "evolves x st ?st" unfolding evolves_def using sub at t by (auto simp: job_at_delete intro: advances_refl)
  have "card (queued_ids x ?st) \<le> card (queued_ids x st)" by (rule card_mono [OF _ sub]) simp
  then have "card (queued_ids x ?st) \<le> oc_max_queued (st_config st)" using ok by (simp add: store_ok_def)
  moreover have "\<exists>i j. name = job_path i \<and> job_at x ?st i = Some j" if "name \<in> fst ` set (st_jobs ?st)" for name
  proof -
    have n: "name \<in> fst ` set (st_jobs st)" "name \<noteq> job_path k" using that by auto
    then obtain i j where "name = job_path i" "job_at x st i = Some j" using ok unfolding store_ok_def by blast
    with n(2) show ?thesis by (auto simp: job_at_delete)
  qed
  ultimately show "store_ok x ?st" using ok unfolding store_ok_def by (auto simp: job_at_delete bt_wf_filter split: if_split_asm)
qed

lemma valid_prune_job:
  "valid_op x (\<lambda>st. all_held (job_at x st) (job # jobs) \<and> (\<forall>j \<in> set (job # jobs). is_terminal j)) (prune_job x removed job)
    (\<lambda>_ st. all_held (job_at x st) jobs \<and> (\<forall>j \<in> set jobs. is_terminal j))"
  unfolding valid_op_def
proof (intro allI impI)
  fix st r st' assume a: "store_ok x st" "all_held (job_at x st) (job # jobs) \<and> (\<forall>j \<in> set (job # jobs). is_terminal j)" "prune_job x removed job st = (r, st')"
  let ?k = "rj_job_id job"
  have at: "job_at x st ?k = Some job" "is_terminal job" using a(2) by (auto simp: all_held_def)
  have "distinct (rj_job_id job # map rj_job_id jobs)" "\<forall>j \<in> set jobs. job_at x st (rj_job_id j) = Some j"
    using a(2) by (simp_all add: all_held_def)
  then have nk: "distinct (map rj_job_id jobs) \<and> (\<forall>j \<in> set jobs. rj_job_id j \<noteq> ?k \<and> job_at x st (rj_job_id j) = Some j)"
    by (auto simp: image_iff)
  have del: "store_ok x (s\<lparr>st_jobs := filter (\<lambda>e. fst e \<noteq> job_path ?k) (st_jobs s)\<rparr>) \<and> evolves x st (s\<lparr>st_jobs := filter (\<lambda>e. fst e \<noteq> job_path ?k) (st_jobs s)\<rparr>)
      \<and> all_held (job_at x (s\<lparr>st_jobs := filter (\<lambda>e. fst e \<noteq> job_path ?k) (st_jobs s)\<rparr>)) jobs" if "s = st \<or> (\<exists>r. s = st\<lparr>st_results := r\<rparr>)" for s
  proof -
    have s: "store_ok x s" "job_at x s = job_at x st" "evolves x st s" using that a(1) by (auto simp: fun_eq_iff)
    have "all_held (job_at x (s\<lparr>st_jobs := filter (\<lambda>e. fst e \<noteq> job_path ?k) (st_jobs s)\<rparr>)) jobs"
      using nk unfolding all_held_def job_at_delete s(2) by simp
    then show ?thesis using delete_job [of x s ?k job] s at evolves_trans [OF s(3), of "s\<lparr>st_jobs := filter (\<lambda>e. fst e \<noteq> job_path ?k) (st_jobs s)\<rparr>"] by simp
  qed
  have "(st' = st \<and> (\<exists>e. r = Inl e)) \<or> st' = st\<lparr>st_jobs := filter (\<lambda>e. fst e \<noteq> job_path ?k) (st_jobs st)\<rparr> \<or>
      st' = (st\<lparr>st_results := filter (\<lambda>e. fst e \<noteq> job_path ?k) (st_results st)\<rparr>)\<lparr>st_jobs := filter (\<lambda>e. fst e \<noteq> job_path ?k)
        (st_jobs (st\<lparr>st_results := filter (\<lambda>e. fst e \<noteq> job_path ?k) (st_results st)\<rparr>))\<rparr>"
    using a(3) by (cases "bt_get (st_results st) (job_path ?k)") (auto simp: prune_job_def Let_def split: if_split_asm)
  then consider "st' = st" "\<exists>e. r = Inl e" | s where "s = st \<or> (\<exists>r. s = st\<lparr>st_results := r\<rparr>)" "st' = s\<lparr>st_jobs := filter (\<lambda>e. fst e \<noteq> job_path ?k) (st_jobs s)\<rparr>"
    by blast
  then show "store_ok x st' \<and> evolves x st st' \<and> (\<forall>v. r = Inr v \<longrightarrow> all_held (job_at x st') jobs \<and> (\<forall>j \<in> set jobs. is_terminal j))"
  proof cases
    case 1
    then show ?thesis using a(1) by auto
  next
    case 2
    with del [OF 2(1)] a(2) show ?thesis by auto
  qed
qed

lemma all_held_sub: "all_held F jobs \<Longrightarrow> distinct ks \<Longrightarrow> set ks \<subseteq> set jobs \<Longrightarrow> all_held F ks"
  by (auto simp: all_held_def distinct_map inj_on_def)

lemma valid_prune: "valid_op x (\<lambda>_. True) (prune_terminal x before n) (\<lambda>_ _. True)"
  unfolding prune_terminal_def
proof (intro valid_if op_rules, rule valid_locked, rule valid_bind)
  show "valid_op x (\<lambda>_. True) (lift (read_jobs x)) (\<lambda>jobs st. all_held (job_at x st) jobs)"
    by (rule valid_lift) (simp add: read_jobs_held(1))
  fix jobs
  let ?ks = "take n (sort_key (\<lambda>job. (rj_submitted_unix job, rj_job_id job)) (filter (\<lambda>job. rj_submitted_unix job < before \<and> is_terminal job) jobs))"
  have sub: "set ?ks \<subseteq> {job \<in> set jobs. is_terminal job}" using set_take_subset by fastforce
  have "valid_op x (\<lambda>st. all_held (job_at x st) ?ks \<and> (\<forall>j \<in> set ?ks. is_terminal j)) (ofold (prune_job x) [] ?ks)
      (\<lambda>_ st. all_held (job_at x st) [] \<and> (\<forall>j \<in> set []. is_terminal j))"
    by (rule valid_fold [where I = "\<lambda>_ jobs st. all_held (job_at x st) jobs \<and> (\<forall>j \<in> set jobs. is_terminal j)"]) (rule valid_prune_job)
  then have "valid_op x (\<lambda>st. all_held (job_at x st) jobs) (ofold (prune_job x) [] ?ks) (\<lambda>_ _. True)"
  proof (rule valid_conseq)
    fix st assume h: "all_held (job_at x st) jobs"
    then have "distinct jobs" by (auto simp: all_held_def distinct_map)
    then have "distinct ?ks" by (simp add: distinct_take)
    then show "all_held (job_at x st) ?ks \<and> (\<forall>j \<in> set ?ks. is_terminal j)" using all_held_sub [OF h] sub by blast
  qed simp
  then show "valid_op x (\<lambda>st. all_held (job_at x st) jobs) (obind (ofold (prune_job x) [] ?ks) (\<lambda>removed. ret \<lparr>pr_version = ''prune-receipt-v1'', pr_jobs = removed\<rparr>)) (\<lambda>_ _. True)"
    by (rule valid_bind) (rule valid_ret, simp)
qed

section \<open>Admission\<close>

definition digest_law :: "'x operations_ext_scheme \<Rightarrow> bool" where
  "digest_law x \<longleftrightarrow> (\<forall>bs. length (x_hex_encode x (x_sha256 x bs)) = 64 \<and> list_all is_ascii_hexdigit (x_hex_encode x (x_sha256 x bs)))"

lemma queued_card:
  assumes ok: "store_ok x st" and r: "read_jobs x st = Inr jobs"
  shows "card (queued_ids x st) = length (filter is_queued jobs)"
proof -
  have h: "all_held (job_at x st) jobs" by (rule read_jobs_held(1) [OF ok r])
  have "queued_ids x st = rj_job_id ` set (filter is_queued jobs)"
  proof
    show "queued_ids x st \<subseteq> rj_job_id ` set (filter is_queued jobs)"
    proof
      fix i assume "i \<in> queued_ids x st"
      then obtain job where job: "job_at x st i = Some job" "is_queued job" by (auto simp: queued_ids_def)
      then have "i \<in> rj_job_id ` set jobs" using read_jobs_held(2) [OF ok r] by auto
      then obtain j where "j \<in> set jobs" "rj_job_id j = i" by auto
      then show "i \<in> rj_job_id ` set (filter is_queued jobs)" using h job by (auto simp: all_held_def)
    qed
    show "rj_job_id ` set (filter is_queued jobs) \<subseteq> queued_ids x st" using h by (auto simp: all_held_def queued_ids_def)
  qed
  moreover have "distinct (map rj_job_id (filter is_queued jobs))" using h by (simp add: all_held_def distinct_map_filter)
  then have "card (set (map rj_job_id (filter is_queued jobs))) = length (filter is_queued jobs)" by (simp only: distinct_card length_map)
  ultimately show ?thesis by simp
qed

definition history :: "'x operations_ext_scheme \<Rightarrow> OperationsStore \<Rightarrow> OperationsStore \<Rightarrow> bool" where
  "history x st st' \<longleftrightarrow> st_config st' = st_config st \<and>
     (\<forall>job_id job. job_at x st job_id = Some job \<longrightarrow> (\<exists>job'. advances job job' \<and> (job_at x st' job_id = Some job' \<or> is_terminal job')))"

lemma evolves_history: "evolves x st st' \<Longrightarrow> history x st st'"
  by (simp add: evolves_def history_def)

lemma admit_job:
  assumes codec: "job_codec x" and law: "digest_law x" and ok: "store_ok x st" and a: "admit x ws d t st = Inr (job_id, bs)"
  shows "\<exists>job. x_parse_job x bs = Inr job \<and> rj_job_id job = job_id \<and> job_ok x (st_config st) job \<and> bt_get (st_jobs st) (job_path job_id) = None \<and>
    card (queued_ids x st) < oc_max_queued (st_config st)"
proof -
  from a obtain jobs m job1 job where b: "read_jobs x st = Inr jobs" "length (filter is_queued jobs) < oc_max_queued (st_config st)"
    "job_id = ''job-'' @ take 24 (bytes_digest (x_sha256 x) (x_hex_encode x) m)" "bt_get (st_jobs st) (job_path job_id) = None"
    "append_event x (new_job job_id ws d t) t ''JOB_ENQUEUED'' = Inr job1" "seal_record x job1 = Inr job" "op_encode x (x_job_value x) job = Inr bs"
    by (auto simp: admit_def rbind_Inr_iff Let_def split: if_split_asm)
  have "validate_job_id job_id = Inr ()"
    using law by (auto simp: b(3) validate_job_id_def digest_law_def bytes_digest_def core_bytes_digest_def list_all_iff dest: in_set_takeD)
  then have "structure_ok x (new_job job_id ws d t)" by (simp add: structure_ok_def new_job_def)
  from append_event_structure [OF b(5) this] obtain e where s: "structure_ok x job1" "job1 = (new_job job_id ws d t)\<lparr>rj_events := [e]\<rparr>"
    by (auto simp: new_job_def)
  have "validate_job x job = Inr ()" using seal_valid [OF s(1) _ b(6)] by (simp add: s(2))
  moreover from b(6) obtain r where job: "job = job1\<lparr>rj_record_sha256 := r\<rparr>" by (auto simp: seal_record_def rbind_Inr_iff Let_def)
  have "lifecycle (st_config st) job" using attempts_bounded [OF ok] by (simp add: job s(2) new_job_def lifecycle.simps Let_def)
  ultimately show ?thesis using codec b queued_card [OF ok b(1)] by (auto simp: job_codec_def job_ok_def job s(2) new_job_def)
qed

lemma enqueue_ok:
  assumes codec: "job_codec x" and law: "digest_law x" and ok: "store_ok x st"
  shows "store_ok x (snd (enqueue x nodes ws t st)) \<and> history x st (snd (enqueue x nodes ws t st))"
proof -
  have "snd (enqueue x nodes ws t st) = st \<or> (\<exists>ws' d job_id bs. admit x ws' d t st = Inr (job_id, bs) \<and>
      snd (enqueue x nodes ws t st) = st\<lparr>st_jobs := bt_insert (job_path job_id) bs (st_jobs st)\<rparr>)"
  proof (cases "rbind (map_err Io (x_canonicalize x ws)) (\<lambda>workspace. rbind (validate_directory (nodes workspace)) (\<lambda>_.
        rbind (digest_workspace_reference x nodes workspace) (\<lambda>d. Inr (workspace, d))))")
    case (Inr p)
    obtain w d where p: "p = (w, d)" by (cases p)
    show ?thesis
    proof (cases "admit x w d t st")
      case (Inr q)
      then show ?thesis using \<open>_ = Inr p\<close> by (cases q) (auto simp: enqueue_def p locked_def)
    qed (use Inr in \<open>simp add: enqueue_def p locked_def\<close>)
  qed (simp add: enqueue_def)
  then show ?thesis
  proof
    assume "\<exists>ws' d job_id bs. admit x ws' d t st = Inr (job_id, bs) \<and>
      snd (enqueue x nodes ws t st) = st\<lparr>st_jobs := bt_insert (job_path job_id) bs (st_jobs st)\<rparr>"
    then obtain ws' d job_id bs where e: "admit x ws' d t st = Inr (job_id, bs)"
      "snd (enqueue x nodes ws t st) = st\<lparr>st_jobs := bt_insert (job_path job_id) bs (st_jobs st)\<rparr>" by blast
    from admit_job [OF codec law ok e(1)] obtain job where job: "x_parse_job x bs = Inr job" "rj_job_id job = job_id" "job_ok x (st_config st) job"
      "bt_get (st_jobs st) (job_path job_id) = None" "card (queued_ids x st) < oc_max_queued (st_config st)" by blast
    let ?st = "st\<lparr>st_jobs := bt_insert (job_path job_id) bs (st_jobs st)\<rparr>"
    have wf: "bt_wf (st_jobs st)" using ok by (simp add: store_ok_def)
    note at = job_at_insert [OF wf job(1)]
    have new: "job_at x st job_id = None" using job(4) by (simp add: job_at_def)
    have "queued_ids x ?st \<subseteq> insert job_id (queued_ids x st)" by (auto simp: queued_ids_def at split: if_split_asm)
    then have "card (queued_ids x ?st) \<le> card (insert job_id (queued_ids x st))" by (intro card_mono) simp_all
    then have "card (queued_ids x ?st) \<le> oc_max_queued (st_config st)" using job(5) by (simp add: card_insert_if split: if_split_asm)
    moreover have "\<exists>i j. name = job_path i \<and> job_at x ?st i = Some j" if "name \<in> fst ` set (st_jobs ?st)" for name
    proof (cases "name = job_path job_id")
      case False
      then have "name \<in> fst ` set (st_jobs st)" using that by simp
      then obtain i j where "name = job_path i" "job_at x st i = Some j" using ok unfolding store_ok_def by blast
      with at [of job_id i] False show ?thesis by auto
    qed (use at [of job_id job_id] in auto)
    ultimately have "store_ok x ?st" using ok job wf unfolding store_ok_def by (auto simp: at)
    moreover have "history x st ?st" unfolding history_def using new by (auto simp: at intro: advances_refl)
    ultimately show ?thesis using e(2) by simp
  qed (simp add: ok evolves_history)
qed

section \<open>The store over time\<close>

text \<open>
  A step is an operation of the store, or one of the sections a batch is made of (each under the lock), so
  that runs that overlap or die between two sections are covered. \<open>finish_failed\<close> is called for a running
  job; \<open>died\<close> is a process that leaves the lock behind, \<open>cleared\<close> an operator who removes it.
\<close>

inductive ops_step :: "'x operations_ext_scheme \<Rightarrow> OperationsStore \<Rightarrow> OperationsStore \<Rightarrow> bool" for x where
  step_enqueue: "ops_step x st (snd (enqueue x nodes ws t st))"
| step_run_batch: "ops_step x st (snd (run_batch x nodes p now failure executor st))"
| step_claim: "ops_step x st (snd (claim_next x now st))"
| step_write: "ops_step x st (snd (write_result job_id bs st))"
| step_finish: "code = None \<longleftrightarrow> state = JobCertified \<Longrightarrow> ops_step x st (snd (finish x job_id now state d code st))"
| step_finish_failed: "running x job_id st \<Longrightarrow> ops_step x st (snd (finish_failed x job_id now event st))"
| step_acquire: "ops_step x st (snd (acquire_runner x p st))"
| step_renew: "ops_step x st (snd (renew_runner_lease x r t st))"
| step_prune: "ops_step x st (snd (prune_terminal x before n st))"
| step_died: "ops_step x st (st\<lparr>st_locked := True\<rparr>)"
| step_cleared: "ops_step x st (st\<lparr>st_locked := False\<rparr>)"

inductive_cases ops_stepE: "ops_step x st st'"

inductive ops_reachable :: "'x operations_ext_scheme \<Rightarrow> OperationsStore \<Rightarrow> bool" for x where
  reach_create: "store_create config False = Inr st \<Longrightarrow> ops_reachable x st"
| reach_step: "ops_reachable x st \<Longrightarrow> ops_step x st st' \<Longrightarrow> ops_reachable x st'"

lemma valid_opD:
  assumes "valid_op x P m Q" "store_ok x st" "P st"
  shows "store_ok x (snd (m st)) \<and> history x st (snd (m st))"
proof -
  obtain r s where "m st = (r, s)" by (cases "m st")
  with assms show ?thesis unfolding valid_op_def by (auto intro: evolves_history)
qed

lemma valid_write_any: "valid_op x (\<lambda>_. True) (write_result job_id bs) (\<lambda>_ _. True)"
  by (auto simp: valid_op_def write_result_def split: option.split_asm if_split_asm)

lemma ops_step_ok:
  assumes "ops_step x st st'" "job_codec x" "digest_law x" "store_ok x st"
  shows "store_ok x st' \<and> history x st st'"
  using assms(1)
proof cases
  case (step_enqueue nodes ws t)
  then show ?thesis using enqueue_ok assms by simp
next
  case (step_run_batch nodes p now failure executor)
  then show ?thesis using valid_opD [OF valid_run_batch] assms by simp
next
  case (step_claim now)
  then show ?thesis using valid_opD [OF valid_claim_next] assms by simp
next
  case (step_write job_id bs)
  then show ?thesis using valid_opD [OF valid_write_any] assms by simp
next
  case (step_finish code state job_id now d)
  then show ?thesis using valid_opD [OF valid_finish] assms by simp
next
  case (step_finish_failed job_id now event)
  then show ?thesis using valid_opD [OF valid_finish_failed] assms by simp
next
  case (step_acquire p)
  then show ?thesis using valid_opD [OF valid_acquire] assms by simp
next
  case (step_renew r t)
  then show ?thesis using valid_opD [OF valid_renew] assms by simp
next
  case (step_prune before n)
  then show ?thesis using valid_opD [OF valid_prune] assms by simp
qed (use assms in \<open>simp_all add: evolves_history\<close>)

lemma store_create_ok: "store_create config False = Inr st \<Longrightarrow> store_ok x st"
  by (auto simp: store_create_def store_ok_def rbind_Inr_iff job_at_def queued_ids_def config_validate_def split: if_split_asm)

lemma ops_reachable_ok: "ops_reachable x st \<Longrightarrow> job_codec x \<Longrightarrow> digest_law x \<Longrightarrow> store_ok x st"
proof (induction rule: ops_reachable.induct)
  case (reach_create config st)
  then show ?case by (simp add: store_create_ok)
next
  case (reach_step st st')
  then show ?case using ops_step_ok by blast
qed

section \<open>Properties\<close>




text \<open>A store with one queued job, for the witnesses.\<close>

definition demo_digest :: string where
  "demo_digest = replicate 64 CHR ''a''"

definition demo_event :: JobEvent where
  "demo_event = \<lparr>je_sequence = 0, je_at_unix = 0, je_kind = ''JOB_ENQUEUED'', je_previous_sha256 = None, je_event_sha256 = demo_digest\<rparr>"

definition demo_id :: string where
  "demo_id = ''job-'' @ replicate 24 CHR ''a''"

definition demo_unsealed :: RecoveryJob where
  "demo_unsealed = (new_job demo_id ''/w'' demo_digest 0)\<lparr>rj_events := [demo_event]\<rparr>"

definition demo_job :: RecoveryJob where
  "demo_job = demo_unsealed\<lparr>rj_record_sha256 := demo_digest\<rparr>"

definition demo_ops :: operations_ext where
  "demo_ops = protocol_ext.extend (demo_ext\<lparr>x_sha256 := (\<lambda>_. []), x_hex_encode := (\<lambda>_. demo_digest)\<rparr>)
     (operations_ext.fields
       (\<lambda>job. if job = demo_unsealed then Inr (JString ''u'') else if job = demo_job then Inr (JString ''s'') else Inl ''unknown'')
       (\<lambda>bs. if bs = as_bytes ''s'' then Inr demo_job else Inr demo_unsealed)
       (\<lambda>_. Inr JNull) (\<lambda>_. Inr JNull) (\<lambda>_. Inr JNull) (\<lambda>_. Inr JNull) (\<lambda>_. Inr JNull) (\<lambda>_. Inr JNull) (\<lambda>_. Inr JNull)
       (\<lambda>_. Inl ''unknown'') (\<lambda>_. Inl ''unknown'') Inr)"

definition demo_store :: OperationsStore where
  "demo_store = \<lparr>st_config = config_default, st_jobs = [], st_results = [], st_locked = False, st_lease = None\<rparr>"

definition demo_nodes :: "string \<Rightarrow> node" where
  "demo_nodes p = Directory None [] None"

lemma demo_ops_fields: "x_sha256 demo_ops bs = []" "x_hex_encode demo_ops bs = demo_digest" "x_json_vec demo_ops (JString s) = Inr (as_bytes s)"
  "x_json_vec demo_ops JNull = Inr []" "x_event_value demo_ops e = Inr JNull" "x_id_value demo_ops i = Inr JNull" "x_files_value demo_ops m = Inr JNull"
  "x_canonicalize demo_ops p = Inr p" "x_parse_job demo_ops bs = (if bs = as_bytes ''s'' then Inr demo_job else Inr demo_unsealed)"
  "x_job_value demo_ops job = (if job = demo_unsealed then Inr (JString ''u'') else if job = demo_job then Inr (JString ''s'') else Inl ''unknown'')"
  by (simp_all add: demo_ops_def protocol_ext.defs operations_ext.defs demo_ext_def sandbox_ext.defs toy_engine_def fragments_ext.defs toy_ext_def)

lemma as_bytes_us: "as_bytes ''u'' \<noteq> as_bytes ''s''"
  by (simp add: as_bytes_def)

lemma demo_jobs_differ: "demo_job \<noteq> demo_unsealed"
proof
  assume "demo_job = demo_unsealed"
  then have "rj_record_sha256 demo_job = rj_record_sha256 demo_unsealed" by simp
  then show False by (simp add: demo_job_def demo_unsealed_def new_job_def demo_digest_def)
qed

lemma demo_codec: "job_codec demo_ops"
  using as_bytes_us by (auto simp: job_codec_def canonical_encode_def encode_json_def demo_ops_fields map_err_Inr_iff rbind_Inr_iff)

lemma demo_digest_law: "digest_law demo_ops"
  by (auto simp: digest_law_def demo_ops_fields demo_digest_def is_ascii_hexdigit_def list_all_iff)

lemma demo_created: "store_create config_default False = Inr demo_store"
  by (simp add: store_create_def config_validate_def config_default_def MAX_JOBS_def demo_store_def)

lemma demo_admit: "admit demo_ops ''/w'' demo_digest 0 demo_store = Inr (demo_id, as_bytes ''s'')"
proof -
  have id: "''job-'' @ take 24 demo_digest = demo_id" by (simp add: demo_digest_def demo_id_def)
  have a: "append_event demo_ops (new_job demo_id ''/w'' demo_digest 0) 0 ''JOB_ENQUEUED'' = Inr demo_unsealed"
    by (simp add: append_event_def demo_unsealed_def demo_event_def new_job_def canonical_digest_def digest_hex_def encode_json_def demo_ops_fields)
  have s: "seal_record demo_ops demo_unsealed = Inr demo_job"
  proof -
    have "demo_unsealed\<lparr>rj_record_sha256 := []\<rparr> = demo_unsealed" by (simp add: demo_unsealed_def new_job_def)
    then show ?thesis by (simp add: seal_record_def canonical_digest_def digest_hex_def encode_json_def demo_ops_fields demo_job_def)
  qed
  have e: "op_encode demo_ops (x_job_value demo_ops) demo_job = Inr (as_bytes ''s'')"
    using demo_jobs_differ by (simp add: canonical_encode_def encode_json_def demo_ops_fields)
  show ?thesis using id a s e
    by (simp add: admit_def read_jobs_def demo_store_def config_default_def canonical_encode_def encode_json_def demo_ops_fields bytes_digest_def core_bytes_digest_def)
qed

lemma demo_enqueued: "snd (enqueue demo_ops demo_nodes ''/w'' 0 demo_store) = demo_store\<lparr>st_jobs := [(job_path demo_id, as_bytes ''s'')]\<rparr>"
proof -
  have "digest_workspace_reference demo_ops demo_nodes ''/w'' = Inr demo_digest"
    by (simp add: digest_workspace_reference_def scan_stack.simps open_directory_def demo_nodes_def canonical_digest_def digest_hex_def encode_json_def demo_ops_fields)
  then show ?thesis using demo_admit
    by (simp add: enqueue_def demo_ops_fields validate_directory_def demo_nodes_def locked_def) (simp add: demo_store_def)
qed

lemma demo_job_at: "job_at demo_ops (demo_store\<lparr>st_jobs := [(job_path demo_id, as_bytes ''s'')]\<rparr>) demo_id = Some demo_job"
  by (simp add: job_at_def demo_ops_fields)

lemma demo_reachable: "ops_reachable demo_ops (demo_store\<lparr>st_jobs := [(job_path demo_id, as_bytes ''s'')]\<rparr>)"
  using reach_step [OF reach_create [OF demo_created, of demo_ops] step_enqueue [of demo_ops demo_store demo_nodes "''/w''" 0]] unfolding demo_enqueued .



text \<open>A store that holds the maximum of 1024 records, terminal ones included, still admits a job; from then
  on reading the records always fails, so that no job can be claimed, listed, queued or pruned any more.\<close>

theorem enqueue_lockout:
  assumes "length (st_jobs st) = MAX_JOBS" "enqueue x nodes ws t st = (Inr receipt, st')"
  shows "(\<exists>e. status x st' = (Inl e, st')) \<and> (\<exists>e. claim_next x now st' = (Inl e, st')) \<and>
    (\<exists>e. prune_terminal x before n st' = (Inl e, st')) \<and> (\<exists>e. enqueue x nodes' ws' t' st' = (Inl e, st'))"
proof -
  from assms(2) obtain w d i bs where a: "admit x w d t st = Inr (i, bs)" "st' = st\<lparr>st_jobs := bt_insert (job_path i) bs (st_jobs st)\<rparr>"
    "\<not> st_locked st"
    by (auto simp: enqueue_def locked_def split: sum.split_asm prod.split_asm if_split_asm)
  have "bt_get (st_jobs st) (job_path i) = None" using a(1) by (auto simp: admit_def rbind_Inr_iff Let_def split: if_split_asm)
  then have "length (bt_insert (job_path i) bs m) = Suc (length m)" if "map_of m (job_path i) = None" for m :: "(string, bytes) btree_map"
    using that by (induction "job_path i" bs m rule: bt_insert.induct) (auto split: if_split_asm)
  then have len: "length (st_jobs st') = Suc MAX_JOBS" using assms(1) a(2) \<open>bt_get (st_jobs st) (job_path i) = None\<close> by simp
  have names: "check_names k ns = Inr () \<Longrightarrow> ns \<noteq> [] \<Longrightarrow> k + length ns \<le> MAX_JOBS" for k ns
  proof (induction ns arbitrary: k)
    case (Cons n ns)
    then show ?case using Cons.IH [of "Suc k"] by (cases "ns = []") (auto split: if_split_asm)
  qed simp
  obtain e where e: "read_jobs x st' = Inl e"
  proof (cases "check_names 0 (map fst (st_jobs st'))")
    case (Inr u)
    then show ?thesis using names [of 0 "map fst (st_jobs st')"] len by (cases "st_jobs st'") auto
  qed (simp add: read_jobs_def that)
  have adm: "admit x w d t st' = Inl e" for w d t by (simp add: admit_def e)
  have "\<exists>e. enqueue x nodes' ws' t' st' = (Inl e, st')"
    by (auto simp: adm enqueue_def locked_def split: sum.split prod.split)
  then show ?thesis using e a(2,3)
    by (auto simp: status_def claim_next_def prune_terminal_def locked_def lift_def obind_def fail_def)
qed

text \<open>A full store of terminal jobs.\<close>

definition flood_ops :: operations_ext where
  "flood_ops = demo_ops\<lparr>x_job_value := (\<lambda>_. Inr JNull), x_parse_job := (\<lambda>_. Inr (demo_job\<lparr>rj_state := Failed\<rparr>))\<rparr>"

definition flood_store :: OperationsStore where
  "flood_store = demo_store\<lparr>st_jobs := map (\<lambda>n. (replicate (Suc n) CHR ''z'' @ ''.json'', [])) [0..<1024]\<rparr>"

lemma flood_record: "read_record flood_ops [] = Inr (demo_job\<lparr>rj_state := Failed\<rparr>)"
proof -
  have "list_all is_ascii_hexdigit (replicate 24 CHR ''a'')" by (auto simp: list_all_iff is_ascii_hexdigit_def)
  then show ?thesis
    by (simp add: read_record_def flood_ops_def validate_job_def validate_job_id_def demo_job_def demo_unsealed_def new_job_def demo_id_def demo_event_def
        canonical_digest_def digest_hex_def encode_json_def demo_ops_fields MAX_RECORD_BYTES_def)
qed

lemma flood_names: "n + length ks \<le> MAX_JOBS \<Longrightarrow> check_names n (map (\<lambda>k. replicate (Suc k) CHR ''z'' @ ''.json'') ks) = Inr ()"
proof (induction ks arbitrary: n)
  case (Cons k ks)
  have "split_on CHR ''.'' (replicate (Suc k) CHR ''z'' @ CHR ''.'' # ''json'') = [replicate (Suc k) CHR ''z'', ''json'']"
    by (subst split_on_append) auto
  then have "extension (replicate (Suc k) CHR ''z'' @ ''.json'') = Some ''json''" by (simp add: extension_def)
  with Cons show ?case by simp
qed simp

lemma flood_read: "read_jobs flood_ops flood_store = Inr (replicate 1024 (demo_job\<lparr>rj_state := Failed\<rparr>))"
proof -
  have n: "check_names 0 (map fst (st_jobs flood_store)) = Inr ()"
    using flood_names [of 0 "[0..<1024]"] by (simp add: flood_store_def comp_def MAX_JOBS_def del: replicate.simps upt_rec_numeral)
  have "collect_results (\<lambda>(_, bs). read_record flood_ops bs) (st_jobs flood_store) = Inr (map (\<lambda>_. demo_job\<lparr>rj_state := Failed\<rparr>) (st_jobs flood_store))"
    by (rule collect_results_map) (auto simp: flood_store_def flood_record simp del: upt_rec_numeral)
  moreover have "map (\<lambda>_. v) (st_jobs flood_store) = replicate 1024 v" for v :: RecoveryJob
    by (simp add: flood_store_def map_replicate_const del: upt_rec_numeral)
  ultimately show ?thesis using n by (simp add: read_jobs_def)
qed

lemma flood_enqueue: "\<exists>receipt st'. enqueue flood_ops demo_nodes ''/w'' 0 flood_store = (Inr receipt, st')"
proof -
  have d: "digest_workspace_reference flood_ops demo_nodes ''/w'' = Inr demo_digest"
    by (simp add: digest_workspace_reference_def scan_stack.simps open_directory_def demo_nodes_def canonical_digest_def digest_hex_def encode_json_def flood_ops_def demo_ops_fields)
  have q: "filter is_queued (replicate 1024 (demo_job\<lparr>rj_state := Failed\<rparr>)) = []" by (simp add: is_queued_def filter_replicate)
  have f: "bt_get (st_jobs flood_store) (job_path i) = None" if "hd i = CHR ''j''" "i \<noteq> []" for i
  proof -
    have "job_path i \<notin> fst ` set (st_jobs flood_store)"
    proof
      assume "job_path i \<in> fst ` set (st_jobs flood_store)"
      then obtain k where "job_path i = replicate (Suc k) CHR ''z'' @ ''.json''" by (auto simp: flood_store_def simp del: upt_rec_numeral replicate.simps)
      then have "hd (job_path i) = CHR ''z''" by simp
      with that show False by (simp add: job_path_def)
    qed
    then show ?thesis by (simp add: map_of_eq_None_iff)
  qed
  have "\<exists>p. admit flood_ops ''/w'' demo_digest 0 flood_store = Inr p"
    using q f [of "''job-'' @ take 24 demo_digest"]
    by (simp add: admit_def flood_read) (simp add: flood_store_def demo_store_def config_default_def append_event_def seal_record_def new_job_def
        canonical_encode_def canonical_digest_def digest_hex_def encode_json_def flood_ops_def demo_ops_fields bytes_digest_def core_bytes_digest_def
        del: upt_rec_numeral replicate.simps)
  then show ?thesis using d
    by (auto simp: enqueue_def locked_def flood_ops_def demo_ops_fields demo_nodes_def validate_directory_def flood_store_def demo_store_def
        simp del: upt_rec_numeral)
qed

theorem enqueue_lockout_witness:
  "\<exists>receipt st' e. enqueue flood_ops demo_nodes ''/w'' 0 flood_store = (Inr receipt, st') \<and> prune_terminal flood_ops 9 9 st' = (Inl e, st')"
proof -
  obtain receipt st' where r: "enqueue flood_ops demo_nodes ''/w'' 0 flood_store = (Inr receipt, st')" using flood_enqueue by blast
  have "length (st_jobs flood_store) = MAX_JOBS" by (simp add: flood_store_def MAX_JOBS_def del: upt_rec_numeral)
  from enqueue_lockout [OF this r] r show ?thesis by blast
qed

text \<open>The digest of a job's last audit event commits to its whole history: two valid records whose last events
  carry the same digest have the same events, unless two different events with the same digest are exhibited.\<close>

theorem audit_tamper_evident:
  assumes "validate_job x job = Inr ()" "validate_job x job' = Inr ()"
    and "je_event_sha256 (last (rj_events job)) = je_event_sha256 (last (rj_events job'))"
  shows "rj_events job = rj_events job' \<or> collides event_content (audit_digest x) (rj_events job) (rj_events job')"
proof -
  have s: "rj_events j \<noteq> [] \<and> check_chain x 0 None (rj_events j) = Inr ()" if "validate_job x j = Inr ()" for j
    using that by (auto simp: validate_job_def rbind_Inr_iff split: if_split_asm)
  have "chain_head (audit_digest x) (rj_events job) = chain_head (audit_digest x) (rj_events job')"
    using assms(3) s [OF assms(1)] s [OF assms(2)] check_chain_linked [of x 0 None "rj_events job"]
      check_chain_linked [of x 0 None "rj_events job'"] by (simp add: chain_head_def)
  then have "map event_content (rj_events job) = map event_content (rj_events job') \<or> collides event_content (audit_digest x) (rj_events job) (rj_events job')"
    using audit_chain.same_head_same_chain check_chain_linked s [OF assms(1)] s [OF assms(2)] by blast
  then show ?thesis using chains_equal s [OF assms(1)] s [OF assms(2)] by blast
qed

definition demo_audit :: operations_ext where
  "demo_audit = demo_ops\<lparr>x_job_value := (\<lambda>_. Inr JNull)\<rparr>"

lemma demo_audit_valid: "validate_job demo_audit (demo_job\<lparr>rj_attempts := n\<rparr>) = Inr ()"
proof -
  have "validate_job_id demo_id = Inr ()" by (simp add: validate_job_id_def demo_id_def list_all_iff is_ascii_hexdigit_def)
  moreover have "op_digest demo_audit (x_event_value demo_audit) e = Inr demo_digest" "op_digest demo_audit (x_job_value demo_audit) j = Inr demo_digest" for e j
    by (simp_all add: demo_audit_def canonical_digest_def digest_hex_def encode_json_def demo_ops_fields)
  ultimately show ?thesis by (simp add: validate_job_def demo_job_def demo_unsealed_def new_job_def demo_event_def)
qed

theorem audit_tamper_evident_witness:
  "rj_events (demo_job\<lparr>rj_attempts := 1\<rparr>) = rj_events (demo_job\<lparr>rj_attempts := 2\<rparr>) \<or>
   collides event_content (audit_digest demo_audit) (rj_events (demo_job\<lparr>rj_attempts := 1\<rparr>)) (rj_events (demo_job\<lparr>rj_attempts := 2\<rparr>))"
  using audit_tamper_evident [OF demo_audit_valid demo_audit_valid] by simp

end
