(* ===== verification/Disk.thy ===== *)
theory Disk
  imports Model "HOL-Library.AList" "HOL-Library.Sublist"
begin

text \<open>
  The part of \<open>std::fs\<close> the program writes through, with the ways a call can go wrong. A disk is a
  finite table of entries by path and a script that decides, call by call, whether the operating system
  carries the call out, reports an error, or the process dies; a theorem about every disk is therefore a
  theorem about a fault or a death at every call. A write that does not complete leaves a prefix of the
  data. What a process wrote is kept when it dies; loss of power is not modelled, so the calls that flush a
  file or a directory can fail but change nothing.

  A path is the list of its components. A symbolic link is an entry that says what it resolves to; a path
  through a linked directory is taken in its resolved form.
\<close>

section \<open>Disks\<close>

type_synonym place = "string list"

datatype entry = FileEntry bytes | DirEntry | OtherEntry | LinkTo entry | BrokenLink

fun follow :: "entry \<Rightarrow> entry option" where
  "follow (LinkTo e) = follow e"
| "follow BrokenLink = None"
| "follow e = Some e"

datatype fault = Proceeds | Faults string nat | Dies nat

type_synonym entries = "(place \<times> entry) list"

record disk =
  dk_entries :: entries
  dk_script :: "fault list"

abbreviation files :: "disk \<Rightarrow> place \<Rightarrow> entry option" where
  "files d \<equiv> map_of (dk_entries d)"

section \<open>Programs over a disk\<close>

datatype 'a run = Done 'a | Raised Error | Died

type_synonym 'a io = "disk \<Rightarrow> 'a run \<times> disk"

definition io_return :: "'a \<Rightarrow> 'a io" where
  "io_return v d = (Done v, d)"

definition io_raise :: "Error \<Rightarrow> 'a io" where
  "io_raise e d = (Raised e, d)"

definition io_bind :: "'a io \<Rightarrow> ('a \<Rightarrow> 'b io) \<Rightarrow> 'b io" where
  "io_bind m g d = (case m d of (Done v, d') \<Rightarrow> g v d' | (Raised e, d') \<Rightarrow> (Raised e, d') | (Died, d') \<Rightarrow> (Died, d'))"

definition io_lift :: "(Error, 'a) result \<Rightarrow> 'a io" where
  "io_lift r = (case r of Inl e \<Rightarrow> io_raise e | Inr v \<Rightarrow> io_return v)"

definition io_ensure :: "bool \<Rightarrow> Error \<Rightarrow> unit io" where
  "io_ensure c e = (if c then io_return () else io_raise e)"

definition io_when :: "bool \<Rightarrow> unit io \<Rightarrow> unit io" where
  "io_when c m = (if c then m else io_return ())"

text \<open>\<open>io_catch m h\<close> runs the handler when \<open>m\<close> returns an error, \<open>io_ignore m\<close> drops the error.\<close>

definition io_catch :: "'a io \<Rightarrow> (Error \<Rightarrow> 'a io) \<Rightarrow> 'a io" where
  "io_catch m h d = (case m d of (Raised e, d') \<Rightarrow> h e d' | r \<Rightarrow> r)"

definition io_ignore :: "unit io \<Rightarrow> unit io" where
  "io_ignore m = io_catch m (\<lambda>_. io_return ())"

primrec io_each :: "('a \<Rightarrow> unit io) \<Rightarrow> 'a list \<Rightarrow> unit io" where
  "io_each g [] = io_return ()"
| "io_each g (v # vs) = io_bind (g v) (\<lambda>_. io_each g vs)"

text \<open>One call: its effect on the entries, or the error the operating system gives; \<open>partly n\<close> is what an
  interrupted call leaves behind.\<close>

definition io_call :: "(entries \<Rightarrow> (string, 'a \<times> entries) result) \<Rightarrow> (nat \<Rightarrow> entries \<Rightarrow> entries) \<Rightarrow> 'a io" where
  "io_call effect partly d =
     (let d' = d\<lparr>dk_script := tl (dk_script d)\<rparr> in
      case (case dk_script d of [] \<Rightarrow> Proceeds | f # _ \<Rightarrow> f) of
        Proceeds \<Rightarrow>
          (case effect (dk_entries d) of
             Inl message \<Rightarrow> (Raised (Io message), d')
           | Inr (v, es) \<Rightarrow> (Done v, d'\<lparr>dk_entries := es\<rparr>))
      | Faults message n \<Rightarrow> (Raised (Io message), d'\<lparr>dk_entries := partly n (dk_entries d)\<rparr>)
      | Dies n \<Rightarrow> (Died, d'\<lparr>dk_entries := partly n (dk_entries d)\<rparr>))"

definition no_such_file :: string where "no_such_file = ''No such file or directory''"

definition in_directory :: "(place \<Rightarrow> entry option) \<Rightarrow> place \<Rightarrow> bool" where
  "in_directory f p \<longleftrightarrow> p \<noteq> [] \<and> (butlast p = [] \<or> f (butlast p) = Some DirEntry)"

definition io_query :: "(entries \<Rightarrow> (string, 'a) result) \<Rightarrow> 'a io" where
  "io_query q = io_call (\<lambda>es. rbind (q es) (\<lambda>v. Inr (v, es))) (\<lambda>_ es. es)"

definition io_change :: "(entries \<Rightarrow> (string, entries) result) \<Rightarrow> unit io" where
  "io_change g = io_call (\<lambda>es. rbind (g es) (\<lambda>es'. Inr ((), es'))) (\<lambda>_ es. es)"

section \<open>The calls\<close>

text \<open>\<open>symlink_metadata\<close>, \<open>try_exists\<close>, \<open>read\<close>.\<close>

definition io_lstat :: "place \<Rightarrow> entry io" where
  "io_lstat p = io_query (\<lambda>es. ok_or no_such_file (map_of es p))"

definition exists_at :: "(place \<Rightarrow> entry option) \<Rightarrow> place \<Rightarrow> bool" where
  "exists_at f p \<longleftrightarrow> (case f p of None \<Rightarrow> False | Some e \<Rightarrow> follow e \<noteq> None)"

definition io_exists :: "place \<Rightarrow> bool io" where
  "io_exists p = io_query (\<lambda>es. Inr (exists_at (map_of es) p))"

definition content_of :: "entry option \<Rightarrow> (string, bytes) result" where
  "content_of e =
     (case Option.bind e follow of
        None \<Rightarrow> Inl no_such_file
      | Some (FileEntry bs) \<Rightarrow> Inr bs
      | Some DirEntry \<Rightarrow> Inl ''Is a directory''
      | Some _ \<Rightarrow> Inl ''Invalid argument'')"

definition io_read :: "place \<Rightarrow> bytes io" where
  "io_read p = io_query (\<lambda>es. content_of (map_of es p))"

text \<open>\<open>OpenOptions::create_new\<close>, \<open>write_all\<close> on the new file, \<open>sync_all\<close>, and \<open>File::open(dir)?.sync_all()\<close>.\<close>

definition io_open_new :: "place \<Rightarrow> unit io" where
  "io_open_new p = io_change (\<lambda>es.
     if map_of es p \<noteq> None then Inl ''File exists''
     else if \<not> in_directory (map_of es) p then Inl no_such_file
     else Inr (AList.update p (FileEntry []) es))"

definition io_write :: "place \<Rightarrow> bytes \<Rightarrow> unit io" where
  "io_write p bs = io_call (\<lambda>es. Inr ((), AList.update p (FileEntry bs) es)) (\<lambda>n. AList.update p (FileEntry (take n bs)))"

definition io_flush :: "unit io" where
  "io_flush = io_query (\<lambda>_. Inr ())"

definition io_sync :: "place \<Rightarrow> unit io" where
  "io_sync p = io_query (\<lambda>es. if p = [] \<or> exists_at (map_of es) p then Inr () else Inl no_such_file)"

text \<open>\<open>remove_file\<close>, \<open>create_dir\<close>, \<open>create_dir_all\<close>, \<open>remove_dir\<close>, \<open>remove_dir_all\<close>.\<close>

definition io_remove_file :: "place \<Rightarrow> unit io" where
  "io_remove_file p = io_change (\<lambda>es.
     case map_of es p of
       None \<Rightarrow> Inl no_such_file
     | Some DirEntry \<Rightarrow> Inl ''Operation not permitted''
     | Some _ \<Rightarrow> Inr (AList.delete p es))"

definition io_create_dir :: "place \<Rightarrow> unit io" where
  "io_create_dir p = io_change (\<lambda>es.
     if map_of es p \<noteq> None then Inl ''File exists''
     else if \<not> in_directory (map_of es) p then Inl no_such_file
     else Inr (AList.update p DirEntry es))"

definition make_dir :: "place \<Rightarrow> entries \<Rightarrow> (string, entries) result" where
  "make_dir p es =
     (case map_of es p of
        None \<Rightarrow> Inr (AList.update p DirEntry es)
      | Some e \<Rightarrow> if follow e = Some DirEntry then Inr es else Inl ''File exists'')"

definition ancestors :: "place \<Rightarrow> place list" where
  "ancestors p = map (\<lambda>n. take (Suc n) p) [0..<length p]"

definition io_create_dir_all :: "place \<Rightarrow> unit io" where
  "io_create_dir_all p = io_each (\<lambda>q. io_change (make_dir q)) (ancestors p)"

definition is_empty_dir :: "place \<Rightarrow> entries \<Rightarrow> bool" where
  "is_empty_dir p es \<longleftrightarrow> list_all (\<lambda>(q, _). \<not> strict_prefix p q) es"

definition io_remove_dir :: "place \<Rightarrow> unit io" where
  "io_remove_dir p = io_change (\<lambda>es.
     case map_of es p of
       None \<Rightarrow> Inl no_such_file
     | Some DirEntry \<Rightarrow> if is_empty_dir p es then Inr (AList.delete p es) else Inl ''Directory not empty''
     | Some _ \<Rightarrow> Inl ''Not a directory'')"

definition without :: "place set \<Rightarrow> entries \<Rightarrow> entries" where
  "without ps es = filter (\<lambda>(q, _). q \<notin> ps) es"

text \<open>Removing a tree goes from the bottom up; interrupted, it has removed the first entries.\<close>

definition io_remove_dir_all :: "place \<Rightarrow> unit io" where
  "io_remove_dir_all p = io_call
     (\<lambda>es. if map_of es p = None then Inl no_such_file else Inr ((), filter (\<lambda>(q, _). \<not> prefix p q) es))
     (\<lambda>n es. without (set (take n (rev (sort_key length (filter (strict_prefix p) (map fst es)))))) es)"

text \<open>\<open>read_dir\<close>: the names in a directory, in the order of the table.\<close>

definition children :: "place \<Rightarrow> entries \<Rightarrow> place list" where
  "children p es = remdups (map fst (filter (\<lambda>(q, _). q \<noteq> [] \<and> butlast q = p) es))"

definition io_read_dir :: "place \<Rightarrow> place list io" where
  "io_read_dir p = io_query (\<lambda>es.
     case Option.bind (map_of es p) follow of
       None \<Rightarrow> Inl no_such_file
     | Some DirEntry \<Rightarrow> Inr (children p es)
     | Some _ \<Rightarrow> Inl ''Not a directory'')"

text \<open>
  \<open>rename\<close>: a file replaces what is not a directory; a directory moves with everything below it and only
  onto a free name or an empty directory.
\<close>

definition moved :: "place \<Rightarrow> place \<Rightarrow> place \<Rightarrow> place" where
  "moved a b p = (if prefix a p then b @ drop (length a) p else p)"

definition rename_entries :: "place \<Rightarrow> place \<Rightarrow> entries \<Rightarrow> (string, entries) result" where
  "rename_entries a b es =
     (case map_of es a of
        None \<Rightarrow> Inl no_such_file
      | Some e \<Rightarrow>
          if a = b then Inr es
          else if \<not> in_directory (map_of es) b then Inl no_such_file
          else if e = DirEntry then
            (if strict_prefix a b then Inl ''Invalid argument''
             else case map_of es b of
               None \<Rightarrow> Inr (map (\<lambda>(p, e). (moved a b p, e)) es)
             | Some DirEntry \<Rightarrow>
                 if is_empty_dir b es then Inr (map (\<lambda>(p, e). (moved a b p, e)) (AList.delete b es))
                 else Inl ''Directory not empty''
             | Some _ \<Rightarrow> Inl ''Not a directory'')
          else if map_of es b = Some DirEntry then Inl ''Is a directory''
          else Inr (AList.update b e (AList.delete a es)))"

definition io_rename :: "place \<Rightarrow> place \<Rightarrow> unit io" where
  "io_rename a b = io_change (rename_entries a b)"

text \<open>
  A lock file held while \<open>m\<close> runs: it is created, and the guard removes it when \<open>m\<close> returns, ignoring an
  error. A process that dies leaves it.
\<close>

definition io_locked :: "place \<Rightarrow> string \<Rightarrow> 'a io \<Rightarrow> 'a io" where
  "io_locked lock message m =
     io_bind (io_catch (io_open_new lock) (\<lambda>_. io_raise (Io message))) (\<lambda>_.
     io_bind (io_catch (io_bind m (\<lambda>v. io_return (Inr v))) (\<lambda>e. io_return (Inl e))) (\<lambda>r.
     io_bind (io_ignore (io_remove_file lock)) (\<lambda>_. io_lift r)))"

section \<open>Routines the components share\<close>

text \<open>
  \<open>deployment.rs\<close>, \<open>state_store.rs\<close>, \<open>ledger.rs\<close> and \<open>lifecycle.rs\<close> have the same private routines: write a
  new file and flush it, replace a file through a staging file, read a bounded regular file. They differ in
  their messages and bounds, which are arguments here.
\<close>

definition io_write_new :: "place \<Rightarrow> bytes \<Rightarrow> unit io" where
  "io_write_new path data =
     io_bind (io_open_new path) (\<lambda>_. io_bind (io_write path data) (\<lambda>_. io_flush))"

definition io_replace :: "Error \<Rightarrow> place \<Rightarrow> place \<Rightarrow> string \<Rightarrow> bytes \<Rightarrow> unit io" where
  "io_replace stale root target temporary_name data =
     (let temporary = root @ [temporary_name] in
      io_bind (io_exists temporary) (\<lambda>found.
      io_bind (io_ensure (\<not> found) stale) (\<lambda>_.
      io_bind (io_write_new temporary data) (\<lambda>_.
      io_bind (io_rename temporary target) (\<lambda>_. io_sync root)))))"

definition is_bounded_file :: "nat \<Rightarrow> entry \<Rightarrow> bool" where
  "is_bounded_file bound e \<longleftrightarrow> (case e of FileEntry bs \<Rightarrow> length bs \<le> bound | _ \<Rightarrow> False)"

definition io_read_bounded :: "nat \<Rightarrow> Error \<Rightarrow> place \<Rightarrow> bytes io" where
  "io_read_bounded bound e path =
     io_bind (io_lstat path) (\<lambda>metadata.
     io_bind (io_ensure (is_bounded_file bound metadata) e) (\<lambda>_. io_read path))"

definition io_real_directory :: "Error \<Rightarrow> place \<Rightarrow> unit io" where
  "io_real_directory e path = io_bind (io_lstat path) (\<lambda>metadata. io_ensure (metadata = DirEntry) e)"

section \<open>Weakest preconditions\<close>

text \<open>
  \<open>wp m Q E C f\<close>: started on any disk with the entries \<open>f\<close>, whatever the script, \<open>m\<close> returns a value with
  \<open>Q\<close>, or an error with \<open>E\<close>, or dies with \<open>C\<close>.
\<close>

type_synonym assertion = "(place \<Rightarrow> entry option) \<Rightarrow> bool"

definition wp :: "'a io \<Rightarrow> ('a \<Rightarrow> assertion) \<Rightarrow> (Error \<Rightarrow> assertion) \<Rightarrow> assertion \<Rightarrow> assertion" where
  "wp m Q E C f \<longleftrightarrow> (\<forall>d. files d = f \<longrightarrow>
     (case m d of (Done v, d') \<Rightarrow> Q v (files d') | (Raised e, d') \<Rightarrow> E e (files d') | (Died, d') \<Rightarrow> C (files d')))"

named_theorems wp_intros \<open>weakest preconditions of the combinators and calls\<close>

lemma wpD:
  assumes "wp m Q E C (files d)" "m d = (r, d')"
  shows "case r of Done v \<Rightarrow> Q v (files d') | Raised e \<Rightarrow> E e (files d') | Died \<Rightarrow> C (files d')"
  using assms unfolding wp_def by (auto split: run.splits)

lemma wp_conseq:
  "wp m Q E C f \<Longrightarrow> (\<And>v g. Q v g \<Longrightarrow> Q' v g) \<Longrightarrow> (\<And>e g. E e g \<Longrightarrow> E' e g) \<Longrightarrow> (\<And>g. C g \<Longrightarrow> C' g) \<Longrightarrow> wp m Q' E' C' f"
  unfolding wp_def by (fastforce split: prod.splits run.splits)

lemma wp_return [wp_intros]: "Q v f \<Longrightarrow> wp (io_return v) Q E C f"
  by (simp add: wp_def io_return_def)

lemma wp_raise [wp_intros]: "E e f \<Longrightarrow> wp (io_raise e) Q E C f"
  by (simp add: wp_def io_raise_def)

lemma wp_bind [wp_intros]: "wp m (\<lambda>v. wp (g v) Q E C) E C f \<Longrightarrow> wp (io_bind m g) Q E C f"
  unfolding wp_def io_bind_def by (fastforce split: prod.splits run.splits)

lemma wp_catch [wp_intros]: "wp m Q (\<lambda>e. wp (h e) Q E C) C f \<Longrightarrow> wp (io_catch m h) Q E C f"
  unfolding wp_def io_catch_def by (fastforce split: prod.splits run.splits)

lemma wp_lift [wp_intros]:
  "(\<And>e. r = Inl e \<Longrightarrow> E e f) \<Longrightarrow> (\<And>v. r = Inr v \<Longrightarrow> Q v f) \<Longrightarrow> wp (io_lift r) Q E C f"
  by (cases r) (simp_all add: io_lift_def wp_return wp_raise)

lemma wp_ensure [wp_intros]: "(\<not> c \<Longrightarrow> E e f) \<Longrightarrow> (c \<Longrightarrow> Q () f) \<Longrightarrow> wp (io_ensure c e) Q E C f"
  by (simp add: io_ensure_def wp_return wp_raise)

lemma wp_when [wp_intros]: "(c \<Longrightarrow> wp m Q E C f) \<Longrightarrow> (\<not> c \<Longrightarrow> Q () f) \<Longrightarrow> wp (io_when c m) Q E C f"
  by (simp add: io_when_def wp_return)

lemma wp_ignore [wp_intros]: "wp m Q (\<lambda>_. Q ()) C f \<Longrightarrow> wp (io_ignore m) Q E C f"
  unfolding io_ignore_def by (intro wp_catch) (erule wp_conseq, auto intro: wp_return)

lemma wp_each:
  assumes "\<And>v g. v \<in> set vs \<Longrightarrow> I g \<Longrightarrow> wp (h v) (\<lambda>_. I) E C g" "I f"
  shows "wp (io_each h vs) (\<lambda>_. I) E C f"
  using assms by (induction vs arbitrary: f) (force intro!: wp_intros intro: wp_conseq)+

text \<open>Where a call is made the state has to be one in which the program may fail or die.\<close>

definition stoppable :: "(Error \<Rightarrow> assertion) \<Rightarrow> assertion \<Rightarrow> assertion" where
  "stoppable E C f \<longleftrightarrow> (\<forall>message. E (Io message) f) \<and> C f"

lemma wp_query:
  assumes "stoppable E C f" and "\<And>es v. map_of es = f \<Longrightarrow> q es = Inr v \<Longrightarrow> Q v f"
  shows "wp (io_query q) Q E C f"
  using assms unfolding wp_def io_query_def io_call_def stoppable_def
  by (auto simp: Let_def result_simps split: list.split fault.split sum.split prod.split)

lemma wp_change:
  assumes "stoppable E C f" and "\<And>es es'. map_of es = f \<Longrightarrow> g es = Inr es' \<Longrightarrow> Q () (map_of es')"
  shows "wp (io_change g) Q E C f"
  using assms unfolding wp_def io_change_def io_call_def stoppable_def
  by (auto simp: Let_def result_simps split: list.split fault.split sum.split prod.split)

lemma wp_lstat [wp_intros]:
  "stoppable E C f \<Longrightarrow> (\<And>e. f p = Some e \<Longrightarrow> Q e f) \<Longrightarrow> wp (io_lstat p) Q E C f"
  unfolding io_lstat_def by (rule wp_query) (auto simp: result_simps)

lemma wp_exists [wp_intros]: "stoppable E C f \<Longrightarrow> Q (exists_at f p) f \<Longrightarrow> wp (io_exists p) Q E C f"
  unfolding io_exists_def by (rule wp_query) auto

lemma wp_read [wp_intros]:
  "stoppable E C f \<Longrightarrow> (\<And>bs. content_of (f p) = Inr bs \<Longrightarrow> Q bs f) \<Longrightarrow> wp (io_read p) Q E C f"
  unfolding io_read_def by (rule wp_query) auto

lemma wp_flush [wp_intros]: "stoppable E C f \<Longrightarrow> Q () f \<Longrightarrow> wp io_flush Q E C f"
  unfolding io_flush_def by (rule wp_query) auto

lemma wp_sync [wp_intros]: "stoppable E C f \<Longrightarrow> Q () f \<Longrightarrow> wp (io_sync p) Q E C f"
  unfolding io_sync_def by (rule wp_query) auto

lemma wp_open_new [wp_intros]:
  "stoppable E C f \<Longrightarrow> (f p = None \<Longrightarrow> in_directory f p \<Longrightarrow> Q () (f(p \<mapsto> FileEntry []))) \<Longrightarrow> wp (io_open_new p) Q E C f"
  unfolding io_open_new_def by (rule wp_change) (auto simp: update_conv' split: if_split_asm)

lemma wp_write [wp_intros]:
  assumes "\<And>n. stoppable E C (f(p \<mapsto> FileEntry (take n bs)))" "Q () (f(p \<mapsto> FileEntry bs))"
  shows "wp (io_write p bs) Q E C f"
  using assms unfolding wp_def io_write_def io_call_def stoppable_def
  by (auto simp: Let_def update_conv' split: list.split fault.split)

lemma wp_remove_file [wp_intros]:
  "stoppable E C f \<Longrightarrow> (\<And>e. f p = Some e \<Longrightarrow> e \<noteq> DirEntry \<Longrightarrow> Q () (f(p := None))) \<Longrightarrow> wp (io_remove_file p) Q E C f"
  unfolding io_remove_file_def
  by (rule wp_change) (auto simp: delete_conv' split: option.split_asm entry.split_asm)

lemma wp_create_dir [wp_intros]:
  "stoppable E C f \<Longrightarrow> (f p = None \<Longrightarrow> in_directory f p \<Longrightarrow> Q () (f(p \<mapsto> DirEntry))) \<Longrightarrow> wp (io_create_dir p) Q E C f"
  unfolding io_create_dir_def by (rule wp_change) (auto simp: update_conv' split: if_split_asm)

lemma wp_rename [wp_intros]:
  assumes "stoppable E C f" "a \<noteq> b" "f a \<noteq> Some DirEntry"
    and "\<And>e. f a = Some e \<Longrightarrow> f b \<noteq> Some DirEntry \<Longrightarrow> in_directory f b \<Longrightarrow> Q () (f(a := None, b \<mapsto> e))"
  shows "wp (io_rename a b) Q E C f"
  unfolding io_rename_def rename_entries_def using assms
  by (intro wp_change) (auto simp: update_conv' delete_conv' split: option.split_asm if_split_asm)

text \<open>Directories that may be added on the way to \<open>p\<close>.\<close>

definition dirs_added :: "place \<Rightarrow> (place \<Rightarrow> entry option) \<Rightarrow> assertion" where
  "dirs_added p f g \<longleftrightarrow> (\<forall>q. g q = f q \<or> (f q = None \<and> g q = Some DirEntry \<and> prefix q p))"

lemma dirs_added_refl [simp]: "dirs_added p f f"
  by (simp add: dirs_added_def)

lemma wp_create_dir_all [wp_intros]:
  assumes s: "\<And>g. dirs_added p f g \<Longrightarrow> stoppable E C g" and q: "\<And>g. dirs_added p f g \<Longrightarrow> Q () g"
  shows "wp (io_create_dir_all p) Q E C f"
proof -
  have "wp (io_change (make_dir q)) (\<lambda>_. dirs_added p f) E C g" if "q \<in> set (ancestors p)" "dirs_added p f g" for q g
  proof (rule wp_change [OF s [OF that(2)]])
    fix es es' assume "map_of es = g" "make_dir q es = Inr es'"
    moreover have "prefix q p" using that(1) by (auto simp: ancestors_def take_is_prefix)
    moreover have "g r = f r \<or> (f r = None \<and> g r = Some DirEntry \<and> prefix r p)" for r
      using that(2) by (simp add: dirs_added_def)
    ultimately show "dirs_added p f (map_of es')"
      unfolding dirs_added_def make_dir_def
      by (auto simp: update_conv' split: option.split_asm if_split_asm) (metis option.distinct(1))+
  qed
  then have "wp (io_create_dir_all p) (\<lambda>_. dirs_added p f) E C f"
    unfolding io_create_dir_all_def by (intro wp_each) auto
  then show ?thesis by (rule wp_conseq) (auto intro: q)
qed

text \<open>The lock file comes and goes; whatever is asserted of a program that holds it may not depend on it.\<close>

lemma wp_locked:
  assumes "stoppable E C f"
    and "f lock = None \<Longrightarrow> wp m (\<lambda>v g. Q v g \<and> Q v (g(lock := None)) \<and> C g) (\<lambda>e g. E e g \<and> E e (g(lock := None)) \<and> C g) C
      (f(lock \<mapsto> FileEntry []))"
  shows "wp (io_locked lock message m) Q E C f"
proof -
  have drop: "wp (io_bind (io_ignore (io_remove_file lock)) (\<lambda>_. io_lift r)) Q E C g"
    if "case r of Inr v \<Rightarrow> Q v g \<and> Q v (g(lock := None)) \<and> C g | Inl e \<Rightarrow> E e g \<and> E e (g(lock := None)) \<and> C g" for r g
    using that by (cases r) (auto intro!: wp_intros simp: stoppable_def)
  have "wp (io_catch (io_bind m (\<lambda>v. io_return (Inr v))) (\<lambda>e. io_return (Inl e)))
      (\<lambda>r. wp (io_bind (io_ignore (io_remove_file lock)) (\<lambda>_. io_lift r)) Q E C) E C (f(lock \<mapsto> FileEntry []))" if "f lock = None"
    using assms(2) [OF that] by (intro wp_catch wp_bind) (erule wp_conseq, auto intro!: wp_return drop)
  then have "wp (io_bind (io_catch (io_bind m (\<lambda>v. io_return (Inr v))) (\<lambda>e. io_return (Inl e)))
      (\<lambda>r. io_bind (io_ignore (io_remove_file lock)) (\<lambda>_. io_lift r))) Q E C (f(lock \<mapsto> FileEntry []))" if "f lock = None"
    using that by (intro wp_bind) simp
  then show ?thesis
    using assms(1) unfolding io_locked_def
    by (intro wp_bind [of "io_catch (io_open_new lock) h" for h] wp_catch wp_open_new) (auto simp: stoppable_def intro!: wp_raise)
qed

lemma wp_write_new [wp_intros]:
  assumes "stoppable E C f" "\<And>n. f p = None \<Longrightarrow> stoppable E C (f(p \<mapsto> FileEntry (take n data)))"
    and "f p = None \<Longrightarrow> in_directory f p \<Longrightarrow> Q () (f(p \<mapsto> FileEntry data))"
  shows "wp (io_write_new p data) Q E C f"
  using assms(1,3) assms(2) [of "length data"] assms(2) unfolding io_write_new_def
  by (auto intro!: wp_bind wp_open_new wp_write wp_flush)

lemma wp_replace:
  assumes "stoppable E C f" "E stale f" "root @ [t] \<noteq> target"
    and "\<And>n. f (root @ [t]) = None \<Longrightarrow> stoppable E C (f(root @ [t] \<mapsto> FileEntry (take n data)))"
    and "f (root @ [t]) = None \<Longrightarrow> stoppable E C (f(target \<mapsto> FileEntry data)) \<and> Q () (f(target \<mapsto> FileEntry data))"
  shows "wp (io_replace stale root target t data) Q E C f"
proof -
  let ?t = "root @ [t]"
  have "f(?t := None, target \<mapsto> FileEntry data) = f(target \<mapsto> FileEntry data)" if "f ?t = None"
    using that by (auto simp: fun_eq_iff)
  then have "wp (io_rename ?t target) (\<lambda>_. wp (io_sync root) Q E C) E C (f(?t \<mapsto> FileEntry data))" if "f ?t = None"
    using that assms(3) assms(4) [OF that, of "length data"] assms(5) [OF that]
    by (intro wp_rename wp_sync) (auto simp: fun_upd_twist)
  then show ?thesis using assms(1,2,4) unfolding io_replace_def Let_def
    by (auto intro!: wp_bind wp_exists wp_ensure wp_write_new)
qed

lemma content_of_file [simp]: "content_of (Some (FileEntry bs)) = Inr bs"
  by (simp add: content_of_def)

lemma wp_read_bounded [wp_intros]:
  assumes "stoppable E C f" "E e f"
    and "\<And>bs. f p = Some (FileEntry bs) \<Longrightarrow> length bs \<le> bound \<Longrightarrow> Q bs f"
  shows "wp (io_read_bounded bound e p) Q E C f"
  using assms unfolding io_read_bounded_def
  by (auto intro!: wp_bind wp_lstat wp_ensure wp_read simp: is_bounded_file_def split: entry.split_asm)

lemma wp_real_directory [wp_intros]:
  "stoppable E C f \<Longrightarrow> E e f \<Longrightarrow> (f p = Some DirEntry \<Longrightarrow> Q () f) \<Longrightarrow> wp (io_real_directory e p) Q E C f"
  unfolding io_real_directory_def by (auto intro!: wp_bind wp_lstat wp_ensure)

section \<open>Runs without faults\<close>

text \<open>
  \<open>returns m Q f\<close>: on a disk with the entries \<open>f\<close> on which no call fails, \<open>m\<close> returns a value with \<open>Q\<close>.
  This is the total counterpart of \<open>wp\<close>: it says that a program gets to its end.
\<close>

definition returns :: "'a io \<Rightarrow> ('a \<Rightarrow> assertion) \<Rightarrow> assertion" where
  "returns m Q f \<longleftrightarrow> (\<forall>d. files d = f \<longrightarrow> dk_script d = [] \<longrightarrow>
     (\<exists>v d'. m d = (Done v, d') \<and> dk_script d' = [] \<and> Q v (files d')))"

named_theorems returns_intros \<open>runs without faults of the combinators and calls\<close>

lemma returnsD:
  assumes "returns m Q (files d)" "dk_script d = []"
  obtains v d' where "m d = (Done v, d')" "dk_script d' = []" "Q v (files d')"
  using assms unfolding returns_def by blast

lemma returns_conseq: "returns m Q f \<Longrightarrow> (\<And>v g. Q v g \<Longrightarrow> Q' v g) \<Longrightarrow> returns m Q' f"
  unfolding returns_def by blast

lemma returns_return [returns_intros]: "Q v f \<Longrightarrow> returns (io_return v) Q f"
  by (simp add: returns_def io_return_def)

lemma returns_bind [returns_intros]: "returns m (\<lambda>v. returns (g v) Q) f \<Longrightarrow> returns (io_bind m g) Q f"
  unfolding returns_def io_bind_def by fastforce

lemma returns_lift [returns_intros]: "r = Inr v \<Longrightarrow> Q v f \<Longrightarrow> returns (io_lift r) Q f"
  by (simp add: io_lift_def returns_return)

lemma returns_ensure [returns_intros]: "c \<Longrightarrow> Q () f \<Longrightarrow> returns (io_ensure c e) Q f"
  by (simp add: io_ensure_def returns_return)

lemma returns_when [returns_intros]: "(c \<Longrightarrow> returns m Q f) \<Longrightarrow> (\<not> c \<Longrightarrow> Q () f) \<Longrightarrow> returns (io_when c m) Q f"
  by (simp add: io_when_def returns_return)

lemma returns_catch [returns_intros]: "returns m Q f \<Longrightarrow> returns (io_catch m h) Q f"
  unfolding returns_def io_catch_def by fastforce

lemma returns_query: "(\<And>es. map_of es = f \<Longrightarrow> q es = Inr v) \<Longrightarrow> Q v f \<Longrightarrow> returns (io_query q) Q f"
  unfolding returns_def io_query_def io_call_def by auto

lemma returns_change:
  "(\<And>es. map_of es = f \<Longrightarrow> \<exists>es'. g es = Inr es' \<and> Q () (map_of es')) \<Longrightarrow> returns (io_change g) Q f"
  unfolding returns_def io_change_def io_call_def by fastforce

lemma returns_lstat [returns_intros]: "f p = Some e \<Longrightarrow> Q e f \<Longrightarrow> returns (io_lstat p) Q f"
  unfolding io_lstat_def by (rule returns_query) auto

lemma returns_exists [returns_intros]: "Q (exists_at f p) f \<Longrightarrow> returns (io_exists p) Q f"
  unfolding io_exists_def by (rule returns_query) auto

lemma returns_read [returns_intros]: "content_of (f p) = Inr bs \<Longrightarrow> Q bs f \<Longrightarrow> returns (io_read p) Q f"
  unfolding io_read_def by (rule returns_query) auto

lemma returns_flush [returns_intros]: "Q () f \<Longrightarrow> returns io_flush Q f"
  unfolding io_flush_def by (rule returns_query) auto

lemma returns_sync [returns_intros]: "p = [] \<or> exists_at f p \<Longrightarrow> Q () f \<Longrightarrow> returns (io_sync p) Q f"
  unfolding io_sync_def by (rule returns_query) auto

lemma returns_open_new [returns_intros]:
  "f p = None \<Longrightarrow> in_directory f p \<Longrightarrow> Q () (f(p \<mapsto> FileEntry [])) \<Longrightarrow> returns (io_open_new p) Q f"
  unfolding io_open_new_def by (rule returns_change) (auto simp: update_conv')

lemma returns_write [returns_intros]: "Q () (f(p \<mapsto> FileEntry bs)) \<Longrightarrow> returns (io_write p bs) Q f"
  unfolding returns_def io_write_def io_call_def by (auto simp: update_conv')

lemma returns_remove_file [returns_intros]:
  "f p = Some e \<Longrightarrow> e \<noteq> DirEntry \<Longrightarrow> Q () (f(p := None)) \<Longrightarrow> returns (io_remove_file p) Q f"
  unfolding io_remove_file_def by (rule returns_change) (auto simp: delete_conv' split: entry.split)

lemma returns_rename [returns_intros]:
  "a \<noteq> b \<Longrightarrow> f a = Some e \<Longrightarrow> e \<noteq> DirEntry \<Longrightarrow> f b \<noteq> Some DirEntry \<Longrightarrow> in_directory f b \<Longrightarrow> Q () (f(a := None, b \<mapsto> e)) \<Longrightarrow>
     returns (io_rename a b) Q f"
  unfolding io_rename_def rename_entries_def by (rule returns_change) (auto simp: update_conv' delete_conv')

lemma returns_each_same:
  "(\<And>v. v \<in> set vs \<Longrightarrow> returns (h v) (\<lambda>_ g. g = f) f) \<Longrightarrow> returns (io_each h vs) (\<lambda>_ g. g = f) f"
proof (induction vs)
  case (Cons v vs)
  have "returns (io_each h vs) (\<lambda>_ g. g = f) f" using Cons by simp
  then show ?case using Cons.prems [of v] by (auto intro!: returns_bind elim!: returns_conseq)
qed (simp add: returns_return)

lemma returns_create_dir_all [returns_intros]:
  assumes "\<And>q. q \<noteq> [] \<Longrightarrow> prefix q p \<Longrightarrow> f q = Some DirEntry" "Q () f"
  shows "returns (io_create_dir_all p) Q f"
proof -
  have "returns (io_change (make_dir q)) (\<lambda>_ g. g = f) f" if "q \<in> set (ancestors p)" for q
  proof -
    have "q \<noteq> []" "prefix q p" using that by (auto simp: ancestors_def take_is_prefix)
    with assms(1) have "f q = Some DirEntry" by blast
    then show ?thesis by (intro returns_change) (auto simp: make_dir_def)
  qed
  then have "returns (io_create_dir_all p) (\<lambda>_ g. g = f) f"
    unfolding io_create_dir_all_def by (rule returns_each_same)
  then show ?thesis by (rule returns_conseq) (simp add: assms(2))
qed

lemma returns_locked [returns_intros]:
  assumes "f lock = None" "in_directory f lock"
    and "returns m (\<lambda>v g. g lock = Some (FileEntry []) \<and> Q v (g(lock := None))) (f(lock \<mapsto> FileEntry []))"
  shows "returns (io_locked lock message m) Q f"
proof -
  have "returns (io_bind (io_ignore (io_remove_file lock)) (\<lambda>_. io_lift (Inr v))) Q g" if "g lock = Some (FileEntry [])" "Q v (g(lock := None))" for v g
    unfolding io_ignore_def using that
    by (intro returns_bind returns_catch returns_remove_file [where e = "FileEntry []"] returns_lift) auto
  then show ?thesis unfolding io_locked_def using assms
    by (intro returns_bind returns_catch returns_open_new) (auto intro!: returns_return elim!: returns_conseq)
qed

lemma exists_at_entry [simp]: "f p = Some (FileEntry bs) \<Longrightarrow> exists_at f p" "f p = Some DirEntry \<Longrightarrow> exists_at f p"
  "f p = None \<Longrightarrow> \<not> exists_at f p"
  by (simp_all add: exists_at_def)

lemma in_directory_child [simp]: "in_directory f (p @ [n]) \<longleftrightarrow> p = [] \<or> f p = Some DirEntry"
  by (simp add: in_directory_def)

lemma returns_write_new [returns_intros]:
  "f p = None \<Longrightarrow> in_directory f p \<Longrightarrow> Q () (f(p \<mapsto> FileEntry data)) \<Longrightarrow> returns (io_write_new p data) Q f"
  unfolding io_write_new_def by (auto intro!: returns_bind returns_open_new returns_write returns_flush)

lemma returns_replace [returns_intros]:
  assumes "f root = Some DirEntry" "f (root @ [t]) = None" "root @ [t] \<noteq> root @ [n]" "f (root @ [n]) \<noteq> Some DirEntry"
    and "Q () (f(root @ [n] \<mapsto> FileEntry data))"
  shows "returns (io_replace stale root (root @ [n]) t data) Q f"
proof -
  have "f(root @ [t] \<mapsto> FileEntry data, root @ [t] := None, root @ [n] \<mapsto> FileEntry data) = f(root @ [n] \<mapsto> FileEntry data)"
    using assms(2,3) by (auto simp: fun_eq_iff)
  with assms show ?thesis unfolding io_replace_def Let_def
    by (intro returns_bind returns_exists returns_ensure returns_write_new returns_rename [where e = "FileEntry data"] returns_sync)
      (auto simp: exists_at_def)
qed

lemma returns_read_bounded [returns_intros]:
  "f p = Some (FileEntry bs) \<Longrightarrow> length bs \<le> bound \<Longrightarrow> Q bs f \<Longrightarrow> returns (io_read_bounded bound e p) Q f"
  unfolding io_read_bounded_def
  by (intro returns_bind returns_lstat returns_ensure returns_read) (auto simp: is_bounded_file_def)

lemma returns_real_directory [returns_intros]:
  "f p = Some DirEntry \<Longrightarrow> Q () f \<Longrightarrow> returns (io_real_directory e p) Q f"
  unfolding io_real_directory_def by (intro returns_bind returns_lstat returns_ensure) auto

section \<open>Frames\<close>

text \<open>\<open>frames ps m\<close>: whatever happens, \<open>m\<close> changes nothing outside the paths \<open>ps\<close> and what is below them.\<close>

definition frames :: "place set \<Rightarrow> 'a io \<Rightarrow> bool" where
  "frames ps m \<longleftrightarrow> (\<forall>d r d' p. m d = (r, d') \<longrightarrow> (\<forall>q \<in> ps. \<not> prefix q p) \<longrightarrow> files d' p = files d p)"

named_theorems frame_intros \<open>frames of the combinators and calls\<close>

lemma framesD: "frames ps m \<Longrightarrow> m d = (r, d') \<Longrightarrow> (\<And>q. q \<in> ps \<Longrightarrow> \<not> prefix q p) \<Longrightarrow> files d' p = files d p"
  unfolding frames_def by blast

lemma frames_mono: "frames ps m \<Longrightarrow> ps \<subseteq> qs \<Longrightarrow> frames qs m"
  unfolding frames_def by blast

lemma frames_return [frame_intros]: "frames ps (io_return v)"
  by (simp add: frames_def io_return_def)

lemma frames_raise [frame_intros]: "frames ps (io_raise e)"
  by (simp add: frames_def io_raise_def)

lemma frames_bind [frame_intros]: "frames ps m \<Longrightarrow> (\<And>v. frames ps (g v)) \<Longrightarrow> frames ps (io_bind m g)"
  unfolding frames_def io_bind_def by (fastforce split: prod.split_asm run.split_asm)

lemma frames_catch [frame_intros]: "frames ps m \<Longrightarrow> (\<And>e. frames ps (h e)) \<Longrightarrow> frames ps (io_catch m h)"
  unfolding frames_def io_catch_def by (fastforce split: prod.split_asm run.split_asm)

lemma frames_lift [frame_intros]: "frames ps (io_lift r)"
  by (cases r) (simp_all add: io_lift_def frame_intros)

lemma frames_ensure [frame_intros]: "frames ps (io_ensure c e)"
  by (simp add: io_ensure_def frame_intros)

lemma frames_when [frame_intros]: "(c \<Longrightarrow> frames ps m) \<Longrightarrow> frames ps (io_when c m)"
  by (simp add: io_when_def frame_intros)

lemma frames_ignore [frame_intros]: "frames ps m \<Longrightarrow> frames ps (io_ignore m)"
  unfolding io_ignore_def by (intro frame_intros)

lemma frames_each [frame_intros]: "(\<And>v. v \<in> set vs \<Longrightarrow> frames ps (h v)) \<Longrightarrow> frames ps (io_each h vs)"
  by (induction vs) (simp_all add: frame_intros)

lemma frames_call:
  assumes "\<And>es v es' p. effect es = Inr (v, es') \<Longrightarrow> (\<And>q. q \<in> ps \<Longrightarrow> \<not> prefix q p) \<Longrightarrow> map_of es' p = map_of es p"
    and "\<And>n es p. (\<And>q. q \<in> ps \<Longrightarrow> \<not> prefix q p) \<Longrightarrow> map_of (partly n es) p = map_of es p"
  shows "frames ps (io_call effect partly)"
  using assms unfolding frames_def io_call_def
  by (auto simp: Let_def split: list.split_asm fault.split_asm sum.split_asm prod.split_asm)

lemma frames_query [frame_intros]: "frames ps (io_query q)"
  unfolding io_query_def by (rule frames_call) (auto simp: result_simps)

lemma frames_change:
  assumes "\<And>es es' p. g es = Inr es' \<Longrightarrow> (\<And>q. q \<in> ps \<Longrightarrow> \<not> prefix q p) \<Longrightarrow> map_of es' p = map_of es p"
  shows "frames ps (io_change g)"
  unfolding io_change_def using assms by (intro frames_call) (auto simp: result_simps)

lemma frames_reads [frame_intros]: "frames ps (io_lstat p)" "frames ps (io_exists p)" "frames ps (io_read p)" "frames ps io_flush" "frames ps (io_sync p)"
  "frames ps (io_read_bounded n e p)" "frames ps (io_real_directory e p)"
  unfolding io_lstat_def io_exists_def io_read_def io_flush_def io_sync_def io_read_bounded_def io_real_directory_def
  by (intro frame_intros)+

lemma frames_change_at:
  assumes "p \<in> ps" "\<And>es es' q. g es = Inr es' \<Longrightarrow> q \<noteq> p \<Longrightarrow> map_of es' q = map_of es q"
  shows "frames ps (io_change g)"
proof (rule frames_change)
  fix es es' q assume g: "g es = Inr es'" and q: "\<And>q'. q' \<in> ps \<Longrightarrow> \<not> prefix q' q"
  have "q \<noteq> p" using q [OF assms(1)] by auto
  then show "map_of es' q = map_of es q" by (rule assms(2) [OF g])
qed

lemma frames_open_new [frame_intros]: "p \<in> ps \<Longrightarrow> frames ps (io_open_new p)"
  unfolding io_open_new_def by (erule frames_change_at) (auto simp: update_conv' split: if_split_asm)

lemma frames_write [frame_intros]: "p \<in> ps \<Longrightarrow> frames ps (io_write p bs)"
  unfolding io_write_def by (intro frames_call) (force simp: update_conv')+

lemma frames_remove_file [frame_intros]: "p \<in> ps \<Longrightarrow> frames ps (io_remove_file p)"
  unfolding io_remove_file_def
  by (erule frames_change_at) (auto simp: delete_conv' split: option.split_asm entry.split_asm)

lemma frames_create_dir [frame_intros]: "p \<in> ps \<Longrightarrow> frames ps (io_create_dir p)"
  unfolding io_create_dir_def by (erule frames_change_at) (auto simp: update_conv' split: if_split_asm)

lemma moved_iff: "\<not> prefix a q \<Longrightarrow> \<not> prefix b q \<Longrightarrow> moved a b p = q \<longleftrightarrow> p = q"
  "\<not> prefix a q \<Longrightarrow> \<not> prefix b q \<Longrightarrow> q = moved a b p \<longleftrightarrow> p = q"
  by (auto simp: moved_def)

lemma map_of_moved:
  assumes "\<not> prefix a q" "\<not> prefix b q"
  shows "map_of (map (\<lambda>(p, e). (moved a b p, e)) es) q = map_of es q"
  using moved_iff [OF assms] by (induction es) (auto simp: case_prod_beta)

lemma frames_rename [frame_intros]:
  assumes "a \<in> ps" "b \<in> ps"
  shows "frames ps (io_rename a b)"
  unfolding io_rename_def
proof (rule frames_change)
  fix es es' p assume r: "rename_entries a b es = Inr es'" and p: "\<And>q. q \<in> ps \<Longrightarrow> \<not> prefix q p"
  have "\<not> prefix a p" "\<not> prefix b p" using p assms by blast+
  moreover from this have "p \<noteq> a" "p \<noteq> b" by auto
  ultimately show "map_of es' p = map_of es p" using r map_of_moved [of a p b]
    by (auto simp: rename_entries_def update_conv' delete_conv' split: option.split_asm if_split_asm entry.split_asm)
qed

lemma frames_write_new [frame_intros]: "p \<in> ps \<Longrightarrow> frames ps (io_write_new p bs)"
  unfolding io_write_new_def by (intro frame_intros)

lemma frames_replace [frame_intros]: "root @ [t] \<in> ps \<Longrightarrow> target \<in> ps \<Longrightarrow> frames ps (io_replace stale root target t bs)"
  unfolding io_replace_def Let_def by (intro frame_intros)

lemma frames_locked [frame_intros]: "lock \<in> ps \<Longrightarrow> frames ps m \<Longrightarrow> frames ps (io_locked lock message m)"
  unfolding io_locked_def by (intro frame_intros)

text \<open>Runs of composed programs that return.\<close>

lemma io_bind_Done: "io_bind m g d = (Done v, d') \<longleftrightarrow> (\<exists>u e. m d = (Done u, e) \<and> g u e = (Done v, d'))"
  by (auto simp: io_bind_def split: prod.split run.split)

lemma io_return_Done [simp]: "io_return v d = (Done u, d') \<longleftrightarrow> u = v \<and> d' = d"
  by (auto simp: io_return_def)

lemma io_lift_Done: "io_lift r d = (Done u, d') \<longleftrightarrow> r = Inr u \<and> d' = d"
  by (cases r) (auto simp: io_lift_def io_raise_def)

lemma io_ensure_Done: "io_ensure c e d = (Done u, d') \<longleftrightarrow> c \<and> d' = d"
  by (auto simp: io_ensure_def io_raise_def)

lemmas io_Done = io_bind_Done io_lift_Done io_ensure_Done

lemma io_bind_assoc: "io_bind (io_bind m g) h = io_bind m (\<lambda>v. io_bind (g v) h)"
  by (rule ext) (auto simp: io_bind_def split: prod.split run.split)

lemma io_bind_return [simp]: "io_bind (io_return v) g = g v" "io_bind m io_return = m"
  by (rule ext, auto simp: io_bind_def io_return_def split: prod.split run.split)+

text \<open>Two facts about one program.\<close>

lemma wp_conj:
  "wp m Q E C f \<Longrightarrow> wp m Q' E' C' f \<Longrightarrow> wp m (\<lambda>v g. Q v g \<and> Q' v g) (\<lambda>e g. E e g \<and> E' e g) (\<lambda>g. C g \<and> C' g) f"
  unfolding wp_def by (fastforce split: prod.splits run.splits)

section \<open>Directories\<close>

lemma map_of_fst: "map_of es = f \<Longrightarrow> q \<in> fst ` set es \<longleftrightarrow> f q \<noteq> None"
  by (metis map_of_eq_None_iff)

lemma is_empty_dir_iff: "map_of es = f \<Longrightarrow> is_empty_dir p es \<longleftrightarrow> (\<forall>q. strict_prefix p q \<longrightarrow> f q = None)"
proof -
  assume f: "map_of es = f"
  have "is_empty_dir p es \<longleftrightarrow> (\<forall>q \<in> fst ` set es. \<not> strict_prefix p q)" by (auto simp: is_empty_dir_def list_all_iff)
  then show ?thesis using map_of_fst [OF f] by blast
qed

lemma children_facts: "map_of es = f \<Longrightarrow> distinct (children p es) \<and> set (children p es) = {q. q \<noteq> [] \<and> butlast q = p \<and> f q \<noteq> None}"
proof -
  assume f: "map_of es = f"
  have "set (children p es) = {q \<in> fst ` set es. q \<noteq> [] \<and> butlast q = p}" by (auto simp: children_def)
  then show ?thesis using map_of_fst [OF f] by (auto simp: children_def)
qed

lemma wp_remove_dir [wp_intros]:
  "stoppable E C f \<Longrightarrow> (f p = Some DirEntry \<Longrightarrow> \<forall>q. strict_prefix p q \<longrightarrow> f q = None \<Longrightarrow> Q () (f(p := None))) \<Longrightarrow> wp (io_remove_dir p) Q E C f"
  unfolding io_remove_dir_def
  by (rule wp_change) (auto simp: delete_conv' is_empty_dir_iff split: option.split_asm entry.split_asm if_split_asm)

lemma wp_read_dir [wp_intros]:
  "stoppable E C f \<Longrightarrow> (\<And>ps. distinct ps \<Longrightarrow> set ps = {q. q \<noteq> [] \<and> butlast q = p \<and> f q \<noteq> None} \<Longrightarrow> Q ps f) \<Longrightarrow> wp (io_read_dir p) Q E C f"
  unfolding io_read_dir_def
proof (rule wp_query)
  fix es v assume q: "\<And>ps. distinct ps \<Longrightarrow> set ps = {q. q \<noteq> [] \<and> butlast q = p \<and> f q \<noteq> None} \<Longrightarrow> Q ps f"
    and es: "map_of es = f" "(case Option.bind (map_of es p) follow of None \<Rightarrow> Inl no_such_file | Some DirEntry \<Rightarrow> Inr (children p es)
      | Some _ \<Rightarrow> Inl ''Not a directory'') = Inr v"
  then have "v = children p es" by (auto split: option.split_asm entry.split_asm)
  then show "Q v f" using q children_facts [OF es(1)] by blast
qed

lemma frames_remove_dir [frame_intros]: "p \<in> ps \<Longrightarrow> frames ps (io_remove_dir p)" "frames ps (io_read_dir q)"
  unfolding io_remove_dir_def io_read_dir_def
  by (erule frames_change_at, auto simp: delete_conv' split: option.split_asm entry.split_asm if_split_asm intro: frames_query)

lemma returns_create_dir [returns_intros]:
  "f p = None \<Longrightarrow> in_directory f p \<Longrightarrow> Q () (f(p \<mapsto> DirEntry)) \<Longrightarrow> returns (io_create_dir p) Q f"
  unfolding io_create_dir_def by (rule returns_change) (auto simp: update_conv')

lemma returns_remove_dir [returns_intros]:
  "f p = Some DirEntry \<Longrightarrow> \<forall>q. strict_prefix p q \<longrightarrow> f q = None \<Longrightarrow> Q () (f(p := None)) \<Longrightarrow> returns (io_remove_dir p) Q f"
  unfolding io_remove_dir_def by (rule returns_change) (auto simp: delete_conv' is_empty_dir_iff)

lemma returns_read_dir [returns_intros]:
  assumes "f p = Some DirEntry" "\<And>ps. distinct ps \<Longrightarrow> set ps = {q. q \<noteq> [] \<and> butlast q = p \<and> f q \<noteq> None} \<Longrightarrow> Q ps f"
  shows "returns (io_read_dir p) Q f"
  using assms children_facts unfolding returns_def io_read_dir_def io_query_def io_call_def by fastforce

lemma returns_each_remove:
  "distinct ps \<Longrightarrow> \<forall>p \<in> set ps. \<exists>bs. f p = Some (FileEntry bs) \<Longrightarrow> Q () (\<lambda>q. if q \<in> set ps then None else f q) \<Longrightarrow>
     returns (io_each io_remove_file ps) Q f"
proof (induction ps arbitrary: f)
  case (Cons p ps)
  obtain bs where p: "f p = Some (FileEntry bs)" using Cons.prems(2) by auto
  have "(\<lambda>q. if q \<in> set ps then None else (f(p := None)) q) = (\<lambda>q. if q \<in> set (p # ps) then None else f q)" by (rule ext) simp
  then have "returns (io_each io_remove_file ps) Q (f(p := None))" using Cons.prems by (intro Cons.IH) auto
  then show ?case using p by (auto intro!: returns_bind returns_remove_file)
qed (simp add: returns_return)

end
