(* ===== verification/Deployment.thy ===== *)
theory Deployment
  imports Protocol Disk
begin

text \<open>
  Deployment of a certified candidate with its state (\<open>src/deployment.rs\<close>): the active image and the image
  to roll back to are two files of a directory, replaced through staging files under a lock. The programs
  run on the disks of theory Disk, so each theorem covers a failure or the death of the process at every
  call.
\<close>

section \<open>Data\<close>

definition MAX_DEPLOYMENT_BYTES :: nat where "MAX_DEPLOYMENT_BYTES = 1048576"

record StateSnapshot =
  sn_schema_version :: string
  sn_state :: string
  sn_revision :: u64

record SnapshotTransform =
  tf_from_schema :: string
  tf_to_schema :: string
  tf_state_map :: "(string, string) btree_map"

record DeploymentBundle =
  db_version :: string
  db_candidate :: Candidate
  db_candidate_digest :: string
  db_state :: StateSnapshot
  db_source_state_digest :: string
  db_state_transform_digest :: string

datatype FailurePoint = NoFailurePoint | AfterRollbackPrepared | BeforeActivation

record DeploymentReceipt =
  dr_active_digest :: string
  dr_candidate_digest :: string
  dr_state_transform_digest :: string
  dr_rollback_available :: bool
  dr_state_revision :: u64

record deployment_ext = protocol_ext +
  x_snapshot_value :: "StateSnapshot serialize"
  x_transform_value :: "SnapshotTransform serialize"
  x_deployment_value :: "DeploymentBundle serialize"
  x_parse_deployment :: "bytes \<Rightarrow> (string, DeploymentBundle) result"

abbreviation dp_digest :: "'x deployment_ext_scheme \<Rightarrow> 'a serialize \<Rightarrow> 'a \<Rightarrow> (Error, string) result" where
  "dp_digest x to_value v \<equiv> canonical_digest (x_sha256 x) (x_hex_encode x) (x_json_vec x) to_value v"

abbreviation dp_bytes_digest :: "'x deployment_ext_scheme \<Rightarrow> bytes \<Rightarrow> string" where
  "dp_bytes_digest x bs \<equiv> bytes_digest (x_sha256 x) (x_hex_encode x) bs"

section \<open>Images\<close>

definition is_digest :: "'x external_scheme \<Rightarrow> string \<Rightarrow> bool" where
  "is_digest x value \<longleftrightarrow> length value = 64 \<and> x_hex_decode x value \<noteq> None"

definition decode_bundle :: "'x deployment_ext_scheme \<Rightarrow> bytes \<Rightarrow> (Error, DeploymentBundle) result" where
  "decode_bundle x bs =
     rbind (map_err (\<lambda>error. InvalidEvidence (''deployment image is invalid: '' @ error)) (x_parse_deployment x bs)) (\<lambda>bundle.
     rbind (grammar_validate (cd_grammar (db_candidate bundle))) (\<lambda>_.
      if db_version bundle \<noteq> ''deployment-v1'' then Inl (InvalidEvidence ''deployment image integrity or state binding is invalid'') else
     rbind (dp_digest x (x_candidate_value x) (db_candidate bundle)) (\<lambda>candidate_digest.
      if db_candidate_digest bundle \<noteq> candidate_digest \<or>
         sn_state (db_state bundle) \<notin> set (gr_states (cd_grammar (db_candidate bundle))) \<or>
         sn_schema_version (db_state bundle) \<noteq> gr_version (cd_grammar (db_candidate bundle)) \<or>
         \<not> is_digest x (db_source_state_digest bundle) \<or> \<not> is_digest x (db_state_transform_digest bundle)
      then Inl (InvalidEvidence ''deployment image integrity or state binding is invalid'') else Inr bundle)))"

definition validate_transform :: "Candidate \<Rightarrow> StateSnapshot \<Rightarrow> SnapshotTransform \<Rightarrow> (Error, unit) result" where
  "validate_transform candidate source transform =
     (if tf_from_schema transform \<noteq> sn_schema_version source \<or> tf_to_schema transform \<noteq> gr_version (cd_grammar candidate) \<or>
         tf_state_map transform = [] \<or> length (tf_state_map transform) > 64 \<or>
         (\<exists>entry \<in> set (tf_state_map transform). snd entry \<notin> set (gr_states (cd_grammar candidate)))
      then Inl (InvalidEvidence ''state transform does not match the source and candidate schemas'') else Inr ())"

section \<open>Files\<close>

definition dp_write_new_synced :: "place \<Rightarrow> bytes \<Rightarrow> unit io" where
  "dp_write_new_synced = io_write_new"

definition dp_atomic_replace :: "place \<Rightarrow> place \<Rightarrow> string \<Rightarrow> bytes \<Rightarrow> unit io" where
  "dp_atomic_replace = io_replace (InvalidEvidence ''stale deployment staging file'')"

definition dp_read_regular_bounded :: "place \<Rightarrow> bytes io" where
  "dp_read_regular_bounded = io_read_bounded MAX_DEPLOYMENT_BYTES (InvalidEvidence ''deployment image is not a bounded regular file'')"

definition reject_links :: "place \<Rightarrow> unit io" where
  "reject_links = io_real_directory (InvalidEvidence ''deployment root must be a real directory'')"

definition dp_active :: "place \<Rightarrow> place" where "dp_active root = root @ [''active.json'']"
definition dp_rollback :: "place \<Rightarrow> place" where "dp_rollback root = root @ [''rollback.json'']"

definition with_deployment_lock :: "place \<Rightarrow> 'a io \<Rightarrow> 'a io" where
  "with_deployment_lock root m = io_locked (root @ [''.deploy.lock'']) ''deployment transaction is locked'' m"

section \<open>Operations\<close>

text \<open>The new image and its bytes.\<close>

definition next_bundle :: "'x deployment_ext_scheme \<Rightarrow> Candidate \<Rightarrow> StateSnapshot \<Rightarrow> SnapshotTransform \<Rightarrow> (Error, DeploymentBundle) result" where
  "next_bundle x candidate source transform =
     rbind (ok_or (InvalidEvidence ''state transform has no mapping for current state'') (bt_get (tf_state_map transform) (sn_state source))) (\<lambda>mapped.
     rbind (ok_or (InvalidEvidence ''state revision overflow'') (checked_add (sn_revision source) 1)) (\<lambda>revision.
     rbind (dp_digest x (x_candidate_value x) candidate) (\<lambda>candidate_digest.
     rbind (dp_digest x (x_snapshot_value x) source) (\<lambda>source_digest.
     rbind (dp_digest x (x_transform_value x) transform) (\<lambda>transform_digest.
       Inr \<lparr>db_version = ''deployment-v1'', db_candidate = candidate, db_candidate_digest = candidate_digest,
         db_state = \<lparr>sn_schema_version = tf_to_schema transform, sn_state = mapped, sn_revision = revision\<rparr>,
         db_source_state_digest = source_digest, db_state_transform_digest = transform_digest\<rparr>)))))"

definition encode_bundle :: "'x deployment_ext_scheme \<Rightarrow> DeploymentBundle \<Rightarrow> (Error, bytes) result" where
  "encode_bundle x bundle =
     rbind (canonical_encode (x_json_vec x) (x_deployment_value x) bundle) (\<lambda>bs.
       if length bs > MAX_DEPLOYMENT_BYTES then Inl (SearchExhausted ''deployment bundle exceeds 1 MiB'') else Inr bs)"

definition prepare_rollback :: "'x deployment_ext_scheme \<Rightarrow> place \<Rightarrow> bool io" where
  "prepare_rollback x root =
     io_bind (io_exists (dp_active root)) (\<lambda>had_active.
     io_bind (io_when had_active
       (io_bind (dp_read_regular_bounded (dp_active root)) (\<lambda>previous.
        io_bind (io_lift (decode_bundle x previous)) (\<lambda>_.
          dp_atomic_replace root (dp_rollback root) ''rollback.tmp'' previous)))) (\<lambda>_.
       io_return had_active))"

definition activate_image :: "place \<Rightarrow> FailurePoint \<Rightarrow> bytes \<Rightarrow> unit io" where
  "activate_image root failure bs =
     (let staged = root @ [''active.tmp''] in
      io_bind (dp_write_new_synced staged bs) (\<lambda>_.
      io_bind (io_when (failure = BeforeActivation)
        (io_bind (io_remove_file staged) (\<lambda>_. io_raise (Io ''injected failure before activation'')))) (\<lambda>_.
      io_bind (io_rename staged (dp_active root)) (\<lambda>_. io_sync root))))"

definition deploy_body :: "'x deployment_ext_scheme \<Rightarrow> place \<Rightarrow> Candidate \<Rightarrow> StateSnapshot \<Rightarrow> SnapshotTransform \<Rightarrow> FailurePoint \<Rightarrow> DeploymentReceipt io" where
  "deploy_body x root candidate source transform failure =
     io_bind (prepare_rollback x root) (\<lambda>had_active.
     io_bind (io_when (failure = AfterRollbackPrepared) (io_raise (Io ''injected failure after rollback preparation''))) (\<lambda>_.
     io_bind (io_lift (next_bundle x candidate source transform)) (\<lambda>bundle.
     io_bind (io_lift (encode_bundle x bundle)) (\<lambda>bs.
     io_bind (activate_image root failure bs) (\<lambda>_.
     io_bind (io_lift (dp_digest x (x_candidate_value x) candidate)) (\<lambda>candidate_digest.
       io_return \<lparr>dr_active_digest = dp_bytes_digest x bs, dr_candidate_digest = candidate_digest,
         dr_state_transform_digest = db_state_transform_digest bundle, dr_rollback_available = had_active,
         dr_state_revision = sn_revision (db_state bundle)\<rparr>))))))"

definition deploy_with_failure :: "'x deployment_ext_scheme \<Rightarrow> place \<Rightarrow> RecoveryResult \<Rightarrow> StateSnapshot \<Rightarrow> SnapshotTransform \<Rightarrow> FailurePoint \<Rightarrow> DeploymentReceipt io" where
  "deploy_with_failure x root recovery source transform failure =
     (case recovery of
        Refused _ _ \<Rightarrow> io_raise (CheckerRejected ''only a certified recovery can be deployed'')
      | Certified candidate _ _ \<Rightarrow>
          io_bind (io_lift (validate_transform candidate source transform)) (\<lambda>_.
          io_bind (io_create_dir_all root) (\<lambda>_.
          io_bind (reject_links root) (\<lambda>_.
            with_deployment_lock root (deploy_body x root candidate source transform failure)))))"

definition deploy :: "'x deployment_ext_scheme \<Rightarrow> place \<Rightarrow> RecoveryResult \<Rightarrow> StateSnapshot \<Rightarrow> SnapshotTransform \<Rightarrow> DeploymentReceipt io" where
  "deploy x root recovery source transform = deploy_with_failure x root recovery source transform NoFailurePoint"

definition dp_rollback_body :: "'x deployment_ext_scheme \<Rightarrow> place \<Rightarrow> DeploymentReceipt io" where
  "dp_rollback_body x root =
       io_bind (dp_read_regular_bounded (dp_rollback root)) (\<lambda>bs.
       io_bind (io_lift (decode_bundle x bs)) (\<lambda>bundle.
       io_bind (dp_atomic_replace root (dp_active root) ''active.tmp'' bs) (\<lambda>_.
       io_bind (io_lift (dp_digest x (x_candidate_value x) (db_candidate bundle))) (\<lambda>candidate_digest.
         io_return \<lparr>dr_active_digest = dp_bytes_digest x bs, dr_candidate_digest = candidate_digest,
           dr_state_transform_digest = db_state_transform_digest bundle, dr_rollback_available = True,
           dr_state_revision = sn_revision (db_state bundle)\<rparr>))))"

definition dp_rollback_op :: "'x deployment_ext_scheme \<Rightarrow> place \<Rightarrow> DeploymentReceipt io" where
  "dp_rollback_op x root =
     io_bind (reject_links root) (\<lambda>_. with_deployment_lock root (dp_rollback_body x root))"

definition read_active :: "'x deployment_ext_scheme \<Rightarrow> place \<Rightarrow> DeploymentBundle io" where
  "read_active x root =
     io_bind (dp_read_regular_bounded (dp_active root)) (\<lambda>bs. io_lift (decode_bundle x bs))"

section \<open>The two slots\<close>

text \<open>
  The abstract state is the pair of the active image and the image to roll back to. A deployment moves the
  active image to the second slot, if there is one, and installs the new image in the first.
\<close>

definition slots :: "place \<Rightarrow> (place \<Rightarrow> entry option) \<Rightarrow> entry option \<times> entry option" where
  "slots root f = (f (dp_active root), f (dp_rollback root))"

definition kept_image :: "place \<Rightarrow> (place \<Rightarrow> entry option) \<Rightarrow> entry option" where
  "kept_image root f = (if exists_at f (dp_active root) then f (dp_active root) else f (dp_rollback root))"

definition valid_image :: "'x deployment_ext_scheme \<Rightarrow> entry option \<Rightarrow> bool" where
  "valid_image x e \<longleftrightarrow> (\<exists>bs bundle. e = Some (FileEntry bs) \<and> length bs \<le> MAX_DEPLOYMENT_BYTES \<and> decode_bundle x bs = Inr bundle)"

lemma root_files [simp]: "root @ [n] = dp_active root \<longleftrightarrow> n = ''active.json''" "root @ [n] = dp_rollback root \<longleftrightarrow> n = ''rollback.json''"
  "dp_active root = root @ [n] \<longleftrightarrow> n = ''active.json''" "dp_rollback root = root @ [n] \<longleftrightarrow> n = ''rollback.json''"
  "dp_active root \<noteq> dp_rollback root" "dp_rollback root \<noteq> dp_active root"
  by (auto simp: dp_active_def dp_rollback_def)

lemma slots_other [simp]: "n \<noteq> ''active.json'' \<Longrightarrow> n \<noteq> ''rollback.json'' \<Longrightarrow> slots root (f(root @ [n] := e)) = slots root f"
  by (simp add: slots_def)

lemma slots_active [simp]: "slots root (f(dp_active root := e)) = (e, snd (slots root f))"
  by (simp add: slots_def)

lemma slots_rollback [simp]: "slots root (f(dp_rollback root := e)) = (fst (slots root f), e)"
  by (simp add: slots_def)

lemma dirs_added_child: "dirs_added root f g \<Longrightarrow> g (root @ [n]) = f (root @ [n])"
  unfolding dirs_added_def by (metis append_self_conv2 not_Cons_self2 prefix_def append_Nil2 append.assoc same_append_eq append_is_Nil_conv)

lemma slots_dirs_added:
  assumes "dirs_added root f g"
  shows "slots root g = slots root f" "kept_image root g = kept_image root f"
  using dirs_added_child [OF assms, of "''active.json''"] dirs_added_child [OF assms, of "''rollback.json''"]
  by (simp_all add: slots_def kept_image_def dp_active_def dp_rollback_def exists_at_def)

text \<open>A program that only cares about the slots.\<close>

definition on_slots :: "place \<Rightarrow> (entry option \<times> entry option) set \<Rightarrow> assertion" where
  "on_slots root S f \<longleftrightarrow> slots root f \<in> S"

lemma stoppable_slots: "stoppable (\<lambda>_. on_slots root S) (on_slots root S) f \<longleftrightarrow> slots root f \<in> S"
  by (auto simp: stoppable_def on_slots_def)

lemma wp_prepare_rollback:
  assumes "slots root f \<in> S" "(f (dp_active root), kept_image root f) \<in> S"
    and "\<And>g. slots root g = (f (dp_active root), kept_image root f) \<Longrightarrow>
      (exists_at f (dp_active root) \<Longrightarrow> valid_image x (f (dp_active root))) \<Longrightarrow> Q (exists_at f (dp_active root)) g"
  shows "wp (prepare_rollback x root) Q (\<lambda>_. on_slots root S) (on_slots root S) f"
  unfolding prepare_rollback_def dp_read_regular_bounded_def dp_atomic_replace_def
  using assms
  by (intro wp_bind wp_exists wp_when wp_read_bounded wp_lift wp_replace wp_return)
    (auto simp: stoppable_slots on_slots_def kept_image_def slots_def valid_image_def intro!: wp_return)

lemma wp_activate_image:
  assumes "slots root f \<in> S" "failure = NoFailurePoint \<Longrightarrow> (Some (FileEntry bs), snd (slots root f)) \<in> S"
    and "\<And>g. failure \<noteq> BeforeActivation \<Longrightarrow> slots root g = (Some (FileEntry bs), snd (slots root f)) \<Longrightarrow> Q () g"
    and "failure \<noteq> AfterRollbackPrepared"
  shows "wp (activate_image root failure bs) Q (\<lambda>_. on_slots root S) (on_slots root S) f"
proof -
  have "(Some (FileEntry bs), f (dp_rollback root)) \<in> S" if "failure \<noteq> BeforeActivation"
    using that assms(2,4) by (cases failure) (auto simp: slots_def)
  with assms(1,3) show ?thesis
    unfolding activate_image_def dp_write_new_synced_def Let_def
    by (intro wp_bind wp_write_new wp_when wp_remove_file wp_raise wp_rename wp_sync)
      (auto simp: stoppable_slots on_slots_def slots_def)
qed

text \<open>What a deployment may leave in the slots when it does not return a receipt.\<close>

definition new_image :: "'x deployment_ext_scheme \<Rightarrow> RecoveryResult \<Rightarrow> StateSnapshot \<Rightarrow> SnapshotTransform \<Rightarrow> bytes \<Rightarrow> bool" where
  "new_image x recovery source transform bs \<longleftrightarrow>
     (\<exists>candidate wasm certificate bundle. recovery = Certified candidate wasm certificate \<and>
        validate_transform candidate source transform = Inr () \<and>
        next_bundle x candidate source transform = Inr bundle \<and> encode_bundle x bundle = Inr bs)"

definition interrupted :: "'x deployment_ext_scheme \<Rightarrow> place \<Rightarrow> RecoveryResult \<Rightarrow> StateSnapshot \<Rightarrow> SnapshotTransform \<Rightarrow> FailurePoint \<Rightarrow>
    (place \<Rightarrow> entry option) \<Rightarrow> (entry option \<times> entry option) set" where
  "interrupted x root recovery source transform failure f =
     {slots root f, (f (dp_active root), kept_image root f)} \<union>
     {(Some (FileEntry bs), kept_image root f) | bs. failure = NoFailurePoint \<and> new_image x recovery source transform bs}"

definition deployed :: "'x deployment_ext_scheme \<Rightarrow> place \<Rightarrow> RecoveryResult \<Rightarrow> StateSnapshot \<Rightarrow> SnapshotTransform \<Rightarrow> FailurePoint \<Rightarrow>
    (place \<Rightarrow> entry option) \<Rightarrow> DeploymentReceipt \<Rightarrow> assertion" where
  "deployed x root recovery source transform failure f receipt g \<longleftrightarrow>
     failure = NoFailurePoint \<and> (exists_at f (dp_active root) \<longrightarrow> valid_image x (f (dp_active root))) \<and>
     dr_rollback_available receipt = exists_at f (dp_active root) \<and>
     (\<exists>bs. new_image x recovery source transform bs \<and> dr_active_digest receipt = dp_bytes_digest x bs \<and>
        slots root g = (Some (FileEntry bs), kept_image root f))"

lemma wp_deploy_body:
  fixes x :: "'x deployment_ext_scheme"
  assumes rec: "recovery = Certified candidate wasm certificate" "validate_transform candidate source transform = Inr ()"
  shows "wp (deploy_body x root candidate source transform failure) (deployed x root recovery source transform failure f)
    (\<lambda>_. on_slots root (interrupted x root recovery source transform failure f))
    (on_slots root (interrupted x root recovery source transform failure f)) f"
proof -
  let ?S = "interrupted x root recovery source transform failure f"
  have new: "(Some (FileEntry bs), kept_image root f) \<in> ?S" if "failure = NoFailurePoint" "new_image x recovery source transform bs" for bs
    using that by (auto simp: interrupted_def)
  have old: "slots root f \<in> ?S" "(f (dp_active root), kept_image root f) \<in> ?S" by (auto simp: interrupted_def)
  have act: "wp (activate_image root failure bs)
      (\<lambda>_. wp (io_bind (io_lift (dp_digest x (x_candidate_value x) candidate)) (\<lambda>candidate_digest.
         io_return \<lparr>dr_active_digest = dp_bytes_digest x bs, dr_candidate_digest = candidate_digest,
         dr_state_transform_digest = db_state_transform_digest img, dr_rollback_available = exists_at f (dp_active root),
         dr_state_revision = sn_revision (db_state img)\<rparr>)) (deployed x root recovery source transform failure f) (\<lambda>_. on_slots root ?S) (on_slots root ?S))
      (\<lambda>_. on_slots root ?S) (on_slots root ?S) g"
    if g: "slots root g = (f (dp_active root), kept_image root f)" "exists_at f (dp_active root) \<longrightarrow> valid_image x (f (dp_active root))"
      and b: "next_bundle x candidate source transform = Inr img" "encode_bundle x img = Inr bs" "failure \<noteq> AfterRollbackPrepared" for g img bs
  proof -
    have n: "new_image x recovery source transform bs" using rec b by (auto simp: new_image_def)
    have "failure = NoFailurePoint" if "failure \<noteq> BeforeActivation" using that b(3) by (cases failure) auto
    then show ?thesis
      using n g b(3) old new [OF _ n]
      by (intro wp_activate_image) (auto intro!: wp_bind wp_lift wp_return simp: deployed_def on_slots_def)
  qed
  show ?thesis unfolding deploy_body_def using old
    by (intro wp_bind wp_prepare_rollback wp_when wp_raise wp_lift act) (auto simp: on_slots_def)
qed

lemma wp_deploy:
  fixes x :: "'x deployment_ext_scheme"
  shows "wp (deploy_with_failure x root recovery source transform failure) (deployed x root recovery source transform failure f)
    (\<lambda>_. on_slots root (interrupted x root recovery source transform failure f))
    (on_slots root (interrupted x root recovery source transform failure f)) f"
proof (cases recovery)
  case (Certified candidate wasm certificate)
  let ?S = "\<lambda>f. interrupted x root recovery source transform failure f" and ?D = "\<lambda>f. deployed x root recovery source transform failure f"
  have same: "?S g = ?S f" "?D g = ?D f" "slots root g = slots root f"
    if "g (dp_active root) = f (dp_active root)" "g (dp_rollback root) = f (dp_rollback root)" for g
    using that by (simp_all add: interrupted_def deployed_def kept_image_def slots_def exists_at_def fun_eq_iff)
  have dirs: "?S g = ?S f" "?D g = ?D f" "slots root g = slots root f" if "dirs_added root f g" for g
    using same [of g] dirs_added_child [OF that] by (simp_all add: dp_active_def dp_rollback_def)
  have stop: "slots root f \<in> ?S f" by (simp add: interrupted_def)
  have body: "wp (deploy_body x root candidate source transform failure)
      (\<lambda>v h. ?D f v h \<and> ?D f v (h(root @ [''.deploy.lock''] := None)) \<and> on_slots root (?S f) h)
      (\<lambda>e h. on_slots root (?S f) h \<and> on_slots root (?S f) (h(root @ [''.deploy.lock''] := None)) \<and> on_slots root (?S f) h)
      (on_slots root (?S f)) (g(root @ [''.deploy.lock''] \<mapsto> FileEntry []))"
    if "dirs_added root f g" "validate_transform candidate source transform = Inr ()" for g
  proof -
    have "wp (deploy_body x root candidate source transform failure) (?D f) (\<lambda>_. on_slots root (?S f)) (on_slots root (?S f))
        (g(root @ [''.deploy.lock''] \<mapsto> FileEntry []))"
      using wp_deploy_body [OF Certified that(2), of x root failure "g(root @ [''.deploy.lock''] \<mapsto> FileEntry [])"]
        same [of "g(root @ [''.deploy.lock''] \<mapsto> FileEntry [])"] dirs_added_child [OF that(1)]
      by (simp add: dp_active_def dp_rollback_def)
    then show ?thesis
      by (rule wp_conseq) (auto simp: on_slots_def deployed_def interrupted_def new_image_def)
  qed
  have locked: "wp (with_deployment_lock root (deploy_body x root candidate source transform failure)) (?D f)
      (\<lambda>_. on_slots root (?S f)) (on_slots root (?S f)) g"
    if "dirs_added root f g" "validate_transform candidate source transform = Inr ()" for g
    unfolding with_deployment_lock_def
    using wp_locked [OF _ body [OF that]] stop dirs(3) [OF that(1)] by (simp add: stoppable_slots)
  have e: "on_slots root (?S f) g" "stoppable (\<lambda>_. on_slots root (?S f)) (on_slots root (?S f)) g" if "dirs_added root f g" for g
    using stop dirs(3) [OF that] by (simp_all add: stoppable_slots on_slots_def)
  have "deploy_with_failure x root recovery source transform failure =
      io_bind (io_lift (validate_transform candidate source transform)) (\<lambda>_. io_bind (io_create_dir_all root) (\<lambda>_.
      io_bind (reject_links root) (\<lambda>_. with_deployment_lock root (deploy_body x root candidate source transform failure))))"
    by (simp add: deploy_with_failure_def Certified)
  then show ?thesis
    unfolding reject_links_def
    by (simp only:) (intro wp_bind wp_lift wp_create_dir_all wp_real_directory locked e; simp)
qed (auto simp: deploy_with_failure_def interrupted_def on_slots_def intro!: wp_raise)

definition rolled_back :: "'x deployment_ext_scheme \<Rightarrow> place \<Rightarrow> (place \<Rightarrow> entry option) \<Rightarrow> DeploymentReceipt \<Rightarrow> assertion" where
  "rolled_back x root f receipt g \<longleftrightarrow> valid_image x (f (dp_rollback root)) \<and> slots root g = (f (dp_rollback root), f (dp_rollback root)) \<and>
     (\<exists>bs. f (dp_rollback root) = Some (FileEntry bs) \<and> dr_active_digest receipt = dp_bytes_digest x bs)"

lemma wp_rollback:
  fixes x :: "'x deployment_ext_scheme"
  defines "S \<equiv> \<lambda>root f. {slots root f, (f (dp_rollback root), f (dp_rollback root))}"
  shows "wp (dp_rollback_op x root) (rolled_back x root f) (\<lambda>_. on_slots root (S root f)) (on_slots root (S root f)) f"
proof -
  have "wp (dp_rollback_body x root) (\<lambda>v h. rolled_back x root f v h \<and> rolled_back x root f v (h(root @ [''.deploy.lock''] := None)) \<and> on_slots root (S root f) h)
      (\<lambda>e h. on_slots root (S root f) h \<and> on_slots root (S root f) (h(root @ [''.deploy.lock''] := None)) \<and> on_slots root (S root f) h)
      (on_slots root (S root f)) (f(root @ [''.deploy.lock''] \<mapsto> FileEntry []))"
    unfolding dp_rollback_body_def dp_read_regular_bounded_def dp_atomic_replace_def
    by (intro wp_bind wp_read_bounded wp_lift wp_replace wp_return)
      (auto simp: stoppable_def S_def on_slots_def slots_def rolled_back_def valid_image_def intro!: wp_bind wp_lift wp_return)
  then show ?thesis
    unfolding dp_rollback_op_def reject_links_def with_deployment_lock_def
    by (intro wp_bind wp_real_directory wp_locked) (auto simp: stoppable_def S_def on_slots_def)
qed

section \<open>What an image holds\<close>

text \<open>The parser reads back what the encoder wrote, and the digests of states and transforms are digests.\<close>

definition deployment_codec :: "'x deployment_ext_scheme \<Rightarrow> bool" where
  "deployment_codec x \<longleftrightarrow>
     (\<forall>img bs. canonical_encode (x_json_vec x) (x_deployment_value x) img = Inr bs \<longrightarrow> x_parse_deployment x bs = Inr img) \<and>
     (\<forall>source v. dp_digest x (x_snapshot_value x) source = Inr v \<longrightarrow> is_digest x v) \<and>
     (\<forall>transform v. dp_digest x (x_transform_value x) transform = Inr v \<longrightarrow> is_digest x v)"

lemma mapped_state:
  "validate_transform candidate source transform = Inr () \<Longrightarrow> bt_get (tf_state_map transform) s = Some mapped \<Longrightarrow>
     mapped \<in> set (gr_states (cd_grammar candidate)) \<and> tf_to_schema transform = gr_version (cd_grammar candidate)"
  by (force simp: validate_transform_def dest: map_of_SomeD split: if_split_asm)

lemma new_image_decodes:
  assumes codec: "deployment_codec x" and new: "new_image x (Certified candidate wasm certificate) source transform bs"
    and g: "grammar_validate (cd_grammar candidate) = Inr ()"
  shows "\<exists>img. next_bundle x candidate source transform = Inr img \<and> decode_bundle x bs = Inr img \<and> db_candidate img = candidate \<and>
    length bs \<le> MAX_DEPLOYMENT_BYTES"
proof -
  from new obtain img where v: "validate_transform candidate source transform = Inr ()"
    and n: "next_bundle x candidate source transform = Inr img" and e: "encode_bundle x img = Inr bs"
    by (auto simp: new_image_def)
  from n obtain mapped revision cand_d src_d tr_d where b: "bt_get (tf_state_map transform) (sn_state source) = Some mapped"
    "dp_digest x (x_candidate_value x) candidate = Inr cand_d" "dp_digest x (x_snapshot_value x) source = Inr src_d"
    "dp_digest x (x_transform_value x) transform = Inr tr_d"
    "img = \<lparr>db_version = ''deployment-v1'', db_candidate = candidate, db_candidate_digest = cand_d,
         db_state = \<lparr>sn_schema_version = tf_to_schema transform, sn_state = mapped, sn_revision = revision\<rparr>,
         db_source_state_digest = src_d, db_state_transform_digest = tr_d\<rparr>"
    unfolding next_bundle_def rbind_Inr_iff ok_or_Inr_iff by blast
  from e have enc: "canonical_encode (x_json_vec x) (x_deployment_value x) img = Inr bs" "length bs \<le> MAX_DEPLOYMENT_BYTES"
    by (auto simp: encode_bundle_def rbind_Inr_iff split: if_split_asm)
  then have p: "x_parse_deployment x bs = Inr img" using codec by (auto simp: deployment_codec_def)
  have "is_digest x src_d" "is_digest x tr_d" using codec b(3,4) by (auto simp: deployment_codec_def)
  then have "decode_bundle x bs = Inr img"
    using mapped_state [OF v b(1)] b(2) g by (simp add: decode_bundle_def p b(5))
  then show ?thesis using n enc(2) b(5) by simp
qed

section \<open>Any number of deployments\<close>

text \<open>
  The life of a deployment directory: deployments of recoveries and rollbacks, each with any faults and
  possibly cut short, and anything else that leaves the two images alone (an operator who clears a lock or
  a staging file, other programs, a new script of faults).
\<close>

inductive deployment_step :: "'x deployment_ext_scheme \<Rightarrow> place \<Rightarrow> disk \<Rightarrow> disk \<Rightarrow> bool" for x root where
  Deploys: "deploy_with_failure x root (run_with_mode x fs mode) source transform failure d = (r, d') \<Longrightarrow> deployment_step x root d d'"
| RollsBack: "dp_rollback_op x root d = (r, d') \<Longrightarrow> deployment_step x root d d'"
| Elsewhere: "slots root (files d') = slots root (files d) \<Longrightarrow> deployment_step x root d d'"

inductive deployment_reachable :: "'x deployment_ext_scheme \<Rightarrow> place \<Rightarrow> disk \<Rightarrow> bool" for x root where
  Fresh: "slots root (files d) = (None, None) \<Longrightarrow> deployment_reachable x root d"
| Step: "deployment_reachable x root d \<Longrightarrow> deployment_step x root d d' \<Longrightarrow> deployment_reachable x root d'"

definition certified_slot :: "'x deployment_ext_scheme \<Rightarrow> entry option \<Rightarrow> bool" where
  "certified_slot x e \<longleftrightarrow> e = None \<or>
     (\<exists>bs img fs mode wasm certificate. e = Some (FileEntry bs) \<and> length bs \<le> MAX_DEPLOYMENT_BYTES \<and> decode_bundle x bs = Inr img \<and>
        run_with_mode x fs mode = Certified (db_candidate img) wasm certificate)"

definition certified_slots :: "'x deployment_ext_scheme \<Rightarrow> entry option \<times> entry option \<Rightarrow> bool" where
  "certified_slots x s \<longleftrightarrow> certified_slot x (fst s) \<and> certified_slot x (snd s)"

lemma certified_new_image:
  assumes "deployment_codec x" "new_image x (run_with_mode x fs mode) source transform bs"
  shows "certified_slot x (Some (FileEntry bs))"
proof -
  from assms(2) obtain candidate wasm certificate where r: "run_with_mode x fs mode = Certified candidate wasm certificate"
    by (auto simp: new_image_def)
  then have "new_image x (Certified candidate wasm certificate) source transform bs" using assms(2) by simp
  from new_image_decodes [OF assms(1) this certified_grammar [OF r]] obtain img where "decode_bundle x bs = Inr img" "db_candidate img = candidate" "length bs \<le> MAX_DEPLOYMENT_BYTES" by auto
  then show ?thesis using r unfolding certified_slot_def by blast
qed

lemma certified_kept: "certified_slots x (slots root f) \<Longrightarrow> certified_slot x (kept_image root f)"
  by (simp add: certified_slots_def slots_def kept_image_def)

lemma deployment_step_certified:
  assumes codec: "deployment_codec x" and step: "deployment_step x root d d'" and inv: "certified_slots x (slots root (files d))"
  shows "certified_slots x (slots root (files d'))"
  using step
proof cases
  case (Deploys fs mode source transform failure r)
  have "slots root (files d') \<in> interrupted x root (run_with_mode x fs mode) source transform failure (files d) \<or>
      (\<exists>bs. new_image x (run_with_mode x fs mode) source transform bs \<and> slots root (files d') = (Some (FileEntry bs), kept_image root (files d)))"
    using wpD [OF wp_deploy Deploys] by (auto simp: on_slots_def deployed_def split: run.split_asm)
  then show ?thesis
    using inv certified_kept [OF inv] certified_new_image [OF codec]
    by (auto simp: interrupted_def certified_slots_def slots_def)
next
  case (RollsBack r)
  have "slots root (files d') \<in> {slots root (files d), (files d (dp_rollback root), files d (dp_rollback root))}"
    using wpD [OF wp_rollback RollsBack] by (auto simp: on_slots_def rolled_back_def split: run.split_asm)
  then show ?thesis using inv by (auto simp: certified_slots_def slots_def)
qed (use inv in simp)

section \<open>A deployment without faults\<close>

definition ready :: "place \<Rightarrow> assertion" where
  "ready root f \<longleftrightarrow> f root = Some DirEntry \<and> (\<forall>q. q \<noteq> [] \<longrightarrow> prefix q root \<longrightarrow> f q = Some DirEntry) \<and>
     f (root @ [''.deploy.lock'']) = None \<and> f (root @ [''active.tmp'']) = None \<and> f (root @ [''rollback.tmp'']) = None \<and>
     f (dp_rollback root) \<noteq> Some DirEntry"

lemma root_neq [simp]: "root \<noteq> dp_active root" "root \<noteq> dp_rollback root" "dp_active root \<noteq> root" "dp_rollback root \<noteq> root"
  by (auto simp: dp_active_def dp_rollback_def)

lemma in_root [simp]: "in_directory f (dp_active root) \<longleftrightarrow> root = [] \<or> f root = Some DirEntry"
  "in_directory f (dp_rollback root) \<longleftrightarrow> root = [] \<or> f root = Some DirEntry"
  by (simp_all add: dp_active_def dp_rollback_def)

lemma returns_prepare_rollback:
  assumes "f root = Some DirEntry" "f (root @ [''rollback.tmp'']) = None" "f (dp_rollback root) \<noteq> Some DirEntry"
    and "f (dp_active root) = Some (FileEntry old)" "length old \<le> MAX_DEPLOYMENT_BYTES" "decode_bundle x old = Inr previous"
    and "Q True (f(dp_rollback root \<mapsto> FileEntry old))"
  shows "returns (prepare_rollback x root) Q f"
  unfolding prepare_rollback_def dp_read_regular_bounded_def dp_atomic_replace_def dp_rollback_def
  using assms
  by (intro returns_bind returns_exists returns_when returns_read_bounded returns_lift returns_replace returns_return)
    (auto simp: dp_rollback_def intro!: returns_return)

lemma returns_activate_image:
  assumes "f root = Some DirEntry" "f (root @ [''active.tmp'']) = None" "f (dp_active root) \<noteq> Some DirEntry"
    and "Q () (f(dp_active root \<mapsto> FileEntry bs))"
  shows "returns (activate_image root NoFailurePoint bs) Q f"
proof -
  have "f(root @ [''active.tmp''] \<mapsto> FileEntry bs, root @ [''active.tmp''] := None, dp_active root \<mapsto> FileEntry bs) = f(dp_active root \<mapsto> FileEntry bs)"
    using assms(2) by (auto simp: fun_eq_iff)
  with assms show ?thesis unfolding activate_image_def Let_def dp_write_new_synced_def
    by (intro returns_bind returns_write_new returns_when returns_rename [where e = "FileEntry bs"] returns_sync) auto
qed

lemma returns_deploy:
  assumes r: "ready root f" and old: "f (dp_active root) = Some (FileEntry old)" "length old \<le> MAX_DEPLOYMENT_BYTES" "decode_bundle x old = Inr previous"
    and new: "new_image x recovery source transform bs"
  shows "returns (deploy x root recovery source transform)
    (\<lambda>_ g. g = f(dp_rollback root \<mapsto> FileEntry old, dp_active root \<mapsto> FileEntry bs)) f"
proof -
  let ?lock = "root @ [''.deploy.lock'']" let ?f = "f(?lock \<mapsto> FileEntry [])"
  from new obtain candidate wasm certificate img cand_d where n: "recovery = Certified candidate wasm certificate"
    "validate_transform candidate source transform = Inr ()" "next_bundle x candidate source transform = Inr img" "encode_bundle x img = Inr bs"
    "dp_digest x (x_candidate_value x) candidate = Inr cand_d"
    by (auto simp: new_image_def next_bundle_def rbind_Inr_iff)
  have "returns (deploy_body x root candidate source transform NoFailurePoint)
      (\<lambda>_ g. g = ?f(dp_rollback root \<mapsto> FileEntry old, dp_active root \<mapsto> FileEntry bs)) ?f"
    unfolding deploy_body_def using r old n
    by (intro returns_bind returns_prepare_rollback [where old = old] returns_when returns_lift returns_activate_image)
      (auto simp: ready_def intro!: returns_bind returns_lift returns_activate_image returns_return)
  then have "returns (with_deployment_lock root (deploy_body x root candidate source transform NoFailurePoint))
      (\<lambda>_ g. g = f(dp_rollback root \<mapsto> FileEntry old, dp_active root \<mapsto> FileEntry bs)) f"
    unfolding with_deployment_lock_def using r
    by (intro returns_locked) (auto simp: ready_def fun_eq_iff elim!: returns_conseq)
  then show ?thesis
    unfolding deploy_def deploy_with_failure_def n(1) RecoveryResult.case reject_links_def using r n(2)
    by (intro returns_bind returns_lift returns_create_dir_all returns_real_directory) (auto simp: ready_def)
qed

lemma returns_rollback:
  assumes r: "ready root f" and old: "f (dp_rollback root) = Some (FileEntry old)" "length old \<le> MAX_DEPLOYMENT_BYTES" "decode_bundle x old = Inr previous"
    and act: "f (dp_active root) \<noteq> Some DirEntry"
  shows "returns (dp_rollback_op x root) (\<lambda>_ g. g = f(dp_active root \<mapsto> FileEntry old)) f"
proof -
  let ?lock = "root @ [''.deploy.lock'']" let ?f = "f(?lock \<mapsto> FileEntry [])"
  from old(3) obtain cand_d where d: "dp_digest x (x_candidate_value x) (db_candidate previous) = Inr cand_d"
    by (auto simp: decode_bundle_def rbind_Inr_iff split: if_split_asm)
  have "returns (dp_rollback_body x root) (\<lambda>_ g. g = ?f(dp_active root \<mapsto> FileEntry old)) ?f"
    unfolding dp_rollback_body_def dp_read_regular_bounded_def dp_atomic_replace_def dp_active_def using r old d act
    by (intro returns_bind returns_read_bounded returns_lift returns_replace returns_return)
      (auto simp: ready_def dp_active_def intro!: returns_bind returns_lift returns_return)
  then have "returns (with_deployment_lock root (dp_rollback_body x root)) (\<lambda>_ g. g = f(dp_active root \<mapsto> FileEntry old)) f"
    unfolding with_deployment_lock_def using r
    by (intro returns_locked) (auto simp: ready_def fun_eq_iff elim!: returns_conseq)
  then show ?thesis unfolding dp_rollback_op_def reject_links_def using r
    by (intro returns_bind returns_real_directory) (auto simp: ready_def)
qed

lemma returns_read_active:
  "f (dp_active root) = Some (FileEntry bs) \<Longrightarrow> length bs \<le> MAX_DEPLOYMENT_BYTES \<Longrightarrow> decode_bundle x bs = Inr img \<Longrightarrow>
     returns (read_active x root) (\<lambda>v g. v = img \<and> g = f) f"
  unfolding read_active_def dp_read_regular_bounded_def
  by (intro returns_bind returns_read_bounded returns_lift) auto

section \<open>Properties\<close>

text \<open>A directory with an image of the sample candidate, and a state to deploy it with.\<close>

definition demo_source :: StateSnapshot where
  "demo_source = \<lparr>sn_schema_version = ''old'', sn_state = ''o'', sn_revision = 6\<rparr>"

definition demo_transform :: SnapshotTransform where
  "demo_transform = \<lparr>tf_from_schema = ''old'', tf_to_schema = gr_version sample_grammar, tf_state_map = [(''o'', ''s'')]\<rparr>"

definition demo_image :: "u64 \<Rightarrow> DeploymentBundle" where
  "demo_image revision = \<lparr>db_version = ''deployment-v1'', db_candidate = sample_candidate, db_candidate_digest = toy_hex (as_bytes ''k''),
     db_state = \<lparr>sn_schema_version = gr_version sample_grammar, sn_state = ''s'', sn_revision = revision\<rparr>,
     db_source_state_digest = toy_hex (replicate 32 5), db_state_transform_digest = toy_hex (replicate 32 5)\<rparr>"

definition demo_deploy :: deployment_ext where
  "demo_deploy = demo_with (deployment_ext.fields (\<lambda>_. Inr (JString (replicate 32 (CHR 0x05)))) (\<lambda>_. Inr (JString (replicate 32 (CHR 0x05))))
     (\<lambda>img. if img = demo_image 7 then Inr (JString ''n'') else if img = demo_image 6 then Inr JNull else Inl ''not an image'')
     (\<lambda>bs. if bs = as_bytes ''n'' then Inr (demo_image 7) else if bs = [] then Inr (demo_image 6) else Inl ''not an image''))"

definition demo_disk :: "fault list \<Rightarrow> disk" where
  "demo_disk script = \<lparr>dk_entries = [([''d''], DirEntry), ([''d'', ''active.json''], FileEntry [])], dk_script = script\<rparr>"

lemma demo_deploy_fields: "x_snapshot_value demo_deploy v = Inr (JString (replicate 32 (CHR 0x05)))"
  "x_transform_value demo_deploy w = Inr (JString (replicate 32 (CHR 0x05)))"
  "x_deployment_value demo_deploy img =
     (if img = demo_image 7 then Inr (JString ''n'') else if img = demo_image 6 then Inr JNull else Inl ''not an image'')"
  "x_parse_deployment demo_deploy bs =
     (if bs = as_bytes ''n'' then Inr (demo_image 7) else if bs = [] then Inr (demo_image 6) else Inl ''not an image'')"
  by (simp_all add: demo_deploy_def demo_with_def protocol_ext.defs deployment_ext.defs del: replicate.simps)

lemma demo_deploy_base: "x_sha256 demo_deploy = id" "x_hex_encode demo_deploy = toy_hex" "x_hex_decode demo_deploy = toy_unhex"
  "x_candidate_value demo_deploy c = Inr (JString ''k'')" "x_json_vec demo_deploy (JString s) = Inr (as_bytes s)" "x_json_vec demo_deploy JNull = Inr []"
  by (simp_all add: demo_deploy_def demo_fields)

lemma demo_bytes: "as_bytes (replicate 32 (CHR 0x05)) = replicate 32 5" "as_bytes ''n'' \<noteq> []"
  by code_simp+

lemma length_toy_hex: "length (toy_hex bs) = 2 * length bs"
  by (induction bs) auto

lemma demo_is_digest: "is_digest demo_deploy (toy_hex (replicate 32 5))"
  using toy_hex_roundtrip by (simp add: is_digest_def demo_deploy_base length_toy_hex del: replicate.simps)

lemma demo_digest: "canonical_digest id toy_hex (x_json_vec demo_deploy) (x_candidate_value demo_deploy) c = Inr (toy_hex (as_bytes ''k''))"
  "canonical_digest id toy_hex (x_json_vec demo_deploy) (x_snapshot_value demo_deploy) v = Inr (toy_hex (replicate 32 5))"
  "canonical_digest id toy_hex (x_json_vec demo_deploy) (x_transform_value demo_deploy) w = Inr (toy_hex (replicate 32 5))"
  by (simp_all add: canonical_digest_def digest_hex_def encode_json_def demo_deploy_fields demo_deploy_base demo_bytes del: replicate.simps)

lemma demo_image_neq: "demo_image 7 \<noteq> demo_image 6"
  by (simp add: demo_image_def)

lemma demo_deployment_codec: "deployment_codec demo_deploy"
  using demo_image_neq demo_bytes(2) demo_is_digest
  by (auto simp: deployment_codec_def canonical_encode_def encode_json_def demo_deploy_fields demo_deploy_base demo_digest simp del: replicate.simps)

lemma demo_decodes: "decode_bundle demo_deploy [] = Inr (demo_image 6)"
proof -
  have "grammar_validate sample_grammar = Inr ()" using sample_grammar_ok by (simp add: grammar_validate_iff)
  moreover have "cd_grammar sample_candidate = sample_grammar" by (simp add: sample_candidate_def)
  ultimately show ?thesis using demo_is_digest demo_bytes(2)
    by (simp add: decode_bundle_def demo_deploy_fields demo_deploy_base demo_digest demo_image_def demo_registry_fields del: replicate.simps)
qed

lemma demo_new_image: "new_image demo_deploy (Certified sample_candidate w cert) demo_source demo_transform (as_bytes ''n'')"
proof -
  have "validate_transform sample_candidate demo_source demo_transform = Inr ()"
    by (simp add: validate_transform_def demo_source_def demo_transform_def sample_candidate_def sample_grammar_def)
  moreover have "next_bundle demo_deploy sample_candidate demo_source demo_transform = Inr (demo_image 7)"
    by (simp add: next_bundle_def demo_source_def demo_transform_def checked_add_def demo_deploy_base demo_digest demo_image_def del: replicate.simps)
  moreover have "encode_bundle demo_deploy (demo_image 7) = Inr (as_bytes ''n'')"
    by (simp add: encode_bundle_def canonical_encode_def encode_json_def demo_deploy_fields demo_deploy_base MAX_DEPLOYMENT_BYTES_def)
  ultimately show ?thesis by (simp add: new_image_def)
qed

lemma demo_recovers: "\<exists>w cert. run_with_mode demo_deploy demo_fs Full = Certified sample_candidate w cert"
  unfolding demo_deploy_def by (rule demo_certified)

lemma demo_ready: "ready [''d''] (files (demo_disk script))"
  by (auto simp: ready_def demo_disk_def dp_rollback_def prefix_Cons)

text \<open>(C6) A deployment refines one step on the pair of images, wherever a call fails or the process dies:
  when it returns a receipt, the new image is active, the previous one (which was valid) can be rolled back
  to and the receipt names the new image; otherwise the active image is still the previous one or, without
  an injected failure, the complete new image, and once the new image is active the previous one is kept.\<close>

theorem deploy_refines:
  assumes "deploy_with_failure x root recovery source transform failure d = (r, d')"
  shows "case r of
      Done receipt \<Rightarrow> deployed x root recovery source transform failure (files d) receipt (files d')
    | _ \<Rightarrow> slots root (files d') \<in> interrupted x root recovery source transform failure (files d)"
  using wpD [OF wp_deploy assms] by (simp add: on_slots_def split: run.splits)

text \<open>(C7) Whatever sequence of deployments and rollbacks a directory has seen, with faults and deaths at any
  call, the active image and the image to roll back to are absent or complete, bounded and valid, and their
  candidate was certified by a recovery.\<close>

theorem deployment_invariant:
  assumes "deployment_codec x" "deployment_reachable x root d"
  shows "certified_slots x (slots root (files d))"
  using assms(2)
proof induction
  case (Step d d')
  then show ?case using deployment_step_certified [OF assms(1)] by blast
qed (simp add: certified_slots_def certified_slot_def)

text \<open>(C8) Without faults a deployment over a valid image returns and installs the new image, which is what is
  read back; the rollback that follows returns and restores the previous image, which is then read back.\<close>

theorem deploy_then_rollback:
  assumes "deployment_codec x" "dk_script d = []" "ready root (files d)"
    and "files d (dp_active root) = Some (FileEntry old)" "length old \<le> MAX_DEPLOYMENT_BYTES" "decode_bundle x old = Inr previous"
    and "recovery = Certified candidate wasm certificate" "grammar_validate (cd_grammar candidate) = Inr ()"
    and "new_image x recovery source transform bs"
  shows "\<exists>receipt d1 img receipt' d2. deploy x root recovery source transform d = (Done receipt, d1) \<and>
    next_bundle x candidate source transform = Inr img \<and> fst (read_active x root d1) = Done img \<and>
    dp_rollback_op x root d1 = (Done receipt', d2) \<and> fst (read_active x root d2) = Done previous \<and>
    slots root (files d2) = (Some (FileEntry old), Some (FileEntry old))"
proof -
  let ?g = "(files d)(dp_rollback root \<mapsto> FileEntry old, dp_active root \<mapsto> FileEntry bs)"
  obtain img where img: "next_bundle x candidate source transform = Inr img" "decode_bundle x bs = Inr img" "length bs \<le> MAX_DEPLOYMENT_BYTES"
    using new_image_decodes [OF assms(1) _ assms(8)] assms(7,9) by blast
  obtain receipt d1 where d1: "deploy x root recovery source transform d = (Done receipt, d1)" "dk_script d1 = []" "files d1 = ?g"
    using returnsD [OF returns_deploy [OF assms(3-6,9)] assms(2)] by metis
  have g: "ready root ?g" "?g (dp_rollback root) = Some (FileEntry old)" "?g (dp_active root) = Some (FileEntry bs)"
    using assms(3) by (auto simp: ready_def dp_active_def dp_rollback_def)
  obtain d1' where a1: "read_active x root d1 = (Done img, d1')"
    using returnsD [OF returns_read_active [of "files d1" root bs] d1(2)] g(3) d1(3) img by metis
  obtain receipt' d2 where d2: "dp_rollback_op x root d1 = (Done receipt', d2)" "dk_script d2 = []" "files d2 = ?g(dp_active root \<mapsto> FileEntry old)"
    using returnsD [OF returns_rollback [of root "files d1"] d1(2)] g d1(3) assms(5,6) by (metis entry.distinct(1) option.inject)
  obtain d2' where "read_active x root d2 = (Done previous, d2')"
    using returnsD [OF returns_read_active [of "files d2" root old] d2(2)] d2(3) assms(5,6) by (metis fun_upd_same)
  then show ?thesis using d1 img a1 d2 by (auto simp: slots_def)
qed

theorem deploy_refines_witness:
  "case deploy_with_failure demo_deploy [''d''] (run_with_mode demo_deploy demo_fs Full) demo_source demo_transform NoFailurePoint (demo_disk (replicate 9 Proceeds @ [Dies 0]))
   of (r, d') \<Rightarrow> (case r of
      Done receipt \<Rightarrow> deployed demo_deploy [''d''] (run_with_mode demo_deploy demo_fs Full) demo_source demo_transform NoFailurePoint (files (demo_disk [])) receipt (files d')
    | _ \<Rightarrow> slots [''d''] (files d') \<in> interrupted demo_deploy [''d''] (run_with_mode demo_deploy demo_fs Full) demo_source demo_transform NoFailurePoint (files (demo_disk [])))"
proof -
  have f: "files (demo_disk script) = files (demo_disk [])" for script by (simp add: demo_disk_def)
  obtain r d' where "deploy_with_failure demo_deploy [''d''] (run_with_mode demo_deploy demo_fs Full) demo_source demo_transform NoFailurePoint
      (demo_disk (replicate 9 Proceeds @ [Dies 0])) = (r, d')" by fastforce
  with deploy_refines [OF this] f [of "replicate 9 Proceeds @ [Dies 0]"] show ?thesis by (cases r) simp_all
qed

theorem deployment_invariant_witness:
  "certified_slots demo_deploy (slots [''d''] (files (snd (deploy demo_deploy [''d''] (run_with_mode demo_deploy demo_fs Full) demo_source demo_transform
     \<lparr>dk_entries = [([''d''], DirEntry)], dk_script = []\<rparr>))))"
proof -
  let ?d = "\<lparr>dk_entries = [([''d''], DirEntry)], dk_script = []\<rparr>"
  have "deployment_reachable demo_deploy [''d''] ?d" by (rule Fresh) (simp add: slots_def dp_active_def dp_rollback_def)
  moreover have "deployment_step demo_deploy [''d''] ?d (snd (deploy demo_deploy [''d''] (run_with_mode demo_deploy demo_fs Full) demo_source demo_transform ?d))"
    unfolding deploy_def by (rule Deploys) (rule prod.collapse [symmetric])
  ultimately show ?thesis using deployment_invariant [OF demo_deployment_codec Step] by blast
qed

theorem deploy_then_rollback_witness:
  "\<exists>w cert receipt d1 receipt' d2. run_with_mode demo_deploy demo_fs Full = Certified sample_candidate w cert \<and>
    deploy demo_deploy [''d''] (Certified sample_candidate w cert) demo_source demo_transform (demo_disk []) = (Done receipt, d1) \<and>
    fst (read_active demo_deploy [''d''] d1) = Done (demo_image 7) \<and>
    dp_rollback_op demo_deploy [''d''] d1 = (Done receipt', d2) \<and> fst (read_active demo_deploy [''d''] d2) = Done (demo_image 6)"
proof -
  obtain w cert where r: "run_with_mode demo_deploy demo_fs Full = Certified sample_candidate w cert" using demo_recovers by blast
  have n: "next_bundle demo_deploy sample_candidate demo_source demo_transform = Inr (demo_image 7)"
    by (simp add: next_bundle_def demo_source_def demo_transform_def checked_add_def demo_deploy_base demo_digest demo_image_def del: replicate.simps)
  have "files (demo_disk []) (dp_active [''d'']) = Some (FileEntry [])" by (simp add: demo_disk_def dp_active_def)
  from deploy_then_rollback [OF demo_deployment_codec _ demo_ready this _ demo_decodes refl certified_grammar [OF r] demo_new_image [of w cert]] n
  show ?thesis using r by (fastforce simp: demo_disk_def)
qed

end
