(* ===== verification/State_Store.thy ===== *)
theory State_Store
  imports Fragments Disk
begin

text \<open>
  Snapshots of service state and their restoration (\<open>src/state_store.rs\<close>): a store directory with
  content-addressed objects and a current manifest, and a destination file next to which a restore keeps the
  previous state and an activation marker until it is committed or rolled back. As in theory Deployment,
  every call may fail or be the last of the process.
\<close>

section \<open>Data\<close>

definition MAX_STATE_BYTES :: nat where "MAX_STATE_BYTES = 67108864"
definition MAX_MANIFEST_BYTES :: nat where "MAX_MANIFEST_BYTES = 16384"

record StateManifest =
  mf_version :: string
  mf_component :: string
  mf_schema_version :: string
  mf_revision :: u64
  mf_payload_sha256 :: string
  mf_payload_bytes :: nat

record SnapshotReceipt =
  sr_manifest_sha256 :: string
  sr_payload_sha256 :: string
  sr_payload_bytes :: nat
  sr_revision :: u64

record RestoreReceipt =
  rr_payload_sha256 :: string
  rr_payload_bytes :: nat
  rr_revision :: u64
  rr_rollback_available :: bool

record ActivationMarker =
  am_version :: string
  am_payload_sha256 :: string
  am_payload_bytes :: nat

datatype RestoreFailurePoint = NoRestoreFailure | AfterStateRollbackPrepared

record state_ext = external +
  x_manifest_tree :: "StateManifest serialize"
  x_parse_manifest :: "bytes \<Rightarrow> (string, StateManifest) result"
  x_marker_tree :: "ActivationMarker serialize"
  x_parse_marker :: "bytes \<Rightarrow> (string, ActivationMarker) result"

abbreviation ss_bytes_digest :: "'x external_scheme \<Rightarrow> bytes \<Rightarrow> string" where
  "ss_bytes_digest x bs \<equiv> bytes_digest (x_sha256 x) (x_hex_encode x) bs"

definition ss_invalid :: "string \<Rightarrow> Error" where
  "ss_invalid message = InvalidEvidence message"

section \<open>Validation\<close>

definition validate_label :: "string \<Rightarrow> string \<Rightarrow> (Error, unit) result" where
  "validate_label label value =
     (if value = [] \<or> length value > 128 \<or> \<not> list_all (\<lambda>c. is_ascii_alphanumeric c \<or> c \<in> set ''._:/-'') value
      then Inl (ss_invalid (label @ '' is invalid'')) else Inr ())"

definition validate_manifest :: "'x external_scheme \<Rightarrow> StateManifest \<Rightarrow> (Error, unit) result" where
  "validate_manifest x manifest =
     (if mf_version manifest \<noteq> ''state-file-v1'' \<or> mf_payload_bytes manifest > MAX_STATE_BYTES \<or>
         length (mf_payload_sha256 manifest) \<noteq> 64 \<or>
         (case x_hex_decode x (mf_payload_sha256 manifest) of None \<Rightarrow> True | Some bs \<Rightarrow> length bs \<noteq> 32)
      then Inl (ss_invalid ''state manifest version, size, or digest is invalid'')
      else rbind (validate_label ''component'' (mf_component manifest)) (\<lambda>_.
        validate_label ''schema version'' (mf_schema_version manifest)))"

definition parse_manifest :: "'x state_ext_scheme \<Rightarrow> bytes \<Rightarrow> (Error, StateManifest) result" where
  "parse_manifest x bs =
     rbind (map_err (\<lambda>error. ss_invalid (''state manifest is invalid: '' @ error)) (x_parse_manifest x bs)) (\<lambda>manifest.
     rbind (validate_manifest x manifest) (\<lambda>_. Inr manifest))"

section \<open>Paths and files\<close>

definition ss_parent :: "place \<Rightarrow> (Error, place) result" where
  "ss_parent destination =
     (if destination = [] then Inl (ss_invalid ''state destination requires a parent directory'') else Inr (butlast destination))"

definition ss_name :: "place \<Rightarrow> (Error, string) result" where
  "ss_name destination =
     (if destination = [] \<or> last destination = ''..'' then Inl (ss_invalid ''state destination requires a UTF-8 file name'')
      else Inr (last destination))"

definition destination_lock :: "place \<Rightarrow> string \<Rightarrow> place" where
  "destination_lock parent name = parent @ [''.'' @ name @ ''.anasemble.lock'']"

definition stage_path :: "place \<Rightarrow> string \<Rightarrow> place" where
  "stage_path parent name = parent @ [''.'' @ name @ ''.anasemble-stage'']"

definition rollback_path :: "place \<Rightarrow> (Error, place) result" where
  "rollback_path destination = rbind (ss_name destination) (\<lambda>name. Inr (butlast destination @ [name @ ''.anasemble-rollback'']))"

definition activation_path :: "place \<Rightarrow> (Error, place) result" where
  "activation_path destination = rbind (ss_name destination) (\<lambda>name. Inr (butlast destination @ [name @ ''.anasemble-activation.json'']))"

definition ensure_existing_real_directory :: "place \<Rightarrow> unit io" where
  "ensure_existing_real_directory = io_real_directory (ss_invalid ''state path must be a real directory'')"

definition ensure_real_directory :: "place \<Rightarrow> unit io" where
  "ensure_real_directory path =
     io_bind (io_exists path) (\<lambda>found.
     io_bind (io_when (\<not> found) (io_create_dir path)) (\<lambda>_. ensure_existing_real_directory path))"

definition ss_read_regular_bounded :: "place \<Rightarrow> nat \<Rightarrow> string \<Rightarrow> bytes io" where
  "ss_read_regular_bounded path max_bytes label =
     io_read_bounded max_bytes (ss_invalid (label @ '' must be a bounded regular file'')) path"

definition ss_write_new_synced :: "place \<Rightarrow> bytes \<Rightarrow> unit io" where
  "ss_write_new_synced = io_write_new"

definition ss_atomic_replace :: "place \<Rightarrow> place \<Rightarrow> string \<Rightarrow> bytes \<Rightarrow> unit io" where
  "ss_atomic_replace = io_replace (ss_invalid ''stale state manifest staging file'')"

definition with_state_lock :: "place \<Rightarrow> string \<Rightarrow> 'a io \<Rightarrow> 'a io" where
  "with_state_lock path message m = io_locked path message m"

section \<open>Snapshots\<close>

definition object_path :: "place \<Rightarrow> string \<Rightarrow> place" where
  "object_path store digest = store @ [''objects'', digest @ ''.bin'']"

definition check_revision :: "'x state_ext_scheme \<Rightarrow> place \<Rightarrow> string \<Rightarrow> u64 \<Rightarrow> unit io" where
  "check_revision x store component revision =
     io_bind (io_exists (store @ [''current.json''])) (\<lambda>found.
       io_when found (
         io_bind (ss_read_regular_bounded (store @ [''current.json'']) MAX_MANIFEST_BYTES ''state manifest'') (\<lambda>current_bytes.
         io_bind (io_lift (parse_manifest x current_bytes)) (\<lambda>current.
           io_ensure (\<not> (mf_component current \<noteq> component \<or> revision \<le> mf_revision current))
             (ss_invalid ''state snapshots must retain component identity and increase revision'')))))"

definition put_object :: "place \<Rightarrow> string \<Rightarrow> bytes \<Rightarrow> unit io" where
  "put_object store digest payload =
     io_bind (ensure_real_directory (store @ [''objects''])) (\<lambda>_.
     io_bind (io_exists (object_path store digest)) (\<lambda>found.
       if found then
         io_bind (ss_read_regular_bounded (object_path store digest) MAX_STATE_BYTES ''state object'') (\<lambda>existing.
           io_ensure (existing = payload) (ss_invalid ''content-addressed state object has conflicting bytes''))
       else
         io_bind (ss_write_new_synced (object_path store digest) payload) (\<lambda>_. io_sync (store @ [''objects'']))))"

definition snapshot_body :: "'x state_ext_scheme \<Rightarrow> place \<Rightarrow> bytes \<Rightarrow> string \<Rightarrow> string \<Rightarrow> u64 \<Rightarrow> SnapshotReceipt io" where
  "snapshot_body x store payload component schema_version revision =
     (let payload_sha256 = ss_bytes_digest x payload in
      io_bind (check_revision x store component revision) (\<lambda>_.
      io_bind (put_object store payload_sha256 payload) (\<lambda>_.
      io_bind (io_lift (canonical_encode (x_json_vec x) (x_manifest_tree x)
        \<lparr>mf_version = ''state-file-v1'', mf_component = component, mf_schema_version = schema_version, mf_revision = revision,
          mf_payload_sha256 = payload_sha256, mf_payload_bytes = length payload\<rparr>)) (\<lambda>manifest_bytes.
      io_bind (ss_atomic_replace store (store @ [''current.json'']) ''current.tmp'' manifest_bytes) (\<lambda>_.
        io_return \<lparr>sr_manifest_sha256 = ss_bytes_digest x manifest_bytes, sr_payload_sha256 = payload_sha256,
          sr_payload_bytes = length payload, sr_revision = revision\<rparr>)))))"

definition snapshot :: "'x state_ext_scheme \<Rightarrow> place \<Rightarrow> place \<Rightarrow> string \<Rightarrow> string \<Rightarrow> u64 \<Rightarrow> SnapshotReceipt io" where
  "snapshot x store source component schema_version revision =
     io_bind (io_lift (validate_label ''component'' component)) (\<lambda>_.
     io_bind (io_lift (validate_label ''schema version'' schema_version)) (\<lambda>_.
     io_bind (ss_read_regular_bounded source MAX_STATE_BYTES ''state source'') (\<lambda>payload.
     io_bind (ensure_real_directory store) (\<lambda>_.
       with_state_lock (store @ [''.snapshot.lock'']) ''state store is locked''
         (snapshot_body x store payload component schema_version revision)))))"

section \<open>Restores\<close>

definition load_payload :: "'x state_ext_scheme \<Rightarrow> place \<Rightarrow> (StateManifest \<times> bytes) io" where
  "load_payload x store =
     io_bind (ss_read_regular_bounded (store @ [''current.json'']) MAX_MANIFEST_BYTES ''state manifest'') (\<lambda>manifest_bytes.
     io_bind (io_lift (parse_manifest x manifest_bytes)) (\<lambda>manifest.
     io_bind (ss_read_regular_bounded (object_path store (mf_payload_sha256 manifest)) MAX_STATE_BYTES ''state object'') (\<lambda>payload.
     io_bind (io_ensure (length payload = mf_payload_bytes manifest \<and> ss_bytes_digest x payload = mf_payload_sha256 manifest)
       (ss_invalid ''state object integrity does not match its manifest'')) (\<lambda>_.
       io_return (manifest, payload)))))"

definition reject_stale :: "place list \<Rightarrow> string \<Rightarrow> unit io" where
  "reject_stale paths message =
     io_each (\<lambda>path. io_bind (io_exists path) (\<lambda>found. io_ensure (\<not> found) (ss_invalid message))) paths"

definition undo_rename :: "bool \<Rightarrow> place \<Rightarrow> place \<Rightarrow> place \<Rightarrow> unit io" where
  "undo_rename had_destination parent rollback destination =
     io_when had_destination (io_bind (io_rename rollback destination) (\<lambda>_. io_sync parent))"

definition is_regular :: "entry \<Rightarrow> bool" where
  "is_regular e \<longleftrightarrow> (case e of FileEntry _ \<Rightarrow> True | _ \<Rightarrow> False)"

definition set_aside :: "place \<Rightarrow> place \<Rightarrow> place \<Rightarrow> place \<Rightarrow> bool io" where
  "set_aside parent staged rollback destination =
     io_bind (io_exists destination) (\<lambda>had_destination.
     io_bind (io_when had_destination (
       io_bind (io_lstat destination) (\<lambda>metadata.
       io_bind (io_when (\<not> is_regular metadata)
         (io_bind (io_remove_file staged) (\<lambda>_. io_raise (ss_invalid ''state destination must be a regular non-symlink file'')))) (\<lambda>_.
       io_bind (io_rename destination rollback) (\<lambda>_. io_sync parent))))) (\<lambda>_.
       io_return had_destination))"

definition write_marker :: "'x state_ext_scheme \<Rightarrow> place \<Rightarrow> place \<Rightarrow> place \<Rightarrow> place \<Rightarrow> StateManifest \<Rightarrow> unit io" where
  "write_marker x parent rollback activation destination manifest =
     io_bind (io_lift (canonical_encode (x_json_vec x) (x_marker_tree x)
       \<lparr>am_version = ''state-activation-v1'', am_payload_sha256 = mf_payload_sha256 manifest, am_payload_bytes = mf_payload_bytes manifest\<rparr>)) (\<lambda>marker.
       io_catch (ss_write_new_synced activation marker) (\<lambda>error.
         io_bind (undo_rename True parent rollback destination) (\<lambda>_. io_raise error)))"

definition restore_body :: "'x state_ext_scheme \<Rightarrow> place \<Rightarrow> string \<Rightarrow> place \<Rightarrow> StateManifest \<Rightarrow> bytes \<Rightarrow> RestoreFailurePoint \<Rightarrow> RestoreReceipt io" where
  "restore_body x parent name destination manifest payload failure =
     (let staged = stage_path parent name in
      io_bind (io_lift (rollback_path destination)) (\<lambda>rollback.
      io_bind (io_lift (activation_path destination)) (\<lambda>activation.
      io_bind (reject_stale [staged, rollback, activation] ''stale state staging, rollback, or activation file requires operator action'') (\<lambda>_.
      io_bind (ss_write_new_synced staged payload) (\<lambda>_.
      io_bind (set_aside parent staged rollback destination) (\<lambda>had_destination.
      io_bind (io_when (failure = AfterStateRollbackPrepared) (
        io_bind (io_remove_file staged) (\<lambda>_.
        io_bind (undo_rename had_destination parent rollback destination) (\<lambda>_.
          io_raise (Io ''injected failure after state rollback preparation''))))) (\<lambda>_.
      io_bind (io_catch (io_rename staged destination) (\<lambda>error.
        io_bind (io_ignore (io_remove_file staged)) (\<lambda>_.
        io_bind (undo_rename had_destination parent rollback destination) (\<lambda>_. io_raise error)))) (\<lambda>_.
      io_bind (io_when had_destination (write_marker x parent rollback activation destination manifest)) (\<lambda>_.
      io_bind (io_sync parent) (\<lambda>_.
        io_return \<lparr>rr_payload_sha256 = mf_payload_sha256 manifest, rr_payload_bytes = mf_payload_bytes manifest,
          rr_revision = mf_revision manifest, rr_rollback_available = had_destination\<rparr>))))))))))"

definition restore_locked :: "'x state_ext_scheme \<Rightarrow> place \<Rightarrow> place \<Rightarrow> RestoreFailurePoint \<Rightarrow> RestoreReceipt io" where
  "restore_locked x store destination failure =
     io_bind (load_payload x store) (\<lambda>(manifest, payload).
     io_bind (io_lift (ss_parent destination)) (\<lambda>parent.
     io_bind (ensure_existing_real_directory parent) (\<lambda>_.
     io_bind (io_lift (ss_name destination)) (\<lambda>name.
       with_state_lock (destination_lock parent name) ''state destination is locked''
         (restore_body x parent name destination manifest payload failure)))))"

definition restore_with_failure :: "'x state_ext_scheme \<Rightarrow> place \<Rightarrow> place \<Rightarrow> RestoreFailurePoint \<Rightarrow> RestoreReceipt io" where
  "restore_with_failure x store destination failure =
     io_bind (ensure_existing_real_directory store) (\<lambda>_.
       with_state_lock (store @ [''.snapshot.lock'']) ''state store is locked'' (restore_locked x store destination failure))"

definition restore :: "'x state_ext_scheme \<Rightarrow> place \<Rightarrow> place \<Rightarrow> RestoreReceipt io" where
  "restore x store destination = restore_with_failure x store destination NoRestoreFailure"

text \<open>\<open>rollback\<close> and \<open>commit\<close> lock the destination in the same way.\<close>

definition at_destination :: "place \<Rightarrow> (place \<Rightarrow> string \<Rightarrow> 'a io) \<Rightarrow> 'a io" where
  "at_destination destination m =
     io_bind (io_lift (ss_parent destination)) (\<lambda>parent.
     io_bind (ensure_existing_real_directory parent) (\<lambda>_.
     io_bind (io_lift (ss_name destination)) (\<lambda>name.
       with_state_lock (destination_lock parent name) ''state destination is locked'' (m parent name))))"

definition state_rollback_body :: "place \<Rightarrow> place \<Rightarrow> string \<Rightarrow> unit io" where
  "state_rollback_body destination parent name =
     (let staged = stage_path parent name in
      io_bind (io_lift (rollback_path destination)) (\<lambda>rollback.
      io_bind (io_lift (activation_path destination)) (\<lambda>activation.
      io_bind (ss_read_regular_bounded rollback MAX_STATE_BYTES ''state rollback'') (\<lambda>previous.
      io_bind (reject_stale [staged] ''stale state staging file requires operator action'') (\<lambda>_.
      io_bind (ss_write_new_synced staged previous) (\<lambda>_.
      io_bind (io_rename staged destination) (\<lambda>_.
      io_bind (io_remove_file rollback) (\<lambda>_.
      io_bind (io_exists activation) (\<lambda>marked.
      io_bind (io_when marked (io_remove_file activation)) (\<lambda>_.
        io_sync parent))))))))))"

definition state_rollback :: "place \<Rightarrow> unit io" where
  "state_rollback destination = at_destination destination (state_rollback_body destination)"

definition commit_body :: "'x state_ext_scheme \<Rightarrow> place \<Rightarrow> place \<Rightarrow> string \<Rightarrow> unit io" where
  "commit_body x destination parent name =
     io_bind (io_lift (rollback_path destination)) (\<lambda>rollback.
     io_bind (io_lift (activation_path destination)) (\<lambda>activation.
     io_bind (io_lstat rollback) (\<lambda>metadata.
     io_bind (io_ensure (is_bounded_file MAX_STATE_BYTES metadata) (ss_invalid ''state rollback must be a bounded regular file'')) (\<lambda>_.
     io_bind (ss_read_regular_bounded activation MAX_MANIFEST_BYTES ''state activation marker'') (\<lambda>marker_bytes.
     io_bind (io_lift (map_err (\<lambda>error. ss_invalid (''state activation marker is invalid: '' @ error)) (x_parse_marker x marker_bytes))) (\<lambda>marker.
     io_bind (ss_read_regular_bounded destination MAX_STATE_BYTES ''active state'') (\<lambda>active.
     io_bind (io_ensure (am_version marker = ''state-activation-v1'' \<and> am_payload_bytes marker = length active \<and>
         am_payload_sha256 marker = ss_bytes_digest x active)
       (ss_invalid ''active state no longer matches the restored payload; rollback cannot be discarded'')) (\<lambda>_.
     io_bind (io_remove_file rollback) (\<lambda>_.
     io_bind (io_remove_file activation) (\<lambda>_.
       io_sync parent))))))))))"

definition commit :: "'x state_ext_scheme \<Rightarrow> place \<Rightarrow> unit io" where
  "commit x destination = at_destination destination (commit_body x destination)"

section \<open>A destination and its companions\<close>

text \<open>
  The state of a destination is its content, the previous content a restore keeps and the activation
  marker. The staging file and the lock are apart from these.
\<close>

definition rollback_at :: "place \<Rightarrow> string \<Rightarrow> place" where
  "rollback_at parent name = parent @ [name @ ''.anasemble-rollback'']"

definition activation_at :: "place \<Rightarrow> string \<Rightarrow> place" where
  "activation_at parent name = parent @ [name @ ''.anasemble-activation.json'']"

lemma path_results [simp]:
  assumes "name \<noteq> ''..''"
  shows "ss_name (parent @ [name]) = Inr name" "ss_parent (parent @ [name]) = Inr parent"
    "rollback_path (parent @ [name]) = Inr (rollback_at parent name)" "activation_path (parent @ [name]) = Inr (activation_at parent name)"
  using assms by (simp_all add: ss_name_def ss_parent_def rollback_path_def activation_path_def rollback_at_def activation_at_def)

lemma companions_distinct [simp]:
  "parent @ [name] \<noteq> rollback_at parent name" "rollback_at parent name \<noteq> parent @ [name]"
  "parent @ [name] \<noteq> activation_at parent name" "activation_at parent name \<noteq> parent @ [name]"
  "parent @ [name] \<noteq> stage_path parent name" "stage_path parent name \<noteq> parent @ [name]"
  "parent @ [name] \<noteq> destination_lock parent name" "destination_lock parent name \<noteq> parent @ [name]"
  "rollback_at parent name \<noteq> activation_at parent name" "activation_at parent name \<noteq> rollback_at parent name"
  "rollback_at parent name \<noteq> stage_path parent name" "stage_path parent name \<noteq> rollback_at parent name"
  "rollback_at parent name \<noteq> destination_lock parent name" "destination_lock parent name \<noteq> rollback_at parent name"
  "activation_at parent name \<noteq> stage_path parent name" "stage_path parent name \<noteq> activation_at parent name"
  "activation_at parent name \<noteq> destination_lock parent name" "destination_lock parent name \<noteq> activation_at parent name"
  "stage_path parent name \<noteq> destination_lock parent name" "destination_lock parent name \<noteq> stage_path parent name"
  by (auto simp: rollback_at_def activation_at_def stage_path_def destination_lock_def dest!: arg_cong [where f = length])

type_synonym triple = "entry option \<times> entry option \<times> entry option"

definition state_at :: "place \<Rightarrow> string \<Rightarrow> (place \<Rightarrow> entry option) \<Rightarrow> triple" where
  "state_at parent name f = (f (parent @ [name]), f (rollback_at parent name), f (activation_at parent name))"

lemma state_at_other [simp]:
  "state_at parent name (f(stage_path parent name := e)) = state_at parent name f"
  "state_at parent name (f(destination_lock parent name := e)) = state_at parent name f"
  by (simp_all add: state_at_def)

definition on_state :: "place \<Rightarrow> string \<Rightarrow> triple set \<Rightarrow> assertion" where
  "on_state parent name S f \<longleftrightarrow> state_at parent name f \<in> S"

lemma stoppable_state: "stoppable (\<lambda>_. on_state parent name S) (on_state parent name S) f \<longleftrightarrow> state_at parent name f \<in> S"
  by (auto simp: stoppable_def on_state_def)

definition present :: "entry option \<Rightarrow> bool" where
  "present e \<longleftrightarrow> (case e of None \<Rightarrow> False | Some e \<Rightarrow> follow e \<noteq> None)"

lemma exists_at_present: "exists_at f p \<longleftrightarrow> present (f p)"
  by (simp add: exists_at_def present_def)

text \<open>
  What a restore of \<open>payload\<close> may leave when it does not return a receipt: nothing changes when companions of
  an earlier restore are still there.
\<close>

fun restore_outcomes :: "bool \<Rightarrow> bytes \<Rightarrow> triple \<Rightarrow> triple set" where
  "restore_outcomes had payload (d, r, a) =
     {(d, r, a)} \<union>
     (if present r \<or> present a then {}
      else if had then {(d, None, a') | a'. True} \<union> {(None, d, a)} \<union> {(Some (FileEntry payload), d, a') | a'. True}
      else {(Some (FileEntry payload), r, a)})"

lemma wp_reject_stale:
  assumes "stoppable E C f" "E (ss_invalid message) f" "(\<And>p. p \<in> set paths \<Longrightarrow> \<not> exists_at f p) \<Longrightarrow> Q () f"
  shows "wp (reject_stale paths message) Q E C f"
  using assms(3) unfolding reject_stale_def
proof (induction paths)
  case (Cons p ps)
  then show ?case using assms(1,2) by (auto intro!: wp_bind wp_exists wp_ensure)
qed (auto intro: wp_return)

lemma wp_set_aside:
  fixes parent name f
  defines "D \<equiv> parent @ [name]" and "R \<equiv> rollback_at parent name"
  assumes "stoppable E C f" "stoppable E C (f(stage_path parent name := None))" "\<And>e. E e (f(stage_path parent name := None))"
    and "\<And>old. f D = Some (FileEntry old) \<Longrightarrow> stoppable E C (f(D := None, R \<mapsto> FileEntry old)) \<and> Q True (f(D := None, R \<mapsto> FileEntry old))"
    and "\<not> exists_at f D \<Longrightarrow> Q False f"
  shows "wp (set_aside parent (stage_path parent name) R D) Q E C f"
  unfolding set_aside_def D_def R_def
  using assms
  by (intro wp_bind wp_exists wp_when wp_lstat wp_remove_file wp_raise wp_rename wp_sync wp_return)
    (auto simp: is_regular_def split: entry.split_asm intro!: wp_return)

definition marker_of :: "StateManifest \<Rightarrow> ActivationMarker" where
  "marker_of manifest = \<lparr>am_version = ''state-activation-v1'', am_payload_sha256 = mf_payload_sha256 manifest,
     am_payload_bytes = mf_payload_bytes manifest\<rparr>"

definition restored :: "'x state_ext_scheme \<Rightarrow> place \<Rightarrow> string \<Rightarrow> StateManifest \<Rightarrow> bytes \<Rightarrow> RestoreFailurePoint \<Rightarrow> (place \<Rightarrow> entry option) \<Rightarrow>
    RestoreReceipt \<Rightarrow> assertion" where
  "restored x parent name manifest payload failure f receipt g \<longleftrightarrow>
     failure = NoRestoreFailure \<and> rr_payload_sha256 receipt = mf_payload_sha256 manifest \<and>
     rr_rollback_available receipt = exists_at f (parent @ [name]) \<and>
     \<not> exists_at f (rollback_at parent name) \<and> \<not> exists_at f (activation_at parent name) \<and>
     (if exists_at f (parent @ [name])
      then \<exists>old marker. f (parent @ [name]) = Some (FileEntry old) \<and>
        canonical_encode (x_json_vec x) (x_marker_tree x) (marker_of manifest) = Inr marker \<and>
        state_at parent name g = (Some (FileEntry payload), Some (FileEntry old), Some (FileEntry marker))
      else state_at parent name g = (Some (FileEntry payload), snd (state_at parent name f)))"

lemma wp_undo_rename:
  assumes "stoppable E C f" "f (rollback_at parent name) = Some (FileEntry old)" "\<not> had \<Longrightarrow> Q () f"
    and "had \<Longrightarrow> stoppable E C (f(rollback_at parent name := None, parent @ [name] \<mapsto> FileEntry old)) \<and>
      Q () (f(rollback_at parent name := None, parent @ [name] \<mapsto> FileEntry old))"
  shows "wp (undo_rename had parent (rollback_at parent name) (parent @ [name])) Q E C f"
  unfolding undo_rename_def using assms
  by (intro wp_when wp_bind wp_rename wp_sync) auto

lemma wp_write_marker:
  fixes x :: "'x state_ext_scheme" and manifest
  defines "m \<equiv> canonical_encode (x_json_vec x) (x_marker_tree x) (marker_of manifest)"
  assumes "f (rollback_at parent name) = Some (FileEntry old)"
    and "state_at parent name f \<in> S" "\<And>a. (f (parent @ [name]), Some (FileEntry old), a) \<in> S"
    and "\<And>a. (Some (FileEntry old), None, a) \<in> S"
    and "\<And>marker. m = Inr marker \<Longrightarrow> Q () (f(activation_at parent name \<mapsto> FileEntry marker))"
  shows "wp (write_marker x parent (rollback_at parent name) (activation_at parent name) (parent @ [name]) manifest) Q
    (\<lambda>_. on_state parent name S) (on_state parent name S) f"
proof -
  have u: "wp (io_bind (undo_rename True parent (rollback_at parent name) (parent @ [name])) (\<lambda>_. io_raise e)) Q
      (\<lambda>_. on_state parent name S) (on_state parent name S) g"
    if "g (rollback_at parent name) = Some (FileEntry old)" "g (parent @ [name]) = f (parent @ [name])" for g e
    using that assms(4,5) by (intro wp_bind wp_undo_rename [where old = old] wp_raise) (auto simp: stoppable_state on_state_def state_at_def intro!: wp_raise)
  have st: "stoppable (\<lambda>e. wp (io_bind (undo_rename True parent (rollback_at parent name) (parent @ [name])) (\<lambda>_. io_raise e)) Q
      (\<lambda>_. on_state parent name S) (on_state parent name S)) (on_state parent name S) g"
    if "g (rollback_at parent name) = Some (FileEntry old)" "g (parent @ [name]) = f (parent @ [name])" for g
    using u [OF that] that assms(4) by (simp add: stoppable_def on_state_def state_at_def)
  show ?thesis
    unfolding write_marker_def ss_write_new_synced_def marker_of_def [symmetric]
    using assms(2-) by (intro wp_bind wp_lift wp_catch wp_write_new st) (auto simp: on_state_def m_def)
qed

lemma wp_restore_body:
  fixes x :: "'x state_ext_scheme" and parent name f payload
  defines "S \<equiv> restore_outcomes (exists_at f (parent @ [name])) payload (state_at parent name f)"
  assumes name: "name \<noteq> ''..''"
  shows "wp (restore_body x parent name (parent @ [name]) manifest payload failure) (restored x parent name manifest payload failure f)
    (\<lambda>_. on_state parent name S) (on_state parent name S) f"
proof -
  let ?D = "parent @ [name]" and ?R = "rollback_at parent name" and ?A = "activation_at parent name" and ?T = "stage_path parent name"
  let ?I = "on_state parent name S" and ?Q = "restored x parent name manifest payload failure f"
  let ?rest = "\<lambda>had. io_bind (io_when (failure = AfterStateRollbackPrepared) (
        io_bind (io_remove_file ?T) (\<lambda>_. io_bind (undo_rename had parent ?R ?D) (\<lambda>_.
          io_raise (Io ''injected failure after state rollback preparation''))))) (\<lambda>_.
      io_bind (io_catch (io_rename ?T ?D) (\<lambda>error. io_bind (io_ignore (io_remove_file ?T)) (\<lambda>_.
        io_bind (undo_rename had parent ?R ?D) (\<lambda>_. io_raise error)))) (\<lambda>_.
      io_bind (io_when had (write_marker x parent ?R ?A ?D manifest)) (\<lambda>_.
      io_bind (io_sync parent) (\<lambda>_.
        io_return \<lparr>rr_payload_sha256 = mf_payload_sha256 manifest, rr_payload_bytes = mf_payload_bytes manifest,
          rr_revision = mf_revision manifest, rr_rollback_available = had\<rparr>))))"
  obtain d r a where st: "state_at parent name f = (d, r, a)" by (cases "state_at parent name f")
  then have fs: "f ?D = d" "f ?R = r" "f ?A = a" by (simp_all add: state_at_def)
  have n: "failure = NoRestoreFailure" if "failure \<noteq> AfterStateRollbackPrepared" using that by (cases failure) auto
  have fin: "wp (?rest True) ?Q (\<lambda>_. ?I) ?I (f(?T \<mapsto> FileEntry payload, ?D := None, ?R \<mapsto> FileEntry old))"
    if "f ?D = Some (FileEntry old)" and clear: "\<not> exists_at f ?R" "\<not> exists_at f ?A" for old
  proof -
    have d: "d = Some (FileEntry old)" "exists_at f ?D" using that fs by simp_all
    have S: "(d, r, a) \<in> S" "(d, None, b) \<in> S" "(None, d, a) \<in> S" "(Some (FileEntry payload), d, b) \<in> S" for b
      using d st clear fs by (auto simp: S_def exists_at_present)
    let ?g = "f(?T \<mapsto> FileEntry payload, ?D := None, ?R \<mapsto> FileEntry old)"
    have h: "wp (io_bind (io_ignore (io_remove_file ?T)) (\<lambda>_. io_bind (undo_rename True parent ?R ?D) (\<lambda>_. io_raise e))) R (\<lambda>_. ?I) ?I ?g" for e and R :: "unit \<Rightarrow> assertion"
      by (intro wp_bind wp_ignore wp_remove_file wp_undo_rename [where old = old])
        (use S d fs in \<open>auto simp: stoppable_def on_state_def state_at_def intro!: wp_raise wp_bind wp_undo_rename [where old = old]\<close>)
    have st: "stoppable (\<lambda>e. wp (io_bind (io_ignore (io_remove_file ?T)) (\<lambda>_. io_bind (undo_rename True parent ?R ?D) (\<lambda>_. io_raise e))) R
        (\<lambda>_. ?I) ?I) ?I ?g" for R :: "unit \<Rightarrow> assertion"
      using h [of _ R] S d fs by (simp add: stoppable_def on_state_def state_at_def)
    show ?thesis
      by (intro wp_bind wp_when wp_remove_file wp_undo_rename [where old = old] wp_raise wp_catch st wp_rename
          wp_write_marker [where old = old] wp_sync wp_return)
        (use S d fs n clear in \<open>auto simp: stoppable_def on_state_def restored_def state_at_def intro!: wp_raise wp_bind wp_sync wp_return\<close>)
  qed
  have free: "wp (?rest False) ?Q (\<lambda>_. ?I) ?I (f(?T \<mapsto> FileEntry payload))"
    if "\<not> exists_at f ?D" "\<not> exists_at f ?R" "\<not> exists_at f ?A"
    unfolding undo_rename_def using that st fs n
    by (auto intro!: wp_bind wp_when wp_remove_file wp_raise wp_catch wp_rename wp_ignore wp_sync wp_return
      simp: stoppable_def on_state_def S_def restored_def state_at_def exists_at_present)
  have e: "exists_at (f(?T \<mapsto> FileEntry payload)) ?D = exists_at f ?D" by (simp add: exists_at_def)
  have keep: "(d, r, a) \<in> S" using st by (simp add: S_def)
  have aside: "wp (set_aside parent ?T ?R ?D) (\<lambda>had. wp (?rest had) ?Q (\<lambda>_. ?I) ?I) (\<lambda>_. ?I) ?I (f(?T \<mapsto> FileEntry payload))"
    if clear: "\<not> exists_at f ?R" "\<not> exists_at f ?A"
  proof -
    have "(None, d, a) \<in> S" if "exists_at f ?D" using st fs clear that by (auto simp: S_def exists_at_present)
    then show ?thesis
      by (intro wp_set_aside)
        (use st keep fin free fs clear in \<open>auto simp: e stoppable_state on_state_def fun_upd_twist state_at_def\<close>)
  qed
  show ?thesis
    unfolding restore_body_def Let_def ss_write_new_synced_def
    by (intro wp_bind wp_lift wp_reject_stale wp_write_new)
      (use name st keep aside in \<open>auto simp: stoppable_state on_state_def\<close>)
qed

section \<open>What the store holds\<close>

definition stored_state :: "'x state_ext_scheme \<Rightarrow> place \<Rightarrow> (place \<Rightarrow> entry option) \<Rightarrow> StateManifest \<Rightarrow> bytes \<Rightarrow> bool" where
  "stored_state x store f manifest payload \<longleftrightarrow>
     (\<exists>mb. f (store @ [''current.json'']) = Some (FileEntry mb) \<and> length mb \<le> MAX_MANIFEST_BYTES \<and> parse_manifest x mb = Inr manifest) \<and>
     f (object_path store (mf_payload_sha256 manifest)) = Some (FileEntry payload) \<and> length payload \<le> MAX_STATE_BYTES \<and>
     length payload = mf_payload_bytes manifest \<and> ss_bytes_digest x payload = mf_payload_sha256 manifest"

lemma object_path_neq [simp]: "object_path store h \<noteq> store @ [n]" "store @ [n] \<noteq> object_path store h" "object_path store h \<noteq> store" "store \<noteq> object_path store h"
  by (auto simp: object_path_def)

lemma stored_state_unique: "stored_state x store f m p \<Longrightarrow> stored_state x store f m' p' \<Longrightarrow> m' = m \<and> p' = p"
  by (auto simp: stored_state_def)

lemma stored_state_cong:
  assumes "g (store @ [''current.json'']) = f (store @ [''current.json''])" "\<And>h. g (object_path store h) = f (object_path store h)"
  shows "stored_state x store g m p = stored_state x store f m p"
  using assms by (simp add: stored_state_def)

lemma wp_load_payload:
  assumes "\<And>e. E e f" "C f" "\<And>m p. stored_state x store f m p \<Longrightarrow> Q (m, p) f"
  shows "wp (load_payload x store) Q E C f"
  unfolding load_payload_def ss_read_regular_bounded_def
  using assms by (intro wp_bind wp_read_bounded wp_lift wp_ensure wp_return) (auto simp: stoppable_def stored_state_def)

definition restoring :: "'x state_ext_scheme \<Rightarrow> place \<Rightarrow> place \<Rightarrow> string \<Rightarrow> (place \<Rightarrow> entry option) \<Rightarrow> triple set" where
  "restoring x store parent name f =
     {state_at parent name f} \<union>
     (\<Union>(m, p) \<in> {(m, p). stored_state x store f m p}. restore_outcomes (exists_at f (parent @ [name])) p (state_at parent name f))"

definition restored_from :: "'x state_ext_scheme \<Rightarrow> place \<Rightarrow> place \<Rightarrow> string \<Rightarrow> RestoreFailurePoint \<Rightarrow> (place \<Rightarrow> entry option) \<Rightarrow>
    RestoreReceipt \<Rightarrow> assertion" where
  "restored_from x store parent name failure f receipt g \<longleftrightarrow>
     (\<exists>m p. stored_state x store f m p \<and> restored x parent name m p failure f receipt g)"

lemma lock_same:
  "state_at parent name (f(destination_lock parent name := e)) = state_at parent name f"
  "exists_at (f(destination_lock parent name := e)) (parent @ [name]) = exists_at f (parent @ [name])"
  by (simp_all add: exists_at_def)

lemma restored_lock:
  "restored x parent name m p failure (f(destination_lock parent name := e)) = restored x parent name m p failure f"
  "restored x parent name m p failure f receipt (g(destination_lock parent name := e)) = restored x parent name m p failure f receipt g"
  by (simp_all add: restored_def fun_eq_iff exists_at_def state_at_def)

lemma wp_restore_locked:
  assumes name: "name \<noteq> ''..''"
  shows "wp (restore_locked x store (parent @ [name]) failure) (restored_from x store parent name failure f)
    (\<lambda>_. on_state parent name (restoring x store parent name f)) (on_state parent name (restoring x store parent name f)) f"
proof -
  let ?I = "on_state parent name (restoring x store parent name f)" and ?L = "destination_lock parent name"
  have start: "state_at parent name f \<in> restoring x store parent name f" by (simp add: restoring_def)
  have "wp (with_state_lock ?L msg (restore_body x parent name (parent @ [name]) m p failure)) (restored_from x store parent name failure f) (\<lambda>_. ?I) ?I f"
    if sp: "stored_state x store f m p" for m p msg
  proof -
    have S: "restore_outcomes (exists_at f (parent @ [name])) p (state_at parent name f) \<subseteq> restoring x store parent name f"
      using sp by (auto simp: restoring_def)
    have "wp (restore_body x parent name (parent @ [name]) m p failure)
        (\<lambda>v g. restored_from x store parent name failure f v g \<and> restored_from x store parent name failure f v (g(?L := None)) \<and> ?I g)
        (\<lambda>e g. ?I g \<and> ?I (g(?L := None)) \<and> ?I g) ?I (f(?L \<mapsto> FileEntry []))"
    proof (rule wp_conseq [OF wp_restore_body [OF name]])
      fix v g assume "restored x parent name m p failure (f(?L \<mapsto> FileEntry [])) v g"
      then have r: "restored x parent name m p failure f v g" by (simp add: restored_lock)
      then have "state_at parent name g \<in> restore_outcomes (exists_at f (parent @ [name])) p (state_at parent name f)"
        by (auto simp: restored_def state_at_def exists_at_present split: if_split_asm)
      with S r sp show "restored_from x store parent name failure f v g \<and> restored_from x store parent name failure f v (g(?L := None)) \<and> ?I g"
        by (auto simp: restored_from_def restored_lock on_state_def)
    qed (use S in \<open>auto simp: on_state_def lock_same\<close>)
    then show ?thesis unfolding with_state_lock_def
      using start by (intro wp_locked) (auto simp: stoppable_state)
  qed
  then show ?thesis
    unfolding restore_locked_def ensure_existing_real_directory_def using name start
    by (intro wp_bind wp_load_payload) (auto simp: on_state_def stoppable_state intro!: wp_bind wp_lift wp_real_directory)
qed

lemma wp_restore:
  assumes name: "name \<noteq> ''..''" and apart: "store \<noteq> parent"
  shows "wp (restore_with_failure x store (parent @ [name]) failure) (restored_from x store parent name failure f)
    (\<lambda>_. on_state parent name (restoring x store parent name f)) (on_state parent name (restoring x store parent name f)) f"
proof -
  let ?L = "store @ [''.snapshot.lock'']" and ?I = "on_state parent name (restoring x store parent name f)"
  have neq: "?L \<noteq> parent @ [name]" "rollback_at parent name \<noteq> ?L" "activation_at parent name \<noteq> ?L"
    using apart by (auto simp: rollback_at_def activation_at_def)
  then have same: "state_at parent name (g(?L := e)) = state_at parent name g" "exists_at (g(?L := e)) (parent @ [name]) = exists_at g (parent @ [name])"
    "exists_at (g(?L := e)) (rollback_at parent name) = exists_at g (rollback_at parent name)"
    "exists_at (g(?L := e)) (activation_at parent name) = exists_at g (activation_at parent name)"
    "stored_state x store (g(?L := e)) = stored_state x store g" for g e
    by (auto simp: state_at_def exists_at_def stored_state_def fun_eq_iff)
  then have same': "restoring x store parent name (g(?L := e)) = restoring x store parent name g"
    "restored_from x store parent name failure (g(?L := e)) = restored_from x store parent name failure g"
    "restored_from x store parent name failure g v (h(?L := e)) = restored_from x store parent name failure g v h" for g h e v
    using neq apart by (simp_all add: restoring_def restored_from_def restored_def fun_eq_iff)
  have sub: "state_at parent name g \<in> restoring x store parent name f" if "restored_from x store parent name failure f v g" for v g
  proof -
    from that obtain m p where "stored_state x store f m p" "restored x parent name m p failure f v g" by (auto simp: restored_from_def)
    moreover from this(2) have "state_at parent name g \<in> restore_outcomes (exists_at f (parent @ [name])) p (state_at parent name f)"
      by (auto simp: restored_def state_at_def exists_at_present split: if_split_asm)
    ultimately show ?thesis by (auto simp: restoring_def)
  qed
  have "wp (restore_locked x store (parent @ [name]) failure)
      (\<lambda>v g. restored_from x store parent name failure f v g \<and> restored_from x store parent name failure f v (g(?L := None)) \<and> ?I g)
      (\<lambda>e g. ?I g \<and> ?I (g(?L := None)) \<and> ?I g) ?I (f(?L \<mapsto> FileEntry []))"
    by (rule wp_conseq [OF wp_restore_locked [OF name]]) (use sub in \<open>auto simp: same' same on_state_def\<close>)
  moreover have "state_at parent name f \<in> restoring x store parent name f" by (simp add: restoring_def)
  ultimately show ?thesis
    unfolding restore_with_failure_def ensure_existing_real_directory_def with_state_lock_def
    by (intro wp_bind wp_real_directory wp_locked) (auto simp: stoppable_state on_state_def)
qed

section \<open>Rollback and commit\<close>

fun rollback_outcomes :: "triple \<Rightarrow> triple set" where
  "rollback_outcomes (d, r, a) =
     {(d, r, a)} \<union> (if \<exists>bs. r = Some (FileEntry bs) then {(r, r, a), (r, None, a), (r, None, None)} else {})"

definition committable :: "'x state_ext_scheme \<Rightarrow> triple \<Rightarrow> bool" where
  "committable x t \<longleftrightarrow> (case t of (d, r, a) \<Rightarrow>
     (\<exists>active mb marker. d = Some (FileEntry active) \<and> a = Some (FileEntry mb) \<and> x_parse_marker x mb = Inr marker \<and>
        am_version marker = ''state-activation-v1'' \<and> am_payload_bytes marker = length active \<and>
        am_payload_sha256 marker = ss_bytes_digest x active))"

definition commit_outcomes :: "'x state_ext_scheme \<Rightarrow> triple \<Rightarrow> triple set" where
  "commit_outcomes x t = {t} \<union> (case t of (d, r, a) \<Rightarrow> if committable x t then {(d, None, a), (d, None, None)} else {})"

lemma wp_at_destination:
  fixes parent name f
  defines "t \<equiv> state_at parent name f"
  assumes name: "name \<noteq> ''..''" and start: "t \<in> S"
    and body: "wp (m parent name) (\<lambda>v. on_state parent name (R v)) (\<lambda>_. on_state parent name S) (on_state parent name S) (f(destination_lock parent name \<mapsto> FileEntry []))"
    and sub: "\<And>v. R v \<subseteq> S"
  shows "wp (at_destination (parent @ [name]) m) (\<lambda>v. on_state parent name (R v)) (\<lambda>_. on_state parent name S) (on_state parent name S) f"
proof -
  have "wp (m parent name)
      (\<lambda>v g. on_state parent name (R v) g \<and> on_state parent name (R v) (g(destination_lock parent name := None)) \<and> on_state parent name S g)
      (\<lambda>e g. on_state parent name S g \<and> on_state parent name S (g(destination_lock parent name := None)) \<and> on_state parent name S g)
      (on_state parent name S) (f(destination_lock parent name \<mapsto> FileEntry []))"
    by (rule wp_conseq [OF body]) (use sub in \<open>auto simp: on_state_def\<close>)
  then show ?thesis
    unfolding at_destination_def ensure_existing_real_directory_def with_state_lock_def using name start
    by (intro wp_bind wp_lift wp_real_directory wp_locked) (auto simp: t_def stoppable_state on_state_def)
qed

lemma io_bind_lift: "io_bind (io_lift (Inr v)) g = g v"
  by (simp add: io_bind_def io_lift_def io_return_def fun_eq_iff)

definition rolled_back_states :: "triple \<Rightarrow> triple set" where
  "rolled_back_states t = (case t of (d, r, a) \<Rightarrow> if \<exists>bs. r = Some (FileEntry bs) then {(r, None, if present a then None else a)} else {})"

lemma wp_state_rollback_body:
  assumes name: "name \<noteq> ''..''" and t: "state_at parent name f = (d, r, a)"
  shows "wp (state_rollback_body (parent @ [name]) parent name) (\<lambda>_. on_state parent name (rolled_back_states (d, r, a)))
    (\<lambda>_. on_state parent name (rollback_outcomes (d, r, a))) (on_state parent name (rollback_outcomes (d, r, a))) f"
proof -
  let ?I = "on_state parent name (rollback_outcomes (d, r, a))" and ?R = "rollback_at parent name" and ?A = "activation_at parent name"
  from t have fs: "f (parent @ [name]) = d" "f ?R = r" "f ?A = a" by (simp_all add: state_at_def)
  have i: "?I f" "stoppable (\<lambda>_. ?I) ?I f" using t by (simp_all add: on_state_def stoppable_state)
  have ren: "wp (io_rename (stage_path parent name) (parent @ [name])) (\<lambda>_. wp (io_bind (io_remove_file ?R) (\<lambda>_. io_bind (io_exists ?A) (\<lambda>marked.
      io_bind (io_when marked (io_remove_file ?A)) (\<lambda>_. io_sync parent)))) (\<lambda>_. on_state parent name (rolled_back_states (d, r, a))) (\<lambda>_. ?I) ?I) (\<lambda>_. ?I) ?I
      (f(stage_path parent name \<mapsto> FileEntry bs))" if "r = Some (FileEntry bs)" for bs
    by (intro wp_rename wp_bind wp_remove_file wp_exists wp_when wp_sync)
      (use that fs in \<open>auto simp: stoppable_state on_state_def state_at_def exists_at_present rolled_back_states_def\<close>)
  show ?thesis
    unfolding state_rollback_body_def Let_def ss_read_regular_bounded_def ss_write_new_synced_def path_results [OF name] io_bind_lift
    by (intro wp_bind wp_read_bounded wp_reject_stale wp_write_new)
      (use fs i ren in \<open>simp_all add: stoppable_state on_state_def t del: rollback_outcomes.simps\<close>)
qed

lemma wp_state_rollback:
  assumes name: "name \<noteq> ''..''"
  shows "wp (state_rollback (parent @ [name])) (\<lambda>_. on_state parent name (rolled_back_states (state_at parent name f)))
    (\<lambda>_. on_state parent name (rollback_outcomes (state_at parent name f))) (on_state parent name (rollback_outcomes (state_at parent name f))) f"
proof -
  obtain d r a where t: "state_at parent name f = (d, r, a)" by (cases "state_at parent name f")
  then have "state_at parent name (f(destination_lock parent name \<mapsto> FileEntry [])) = (d, r, a)" by simp
  from wp_state_rollback_body [OF name this] show ?thesis unfolding state_rollback_def
    by (intro wp_at_destination [where R = "\<lambda>_. rolled_back_states (state_at parent name f)"]) (use name t in \<open>auto simp: rolled_back_states_def\<close>)
qed

lemma wp_commit_body:
  assumes name: "name \<noteq> ''..''" and t: "state_at parent name f = (d, r, a)"
  shows "wp (commit_body x (parent @ [name]) parent name) (\<lambda>_. on_state parent name {s. committable x (d, r, a) \<and> s = (d, None, None)})
    (\<lambda>_. on_state parent name (commit_outcomes x (d, r, a))) (on_state parent name (commit_outcomes x (d, r, a))) f"
proof -
  let ?I = "on_state parent name (commit_outcomes x (d, r, a))" and ?R = "rollback_at parent name" and ?A = "activation_at parent name"
  from t have fs: "f (parent @ [name]) = d" "f ?R = r" "f ?A = a" by (simp_all add: state_at_def)
  have i: "?I f" "stoppable (\<lambda>_. ?I) ?I f" using t by (simp_all add: on_state_def stoppable_state commit_outcomes_def)
  have rem: "wp (io_remove_file ?R) (\<lambda>_. wp (io_bind (io_remove_file ?A) (\<lambda>_. io_sync parent))
      (\<lambda>_. on_state parent name {s. committable x (d, r, a) \<and> s = (d, None, None)}) (\<lambda>_. ?I) ?I) (\<lambda>_. ?I) ?I f" if "committable x (d, r, a)"
    by (intro wp_bind wp_remove_file wp_sync)
      (use that fs in \<open>simp_all add: stoppable_state on_state_def state_at_def commit_outcomes_def\<close>)
  show ?thesis
    unfolding commit_body_def ss_read_regular_bounded_def path_results [OF name] io_bind_lift
    by (intro wp_bind [of "io_lift q" for q] wp_bind [of "io_lstat p" for p] wp_bind [of "io_ensure c e" for c e]
        wp_bind [of "io_read_bounded n e p" for n e p] wp_bind [of "io_remove_file p" for p] wp_lift wp_lstat wp_ensure wp_read_bounded rem)
      (use name fs i in \<open>auto simp: committable_def result_simps\<close>)
qed

lemma wp_commit:
  assumes name: "name \<noteq> ''..''"
  shows "wp (commit x (parent @ [name]))
    (\<lambda>_. on_state parent name {s. committable x (state_at parent name f) \<and> s = (fst (state_at parent name f), None, None)})
    (\<lambda>_. on_state parent name (commit_outcomes x (state_at parent name f))) (on_state parent name (commit_outcomes x (state_at parent name f))) f"
proof -
  obtain d r a where t: "state_at parent name f = (d, r, a)" by (cases "state_at parent name f")
  then have "state_at parent name (f(destination_lock parent name \<mapsto> FileEntry [])) = (d, r, a)" by simp
  from wp_commit_body [OF name this, of x] show ?thesis unfolding commit_def t
    by (intro wp_at_destination [where R = "\<lambda>_. {s. committable x (d, r, a) \<and> s = (fst (d, r, a), None, None)}"]) (use name t in \<open>auto simp: commit_outcomes_def\<close>)
qed

section \<open>The life of a destination\<close>

text \<open>
  Restores and rollbacks of one destination with any faults and deaths, the service that writes its state
  while the previous one is kept, and anything that leaves the destination and its companions alone.
\<close>

inductive destination_step :: "'x state_ext_scheme \<Rightarrow> place \<Rightarrow> string \<Rightarrow> disk \<Rightarrow> disk \<Rightarrow> bool" for x parent name where
  Restores: "store \<noteq> parent \<Longrightarrow> restore_with_failure x store (parent @ [name]) failure d = (r, d') \<Longrightarrow> destination_step x parent name d d'"
| RollsBackState: "state_rollback (parent @ [name]) d = (r, d') \<Longrightarrow> destination_step x parent name d d'"
| ServiceWrites: "state_at parent name (files d) = (s, Some kept, a) \<Longrightarrow> state_at parent name (files d') = (s', Some kept, a) \<Longrightarrow>
    destination_step x parent name d d'"
| ElsewhereState: "state_at parent name (files d') = state_at parent name (files d) \<Longrightarrow> destination_step x parent name d d'"

inductive destination_reachable :: "'x state_ext_scheme \<Rightarrow> place \<Rightarrow> string \<Rightarrow> bytes \<Rightarrow> disk \<Rightarrow> bool" for x parent name old where
  Original: "state_at parent name (files d) = (Some (FileEntry old), None, a) \<Longrightarrow> destination_reachable x parent name old d"
| DestinationStep: "destination_reachable x parent name old d \<Longrightarrow> destination_step x parent name d d' \<Longrightarrow> destination_reachable x parent name old d'"

definition kept_state :: "bytes \<Rightarrow> triple \<Rightarrow> bool" where
  "kept_state old t \<longleftrightarrow> (case t of (d, r, a) \<Rightarrow> r = Some (FileEntry old) \<or> (r = None \<and> d = Some (FileEntry old)))"

lemma restoring_kept:
  assumes "kept_state old (state_at parent name f)" "t \<in> restoring x store parent name f"
  shows "kept_state old t"
proof -
  obtain d r a where st: "state_at parent name f = (d, r, a)" by (cases "state_at parent name f")
  have "exists_at f (parent @ [name]) = present d" using st by (simp add: exists_at_present state_at_def)
  with assms st show ?thesis by (auto simp: restoring_def kept_state_def present_def split: if_split_asm)
qed

lemma restored_restoring:
  assumes "restored_from x store parent name failure f receipt g"
  shows "state_at parent name g \<in> restoring x store parent name f"
proof -
  from assms obtain m p where s: "stored_state x store f m p" "restored x parent name m p failure f receipt g" by (auto simp: restored_from_def)
  then have "state_at parent name g \<in> restore_outcomes (exists_at f (parent @ [name])) p (state_at parent name f)"
    by (auto simp: restored_def state_at_def exists_at_present split: if_split_asm)
  with s(1) show ?thesis by (auto simp: restoring_def)
qed

lemma destination_step_kept:
  assumes step: "destination_step x parent name d d'" and name: "name \<noteq> ''..''" and inv: "kept_state old (state_at parent name (files d))"
  shows "kept_state old (state_at parent name (files d'))"
  using step
proof cases
  case (Restores store failure r)
  have "state_at parent name (files d') \<in> restoring x store parent name (files d)"
    using wpD [OF wp_restore [OF name Restores(1)] Restores(2)] restored_restoring by (fastforce simp: on_state_def split: run.split_asm)
  then show ?thesis by (rule restoring_kept [OF inv])
next
  case (RollsBackState r)
  have "state_at parent name (files d') \<in> rollback_outcomes (state_at parent name (files d))"
    using wpD [OF wp_state_rollback [OF name] RollsBackState]
    by (cases "state_at parent name (files d)") (auto simp: on_state_def rolled_back_states_def split: run.split_asm if_split_asm)
  then show ?thesis using inv by (cases "state_at parent name (files d)") (auto simp: kept_state_def split: if_split_asm)
qed (use inv in \<open>auto simp: kept_state_def\<close>)

section \<open>Snapshots keep the store intact\<close>

definition state_intact :: "'x state_ext_scheme \<Rightarrow> place \<Rightarrow> assertion" where
  "state_intact x store f \<longleftrightarrow> f (store @ [''current.json'']) = None \<or> (\<exists>m p. stored_state x store f m p)"

text \<open>A later state of the store: the stored state stays, or one of a higher revision of the same component replaces it.\<close>

definition state_progress :: "'x state_ext_scheme \<Rightarrow> place \<Rightarrow> (place \<Rightarrow> entry option) \<Rightarrow> assertion" where
  "state_progress x store f g \<longleftrightarrow> (\<forall>m p. stored_state x store f m p \<longrightarrow>
     (\<exists>m' p'. stored_state x store g m' p' \<and> mf_component m' = mf_component m \<and> ((m', p') = (m, p) \<or> mf_revision m < mf_revision m')))"

definition state_codec :: "'x state_ext_scheme \<Rightarrow> bool" where
  "state_codec x \<longleftrightarrow>
     (\<forall>m bs. validate_manifest x m = Inr () \<longrightarrow> canonical_encode (x_json_vec x) (x_manifest_tree x) m = Inr bs \<longrightarrow>
        length bs \<le> MAX_MANIFEST_BYTES \<and> x_parse_manifest x bs = Inr m) \<and>
     (\<forall>bs. length (ss_bytes_digest x bs) = 64 \<and> (\<exists>h. x_hex_decode x (ss_bytes_digest x bs) = Some h \<and> length h = 32))"

lemma state_progress_refl: "state_progress x store f f"
  by (auto simp: state_progress_def)

lemma state_progress_trans:
  assumes "state_progress x store f g" "state_progress x store g h"
  shows "state_progress x store f h"
  unfolding state_progress_def
proof (intro allI impI)
  fix m p assume "stored_state x store f m p"
  then obtain m' p' where 1: "stored_state x store g m' p'" "mf_component m' = mf_component m" "(m', p') = (m, p) \<or> mf_revision m < mf_revision m'"
    using assms(1) unfolding state_progress_def by blast
  then obtain m'' p'' where "stored_state x store h m'' p''" "mf_component m'' = mf_component m'" "(m'', p'') = (m', p') \<or> mf_revision m' < mf_revision m''"
    using assms(2) unfolding state_progress_def by blast
  with 1 show "\<exists>m' p'. stored_state x store h m' p' \<and> mf_component m' = mf_component m \<and> ((m', p') = (m, p) \<or> mf_revision m < mf_revision m')"
    by (intro exI [of _ m''] exI [of _ p'']) auto
qed

definition grows :: "place \<Rightarrow> (place \<Rightarrow> entry option) \<Rightarrow> assertion" where
  "grows store f g \<longleftrightarrow> g (store @ [''current.json'']) = f (store @ [''current.json'']) \<and>
     (\<forall>h. f (object_path store h) \<noteq> None \<longrightarrow> g (object_path store h) = f (object_path store h))"

lemma grows_refl [simp]: "grows store f f"
  by (simp add: grows_def)

lemma grows_other [simp]: "n \<noteq> ''current.json'' \<Longrightarrow> grows store f (g(store @ [n] := e)) \<longleftrightarrow> grows store f g"
  "grows store f (g(store := e)) \<longleftrightarrow> grows store f g"
  by (simp_all add: grows_def)

lemma grows_object: "grows store f g \<Longrightarrow> g (object_path store h) = None \<Longrightarrow> grows store f (g(object_path store h := e))"
  by (auto simp: grows_def)

lemma grows_stored: "grows store f g \<Longrightarrow> stored_state x store f m p \<Longrightarrow> stored_state x store g m p"
  by (simp add: grows_def stored_state_def)

lemma grows_keeps:
  assumes "grows store f g" "state_intact x store f"
  shows "state_intact x store g \<and> state_progress x store f g"
proof
  show "state_intact x store g"
  proof (cases "f (store @ [''current.json'']) = None")
    case True
    with assms(1) show ?thesis by (simp add: state_intact_def grows_def)
  next
    case False
    with assms grows_stored [OF assms(1)] show ?thesis unfolding state_intact_def by blast
  qed
  show "state_progress x store f g"
    unfolding state_progress_def using grows_stored [OF assms(1)] by blast
qed

lemma wp_ensure_real_directory:
  assumes "\<And>e. E e f" "C f" "\<And>e. f p = None \<Longrightarrow> E e (f(p \<mapsto> DirEntry))" "f p = None \<Longrightarrow> C (f(p \<mapsto> DirEntry))"
    and "f p = Some DirEntry \<Longrightarrow> Q () f" "f p = None \<Longrightarrow> Q () (f(p \<mapsto> DirEntry))"
  shows "wp (ensure_real_directory p) Q E C f"
  unfolding ensure_real_directory_def ensure_existing_real_directory_def using assms
  by (intro wp_bind wp_exists wp_when wp_create_dir wp_real_directory) (auto simp: stoppable_def intro!: wp_real_directory)

lemma wp_put_object:
  assumes G: "\<And>g e. grows store f g \<Longrightarrow> E e g \<and> C g" and g: "grows store f g"
    and Q: "\<And>g. grows store f g \<Longrightarrow> g (object_path store h) = Some (FileEntry payload) \<Longrightarrow> Q () g"
  shows "wp (put_object store h payload) Q E C g"
proof -
  have st: "stoppable E C g" if "grows store f g" for g using G [OF that] by (simp add: stoppable_def)
  have "wp (io_exists (object_path store h)) (\<lambda>found. wp (if found then
         io_bind (ss_read_regular_bounded (object_path store h) MAX_STATE_BYTES ''state object'') (\<lambda>existing.
           io_ensure (existing = payload) (ss_invalid ''content-addressed state object has conflicting bytes''))
       else io_bind (ss_write_new_synced (object_path store h) payload) (\<lambda>_. io_sync (store @ [''objects'']))) Q E C) E C g'"
    if g': "grows store f g'" for g'
    unfolding ss_read_regular_bounded_def ss_write_new_synced_def using g' G [OF g'] Q [OF g'] st [OF g'] grows_object [OF g', of h]
    by (auto intro!: wp_exists wp_bind wp_read_bounded wp_ensure wp_write_new wp_sync st Q)
  then show ?thesis unfolding put_object_def
    by (intro wp_bind wp_ensure_real_directory) (use G g in \<open>auto simp: stoppable_def\<close>)
qed

lemma wp_check_revision:
  assumes "\<And>e. E e f" "C f"
    and "(exists_at f (store @ [''current.json'']) \<Longrightarrow>
       \<exists>mb m. f (store @ [''current.json'']) = Some (FileEntry mb) \<and> parse_manifest x mb = Inr m \<and> mf_component m = component \<and> mf_revision m < revision) \<Longrightarrow> Q () f"
  shows "wp (check_revision x store component revision) Q E C f"
  unfolding check_revision_def ss_read_regular_bounded_def using assms
  by (intro wp_bind wp_exists wp_when wp_read_bounded wp_lift wp_ensure) (auto simp: stoppable_def intro!: wp_bind wp_read_bounded wp_lift wp_ensure)

lemma new_manifest:
  assumes "state_codec x" "validate_label ''component'' component = Inr ()" "validate_label ''schema version'' schema = Inr ()"
    and "length payload \<le> MAX_STATE_BYTES"
    and "canonical_encode (x_json_vec x) (x_manifest_tree x) \<lparr>mf_version = ''state-file-v1'', mf_component = component, mf_schema_version = schema,
      mf_revision = revision, mf_payload_sha256 = ss_bytes_digest x payload, mf_payload_bytes = length payload\<rparr> = Inr mb" (is "canonical_encode _ _ ?m = _")
    and "g (object_path store (ss_bytes_digest x payload)) = Some (FileEntry payload)"
  shows "stored_state x store (g(store @ [''current.json''] \<mapsto> FileEntry mb)) ?m payload"
proof -
  obtain h where h: "length (ss_bytes_digest x payload) = 64" "x_hex_decode x (ss_bytes_digest x payload) = Some h" "length h = 32"
    using assms(1) unfolding state_codec_def by blast
  then have v: "validate_manifest x ?m = Inr ()" using assms(2-4) by (simp add: validate_manifest_def)
  then have "x_parse_manifest x mb = Inr ?m" "length mb \<le> MAX_MANIFEST_BYTES" using assms(1,5) by (auto simp: state_codec_def)
  then show ?thesis using v assms(4,6) by (simp add: stored_state_def parse_manifest_def)
qed

definition snapshot_kept :: "'x state_ext_scheme \<Rightarrow> place \<Rightarrow> (place \<Rightarrow> entry option) \<Rightarrow> assertion" where
  "snapshot_kept x store f g \<longleftrightarrow> state_intact x store g \<and> state_progress x store f g"

definition snapshot_taken :: "'x state_ext_scheme \<Rightarrow> place \<Rightarrow> bytes \<Rightarrow> string \<Rightarrow> u64 \<Rightarrow> assertion" where
  "snapshot_taken x store payload component revision g \<longleftrightarrow>
     (\<exists>m. stored_state x store g m payload \<and> mf_component m = component \<and> mf_revision m = revision)"

lemma wp_snapshot_body:
  assumes codec: "state_codec x" and ok: "state_intact x store f" and f': "grows store f f'"
    and labels: "validate_label ''component'' component = Inr ()" "validate_label ''schema version'' schema = Inr ()"
    and len: "length payload \<le> MAX_STATE_BYTES"
  shows "wp (snapshot_body x store payload component schema revision)
    (\<lambda>_ g. snapshot_kept x store f g \<and> snapshot_taken x store payload component revision g)
    (\<lambda>_. snapshot_kept x store f) (snapshot_kept x store f) f'"
proof -
  let ?c = "store @ [''current.json'']" and ?K = "snapshot_kept x store f"
  let ?m = "\<lparr>mf_version = ''state-file-v1'', mf_component = component, mf_schema_version = schema, mf_revision = revision,
      mf_payload_sha256 = ss_bytes_digest x payload, mf_payload_bytes = length payload\<rparr>"
  have K: "?K g" if "grows store f g" for g using grows_keeps [OF that ok] by (simp add: snapshot_kept_def)
  have new: "?K (g(?c \<mapsto> FileEntry mb)) \<and> snapshot_taken x store payload component revision (g(?c \<mapsto> FileEntry mb))"
    if g: "grows store f g" "g (object_path store (ss_bytes_digest x payload)) = Some (FileEntry payload)"
      and mb: "canonical_encode (x_json_vec x) (x_manifest_tree x) ?m = Inr mb"
      and rev: "exists_at f' ?c \<Longrightarrow> \<exists>mb m. f' ?c = Some (FileEntry mb) \<and> parse_manifest x mb = Inr m \<and> mf_component m = component \<and> mf_revision m < revision"
    for g mb
  proof -
    note n = new_manifest [of x component schema payload revision mb g store, OF codec labels len mb g(2)]
    have "mf_component ?m = mf_component m \<and> mf_revision m < mf_revision ?m" if "stored_state x store f m p" for m p
    proof -
      from that obtain b where b: "f ?c = Some (FileEntry b)" "parse_manifest x b = Inr m" by (auto simp: stored_state_def)
      with f' have "f' ?c = Some (FileEntry b)" by (simp add: grows_def)
      with rev b show ?thesis by auto
    qed
    with n have "state_progress x store f (g(?c \<mapsto> FileEntry mb))" unfolding state_progress_def by blast
    with n show ?thesis unfolding snapshot_kept_def state_intact_def snapshot_taken_def by auto
  qed
  have fin: "wp (io_bind (io_lift (canonical_encode (x_json_vec x) (x_manifest_tree x) ?m)) (\<lambda>manifest_bytes.
      io_bind (ss_atomic_replace store ?c ''current.tmp'' manifest_bytes) (\<lambda>_.
        io_return \<lparr>sr_manifest_sha256 = ss_bytes_digest x manifest_bytes, sr_payload_sha256 = ss_bytes_digest x payload,
          sr_payload_bytes = length payload, sr_revision = revision\<rparr>)))
      (\<lambda>_ g. ?K g \<and> snapshot_taken x store payload component revision g) (\<lambda>_. ?K) ?K g"
    if "grows store f g" "g (object_path store (ss_bytes_digest x payload)) = Some (FileEntry payload)"
      "exists_at f' ?c \<Longrightarrow> \<exists>mb m. f' ?c = Some (FileEntry mb) \<and> parse_manifest x mb = Inr m \<and> mf_component m = component \<and> mf_revision m < revision" for g
    unfolding ss_atomic_replace_def using K new [OF that(1,2) _ that(3)] that(1)
    by (intro wp_bind wp_lift wp_replace wp_return) (auto simp: stoppable_def intro!: wp_return)
  show ?thesis unfolding snapshot_body_def Let_def
    by (intro wp_bind wp_check_revision wp_put_object [where f = f and store = store] fin)
      (use K f' in auto)
qed

lemma snapshot_kept_lock [simp]:
  "n \<noteq> ''current.json'' \<Longrightarrow> snapshot_kept x store f (g(store @ [n] := e)) = snapshot_kept x store f g"
  "n \<noteq> ''current.json'' \<Longrightarrow> snapshot_taken x store payload component revision (g(store @ [n] := e)) = snapshot_taken x store payload component revision g"
proof -
  assume "n \<noteq> ''current.json''"
  then have st: "stored_state x store (g(store @ [n] := e)) = stored_state x store g" by (auto simp: stored_state_def fun_eq_iff)
  show "snapshot_kept x store f (g(store @ [n] := e)) = snapshot_kept x store f g"
    "snapshot_taken x store payload component revision (g(store @ [n] := e)) = snapshot_taken x store payload component revision g"
    using \<open>n \<noteq> ''current.json''\<close> by (simp_all add: snapshot_kept_def snapshot_taken_def state_intact_def state_progress_def st)
qed

lemma wp_snapshot:
  assumes codec: "state_codec x" and ok: "state_intact x store f"
  shows "wp (snapshot x store source component schema revision)
    (\<lambda>_ g. snapshot_kept x store f g \<and>
      (\<exists>payload. f source = Some (FileEntry payload) \<and> snapshot_taken x store payload component revision g))
    (\<lambda>_. snapshot_kept x store f) (snapshot_kept x store f) f"
proof -
  let ?K = "snapshot_kept x store f" and ?L = "store @ [''.snapshot.lock'']"
  let ?Q = "\<lambda>_ g. ?K g \<and> (\<exists>payload. f source = Some (FileEntry payload) \<and> snapshot_taken x store payload component revision g)"
  have K: "?K g" if "grows store f g" for g using grows_keeps [OF that ok] by (simp add: snapshot_kept_def)
  have "wp (with_state_lock ?L msg (snapshot_body x store payload component schema revision)) ?Q (\<lambda>_. ?K) ?K g"
    if g: "grows store f g" and p: "f source = Some (FileEntry payload)" "length payload \<le> MAX_STATE_BYTES"
      and l: "validate_label ''component'' component = Inr ()" "validate_label ''schema version'' schema = Inr ()" for g payload msg
  proof -
    have "wp (snapshot_body x store payload component schema revision)
        (\<lambda>v h. ?Q v h \<and> ?Q v (h(?L := None)) \<and> ?K h) (\<lambda>e h. ?K h \<and> ?K (h(?L := None)) \<and> ?K h) ?K (g(?L \<mapsto> FileEntry []))"
      using g p by (intro wp_conseq [OF wp_snapshot_body [OF codec ok _ l p(2)]]) auto
    then show ?thesis unfolding with_state_lock_def using K [OF g] by (intro wp_locked) (auto simp: stoppable_def)
  qed
  then show ?thesis
    unfolding snapshot_def ss_read_regular_bounded_def using K
    by (intro wp_bind wp_lift wp_read_bounded wp_ensure_real_directory) (auto simp: stoppable_def)
qed

section \<open>Any number of snapshots, restores, rollbacks and commits\<close>

text \<open>The destination and its companions are not directories on the way to the store and do not lie in it.\<close>

definition companions :: "place \<Rightarrow> string \<Rightarrow> place set" where
  "companions parent name = {parent @ [name], rollback_at parent name, activation_at parent name, stage_path parent name, destination_lock parent name}"

definition apart :: "place \<Rightarrow> place \<Rightarrow> string \<Rightarrow> bool" where
  "apart store parent name \<longleftrightarrow> name \<noteq> ''..'' \<and> \<not> prefix store parent \<and> (\<forall>q \<in> companions parent name. \<not> prefix q store)"

lemma companions_in_parent: "q \<in> companions parent name \<Longrightarrow> \<exists>n. q = parent @ [n]"
  by (auto simp: companions_def rollback_at_def activation_at_def stage_path_def destination_lock_def)

lemma apart_inside:
  assumes "apart store parent name" "q \<in> companions parent name"
  shows "\<not> prefix q (store @ zs)"
proof
  assume p: "prefix q (store @ zs)"
  obtain n where n: "q = parent @ [n]" using companions_in_parent [OF assms(2)] by blast
  have "prefix q store \<or> prefix store q" using p prefix_same_cases [of q "store @ zs" store] by auto
  with assms n show False by (auto simp: apart_def prefix_snoc)
qed

lemma companions_member: "parent @ [name] \<in> companions parent name" "rollback_at parent name \<in> companions parent name"
  "activation_at parent name \<in> companions parent name" "stage_path parent name \<in> companions parent name" "destination_lock parent name \<in> companions parent name"
  by (simp_all add: companions_def)

lemmas state_frame_defs = ensure_existing_real_directory_def ss_read_regular_bounded_def ss_write_new_synced_def with_state_lock_def
  reject_stale_def undo_rename_def set_aside_def write_marker_def load_payload_def

lemma frames_case_prod [frame_intros]: "(\<And>a b. frames ps (g a b)) \<Longrightarrow> frames ps (case v of (a, b) \<Rightarrow> g a b)"
  by (cases v) simp

lemma frames_restore:
  assumes "name \<noteq> ''..''"
  shows "frames (insert (store @ [''.snapshot.lock'']) (companions parent name)) (restore_with_failure x store (parent @ [name]) failure)"
  unfolding restore_with_failure_def restore_locked_def restore_body_def Let_def path_results [OF assms] io_bind_lift state_frame_defs
  by (intro frame_intros insertI1 insertI2 companions_member)

lemma frames_rollback:
  assumes "name \<noteq> ''..''"
  shows "frames (companions parent name) (state_rollback (parent @ [name]))"
  unfolding state_rollback_def at_destination_def state_rollback_body_def Let_def path_results [OF assms] io_bind_lift state_frame_defs
  by (intro frame_intros companions_member)

lemma frames_commit:
  assumes "name \<noteq> ''..''"
  shows "frames (companions parent name) (commit x (parent @ [name]))"
  unfolding commit_def at_destination_def commit_body_def Let_def path_results [OF assms] io_bind_lift state_frame_defs
  by (intro frame_intros companions_member)

inductive store_step :: "'x state_ext_scheme \<Rightarrow> place \<Rightarrow> disk \<Rightarrow> disk \<Rightarrow> bool" for x store where
  TakesSnapshot: "snapshot x store source component schema revision d = (r, d') \<Longrightarrow> store_step x store d d'"
| RestoresState: "apart store parent name \<Longrightarrow> restore_with_failure x store (parent @ [name]) failure d = (r, d') \<Longrightarrow> store_step x store d d'"
| RollsBackIt: "apart store parent name \<Longrightarrow> state_rollback (parent @ [name]) d = (r, d') \<Longrightarrow> store_step x store d d'"
| Commits: "apart store parent name \<Longrightarrow> commit x (parent @ [name]) d = (r, d') \<Longrightarrow> store_step x store d d'"
| OutsideStore: "(\<And>p. p = store @ [''current.json''] \<or> prefix (store @ [''objects'']) p \<Longrightarrow> files d' p = files d p) \<Longrightarrow> store_step x store d d'"

lemma same_store:
  assumes "\<And>p. p = store @ [''current.json''] \<or> prefix (store @ [''objects'']) p \<Longrightarrow> g p = f p" "state_intact x store f"
  shows "state_intact x store g \<and> state_progress x store f g"
proof -
  have "stored_state x store g m p = stored_state x store f m p" for m p
    by (rule stored_state_cong) (auto simp: object_path_def intro!: assms(1))
  moreover have "g (store @ [''current.json'']) = f (store @ [''current.json''])" by (rule assms(1)) simp
  ultimately show ?thesis using assms(2) state_progress_refl [of x store f] by (simp add: state_intact_def state_progress_def)
qed

lemma apart_same:
  assumes "apart store parent name" "frames (insert (store @ [''.snapshot.lock'']) (companions parent name)) m" "m d = (r, d')"
    "p = store @ [''current.json''] \<or> prefix (store @ [''objects'']) p"
  shows "files d' p = files d p"
proof (rule framesD [OF assms(2,3)])
  fix q assume q: "q \<in> insert (store @ [''.snapshot.lock'']) (companions parent name)"
  obtain zs where zs: "p = store @ zs" "zs = [''current.json''] \<or> hd zs = ''objects'' \<and> zs \<noteq> []" using assms(4) by (auto simp: prefix_def)
  show "\<not> prefix q p"
  proof (cases "q = store @ [''.snapshot.lock'']")
    case True
    with zs show ?thesis by (cases zs) auto
  next
    case False
    with q zs(1) apart_inside [OF assms(1)] show ?thesis by auto
  qed
qed

lemma store_step_keeps:
  assumes "state_codec x" "store_step x store d d'" "state_intact x store (files d)"
  shows "state_intact x store (files d') \<and> state_progress x store (files d) (files d')"
  using assms(2)
proof cases
  case (TakesSnapshot source component schema revision r)
  show ?thesis using wpD [OF wp_snapshot [OF assms(1,3)] TakesSnapshot] by (auto simp: snapshot_kept_def split: run.split_asm)
next
  case (RestoresState parent name failure r)
  then have "name \<noteq> ''..''" by (simp add: apart_def)
  from same_store [OF apart_same [OF RestoresState(1) frames_restore [OF this] RestoresState(2)] assms(3)] show ?thesis .
next
  case (RollsBackIt parent name r)
  then have "name \<noteq> ''..''" by (simp add: apart_def)
  note fr = frames_mono [OF frames_rollback [OF this] subset_insertI]
  from same_store [OF apart_same [OF RollsBackIt(1) fr RollsBackIt(2)] assms(3)] show ?thesis .
next
  case (Commits parent name r)
  then have "name \<noteq> ''..''" by (simp add: apart_def)
  note fr = frames_mono [OF frames_commit [OF this] subset_insertI]
  from same_store [OF apart_same [OF Commits(1) fr Commits(2)] assms(3)] show ?thesis .
next
  case OutsideStore
  from same_store [OF OutsideStore assms(3)] show ?thesis .
qed

section \<open>Runs without faults\<close>

lemma returns_reject_stale [returns_intros]:
  assumes "\<And>p. p \<in> set paths \<Longrightarrow> \<not> exists_at f p" "Q () f"
  shows "returns (reject_stale paths message) Q f"
proof -
  have "returns (reject_stale paths message) (\<lambda>_ g. g = f) f"
    unfolding reject_stale_def
    by (rule returns_each_same) (auto intro!: returns_bind returns_exists returns_ensure simp: assms(1))
  then show ?thesis by (rule returns_conseq) (simp add: assms(2))
qed

definition snapshot_ready :: "place \<Rightarrow> string \<Rightarrow> assertion" where
  "snapshot_ready store h f \<longleftrightarrow> f store = Some DirEntry \<and> f (store @ [''objects'']) = Some DirEntry \<and> f (store @ [''.snapshot.lock'']) = None \<and>
     f (store @ [''current.json'']) = None \<and> f (store @ [''current.tmp'']) = None \<and> f (object_path store h) = None"

abbreviation first_manifest :: "'x external_scheme \<Rightarrow> bytes \<Rightarrow> string \<Rightarrow> string \<Rightarrow> u64 \<Rightarrow> StateManifest" where
  "first_manifest x payload component schema revision \<equiv>
     \<lparr>mf_version = ''state-file-v1'', mf_component = component, mf_schema_version = schema, mf_revision = revision,
       mf_payload_sha256 = ss_bytes_digest x payload, mf_payload_bytes = length payload\<rparr>"

lemma in_objects: "in_directory f (object_path store h) \<longleftrightarrow> f (store @ [''objects'']) = Some DirEntry"
  by (simp add: in_directory_def object_path_def butlast_append)

lemma returns_check_revision: "f (store @ [''current.json'']) = None \<Longrightarrow> Q () f \<Longrightarrow> returns (check_revision x store component revision) Q f"
  unfolding check_revision_def by (intro returns_bind returns_exists returns_when) simp_all

lemma returns_put_object:
  "f (store @ [''objects'']) = Some DirEntry \<Longrightarrow> f (object_path store h) = None \<Longrightarrow> Q () (f(object_path store h \<mapsto> FileEntry payload)) \<Longrightarrow>
     returns (put_object store h payload) Q f"
  unfolding put_object_def ensure_real_directory_def ensure_existing_real_directory_def ss_write_new_synced_def
  by (intro returns_bind returns_exists returns_when returns_real_directory)
    (simp_all add: returns_bind returns_write_new returns_sync in_objects)

lemma returns_snapshot:
  assumes labels: "validate_label ''component'' component = Inr ()" "validate_label ''schema version'' schema = Inr ()"
    and src: "f source = Some (FileEntry payload)" "length payload \<le> MAX_STATE_BYTES"
    and r: "snapshot_ready store (ss_bytes_digest x payload) f"
    and mb: "canonical_encode (x_json_vec x) (x_manifest_tree x) (first_manifest x payload component schema revision) = Inr mb"
  shows "returns (snapshot x store source component schema revision)
    (\<lambda>_ g. g = f(object_path store (ss_bytes_digest x payload) \<mapsto> FileEntry payload, store @ [''current.json''] \<mapsto> FileEntry mb)) f"
proof -
  let ?o = "object_path store (ss_bytes_digest x payload)" and ?c = "store @ [''current.json'']" and ?L = "store @ [''.snapshot.lock'']"
  let ?f = "f(?L \<mapsto> FileEntry [])"
  have "returns (snapshot_body x store payload component schema revision)
      (\<lambda>_ g. g = ?f(?o \<mapsto> FileEntry payload, ?c \<mapsto> FileEntry mb)) ?f"
    unfolding snapshot_body_def Let_def ss_atomic_replace_def
    by (intro returns_bind returns_check_revision returns_put_object returns_lift [OF mb] returns_replace returns_return)
      (use r in \<open>simp_all add: snapshot_ready_def returns_return\<close>)
  then have "returns (with_state_lock ?L ''state store is locked'' (snapshot_body x store payload component schema revision))
      (\<lambda>_ g. g = f(?o \<mapsto> FileEntry payload, ?c \<mapsto> FileEntry mb)) f"
    unfolding with_state_lock_def using r
    by (intro returns_locked) (auto simp: snapshot_ready_def fun_eq_iff elim!: returns_conseq)
  then show ?thesis
    unfolding snapshot_def ss_read_regular_bounded_def ensure_real_directory_def ensure_existing_real_directory_def
    using r labels src
    by (intro returns_bind returns_lift returns_read_bounded returns_exists returns_when returns_real_directory) (auto simp: snapshot_ready_def)
qed

definition destination_ready :: "place \<Rightarrow> string \<Rightarrow> bytes \<Rightarrow> assertion" where
  "destination_ready parent name old f \<longleftrightarrow> f parent = Some DirEntry \<and> f (parent @ [name]) = Some (FileEntry old) \<and>
     f (rollback_at parent name) = None \<and> f (activation_at parent name) = None \<and> f (stage_path parent name) = None \<and> f (destination_lock parent name) = None"

lemma in_parent [simp]: "in_directory f (rollback_at parent name) \<longleftrightarrow> parent = [] \<or> f parent = Some DirEntry"
  "in_directory f (activation_at parent name) \<longleftrightarrow> parent = [] \<or> f parent = Some DirEntry"
  "in_directory f (stage_path parent name) \<longleftrightarrow> parent = [] \<or> f parent = Some DirEntry"
  "in_directory f (destination_lock parent name) \<longleftrightarrow> parent = [] \<or> f parent = Some DirEntry"
  "parent \<noteq> rollback_at parent name" "parent \<noteq> activation_at parent name" "parent \<noteq> stage_path parent name" "parent \<noteq> destination_lock parent name"
  by (simp_all add: rollback_at_def activation_at_def stage_path_def destination_lock_def)

lemma returns_restore_body:
  assumes name: "name \<noteq> ''..''" and r: "f parent = Some DirEntry" "f (parent @ [name]) = Some (FileEntry old)"
      "f (rollback_at parent name) = None" "f (activation_at parent name) = None" "f (stage_path parent name) = None"
    and marker: "canonical_encode (x_json_vec x) (x_marker_tree x) (marker_of manifest) = Inr marker"
    and Q: "\<And>receipt. Q receipt (f(parent @ [name] \<mapsto> FileEntry payload, rollback_at parent name \<mapsto> FileEntry old, activation_at parent name \<mapsto> FileEntry marker))"
  shows "returns (restore_body x parent name (parent @ [name]) manifest payload NoRestoreFailure) Q f"
proof -
  let ?D = "parent @ [name]" and ?R = "rollback_at parent name" and ?A = "activation_at parent name" and ?T = "stage_path parent name"
  have eq: "f(?T \<mapsto> FileEntry payload, ?D := None, ?R \<mapsto> FileEntry old, ?T := None, ?D \<mapsto> FileEntry payload, ?A \<mapsto> FileEntry marker) =
      f(?D \<mapsto> FileEntry payload, ?R \<mapsto> FileEntry old, ?A \<mapsto> FileEntry marker)"
    using r by (auto simp: fun_eq_iff)
  have last: "returns (io_bind (io_sync parent) (\<lambda>_. io_return v)) Q
      (f(?T \<mapsto> FileEntry payload, ?D := None, ?R \<mapsto> FileEntry old, ?T := None, ?D \<mapsto> FileEntry payload, ?A \<mapsto> FileEntry marker))" for v
    unfolding eq using r Q by (intro returns_bind returns_sync returns_return) simp_all
  show ?thesis
    unfolding restore_body_def Let_def path_results [OF name] io_bind_lift ss_write_new_synced_def set_aside_def write_marker_def
      marker_of_def [symmetric] undo_rename_def
    using r marker
    by (auto simp: is_regular_def
        intro!: returns_bind [of "reject_stale ps msg" for ps msg] returns_bind [of "io_write_new p q" for p q]
          returns_bind [of "io_exists p" for p] returns_bind [of "io_when c p" for c p] returns_bind [of "io_lstat p" for p]
          returns_bind [of "io_rename p q" for p q] returns_bind [of "io_catch p h" for p h] returns_bind [of "io_return p" for p]
          returns_bind [of "io_bind p h" for p h] returns_bind [of "io_lift p" for p]
          returns_reject_stale returns_write_new returns_exists returns_when returns_lstat returns_rename [where a = ?D and e = "FileEntry old"]
          returns_rename [where a = ?T and e = "FileEntry payload"] returns_catch returns_return returns_lift returns_sync last)
qed

lemma apart_neq:
  assumes "apart store parent name" "q \<in> companions parent name"
  shows "q \<noteq> store @ zs" "store @ zs \<noteq> q"
  using apart_inside [OF assms, of zs] by auto

lemma returns_restore:
  assumes ap: "apart store parent name" and st: "f store = Some DirEntry" "f (store @ [''.snapshot.lock'']) = None"
    and s: "stored_state x store f m p" and r: "destination_ready parent name old f" and par: "parent \<noteq> store @ [''.snapshot.lock'']"
    and marker: "canonical_encode (x_json_vec x) (x_marker_tree x) (marker_of m) = Inr marker"
  shows "returns (restore x store (parent @ [name]))
    (\<lambda>_ g. g = f(parent @ [name] \<mapsto> FileEntry p, rollback_at parent name \<mapsto> FileEntry old, activation_at parent name \<mapsto> FileEntry marker)) f"
proof -
  let ?S = "store @ [''.snapshot.lock'']" and ?L = "destination_lock parent name"
  let ?g = "\<lambda>f. f(parent @ [name] \<mapsto> FileEntry p, rollback_at parent name \<mapsto> FileEntry old, activation_at parent name \<mapsto> FileEntry marker)"
  let ?f = "f(?S \<mapsto> FileEntry [])"
  have name: "name \<noteq> ''..''" using ap by (simp add: apart_def)
  have neq: "q \<noteq> ?S" "?S \<noteq> q" "q \<noteq> store" "store \<noteq> q" if "q \<in> companions parent name" for q
    using apart_neq [OF ap that, of "[''.snapshot.lock'']"] apart_neq [OF ap that, of "[]"] by simp_all
  note neq = neq [OF companions_member(1)] neq [OF companions_member(2)] neq [OF companions_member(3)] neq [OF companions_member(4)] neq [OF companions_member(5)]
  have s': "stored_state x store ?f m p" using s by (simp add: stored_state_def)
  have load: "returns (load_payload x store) (\<lambda>v g. v = (m, p) \<and> g = ?f) ?f"
  proof -
    from s' obtain mb where "?f (store @ [''current.json'']) = Some (FileEntry mb)" "length mb \<le> MAX_MANIFEST_BYTES" "parse_manifest x mb = Inr m"
      "?f (object_path store (mf_payload_sha256 m)) = Some (FileEntry p)" "length p \<le> MAX_STATE_BYTES"
      "length p = mf_payload_bytes m" "ss_bytes_digest x p = mf_payload_sha256 m" by (auto simp: stored_state_def)
    then show ?thesis unfolding load_payload_def ss_read_regular_bounded_def
      by (intro returns_bind returns_read_bounded returns_lift returns_ensure returns_return) auto
  qed
  have body: "returns (restore_body x parent name (parent @ [name]) m p NoRestoreFailure) (\<lambda>_ g. g = ?g (?f(?L \<mapsto> FileEntry []))) (?f(?L \<mapsto> FileEntry []))"
    using r neq par by (intro returns_restore_body [OF name _ _ _ _ _ marker]) (auto simp: destination_ready_def)
  have "returns (with_state_lock ?L ''state destination is locked'' (restore_body x parent name (parent @ [name]) m p NoRestoreFailure)) (\<lambda>_ g. g = ?g ?f) ?f"
    unfolding with_state_lock_def using r neq par
    by (intro returns_locked returns_conseq [OF body]) (auto simp: destination_ready_def fun_eq_iff)
  then have "returns (restore_locked x store (parent @ [name]) NoRestoreFailure) (\<lambda>_ g. g = ?g ?f) ?f"
    unfolding restore_locked_def path_results [OF name] io_bind_lift ensure_existing_real_directory_def using r par neq
    by (intro returns_bind returns_conseq [OF load]) (auto simp: destination_ready_def intro!: returns_bind returns_real_directory)
  then have "returns (with_state_lock ?S ''state store is locked'' (restore_locked x store (parent @ [name]) NoRestoreFailure)) (\<lambda>_ g. g = ?g f) f"
    unfolding with_state_lock_def using st neq
    by (intro returns_locked) (auto simp: fun_eq_iff elim!: returns_conseq)
  then show ?thesis unfolding restore_def restore_with_failure_def ensure_existing_real_directory_def using st
    by (intro returns_bind returns_real_directory) auto
qed

lemma returns_at_destination:
  assumes "name \<noteq> ''..''" "f parent = Some DirEntry" "f (destination_lock parent name) = None"
    and "returns (m parent name) (\<lambda>v g. g (destination_lock parent name) = Some (FileEntry []) \<and> Q v (g(destination_lock parent name := None)))
      (f(destination_lock parent name \<mapsto> FileEntry []))"
  shows "returns (at_destination (parent @ [name]) m) Q f"
  unfolding at_destination_def path_results [OF assms(1)] io_bind_lift ensure_existing_real_directory_def with_state_lock_def
  using assms by (intro returns_bind returns_real_directory returns_locked) auto

lemma returns_state_rollback:
  assumes name: "name \<noteq> ''..''" and r: "f parent = Some DirEntry" "f (destination_lock parent name) = None" "f (stage_path parent name) = None"
      "f (rollback_at parent name) = Some (FileEntry old)" "length old \<le> MAX_STATE_BYTES" "f (activation_at parent name) = Some (FileEntry mb)"
      "f (parent @ [name]) = Some (FileEntry active)"
  shows "returns (state_rollback (parent @ [name]))
    (\<lambda>_ g. g = f(parent @ [name] \<mapsto> FileEntry old, rollback_at parent name := None, activation_at parent name := None)) f"
proof -
  let ?f = "f(destination_lock parent name \<mapsto> FileEntry [])"
  have "returns (state_rollback_body (parent @ [name]) parent name)
      (\<lambda>_ g. g = ?f(parent @ [name] \<mapsto> FileEntry old, rollback_at parent name := None, activation_at parent name := None)) ?f"
    unfolding state_rollback_body_def Let_def path_results [OF name] io_bind_lift ss_read_regular_bounded_def ss_write_new_synced_def
    by (intro returns_bind returns_read_bounded returns_reject_stale returns_write_new returns_rename [where e = "FileEntry old"]
        returns_remove_file returns_exists returns_when returns_sync)
      (use r in \<open>auto simp: fun_eq_iff intro!: returns_sync\<close>)
  then show ?thesis unfolding state_rollback_def using name r
    by (intro returns_at_destination) (auto simp: fun_eq_iff elim!: returns_conseq)
qed

lemma returns_commit:
  assumes name: "name \<noteq> ''..''" and r: "f parent = Some DirEntry" "f (destination_lock parent name) = None"
      "f (rollback_at parent name) = Some (FileEntry old)" "length old \<le> MAX_STATE_BYTES" "f (activation_at parent name) = Some (FileEntry mb)"
      "length mb \<le> MAX_MANIFEST_BYTES" "f (parent @ [name]) = Some (FileEntry active)" "length active \<le> MAX_STATE_BYTES"
    and c: "committable x (state_at parent name f)"
  shows "returns (commit x (parent @ [name])) (\<lambda>_ g. g = f(rollback_at parent name := None, activation_at parent name := None)) f"
proof -
  let ?f = "f(destination_lock parent name \<mapsto> FileEntry [])"
  obtain marker where m: "x_parse_marker x mb = Inr marker" "am_version marker = ''state-activation-v1''" "am_payload_bytes marker = length active"
    "am_payload_sha256 marker = ss_bytes_digest x active"
    using c r by (auto simp: committable_def state_at_def)
  have "returns (commit_body x (parent @ [name]) parent name) (\<lambda>_ g. g = ?f(rollback_at parent name := None, activation_at parent name := None)) ?f"
    unfolding commit_body_def path_results [OF name] io_bind_lift ss_read_regular_bounded_def
    by (intro returns_bind returns_lstat returns_ensure returns_read_bounded returns_lift returns_remove_file returns_sync)
      (use r m in \<open>auto simp: is_bounded_file_def\<close>)
  then show ?thesis unfolding commit_def using name r
    by (intro returns_at_destination) (auto simp: fun_eq_iff elim!: returns_conseq)
qed

section \<open>A torn object\<close>

lemma wp_torn_object:
  assumes "f source = Some (FileEntry payload)" "f (object_path store (ss_bytes_digest x payload)) = Some (FileEntry other)" "other \<noteq> payload"
  shows "wp (snapshot x store source component schema revision) (\<lambda>_ _. False) (\<lambda>_ _. True) (\<lambda>_. True) f"
proof -
  let ?o = "object_path store (ss_bytes_digest x payload)"
  have obj: "?o \<noteq> store @ [n]" "?o \<noteq> store" for n by simp_all
  have st: "stoppable (\<lambda>_ _. True) (\<lambda>_. True) g" for g by (simp add: stoppable_def)
  have put: "wp (put_object store (ss_bytes_digest x payload) payload) (\<lambda>_. wp (m ()) (\<lambda>_ _. False) (\<lambda>_ _. True) (\<lambda>_. True)) (\<lambda>_ _. True) (\<lambda>_. True) g"
    if g: "g ?o = Some (FileEntry other)" for g and m :: "unit \<Rightarrow> SnapshotReceipt io"
  proof -
    have "wp (if exists_at h ?o then io_bind (ss_read_regular_bounded ?o MAX_STATE_BYTES ''state object'') (\<lambda>existing.
           io_ensure (existing = payload) (ss_invalid ''content-addressed state object has conflicting bytes''))
         else io_bind (ss_write_new_synced ?o payload) (\<lambda>_. io_sync (store @ [''objects''])))
        (\<lambda>_. wp (m ()) (\<lambda>_ _. False) (\<lambda>_ _. True) (\<lambda>_. True)) (\<lambda>_ _. True) (\<lambda>_. True) h" if "h ?o = Some (FileEntry other)" for h
      unfolding ss_read_regular_bounded_def using that assms(3)
      by (auto intro!: wp_bind wp_read_bounded wp_ensure st)
    then show ?thesis unfolding put_object_def
      by (intro wp_bind wp_ensure_real_directory wp_exists) (use g in \<open>auto intro!: wp_exists simp: stoppable_def\<close>)
  qed
  have "wp (with_state_lock (store @ [''.snapshot.lock'']) msg (snapshot_body x store payload component schema revision)) (\<lambda>_ _. False) (\<lambda>_ _. True) (\<lambda>_. True) g"
    if g: "g ?o = Some (FileEntry other)" for g msg
  proof -
    have "wp (snapshot_body x store payload component schema revision) (\<lambda>_ _. False) (\<lambda>_ _. True) (\<lambda>_. True) (g(store @ [''.snapshot.lock''] \<mapsto> FileEntry []))"
      unfolding snapshot_body_def Let_def using g
      by (intro wp_bind [of "check_revision x store component revision"] wp_check_revision wp_bind [of "put_object s h p" for s h p] put) auto
    then show ?thesis unfolding with_state_lock_def by (intro wp_locked st) (erule wp_conseq, auto)
  qed
  then show ?thesis unfolding snapshot_def ss_read_regular_bounded_def
    using assms by (intro wp_bind wp_lift wp_read_bounded wp_ensure_real_directory st) auto
qed

text \<open>A store and a destination to try the theorems on.\<close>

definition demo_manifest :: StateManifest where
  "demo_manifest = \<lparr>mf_version = ''state-file-v1'', mf_component = ''c'', mf_schema_version = ''s'', mf_revision = 1,
     mf_payload_sha256 = toy_hex (replicate 32 0), mf_payload_bytes = 2\<rparr>"

definition demo_state :: state_ext where
  "demo_state = external.extend ((external.truncate toy_ext)\<lparr>x_sha256 := (\<lambda>_. replicate 32 0)\<rparr>)
     (state_ext.fields (\<lambda>m. if m = demo_manifest then Inr JNull else Inl ''unknown'') (\<lambda>_. Inr demo_manifest)
       (\<lambda>_. Inr (JString ''m'')) (\<lambda>_. Inr (marker_of demo_manifest)))"

definition demo_state_disk :: "fault list \<Rightarrow> disk" where
  "demo_state_disk script = \<lparr>dk_entries = [([''store''], DirEntry), ([''store'', ''objects''], DirEntry), ([''new''], FileEntry [1, 2]),
     ([''p''], DirEntry), ([''p'', ''db''], FileEntry [7])], dk_script = script\<rparr>"

lemma demo_state_fields: "x_sha256 demo_state bs = replicate 32 0" "x_hex_encode demo_state = toy_hex" "x_hex_decode demo_state = toy_unhex"
  "x_json_vec demo_state (JString s) = Inr (as_bytes s)" "x_json_vec demo_state JNull = Inr []"
  "x_manifest_tree demo_state m = (if m = demo_manifest then Inr JNull else Inl ''unknown'')" "x_parse_manifest demo_state bs = Inr demo_manifest"
  "x_marker_tree demo_state k = Inr (JString ''m'')" "x_parse_marker demo_state bs = Inr (marker_of demo_manifest)"
  by (simp_all add: demo_state_def external.defs state_ext.defs toy_ext_def fragments_ext.defs del: replicate.simps)

lemma demo_state_digest: "bytes_digest (x_sha256 demo_state) toy_hex bs = toy_hex (replicate 32 0)"
  by (simp add: bytes_digest_def core_bytes_digest_def demo_state_fields del: replicate.simps)

lemma length_toy_hex_state: "length (toy_hex bs) = 2 * length bs"
  by (induction bs) auto

lemma demo_state_codec: "state_codec demo_state"
  using toy_hex_roundtrip
  by (auto simp: state_codec_def demo_state_digest canonical_encode_def encode_json_def demo_state_fields length_toy_hex_state simp del: replicate.simps
      split: if_split_asm)

lemma demo_labels: "validate_label ''component'' ''c'' = Inr ()" "validate_label ''schema version'' ''s'' = Inr ()"
  by (simp_all add: validate_label_def is_ascii_alphanumeric_def)

lemma demo_apart: "apart [''store''] [''p''] ''db''"
  by (auto simp: apart_def companions_def rollback_at_def activation_at_def stage_path_def destination_lock_def)

lemma demo_first: "first_manifest demo_state [1, 2] ''c'' ''s'' 1 = demo_manifest"
  by (simp add: demo_manifest_def demo_state_fields demo_state_digest del: replicate.simps)

lemma demo_destination: "destination_ready [''p''] ''db'' [7] (files (demo_state_disk script))"
  by (simp add: destination_ready_def demo_state_disk_def rollback_at_def activation_at_def stage_path_def destination_lock_def)

lemma demo_snapshot_ready: "snapshot_ready [''store''] h (files (demo_state_disk script))"
  by (simp add: snapshot_ready_def demo_state_disk_def object_path_def)

lemma demo_torn:
  "\<exists>d1. snapshot demo_state [''store''] [''new''] ''c'' ''s'' 1 (demo_state_disk (replicate 10 Proceeds @ [Dies 1])) = (Died, d1) \<and>
    files d1 [''new''] = Some (FileEntry [1, 2]) \<and> files d1 (object_path [''store''] (toy_hex (replicate 32 0))) = Some (FileEntry [1])"
proof -
  have r: "replicate 10 Proceeds = [Proceeds, Proceeds, Proceeds, Proceeds, Proceeds, Proceeds, Proceeds, Proceeds, Proceeds, Proceeds]"
    by (simp add: numeral_eq_Suc)
  show ?thesis unfolding r
    by (simp add: snapshot_def snapshot_body_def check_revision_def put_object_def ensure_real_directory_def ensure_existing_real_directory_def
        ss_read_regular_bounded_def ss_write_new_synced_def with_state_lock_def io_locked_def io_write_new_def io_read_bounded_def io_real_directory_def
        io_bind_def io_catch_def io_lift_def io_ensure_def io_when_def io_return_def io_raise_def io_lstat_def io_exists_def io_read_def io_open_new_def
        io_write_def io_query_def io_change_def io_call_def exists_at_def in_directory_def is_bounded_file_def demo_state_disk_def Let_def
        demo_labels demo_state_fields demo_state_digest MAX_STATE_BYTES_def object_path_def del: replicate.simps)
qed

section \<open>Properties\<close>

text \<open>(C10) A restore refines one step on the destination and its companions, wherever a call fails or the
  process dies: with a receipt, the destination holds the stored payload and the previous state and a marker
  are kept next to it; otherwise the destination holds its previous content, nothing, or the complete
  payload, and when it is not the previous content that content is kept.\<close>

theorem restore_refines:
  assumes "name \<noteq> ''..''" "store \<noteq> parent" "restore_with_failure x store (parent @ [name]) failure d = (r, d')"
  shows "case r of
      Done receipt \<Rightarrow> restored_from x store parent name failure (files d) receipt (files d')
    | _ \<Rightarrow> state_at parent name (files d') \<in> restoring x store parent name (files d)"
  using wpD [OF wp_restore [OF assms(1,2)] assms(3)] by (simp add: on_state_def split: run.splits)

text \<open>(C9) Until it is committed, no sequence of restores and rollbacks loses the original state of a
  destination, whatever fails, whenever the process dies and whatever the service writes meanwhile: it is
  kept for a rollback, or it is the active state and nothing else is kept.\<close>

theorem previous_state_kept:
  assumes "name \<noteq> ''..''" "destination_reachable x parent name old d"
  shows "kept_state old (state_at parent name (files d))"
  using assms(2)
proof induction
  case (Original d a)
  then show ?case by (simp add: kept_state_def)
next
  case (DestinationStep d d')
  then show ?case using destination_step_kept [OF _ assms(1)] by blast
qed

text \<open>(C11) Whatever sequence of snapshots, restores, rollbacks and commits a store has seen, with faults and
  deaths at any call, its manifest is absent or valid with an intact object; the component of the stored
  state never changes and a different stored state has a higher revision.\<close>

theorem state_store_invariant:
  assumes "state_codec x" "state_intact x store (files d)" "(store_step x store)\<^sup>*\<^sup>* d d'"
  shows "state_intact x store (files d') \<and> state_progress x store (files d) (files d')"
  using assms(3,2)
proof (induction rule: rtranclp_induct)
  case base
  then show ?case by (simp add: state_progress_refl)
next
  case (step d1 d2)
  then have "state_intact x store (files d1)" "state_progress x store (files d) (files d1)" by simp_all
  with store_step_keeps [OF assms(1) step(2)] show ?case using state_progress_trans by blast
qed

text \<open>(C12) Without faults a snapshot is taken, its payload is restored over an existing state, and the restore can be
  rolled back to exactly that state or committed, after which nothing else is kept.\<close>

theorem snapshot_restore_roundtrip:
  assumes "state_codec x" "dk_script d = []" "apart store parent name" "parent \<noteq> store @ [''.snapshot.lock'']" "parent \<noteq> store @ [''current.json'']"
    and "parent \<noteq> object_path store (ss_bytes_digest x payload)"
    and "validate_label ''component'' component = Inr ()" "validate_label ''schema version'' schema = Inr ()"
    and "files d source = Some (FileEntry payload)" "length payload \<le> MAX_STATE_BYTES" "length old \<le> MAX_STATE_BYTES"
    and "snapshot_ready store (ss_bytes_digest x payload) (files d)" "destination_ready parent name old (files d)"
    and "canonical_encode (x_json_vec x) (x_manifest_tree x) (first_manifest x payload component schema revision) = Inr mb"
    and "canonical_encode (x_json_vec x) (x_marker_tree x) (marker_of (first_manifest x payload component schema revision)) = Inr marker"
    and "length marker \<le> MAX_MANIFEST_BYTES" "x_parse_marker x marker = Inr (marker_of (first_manifest x payload component schema revision))"
  shows "\<exists>receipt d1 receipt' d2 d3 d4.
    snapshot x store source component schema revision d = (Done receipt, d1) \<and>
    restore x store (parent @ [name]) d1 = (Done receipt', d2) \<and> files d2 (parent @ [name]) = Some (FileEntry payload) \<and>
    state_rollback (parent @ [name]) d2 = (Done (), d3) \<and> state_at parent name (files d3) = (Some (FileEntry old), None, None) \<and>
    commit x (parent @ [name]) d2 = (Done (), d4) \<and> state_at parent name (files d4) = (Some (FileEntry payload), None, None)"
proof -
  let ?h = "ss_bytes_digest x payload" and ?c = "store @ [''current.json'']" and ?m = "first_manifest x payload component schema revision"
  have name: "name \<noteq> ''..''" using assms(3) by (simp add: apart_def)
  let ?g = "(files d)(object_path store ?h \<mapsto> FileEntry payload, ?c \<mapsto> FileEntry mb)"
  obtain receipt d1 where d1: "snapshot x store source component schema revision d = (Done receipt, d1)" "dk_script d1 = []" "files d1 = ?g"
    using returnsD [OF returns_snapshot [OF assms(7-10,12,14)] assms(2)] by metis
  have stored: "stored_state x store (files d1) ?m payload"
    unfolding d1(3) by (rule new_manifest [OF assms(1,7,8,10,14)]) simp
  have neq: "q \<noteq> ?c" "q \<noteq> object_path store ?h" if "q \<in> companions parent name" for q
    using apart_neq [OF assms(3) that, of "[''current.json'']"] apart_neq [OF assms(3) that, of "[''objects'', ?h @ ''.bin'']"] by (simp_all add: object_path_def)
  note neq = neq [OF companions_member(1)] neq [OF companions_member(2)] neq [OF companions_member(3)] neq [OF companions_member(4)] neq [OF companions_member(5)]
  have r: "destination_ready parent name old (files d1)" "files d1 store = Some DirEntry" "files d1 (store @ [''.snapshot.lock'']) = None"
    using assms(5,6,12,13) neq unfolding d1(3) by (auto simp: destination_ready_def snapshot_ready_def)
  let ?k = "(files d1)(parent @ [name] \<mapsto> FileEntry payload, rollback_at parent name \<mapsto> FileEntry old, activation_at parent name \<mapsto> FileEntry marker)"
  obtain receipt' d2 where d2: "restore x store (parent @ [name]) d1 = (Done receipt', d2)" "dk_script d2 = []" "files d2 = ?k"
    using returnsD [OF returns_restore [OF assms(3) r(2,3) stored r(1) assms(4,15)] d1(2)] by metis
  have k: "files d2 parent = Some DirEntry" "files d2 (destination_lock parent name) = None" "files d2 (stage_path parent name) = None"
    "files d2 (rollback_at parent name) = Some (FileEntry old)" "files d2 (activation_at parent name) = Some (FileEntry marker)"
    "files d2 (parent @ [name]) = Some (FileEntry payload)"
    using r(1) unfolding d2(3) by (auto simp: destination_ready_def)
  obtain u d3 where d3: "state_rollback (parent @ [name]) d2 = (Done u, d3)"
    "files d3 = (files d2)(parent @ [name] \<mapsto> FileEntry old, rollback_at parent name := None, activation_at parent name := None)"
    using returnsD [OF returns_state_rollback [OF name k(1,2,3,4) assms(11) k(5,6)] d2(2)] by metis
  have c: "committable x (state_at parent name (files d2))"
    using assms(17) k(4-6) by (simp add: committable_def state_at_def marker_of_def)
  obtain u' d4 where d4: "commit x (parent @ [name]) d2 = (Done u', d4)" "files d4 = (files d2)(rollback_at parent name := None, activation_at parent name := None)"
    using returnsD [OF returns_commit [OF name k(1,2,4) assms(11) k(5) assms(16) k(6) assms(10) c] d2(2)] by metis
  have "state_at parent name (files d3) = (Some (FileEntry old), None, None)" "state_at parent name (files d4) = (Some (FileEntry payload), None, None)"
    unfolding d3(2) d4(2) using k(6) by (simp_all add: state_at_def)
  then show ?thesis using d1(1) d2(1) d3(1) d4(1) k(6) by simp
qed

text \<open>An object whose bytes differ from its payload, which is what a snapshot that dies while it writes the
  object leaves, makes every later snapshot of that payload fail, whatever else happens.\<close>

theorem torn_object_blocks_snapshots:
  assumes "files d source = Some (FileEntry payload)" "files d (object_path store (ss_bytes_digest x payload)) = Some (FileEntry other)" "other \<noteq> payload"
  shows "fst (snapshot x store source component schema revision d) \<noteq> Done receipt"
  using wpD [OF wp_torn_object [OF assms], of component schema revision]
  by (cases "snapshot x store source component schema revision d") fastforce

theorem restore_refines_witness:
  "case restore_with_failure demo_state [''store''] [''p'', ''db''] NoRestoreFailure (demo_state_disk [Proceeds, Proceeds, Faults ''disk'' 0]) of (r, d') \<Rightarrow>
    (case r of
      Done receipt \<Rightarrow> restored_from demo_state [''store''] [''p''] ''db'' NoRestoreFailure (files (demo_state_disk [])) receipt (files d')
    | _ \<Rightarrow> state_at [''p''] ''db'' (files d') \<in> restoring demo_state [''store''] [''p''] ''db'' (files (demo_state_disk [])))"
proof -
  let ?d = "demo_state_disk [Proceeds, Proceeds, Faults ''disk'' 0]"
  have f: "files ?d = files (demo_state_disk [])" by (simp add: demo_state_disk_def)
  obtain r d' where "restore_with_failure demo_state [''store''] ([''p''] @ [''db'']) NoRestoreFailure ?d = (r, d')" by fastforce
  with restore_refines [OF _ _ this] f show ?thesis by (cases r) simp_all
qed

theorem previous_state_kept_witness:
  "kept_state [7] (state_at [''p''] ''db'' (files (snd (restore demo_state [''store''] [''p'', ''db''] (demo_state_disk (replicate 9 Proceeds @ [Dies 1]))))))"
proof -
  let ?d = "demo_state_disk (replicate 9 Proceeds @ [Dies 1])"
  have "state_at [''p''] ''db'' (files ?d) = (Some (FileEntry [7]), None, None)"
    using demo_destination [of "replicate 9 Proceeds @ [Dies 1]"] by (simp add: destination_ready_def state_at_def)
  then have o: "destination_reachable demo_state [''p''] ''db'' [7] ?d" by (rule Original)
  have "destination_step demo_state [''p''] ''db'' ?d (snd (restore demo_state [''store''] ([''p''] @ [''db'']) ?d))"
    unfolding restore_def by (rule Restores [where store = "[''store'']" and failure = NoRestoreFailure]) (simp, rule prod.collapse [symmetric])
  from previous_state_kept [OF _ DestinationStep [OF o this]] show ?thesis by simp
qed

theorem state_store_invariant_witness:
  "state_intact demo_state [''store''] (files (snd (snapshot demo_state [''store''] [''new''] ''c'' ''s'' 1 (demo_state_disk (replicate 7 Proceeds @ [Dies 1])))))"
proof -
  let ?d = "demo_state_disk (replicate 7 Proceeds @ [Dies 1])"
  have "state_intact demo_state [''store''] (files ?d)"
    using demo_snapshot_ready [of undefined] by (simp add: state_intact_def snapshot_ready_def)
  moreover have "store_step demo_state [''store''] ?d (snd (snapshot demo_state [''store''] [''new''] ''c'' ''s'' 1 ?d))"
    by (rule TakesSnapshot) (rule prod.collapse [symmetric])
  ultimately show ?thesis using state_store_invariant [OF demo_state_codec _ r_into_rtranclp] by blast
qed

theorem snapshot_restore_roundtrip_witness:
  "\<exists>receipt d1 receipt' d2 d3. snapshot demo_state [''store''] [''new''] ''c'' ''s'' 1 (demo_state_disk []) = (Done receipt, d1) \<and>
    restore demo_state [''store''] [''p'', ''db''] d1 = (Done receipt', d2) \<and> files d2 [''p'', ''db''] = Some (FileEntry [1, 2]) \<and>
    state_rollback [''p'', ''db''] d2 = (Done (), d3) \<and> state_at [''p''] ''db'' (files d3) = (Some (FileEntry [7]), None, None)"
proof -
  have e: "canonical_encode (x_json_vec demo_state) (x_manifest_tree demo_state) (first_manifest demo_state [1, 2] ''c'' ''s'' 1) = Inr []"
    "canonical_encode (x_json_vec demo_state) (x_marker_tree demo_state) (marker_of (first_manifest demo_state [1, 2] ''c'' ''s'' 1)) = Inr (as_bytes ''m'')"
    "x_parse_marker demo_state (as_bytes ''m'') = Inr (marker_of (first_manifest demo_state [1, 2] ''c'' ''s'' 1))"
    unfolding demo_first by (simp_all add: canonical_encode_def encode_json_def demo_state_fields del: replicate.simps)
  have l: "length (as_bytes ''m'') \<le> MAX_MANIFEST_BYTES" "length [7 :: 8 word] \<le> MAX_STATE_BYTES" "length [1, 2 :: 8 word] \<le> MAX_STATE_BYTES"
    by (simp_all add: MAX_MANIFEST_BYTES_def MAX_STATE_BYTES_def)
  have s: "files (demo_state_disk []) [''new''] = Some (FileEntry [1, 2])" "dk_script (demo_state_disk []) = []" by (simp_all add: demo_state_disk_def)
  from snapshot_restore_roundtrip [OF demo_state_codec s(2) demo_apart _ _ _ demo_labels s(1) l(3,2) demo_snapshot_ready demo_destination e(1,2) l(1) e(3)]
  show ?thesis by (fastforce simp: object_path_def)
qed

theorem torn_object_blocks_snapshots_witness:
  "\<exists>d1. snapshot demo_state [''store''] [''new''] ''c'' ''s'' 1 (demo_state_disk (replicate 10 Proceeds @ [Dies 1])) = (Died, d1) \<and>
    (\<nexists>receipt. fst (snapshot demo_state [''store''] [''new''] ''c'' ''s'' 1 d1) = Done receipt)"
proof -
  obtain d1 where d1: "snapshot demo_state [''store''] [''new''] ''c'' ''s'' 1 (demo_state_disk (replicate 10 Proceeds @ [Dies 1])) = (Died, d1)"
    "files d1 [''new''] = Some (FileEntry [1, 2])" "files d1 (object_path [''store''] (toy_hex (replicate 32 0))) = Some (FileEntry [1])"
    using demo_torn by blast
  from torn_object_blocks_snapshots [of d1 "[''new'']" "[1, 2]" "[''store'']" demo_state "[1]"] d1
  have "fst (snapshot demo_state [''store''] [''new''] ''c'' ''s'' 1 d1) \<noteq> Done receipt" for receipt
    by (simp add: demo_state_fields demo_state_digest del: replicate.simps)
  with d1(1) show ?thesis by blast
qed

end
