(* ===== verification/Evidence.thy ===== *)
theory Evidence
  imports Fragments
begin

text \<open>
  The crate \<open>anasemble-evidence\<close>: generic evidence envelopes with their canonical preimage and Ed25519
  signatures (\<open>envelope.rs\<close>), key records and the replay window (\<open>keys.rs\<close>), payload seals (\<open>seal.rs\<close>),
  provenance records (\<open>provenance.rs\<close>) and admission (\<open>validate.rs\<close>). The derived serializers are
  written out from the attributes of the types: a structure is an object, an absent optional field is
  skipped, a digest is an array of 32 numbers and a payload carries its class as a tag. The JSON and
  value deserializers, XChaCha20-Poly1305, Ed25519, SHA-256, hex, the printer of UUIDs and the parser
  of instants are code outside the repository, the fields of \<open>evidence_ext\<close>; an instant is its count
  of microseconds.
\<close>

section \<open>Errors and bounds\<close>

datatype EvidenceError =
    EvCore CoreError
  | EvId IdError
  | EvRejected string
  | EvCrypto string
  | EvTimestamp

definition SCHEMA_VERSION :: u16 where "SCHEMA_VERSION = 1"

definition MAX_LABELS :: nat where "MAX_LABELS = 32"

definition MAX_MEDIA_TYPE_BYTES :: nat where "MAX_MEDIA_TYPE_BYTES = 256"

section \<open>Envelopes\<close>

datatype EvidenceKind =
    KindDeclared | KindObserved | KindExecuted | KindState | KindContractual | KindVerified | KindDerived
  | KindInferred | KindNegative | KindContradictory

datatype TrustLevel =
    TrustUnverified | TrustAuthenticated | TrustIntegrityVerified | TrustIndependentlyCorroborated
  | TrustCertified | TrustRevoked

record ValidInterval =
  vi_start :: string
  vi_end :: "string option"

record SourceIdentity =
  si_kind :: BoundedText
  si_instance :: BoundedText

record SubjectRef =
  sr_entity_type :: BoundedText
  sr_canonical_external_identity :: BoundedText

record CollectionContext =
  cc_checkpoint :: BoundedText

datatype PayloadClass = ClassMetadata | ClassEncryptedObject | ClassRedacted | ClassForbidden

datatype RedactablePayload =
    Metadata (bytes_hex: string)
  | EncryptedObject (payload_key_id: BoundedText) (nonce_hex: string) (ciphertext_hex: string)
  | Redacted (redaction_reason: BoundedText)

definition payload_class :: "RedactablePayload \<Rightarrow> PayloadClass" where
  "payload_class p =
     (case p of
        Metadata _ \<Rightarrow> ClassMetadata
      | EncryptedObject _ _ _ \<Rightarrow> ClassEncryptedObject
      | Redacted _ \<Rightarrow> ClassRedacted)"

record SignatureBlock =
  sb_algorithm :: BoundedText
  sb_key_id :: BoundedText
  sb_value :: string

record UnsignedEvidence =
  ee_schema_version :: u16
  ee_observation_id :: Uuid
  ee_tenant_id :: Uuid
  ee_source :: SourceIdentity
  ee_subject :: SubjectRef
  ee_kind :: EvidenceKind
  ee_trust :: TrustLevel
  ee_observed_at :: string
  ee_source_time :: "string option"
  ee_valid :: ValidInterval
  ee_received_at :: string
  ee_payload_media_type :: string
  ee_payload_digest :: Digest
  ee_payload :: RedactablePayload
  ee_predecessor :: "Digest option"
  ee_collection :: CollectionContext
  ee_labels :: "(string, string) btree_map"

record EvidenceEnvelopeV1 = UnsignedEvidence +
  ee_signature :: SignatureBlock

record evidence_ext = external +
  x_timestamp :: "string \<Rightarrow> int option"
  x_uuid_string :: "Uuid \<Rightarrow> string"
  x_encrypt :: "bytes \<Rightarrow> bytes \<Rightarrow> bytes \<Rightarrow> bytes \<Rightarrow> bytes option"
  x_decrypt :: "bytes \<Rightarrow> bytes \<Rightarrow> bytes \<Rightarrow> bytes \<Rightarrow> bytes option"
  x_envelope_from_slice :: "bytes \<Rightarrow> EvidenceEnvelopeV1 option"
  x_envelope_from_value :: "json \<Rightarrow> EvidenceEnvelopeV1 option"

definition ev_parse_time :: "'x evidence_ext_scheme \<Rightarrow> string \<Rightarrow> (EvidenceError, int) result" where
  "ev_parse_time x value = ok_or EvTimestamp (x_timestamp x value)"

definition valid_interval_validate :: "'x evidence_ext_scheme \<Rightarrow> ValidInterval \<Rightarrow> (EvidenceError, unit) result" where
  "valid_interval_validate x v =
     rbind (ev_parse_time x (vi_start v)) (\<lambda>start.
       case vi_end v of
         None \<Rightarrow> Inr ()
       | Some e \<Rightarrow> rbind (ev_parse_time x e) (\<lambda>e. if e \<le> start then Inl (EvRejected ''valid interval is empty'') else Inr ()))"

subsection \<open>Serialization\<close>

definition kind_name :: "EvidenceKind \<Rightarrow> string" where
  "kind_name k =
     (case k of
        KindDeclared \<Rightarrow> ''declared'' | KindObserved \<Rightarrow> ''observed'' | KindExecuted \<Rightarrow> ''executed'' | KindState \<Rightarrow> ''state''
      | KindContractual \<Rightarrow> ''contractual'' | KindVerified \<Rightarrow> ''verified'' | KindDerived \<Rightarrow> ''derived''
      | KindInferred \<Rightarrow> ''inferred'' | KindNegative \<Rightarrow> ''negative'' | KindContradictory \<Rightarrow> ''contradictory'')"

definition trust_name :: "TrustLevel \<Rightarrow> string" where
  "trust_name t =
     (case t of
        TrustUnverified \<Rightarrow> ''unverified'' | TrustAuthenticated \<Rightarrow> ''authenticated''
      | TrustIntegrityVerified \<Rightarrow> ''integrity_verified''
      | TrustIndependentlyCorroborated \<Rightarrow> ''independently_corroborated'' | TrustCertified \<Rightarrow> ''certified''
      | TrustRevoked \<Rightarrow> ''revoked'')"

definition text_value :: "BoundedText \<Rightarrow> json" where
  "text_value t = JString (as_str t)"

definition digest_value :: "Digest \<Rightarrow> json" where
  "digest_value d = JArray (map (\<lambda>b. JNumber (PosInt (ucast b))) (as_digest_bytes d))"

definition object_of :: "(string \<times> json) list \<Rightarrow> json" where
  "object_of entries = JObject (bt_collect entries)"

definition optional_field :: "string \<Rightarrow> ('a \<Rightarrow> json) \<Rightarrow> 'a option \<Rightarrow> (string \<times> json) list" where
  "optional_field name f v = (case v of None \<Rightarrow> [] | Some a \<Rightarrow> [(name, f a)])"

definition interval_value :: "ValidInterval \<Rightarrow> json" where
  "interval_value v = object_of ((''start'', JString (vi_start v)) # optional_field ''end'' JString (vi_end v))"

definition source_value :: "SourceIdentity \<Rightarrow> json" where
  "source_value s = object_of [(''kind'', text_value (si_kind s)), (''instance'', text_value (si_instance s))]"

definition subject_value :: "SubjectRef \<Rightarrow> json" where
  "subject_value s =
     object_of [(''entity_type'', text_value (sr_entity_type s)),
       (''canonical_external_identity'', text_value (sr_canonical_external_identity s))]"

definition collection_value :: "CollectionContext \<Rightarrow> json" where
  "collection_value c = object_of [(''checkpoint'', text_value (cc_checkpoint c))]"

definition payload_fields :: "RedactablePayload \<Rightarrow> (string \<times> json) list" where
  "payload_fields p =
     (case p of
        Metadata b \<Rightarrow> [(''class'', JString ''metadata''), (''bytes_hex'', JString b)]
      | EncryptedObject k n c \<Rightarrow>
          [(''class'', JString ''encrypted_object''), (''key_id'', text_value k), (''nonce_hex'', JString n), (''ciphertext_hex'', JString c)]
      | Redacted r \<Rightarrow> [(''class'', JString ''redacted''), (''reason'', text_value r)])"

definition payload_value :: "RedactablePayload \<Rightarrow> json" where
  "payload_value p = object_of (payload_fields p)"

definition signature_value :: "SignatureBlock \<Rightarrow> json" where
  "signature_value s =
     object_of [(''algorithm'', text_value (sb_algorithm s)), (''key_id'', text_value (sb_key_id s)), (''value'', JString (sb_value s))]"

definition labels_value :: "(string, string) btree_map \<Rightarrow> json" where
  "labels_value m = object_of (map (\<lambda>(k, v). (k, JString v)) m)"

definition unsigned_fields :: "'x evidence_ext_scheme \<Rightarrow> 'm UnsignedEvidence_scheme \<Rightarrow> (string \<times> json) list" where
  "unsigned_fields x e =
     [(''schema_version'', JNumber (PosInt (ucast (ee_schema_version e)))),
      (''observation_id'', JString (x_uuid_string x (ee_observation_id e))),
      (''tenant_id'', JString (x_uuid_string x (ee_tenant_id e))),
      (''source'', source_value (ee_source e)),
      (''subject'', subject_value (ee_subject e)),
      (''kind'', JString (kind_name (ee_kind e))),
      (''trust'', JString (trust_name (ee_trust e))),
      (''observed_at'', JString (ee_observed_at e))] @
     optional_field ''source_time'' JString (ee_source_time e) @
     [(''valid'', interval_value (ee_valid e)),
      (''received_at'', JString (ee_received_at e)),
      (''payload_media_type'', JString (ee_payload_media_type e)),
      (''payload_digest'', digest_value (ee_payload_digest e)),
      (''payload'', payload_value (ee_payload e))] @
     optional_field ''predecessor'' digest_value (ee_predecessor e) @
     [(''collection'', collection_value (ee_collection e)),
      (''labels'', labels_value (ee_labels e))]"

definition unsigned_value :: "'x evidence_ext_scheme \<Rightarrow> UnsignedEvidence serialize" where
  "unsigned_value x e = Inr (object_of (unsigned_fields x e))"

definition envelope_value :: "'x evidence_ext_scheme \<Rightarrow> EvidenceEnvelopeV1 serialize" where
  "envelope_value x e = Inr (object_of (unsigned_fields x e @ [(''signature'', signature_value (ee_signature e))]))"

subsection \<open>Preimage, signature and bounds\<close>

definition ev_unsigned :: "EvidenceEnvelopeV1 \<Rightarrow> UnsignedEvidence" where
  "ev_unsigned e = UnsignedEvidence.truncate e"

definition canonical_cbor :: "'x evidence_ext_scheme \<Rightarrow> EvidenceEnvelopeV1 \<Rightarrow> (EvidenceError, bytes) result" where
  "canonical_cbor x e = map_err EvCore (encode_canonical_cbor (unsigned_value x) (ev_unsigned e))"

definition envelope_digest :: "'x evidence_ext_scheme \<Rightarrow> EvidenceEnvelopeV1 \<Rightarrow> (EvidenceError, Digest) result" where
  "envelope_digest x e = rbind (canonical_cbor x e) (\<lambda>bs. Inr (digest_sha256 (x_sha256 x) bs))"

definition ev_sign :: "'x evidence_ext_scheme \<Rightarrow> EvidenceEnvelopeV1 \<Rightarrow> string \<Rightarrow> bytes \<Rightarrow> (EvidenceError, EvidenceEnvelopeV1) result" where
  "ev_sign x e key_id secret =
     rbind (map_err EvId (bounded_text key_id)) (\<lambda>key_id.
     rbind (map_err EvId (bounded_text ''ed25519'')) (\<lambda>algorithm.
       let e = e\<lparr>ee_trust := TrustIntegrityVerified,
         ee_signature := \<lparr>sb_algorithm = algorithm, sb_key_id = key_id, sb_value = []\<rparr>\<rparr> in
     rbind (canonical_cbor x e) (\<lambda>preimage.
       Inr (e\<lparr>ee_signature := (ee_signature e)\<lparr>sb_value := x_hex_encode x (x_sign x secret preimage)\<rparr>\<rparr>))))"

text \<open>The check of a signature block against a preimage is the same code for envelopes and for the events
  of the event log, up to the constructor of the errors.\<close>

definition check_signature :: "'x external_scheme \<Rightarrow> (string \<Rightarrow> 'e) \<Rightarrow> SignatureBlock \<Rightarrow> bytes \<Rightarrow> ('e, bytes) result \<Rightarrow> ('e, unit) result" where
  "check_signature x crypto s public preimage =
     (if as_str (sb_algorithm s) \<noteq> ''ed25519'' then Inl (crypto ''unsupported signature algorithm'')
      else
     rbind (ok_or (crypto ''signature is not hex'') (x_hex_decode x (sb_value s))) (\<lambda>signature.
     rbind (ensure (length signature = 64) (crypto ''signature is not 64 bytes'')) (\<lambda>_.
     rbind (ensure (x_valid_key x public) (crypto ''public key is invalid'')) (\<lambda>_.
     rbind preimage (\<lambda>bs.
     ensure (x_verify x public bs signature) (crypto ''signature verification failed''))))))"

definition ev_verify_ed25519 :: "'x evidence_ext_scheme \<Rightarrow> EvidenceEnvelopeV1 \<Rightarrow> bytes \<Rightarrow> (EvidenceError, unit) result" where
  "ev_verify_ed25519 x e public = check_signature x EvCrypto (ee_signature e) public (canonical_cbor x e)"

definition check_payload :: "'x evidence_ext_scheme \<Rightarrow> RedactablePayload \<Rightarrow> Digest \<Rightarrow> (EvidenceError, unit) result" where
  "check_payload x payload payload_digest =
     (case payload of
        Metadata payload_hex \<Rightarrow>
          rbind (ok_or (EvRejected ''payload is not hex'') (x_hex_decode x payload_hex)) (\<lambda>bs.
            if length bs > MAX_PAYLOAD_BYTES then Inl (EvRejected ''payload exceeds size limit'')
            else if digest_sha256 (x_sha256 x) bs \<noteq> payload_digest then Inl (EvRejected ''payload digest mismatch'')
            else Inr ())
      | EncryptedObject _ _ payload_hex \<Rightarrow>
          rbind (ok_or (EvRejected ''ciphertext is not hex'') (x_hex_decode x payload_hex)) (\<lambda>bs.
            if length bs > MAX_PAYLOAD_BYTES then Inl (EvRejected ''payload exceeds size limit'') else Inr ())
      | Redacted _ \<Rightarrow> Inr ())"

definition labels_exceed :: "(string, string) btree_map \<Rightarrow> bool" where
  "labels_exceed labels \<longleftrightarrow>
     length labels > MAX_LABELS \<or> list_ex (\<lambda>(k, v). k = [] \<or> length k > 256 \<or> length v > 256) labels"

definition check_bounds :: "'x evidence_ext_scheme \<Rightarrow> EvidenceEnvelopeV1 \<Rightarrow> (EvidenceError, unit) result" where
  "check_bounds x e =
     (if ee_schema_version e \<noteq> SCHEMA_VERSION then Inl (EvRejected ''unsupported schema version'')
      else
     rbind (valid_interval_validate x (ee_valid e)) (\<lambda>_.
     rbind (ev_parse_time x (ee_observed_at e)) (\<lambda>_.
     rbind (ev_parse_time x (ee_received_at e)) (\<lambda>_.
     rbind (case ee_source_time e of None \<Rightarrow> Inr 0 | Some t \<Rightarrow> ev_parse_time x t) (\<lambda>_.
       if ee_payload_media_type e = [] \<or> length (ee_payload_media_type e) > MAX_MEDIA_TYPE_BYTES
       then Inl (EvRejected ''media type is missing or oversized'')
       else if labels_exceed (ee_labels e) then Inl (EvRejected ''labels exceed policy'')
       else check_payload x (ee_payload e) (ee_payload_digest e))))))"

section \<open>Keys and the replay window\<close>

record SigningKey =
  sg_key_id :: string
  sg_secret :: bytes

definition signing_key_from_bytes :: "string \<Rightarrow> bytes \<Rightarrow> SigningKey" where
  "signing_key_from_bytes key_id secret = \<lparr>sg_key_id = key_id, sg_secret = secret\<rparr>"

definition signing_public_bytes :: "'x external_scheme \<Rightarrow> SigningKey \<Rightarrow> bytes" where
  "signing_public_bytes x key = x_public_key x (sg_secret key)"

record PublicKeyRecord =
  pk_key_id :: string
  pk_public_key_hex :: string
  pk_not_before :: string
  pk_not_after :: string
  pk_revoked_at :: "string option"

datatype KeyStatus = KeyValid | KeyExpired | KeyRevoked | KeyUnknown

definition status_at :: "'x evidence_ext_scheme \<Rightarrow> PublicKeyRecord \<Rightarrow> string \<Rightarrow> (EvidenceError, KeyStatus) result" where
  "status_at x key verification_time =
     rbind (ev_parse_time x verification_time) (\<lambda>now.
     rbind (ev_parse_time x (pk_not_before key)) (\<lambda>not_before.
     rbind (ev_parse_time x (pk_not_after key)) (\<lambda>not_after.
     rbind (case pk_revoked_at key of
              None \<Rightarrow> Inr False
            | Some revoked_at \<Rightarrow> rbind (ev_parse_time x revoked_at) (\<lambda>revoked. Inr (now \<ge> revoked))) (\<lambda>revoked.
       if revoked then Inr KeyRevoked
       else if now < not_before \<or> now \<ge> not_after then Inr KeyExpired
       else Inr KeyValid))))"

definition record_public_bytes :: "'x evidence_ext_scheme \<Rightarrow> PublicKeyRecord \<Rightarrow> (EvidenceError, bytes) result" where
  "record_public_bytes x key =
     rbind (ok_or (EvCrypto ''public key is not hex'') (x_hex_decode x (pk_public_key_hex key))) (\<lambda>bs.
       if length bs = 32 then Inr bs else Inl (EvCrypto ''public key is not 32 bytes''))"

record ReplayWindow =
  rw_seen :: "Uuid set"
  rw_max_entries :: nat

definition replay_new :: "nat \<Rightarrow> ReplayWindow" where
  "replay_new max_entries = \<lparr>rw_seen = {}, rw_max_entries = max_entries\<rparr>"

definition replay_accept :: "ReplayWindow \<Rightarrow> Uuid \<Rightarrow> (EvidenceError, unit) result \<times> ReplayWindow" where
  "replay_accept w observation_id =
     (if observation_id \<in> rw_seen w then (Inl (EvRejected ''replayed observation''), w)
      else let w = w\<lparr>rw_seen := insert observation_id (rw_seen w)\<rparr> in
        if card (rw_seen w) > rw_max_entries w then (Inl (EvRejected ''replay window exhausted''), w)
        else (Inr (), w))"

definition replay_len :: "ReplayWindow \<Rightarrow> nat" where
  "replay_len w = card (rw_seen w)"

definition replay_is_empty :: "ReplayWindow \<Rightarrow> bool" where
  "replay_is_empty w \<longleftrightarrow> rw_seen w = {}"

section \<open>Seals\<close>

record SealedPayload =
  sp_version :: string
  sp_key_id :: BoundedText
  sp_nonce_hex :: string
  sp_ciphertext_hex :: string
  sp_payload_digest :: Digest

definition seal_payload :: "'x evidence_ext_scheme \<Rightarrow> bytes \<Rightarrow> string \<Rightarrow> bytes \<Rightarrow> bytes \<Rightarrow> (EvidenceError, SealedPayload) result" where
  "seal_payload x plaintext key_id secret nonce =
     (if plaintext = [] \<or> length plaintext > MAX_PAYLOAD_BYTES then Inl (EvRejected ''payload exceeds size limit'')
      else
     rbind (map_err EvId (bounded_text key_id)) (\<lambda>key_id.
       let aad = ''evidence-seal-v1:'' @ as_str key_id in
     rbind (ok_or (EvCrypto ''evidence encryption failed'') (x_encrypt x secret nonce plaintext (as_bytes aad))) (\<lambda>ciphertext.
       Inr \<lparr>sp_version = ''evidence-seal-v1'', sp_key_id = key_id, sp_nonce_hex = x_hex_encode x nonce,
         sp_ciphertext_hex = x_hex_encode x ciphertext, sp_payload_digest = digest_sha256 (x_sha256 x) plaintext\<rparr>)))"

definition unseal_payload :: "'x evidence_ext_scheme \<Rightarrow> SealedPayload \<Rightarrow> bytes \<Rightarrow> (EvidenceError, bytes) result" where
  "unseal_payload x sealed secret =
     (if sp_version sealed \<noteq> ''evidence-seal-v1'' then Inl (EvRejected ''evidence seal version is invalid'')
      else
     rbind (ok_or (EvCrypto ''nonce is not hex'') (x_hex_decode x (sp_nonce_hex sealed))) (\<lambda>nonce.
     rbind (ensure (length nonce = 24) (EvCrypto ''nonce is not 24 bytes'')) (\<lambda>_.
     rbind (ok_or (EvCrypto ''ciphertext is not hex'') (x_hex_decode x (sp_ciphertext_hex sealed))) (\<lambda>ciphertext.
       if length ciphertext > MAX_PAYLOAD_BYTES then Inl (EvRejected ''payload exceeds size limit'')
       else let aad = ''evidence-seal-v1:'' @ as_str (sp_key_id sealed) in
     rbind (ok_or (EvCrypto ''evidence authentication failed'') (x_decrypt x secret nonce ciphertext (as_bytes aad))) (\<lambda>plaintext.
       if digest_sha256 (x_sha256 x) plaintext \<noteq> sp_payload_digest sealed then Inl (EvRejected ''payload digest mismatch'')
       else Inr plaintext)))))"

section \<open>Provenance\<close>

record ProvenanceNode =
  pn_digest :: Digest
  pn_kind :: BoundedText
  pn_observation_id :: "Uuid option"

record ProvenanceEdge =
  pe_from :: Digest
  pe_to :: Digest
  pe_relation :: BoundedText

datatype ProvenanceEventKind = ProvAccepted | ProvRejected | ProvKeyRevoked | ProvInvalidated

record ProvenanceEvent =
  pv_kind :: ProvenanceEventKind
  pv_recorded_at :: string
  pv_subject :: Digest
  pv_reason :: "BoundedText option"

section \<open>Admission\<close>

datatype RejectionReason =
    ReasonSizeLimit | ReasonSchemaVersion | ReasonTenantBinding | ReasonSignature | ReasonReplay
  | ReasonTimestamp | ReasonPayload | ReasonLabels | ReasonRedaction | ReasonTaxonomy

datatype AdmissionDecision = Accept | Reject RejectionReason

definition map_reason :: "RejectionReason \<Rightarrow> EvidenceError" where
  "map_reason reason = EvRejected
     (case reason of
        ReasonSizeLimit \<Rightarrow> ''envelope exceeds size limit''
      | ReasonSchemaVersion \<Rightarrow> ''unsupported schema version''
      | ReasonTenantBinding \<Rightarrow> ''tenant binding mismatch''
      | ReasonSignature \<Rightarrow> ''signature or key is invalid''
      | ReasonReplay \<Rightarrow> ''replayed observation''
      | ReasonTimestamp \<Rightarrow> ''timestamp is invalid''
      | ReasonPayload \<Rightarrow> ''payload digest or media type failed''
      | ReasonLabels \<Rightarrow> ''labels exceed policy''
      | ReasonRedaction \<Rightarrow> ''payload class is forbidden''
      | ReasonTaxonomy \<Rightarrow> ''kind and trust are inadmissible'')"

definition after_replay :: "'x evidence_ext_scheme \<Rightarrow> EvidenceEnvelopeV1 \<Rightarrow> AdmissionDecision" where
  "after_replay x e =
     (if \<not> is_ok (check_bounds x e) then
        (if \<not> is_ok (valid_interval_validate x (ee_valid e)) \<or> \<not> is_ok (ev_parse_time x (ee_observed_at e))
         then Reject ReasonTimestamp
         else if payload_class (ee_payload e) = ClassForbidden then Reject ReasonRedaction
         else Reject ReasonPayload)
      else if length (ee_labels e) > MAX_LABELS then Reject ReasonLabels
      else if ee_kind e = KindVerified \<and>
        ee_trust e \<notin> {TrustCertified, TrustIndependentlyCorroborated, TrustIntegrityVerified}
      then Reject ReasonTaxonomy
      else Accept)"

definition ev_admit :: "'x evidence_ext_scheme \<Rightarrow> EvidenceEnvelopeV1 \<Rightarrow> Uuid \<Rightarrow> (string, PublicKeyRecord) btree_map \<Rightarrow>
    ReplayWindow \<Rightarrow> string \<Rightarrow> AdmissionDecision \<times> ReplayWindow" where
  "ev_admit x e authenticated_tenant keys replay verification_time =
     (if ee_schema_version e \<noteq> 1 then (Reject ReasonSchemaVersion, replay)
      else if ee_tenant_id e \<noteq> authenticated_tenant then (Reject ReasonTenantBinding, replay)
      else case bt_get keys (as_str (sb_key_id (ee_signature e))) of
        None \<Rightarrow> (Reject ReasonSignature, replay)
      | Some key \<Rightarrow>
          (case status_at x key verification_time of
             Inl _ \<Rightarrow> (Reject ReasonTimestamp, replay)
           | Inr status \<Rightarrow>
               if status \<noteq> KeyValid then (Reject ReasonSignature, replay)
               else (case record_public_bytes x key of
                 Inl _ \<Rightarrow> (Reject ReasonSignature, replay)
               | Inr public \<Rightarrow>
                   if \<not> is_ok (ev_verify_ed25519 x e public) then (Reject ReasonSignature, replay)
                   else (case replay_accept replay (ee_observation_id e) of
                     (Inl _, replay') \<Rightarrow> (Reject ReasonReplay, replay')
                   | (Inr _, replay') \<Rightarrow> (after_replay x e, replay')))))"

definition decode_envelope :: "'x evidence_ext_scheme \<Rightarrow> bytes \<Rightarrow> (EvidenceError, EvidenceEnvelopeV1) result" where
  "decode_envelope x frame =
     (if frame \<noteq> [] \<and> hd frame = 0x7b
      then ok_or (EvRejected ''envelope JSON is invalid'') (x_envelope_from_slice x frame)
      else
     rbind (map_err (\<lambda>_. EvRejected ''envelope CBOR is invalid'') (decode_to_json frame)) (\<lambda>v.
       ok_or (EvRejected ''envelope CBOR is invalid'') (x_envelope_from_value x v)))"

definition validate_envelope :: "'x evidence_ext_scheme \<Rightarrow> bytes \<Rightarrow> Uuid \<Rightarrow> (string, PublicKeyRecord) btree_map \<Rightarrow>
    ReplayWindow \<Rightarrow> string \<Rightarrow> (EvidenceError, EvidenceEnvelopeV1) result \<times> ReplayWindow" where
  "validate_envelope x frame authenticated_tenant keys replay verification_time =
     (if length frame > MAX_FRAME_BYTES \<or> frame = [] then (Inl (EvRejected ''envelope exceeds size limit''), replay)
      else case decode_envelope x frame of
        Inl e \<Rightarrow> (Inl e, replay)
      | Inr e \<Rightarrow>
          (case ev_admit x e authenticated_tenant keys replay verification_time of
             (Accept, replay') \<Rightarrow> (Inr e, replay')
           | (Reject reason, replay') \<Rightarrow> (Inl (map_reason reason), replay')))"

text \<open>A reader is what its calls of \<open>read\<close> deliver, an error or at most 8192 bytes; after the last one it is
  at its end.\<close>

fun read_frame_loop :: "(string, bytes) result list \<Rightarrow> nat \<Rightarrow> bytes \<Rightarrow> (EvidenceError, bytes) result" where
  "read_frame_loop [] limit buf = Inr buf"
| "read_frame_loop (Inl _ # reads) limit buf = Inl (EvRejected ''envelope read failed'')"
| "read_frame_loop (Inr chunk # reads) limit buf =
     (if chunk = [] then Inr buf
      else if min (length buf + length chunk) (2 ^ 64 - 1) > limit then Inl (EvRejected ''envelope exceeds size limit'')
      else read_frame_loop reads limit (buf @ chunk))"

definition read_bounded_frame :: "(string, bytes) result list \<Rightarrow> nat \<Rightarrow> (EvidenceError, bytes) result" where
  "read_bounded_frame reads limit =
     rbind (read_frame_loop reads limit []) (\<lambda>buf.
       if buf = [] then Inl (EvRejected ''envelope exceeds size limit'') else Inr buf)"

section \<open>The preimage determines the envelope\<close>

lemma set_bt_collect: "set (bt_collect xs) \<subseteq> set xs"
proof
  fix p assume p: "p \<in> set (bt_collect xs)"
  obtain k v where kv: "p = (k, v)" by (cases p)
  have "map_of (bt_collect xs) k = Some v"
    using p bt_wf_distinct [OF bt_wf_collect, of xs] by (simp add: kv map_of_eq_Some_iff)
  then have "map_of (rev xs) k = Some v" by (simp add: map_of_bt_collect)
  then show "p \<in> set xs" by (auto simp: kv dest: map_of_SomeD)
qed

lemma length_bt_collect: "length (bt_collect xs) \<le> length xs"
proof -
  have "length (bt_collect xs) = card (fst ` set (bt_collect xs))"
    using bt_wf_distinct [OF bt_wf_collect] by (metis distinct_card length_map set_map)
  also have "\<dots> \<le> length xs" by (simp add: card_image_le [THEN order_trans] card_length)
  finally show ?thesis .
qed

lemma canonical_object:
  "length es < 2 ^ 64 \<Longrightarrow> \<forall>(k, v) \<in> set es. text_ok k \<and> canonical v \<Longrightarrow> canonical (object_of es)"
  using set_bt_collect [of es] length_bt_collect [of es] by (auto simp: object_of_def)

lemma object_of_get:
  "object_of es = object_of fs \<Longrightarrow> distinct (map fst es) \<Longrightarrow> distinct (map fst fs) \<Longrightarrow> map_of es k = map_of fs k"
  by (metis json.inject(5) map_of_bt_collect_distinct object_of_def)

lemma optional_field_simps [simp]:
  "(m ++ map_of (optional_field n f v)) k = (if k = n \<and> v \<noteq> None then Some (f (the v)) else m k)"
  "map_of (optional_field n f v) k = (if k = n then map_option f v else None)"
  by (auto simp: optional_field_def split: option.splits)

lemma canonical_encode_inject:
  assumes "to_value a = Inr t" "to_value b = Inr u" "canonical t" "canonical u"
    and "encode_canonical_cbor to_value a = Inr bs" "encode_canonical_cbor to_value b = Inr bs"
  shows "t = u"
  using assms decode_encode [of t 0 bs "[]"] decode_encode [of u 0 bs "[]"] by (simp add: encode_canonical_iff)

text \<open>The strings of a Rust program are UTF-8 and the lengths of its values fit its integers.\<close>

definition bounded_ok :: "BoundedText \<Rightarrow> bool" where
  "bounded_ok t \<longleftrightarrow> bounded_text_wf t \<and> utf8 (as_str t)"

definition payload_ok :: "RedactablePayload \<Rightarrow> bool" where
  "payload_ok p =
     (case p of Metadata b \<Rightarrow> text_ok b
      | EncryptedObject k n c \<Rightarrow> bounded_ok k \<and> text_ok n \<and> text_ok c
      | Redacted r \<Rightarrow> bounded_ok r)"

definition labels_ok :: "(string, string) btree_map \<Rightarrow> bool" where
  "labels_ok m \<longleftrightarrow> bt_wf m \<and> length m < 2 ^ 64 \<and> (\<forall>(k, v) \<in> set m. text_ok k \<and> text_ok v)"

definition unsigned_ok :: "'m UnsignedEvidence_scheme \<Rightarrow> bool" where
  "unsigned_ok e \<longleftrightarrow>
     bounded_ok (si_kind (ee_source e)) \<and> bounded_ok (si_instance (ee_source e)) \<and>
     bounded_ok (sr_entity_type (ee_subject e)) \<and> bounded_ok (sr_canonical_external_identity (ee_subject e)) \<and>
     text_ok (ee_observed_at e) \<and> pred_option text_ok (ee_source_time e) \<and>
     text_ok (vi_start (ee_valid e)) \<and> pred_option text_ok (vi_end (ee_valid e)) \<and>
     text_ok (ee_received_at e) \<and> text_ok (ee_payload_media_type e) \<and>
     digest_wf (ee_payload_digest e) \<and> payload_ok (ee_payload e) \<and> pred_option digest_wf (ee_predecessor e) \<and>
     bounded_ok (cc_checkpoint (ee_collection e)) \<and> labels_ok (ee_labels e)"

definition signature_ok :: "SignatureBlock \<Rightarrow> bool" where
  "signature_ok s \<longleftrightarrow> bounded_ok (sb_algorithm s) \<and> bounded_ok (sb_key_id s) \<and> text_ok (sb_value s)"

definition envelope_ok :: "EvidenceEnvelopeV1 \<Rightarrow> bool" where
  "envelope_ok e \<longleftrightarrow> unsigned_ok e \<and> signature_ok (ee_signature e)"

text \<open>UUIDs print to different texts, and UUIDs and the hex digits of a signature print to UTF-8.\<close>

definition lawful_uuid :: "'x evidence_ext_scheme \<Rightarrow> bool" where
  "lawful_uuid x \<longleftrightarrow> inj (x_uuid_string x) \<and> (\<forall>u. text_ok (x_uuid_string x u)) \<and>
     (\<forall>bs. length bs = 64 \<longrightarrow> text_ok (x_hex_encode x bs))"

lemma text_ok_literal: "length s < 2 ^ 64 \<Longrightarrow> utf8_valid (as_bytes s) \<Longrightarrow> text_ok s"
  by (simp add: text_ok_def utf8_def)

lemma canonical_text [simp]: "bounded_ok t \<Longrightarrow> canonical (text_value t)"
  by (simp add: text_value_def bounded_ok_def bounded_text_wf_def MAX_BOUNDED_TEXT_BYTES_def text_ok_def)

lemma canonical_digest [simp]: "digest_wf d \<Longrightarrow> canonical (digest_value d)"
  by (auto simp: digest_value_def digest_wf_def)

lemma text_value_inject [simp]: "text_value a = text_value b \<longleftrightarrow> a = b"
  by (simp add: text_value_def as_str_inject)

lemma digest_value_inject [simp]: "digest_value a = digest_value b \<longleftrightarrow> a = b"
proof -
  have "ucast (ucast b :: u64) = b" for b :: byte
    by (rule bit_word_eqI) (simp add: bit_ucast_iff)
  then have "inj (\<lambda>b :: byte. JNumber (PosInt (ucast b)))" by (intro injI) (metis json.inject(2) number.inject(1))
  then show ?thesis by (cases a; cases b) (simp add: digest_value_def inj_map_eq_map)
qed

lemma kind_name_inject [simp]: "kind_name a = kind_name b \<longleftrightarrow> a = b"
  by (cases a; cases b) (simp_all add: kind_name_def)

lemma trust_name_inject [simp]: "trust_name a = trust_name b \<longleftrightarrow> a = b"
  by (cases a; cases b) (simp_all add: trust_name_def)

lemmas field_texts = text_ok_literal as_bytes_def in_range_def

lemma source_value_ok: "bounded_ok (si_kind s) \<Longrightarrow> bounded_ok (si_instance s) \<Longrightarrow> canonical (source_value s)"
  by (auto simp: source_value_def field_texts intro!: canonical_object)

lemma source_value_inject: "source_value s = source_value t \<Longrightarrow> s = t"
  using object_of_get [of "[(''kind'', text_value (si_kind s)), (''instance'', text_value (si_instance s))]"
      "[(''kind'', text_value (si_kind t)), (''instance'', text_value (si_instance t))]" "''kind''"]
    object_of_get [of "[(''kind'', text_value (si_kind s)), (''instance'', text_value (si_instance s))]"
      "[(''kind'', text_value (si_kind t)), (''instance'', text_value (si_instance t))]" "''instance''"]
  by (simp add: source_value_def)

lemma subject_value_ok:
  "bounded_ok (sr_entity_type s) \<Longrightarrow> bounded_ok (sr_canonical_external_identity s) \<Longrightarrow> canonical (subject_value s)"
  by (auto simp: subject_value_def field_texts intro!: canonical_object)

lemma subject_value_inject:
  assumes "subject_value s = subject_value t"
  shows "s = t"
  using object_of_get [OF assms [unfolded subject_value_def], of "''entity_type''"]
    object_of_get [OF assms [unfolded subject_value_def], of "''canonical_external_identity''"] by simp

lemma interval_value_ok: "text_ok (vi_start v) \<Longrightarrow> pred_option text_ok (vi_end v) \<Longrightarrow> canonical (interval_value v)"
  by (cases "vi_end v") (auto simp: interval_value_def optional_field_def field_texts intro!: canonical_object)

lemma interval_value_inject:
  assumes "interval_value v = interval_value w"
  shows "v = w"
proof -
  have "distinct (map fst ((''start'', JString (vi_start u)) # optional_field ''end'' JString (vi_end u)))" for u
    by (simp add: optional_field_def split: option.splits)
  from object_of_get [OF assms [unfolded interval_value_def] this this, of "''start''"]
    object_of_get [OF assms [unfolded interval_value_def] this this, of "''end''"]
  show ?thesis by (cases "vi_end v"; cases "vi_end w") simp_all
qed

lemma collection_value_ok: "bounded_ok (cc_checkpoint c) \<Longrightarrow> canonical (collection_value c)"
  by (auto simp: collection_value_def field_texts intro!: canonical_object)

lemma collection_value_inject: "collection_value c = collection_value d \<Longrightarrow> c = d"
  using object_of_get [of "[(''checkpoint'', text_value (cc_checkpoint c))]" "[(''checkpoint'', text_value (cc_checkpoint d))]" "''checkpoint''"]
  by (simp add: collection_value_def)

lemma payload_value_ok: "payload_ok p \<Longrightarrow> canonical (payload_value p)"
  by (cases p) (auto simp: payload_value_def payload_fields_def payload_ok_def field_texts intro!: canonical_object)

lemma payload_value_inject:
  assumes "payload_value p = payload_value q"
  shows "p = q"
proof -
  have "distinct (map fst (payload_fields p))" for p
    by (simp add: payload_fields_def split: RedactablePayload.splits)
  from object_of_get [OF assms [unfolded payload_value_def] this this]
  have "map_of (payload_fields p) k = map_of (payload_fields q) k" for k .
  from this [of "''class''"] this [of "''bytes_hex''"] this [of "''key_id''"] this [of "''nonce_hex''"]
    this [of "''ciphertext_hex''"] this [of "''reason''"]
  show ?thesis by (cases p; cases q) (simp_all add: payload_fields_def)
qed

lemma labels_value_eq: "bt_wf m \<Longrightarrow> labels_value m = JObject (map (\<lambda>(k, v). (k, JString v)) m)"
  unfolding labels_value_def object_of_def
  by (subst bt_collect_sorted) (auto simp: bt_wf_def sorted_wrt_map case_prod_unfold comp_def)

lemma labels_value_ok: "labels_ok m \<Longrightarrow> canonical (labels_value m)"
  unfolding labels_value_def labels_ok_def by (intro canonical_object) auto

lemma labels_value_inject: "labels_value m = labels_value n \<Longrightarrow> bt_wf m \<Longrightarrow> bt_wf n \<Longrightarrow> m = n"
  by (simp add: labels_value_eq) (subst (asm) inj_map_eq_map, auto intro!: injI)

lemma distinct_optional:
  "distinct (as @ s # bs @ p # cs) \<Longrightarrow>
     distinct (as @ map fst (optional_field s f v) @ bs @ map fst (optional_field p g w) @ cs)"
  by (cases v; cases w) (auto simp: optional_field_def)

lemma distinct_fields: "distinct (map fst (unsigned_fields x e @ [(''signature'', s)]))"
proof -
  have names: "distinct ([''schema_version'', ''observation_id'', ''tenant_id'', ''source'', ''subject'', ''kind'', ''trust'',
      ''observed_at''] @ ''source_time'' # [''valid'', ''received_at'', ''payload_media_type'', ''payload_digest'', ''payload''] @
      ''predecessor'' # [''collection'', ''labels'', ''signature''])" by code_simp
  show ?thesis
    using distinct_optional [OF names, of JString "ee_source_time e" digest_value "ee_predecessor e"]
    unfolding unsigned_fields_def by (simp only: map_append list.map fst_conv append.simps append_assoc)
qed

lemma distinct_unsigned: "distinct (map fst (unsigned_fields x e))"
  using distinct_fields [of x e JNull] by (simp only: map_append distinct_append)

lemma fields_get:
  "object_of (unsigned_fields x e) = object_of (unsigned_fields x f) \<Longrightarrow> map_of (unsigned_fields x e) k = map_of (unsigned_fields x f) k"
  by (erule object_of_get) (rule distinct_unsigned)+

lemma ucast_u16_inject: "(ucast (a :: u16) :: u64) = ucast b \<Longrightarrow> a = b"
proof -
  have "ucast (ucast c :: u64) = c" for c :: u16 by (rule bit_word_eqI) (simp add: bit_ucast_iff)
  then show "(ucast a :: u64) = ucast b \<Longrightarrow> a = b" by metis
qed

lemma fields_inject:
  fixes e f :: UnsignedEvidence
  assumes "object_of (unsigned_fields x e) = object_of (unsigned_fields x f)" "lawful_uuid x"
    and "bt_wf (ee_labels e)" "bt_wf (ee_labels f)"
  shows "e = f"
proof (rule UnsignedEvidence.equality)
  note get = fields_get [OF assms(1)]
  have uuid: "x_uuid_string x a = x_uuid_string x b \<Longrightarrow> a = b" for a b
    using assms(2) by (simp add: lawful_uuid_def inj_eq)
  show "ee_schema_version e = ee_schema_version f" using get [of "''schema_version''"] by (simp add: unsigned_fields_def ucast_u16_inject)
  show "ee_observation_id e = ee_observation_id f" using get [of "''observation_id''"] by (simp add: unsigned_fields_def uuid)
  show "ee_tenant_id e = ee_tenant_id f" using get [of "''tenant_id''"] by (simp add: unsigned_fields_def uuid)
  show "ee_source e = ee_source f" using get [of "''source''"] by (simp add: unsigned_fields_def source_value_inject)
  show "ee_subject e = ee_subject f" using get [of "''subject''"] by (simp add: unsigned_fields_def subject_value_inject)
  show "ee_kind e = ee_kind f" using get [of "''kind''"] by (simp add: unsigned_fields_def)
  show "ee_trust e = ee_trust f" using get [of "''trust''"] by (simp add: unsigned_fields_def)
  show "ee_observed_at e = ee_observed_at f" using get [of "''observed_at''"] by (simp add: unsigned_fields_def)
  show "ee_source_time e = ee_source_time f" using get [of "''source_time''"] by (cases "ee_source_time e"; cases "ee_source_time f") (simp_all add: unsigned_fields_def)
  show "ee_valid e = ee_valid f" using get [of "''valid''"] by (simp add: unsigned_fields_def interval_value_inject)
  show "ee_received_at e = ee_received_at f" using get [of "''received_at''"] by (simp add: unsigned_fields_def)
  show "ee_payload_media_type e = ee_payload_media_type f" using get [of "''payload_media_type''"] by (simp add: unsigned_fields_def)
  show "ee_payload_digest e = ee_payload_digest f" using get [of "''payload_digest''"] by (simp add: unsigned_fields_def)
  show "ee_payload e = ee_payload f" using get [of "''payload''"] by (simp add: unsigned_fields_def payload_value_inject)
  show "ee_predecessor e = ee_predecessor f" using get [of "''predecessor''"] by (cases "ee_predecessor e"; cases "ee_predecessor f") (simp_all add: unsigned_fields_def)
  show "ee_collection e = ee_collection f" using get [of "''collection''"] by (simp add: unsigned_fields_def collection_value_inject)
  show "ee_labels e = ee_labels f" using get [of "''labels''"] assms(3,4) labels_value_inject by (simp add: unsigned_fields_def)
qed simp

lemma unsigned_ok_fields:
  assumes "unsigned_ok e" "lawful_uuid x"
  shows "(k, v) \<in> set (unsigned_fields x e) \<Longrightarrow> text_ok k \<and> canonical v"
proof -
  note ok = assms [unfolded unsigned_ok_def lawful_uuid_def]
  have names: "text_ok (kind_name k)" "text_ok (trust_name t)" for k t
    by (cases k; simp add: kind_name_def field_texts) (cases t; simp add: trust_name_def field_texts)
  have "list_all (\<lambda>(k, v). text_ok k \<and> canonical v) (unsigned_fields x e)"
    using ok names unfolding unsigned_fields_def
    by (cases "ee_source_time e"; cases "ee_predecessor e")
      (simp_all add: optional_field_def field_texts source_value_ok subject_value_ok interval_value_ok payload_value_ok
        collection_value_ok labels_value_ok)
  then show "(k, v) \<in> set (unsigned_fields x e) \<Longrightarrow> text_ok k \<and> canonical v" by (auto simp: list_all_iff)
qed

lemma length_fields: "length (unsigned_fields x e) \<le> 17"
  by (cases "ee_source_time e"; cases "ee_predecessor e") (simp_all add: unsigned_fields_def optional_field_def)

lemma canonical_unsigned:
  assumes "unsigned_ok e" "lawful_uuid x"
  shows "canonical (object_of (unsigned_fields x e))"
  using unsigned_ok_fields [OF assms] length_fields [of x e] by (intro canonical_object) auto

lemma canonical_envelope:
  assumes "envelope_ok e" "lawful_uuid x"
  shows "canonical (object_of (unsigned_fields x e @ [(''signature'', signature_value (ee_signature e))]))"
proof (rule canonical_object)
  have "canonical (signature_value (ee_signature e))"
    using assms(1) by (auto simp: envelope_ok_def signature_ok_def signature_value_def field_texts intro!: canonical_object)
  then show "\<forall>(k, v) \<in> set (unsigned_fields x e @ [(''signature'', signature_value (ee_signature e))]). text_ok k \<and> canonical v"
    using unsigned_ok_fields [of e x] assms by (auto simp: envelope_ok_def field_texts)
qed (use length_fields [of x e] in simp)

lemma unsigned_ok_unsigned: "unsigned_ok (ev_unsigned e) \<longleftrightarrow> unsigned_ok e" "ee_labels (ev_unsigned e) = ee_labels e"
  "unsigned_fields x (ev_unsigned e) = unsigned_fields x e"
  by (simp_all add: ev_unsigned_def UnsignedEvidence.truncate_def unsigned_ok_def unsigned_fields_def)

lemma preimage_inject:
  assumes "canonical_cbor x e = Inr bs" "canonical_cbor x f = Inr bs" "unsigned_ok e" "unsigned_ok f" "lawful_uuid x"
  shows "ev_unsigned e = ev_unsigned f"
proof (rule fields_inject)
  show "object_of (unsigned_fields x (ev_unsigned e)) = object_of (unsigned_fields x (ev_unsigned f))"
    using assms canonical_unsigned [OF assms(3,5)] canonical_unsigned [OF assms(4,5)]
    by (intro canonical_encode_inject [of "unsigned_value x" "ev_unsigned e" _ "ev_unsigned f" _ bs])
      (simp_all add: canonical_cbor_def unsigned_value_def unsigned_ok_unsigned map_err_Inr_iff)
qed (use assms in \<open>simp_all add: unsigned_ok_def labels_ok_def unsigned_ok_unsigned\<close>)

section \<open>Signatures\<close>

lemma check_signature_iff:
  "check_signature x c s public preimage = Inr u \<longleftrightarrow>
     as_str (sb_algorithm s) = ''ed25519'' \<and> x_valid_key x public \<and>
     (\<exists>bs sig. preimage = Inr bs \<and> x_hex_decode x (sb_value s) = Some sig \<and> length sig = 64 \<and> x_verify x public bs sig)"
  by (auto simp: check_signature_def result_simps)

lemma ev_unsigned_signature: "ev_unsigned (e\<lparr>ee_signature := s\<rparr>) = ev_unsigned e"
  by (simp add: ev_unsigned_def UnsignedEvidence.truncate_def)

lemma canonical_cbor_signature [simp]: "canonical_cbor x (e\<lparr>ee_signature := s\<rparr>) = canonical_cbor x e"
  by (simp add: canonical_cbor_def ev_unsigned_signature)

lemma ev_sign_iff:
  "ev_sign x e key_id secret = Inr e' \<longleftrightarrow> bounded_text_wf (BoundedText key_id) \<and>
     (\<exists>bs. canonical_cbor x (e\<lparr>ee_trust := TrustIntegrityVerified\<rparr>) = Inr bs \<and>
        e' = e\<lparr>ee_trust := TrustIntegrityVerified, ee_signature := \<lparr>sb_algorithm = BoundedText ''ed25519'',
          sb_key_id = BoundedText key_id, sb_value = x_hex_encode x (x_sign x secret bs)\<rparr>\<rparr>)"
proof -
  have alg: "bounded_text ''ed25519'' = Inr (BoundedText ''ed25519'')" by (rule bounded_text_literal) simp_all
  show ?thesis by (auto simp: ev_sign_def Let_def alg result_simps bounded_text_iff)
qed

lemma ev_sign_verifies:
  assumes "lawful_crypto x" "length secret = 32" "ev_sign x e key_id secret = Inr e'"
  shows "ev_verify_ed25519 x e' (x_public_key x secret) = Inr () \<and> sb_key_id (ee_signature e') = BoundedText key_id \<and>
    ee_trust e' = TrustIntegrityVerified"
  using assms by (auto simp: ev_sign_iff ev_verify_ed25519_def check_signature_iff lawful_crypto_def)

section \<open>The replay window\<close>

lemma replay_accept_iff:
  assumes "finite (rw_seen w)"
  shows "fst (replay_accept w i) = Inr u \<longleftrightarrow> i \<notin> rw_seen w \<and> card (rw_seen w) < rw_max_entries w"
    and "snd (replay_accept w i) = w\<lparr>rw_seen := insert i (rw_seen w)\<rparr>"
  using assms by (auto simp: replay_accept_def Let_def insert_absorb)

definition present :: "ReplayWindow \<Rightarrow> Uuid \<Rightarrow> ReplayWindow" where
  "present w i = snd (replay_accept w i)"

lemma present_all:
  "finite (rw_seen w) \<Longrightarrow> foldl present w ids = w\<lparr>rw_seen := rw_seen w \<union> set ids\<rparr>"
  by (induction ids arbitrary: w) (simp_all add: present_def replay_accept_iff(2))

section \<open>Seals\<close>

text \<open>What the code relies on of XChaCha20-Poly1305: decryption inverts encryption under the same key, nonce
  and associated data, and a ciphertext is 16 bytes longer than its plaintext. Hex decoding inverts hex
  encoding.\<close>

definition lawful_aead :: "'x evidence_ext_scheme \<Rightarrow> bool" where
  "lawful_aead x \<longleftrightarrow>
     (\<forall>bs. x_hex_decode x (x_hex_encode x bs) = Some bs) \<and>
     (\<forall>k n m a c. x_encrypt x k n m a = Some c \<longrightarrow> x_decrypt x k n c a = Some m \<and> length c = length m + 16)"

lemma seal_unseal:
  assumes "lawful_aead x" "length nonce = 24" "seal_payload x plaintext key_id secret nonce = Inr s"
  shows "unseal_payload x s secret =
    (if length plaintext \<le> MAX_PAYLOAD_BYTES - 16 then Inr plaintext else Inl (EvRejected ''payload exceeds size limit''))"
proof -
  obtain c where c: "x_encrypt x secret nonce plaintext (as_bytes (''evidence-seal-v1:'' @ key_id)) = Some c"
    and s: "s = \<lparr>sp_version = ''evidence-seal-v1'', sp_key_id = BoundedText key_id, sp_nonce_hex = x_hex_encode x nonce,
      sp_ciphertext_hex = x_hex_encode x c, sp_payload_digest = digest_sha256 (x_sha256 x) plaintext\<rparr>"
    using assms(3) by (auto simp: seal_payload_def Let_def result_simps bounded_text_iff split: if_splits)
  have l: "x_hex_decode x (x_hex_encode x bs) = Some bs" for bs using assms(1) by (simp add: lawful_aead_def)
  have d: "x_decrypt x secret nonce c (as_bytes (''evidence-seal-v1:'' @ key_id)) = Some plaintext" "length c = length plaintext + 16"
    using assms(1) c by (simp_all add: lawful_aead_def del: append.simps)
  show ?thesis
    using assms(2) d by (auto simp: unseal_payload_def s l Let_def MAX_PAYLOAD_BYTES_def simp del: append.simps)
qed

section \<open>What admission promises\<close>

definition interval_valid :: "'x evidence_ext_scheme \<Rightarrow> ValidInterval \<Rightarrow> bool" where
  "interval_valid x v \<longleftrightarrow>
     (\<exists>s. x_timestamp x (vi_start v) = Some s \<and>
        (\<forall>e. vi_end v = Some e \<longrightarrow> (\<exists>t. x_timestamp x e = Some t \<and> s < t)))"

definition payload_admissible :: "'x evidence_ext_scheme \<Rightarrow> RedactablePayload \<Rightarrow> Digest \<Rightarrow> bool" where
  "payload_admissible x p d =
     (case p of
        Metadata h \<Rightarrow> (\<exists>bs. x_hex_decode x h = Some bs \<and> length bs \<le> MAX_PAYLOAD_BYTES \<and> Digest (x_sha256 x bs) = d)
      | EncryptedObject _ _ h \<Rightarrow> (\<exists>bs. x_hex_decode x h = Some bs \<and> length bs \<le> MAX_PAYLOAD_BYTES)
      | Redacted _ \<Rightarrow> True)"

definition labels_within :: "(string, string) btree_map \<Rightarrow> bool" where
  "labels_within m \<longleftrightarrow> length m \<le> 32 \<and> (\<forall>(k, v) \<in> set m. k \<noteq> [] \<and> length k \<le> 256 \<and> length v \<le> 256)"

definition within_bounds :: "'x evidence_ext_scheme \<Rightarrow> EvidenceEnvelopeV1 \<Rightarrow> bool" where
  "within_bounds x e \<longleftrightarrow>
     ee_schema_version e = 1 \<and> interval_valid x (ee_valid e) \<and>
     x_timestamp x (ee_observed_at e) \<noteq> None \<and> x_timestamp x (ee_received_at e) \<noteq> None \<and>
     (\<forall>t. ee_source_time e = Some t \<longrightarrow> x_timestamp x t \<noteq> None) \<and>
     ee_payload_media_type e \<noteq> [] \<and> length (ee_payload_media_type e) \<le> 256 \<and>
     labels_within (ee_labels e) \<and> payload_admissible x (ee_payload e) (ee_payload_digest e)"

definition key_valid_at :: "'x evidence_ext_scheme \<Rightarrow> PublicKeyRecord \<Rightarrow> string \<Rightarrow> bool" where
  "key_valid_at x key time \<longleftrightarrow>
     (\<exists>now nb na. x_timestamp x time = Some now \<and> x_timestamp x (pk_not_before key) = Some nb \<and>
        x_timestamp x (pk_not_after key) = Some na \<and> nb \<le> now \<and> now < na \<and>
        (\<forall>r. pk_revoked_at key = Some r \<longrightarrow> (\<exists>t. x_timestamp x r = Some t \<and> now < t)))"

definition signed_by :: "'x evidence_ext_scheme \<Rightarrow> EvidenceEnvelopeV1 \<Rightarrow> bytes \<Rightarrow> bool" where
  "signed_by x e public \<longleftrightarrow>
     as_str (sb_algorithm (ee_signature e)) = ''ed25519'' \<and> x_valid_key x public \<and>
     (\<exists>bs sig. canonical_cbor x e = Inr bs \<and> x_hex_decode x (sb_value (ee_signature e)) = Some sig \<and>
        length sig = 64 \<and> x_verify x public bs sig)"

definition taxonomy_ok :: "EvidenceEnvelopeV1 \<Rightarrow> bool" where
  "taxonomy_ok e \<longleftrightarrow> (ee_kind e = KindVerified \<longrightarrow>
     ee_trust e \<in> {TrustCertified, TrustIndependentlyCorroborated, TrustIntegrityVerified})"

definition authentic :: "'x evidence_ext_scheme \<Rightarrow> EvidenceEnvelopeV1 \<Rightarrow> Uuid \<Rightarrow> (string, PublicKeyRecord) btree_map \<Rightarrow> string \<Rightarrow> bool" where
  "authentic x e tenant keys time \<longleftrightarrow>
     ee_tenant_id e = tenant \<and>
     (\<exists>key public. bt_get keys (as_str (sb_key_id (ee_signature e))) = Some key \<and> key_valid_at x key time \<and>
        x_hex_decode x (pk_public_key_hex key) = Some public \<and> length public = 32 \<and> signed_by x e public)"

lemma valid_interval_iff: "valid_interval_validate x v = Inr u \<longleftrightarrow> interval_valid x v"
  by (cases "x_timestamp x (vi_start v)"; cases "vi_end v"; cases "x_timestamp x (the (vi_end v))")
    (auto simp: valid_interval_validate_def interval_valid_def ev_parse_time_def)

lemma check_payload_iff: "check_payload x p d = Inr u \<longleftrightarrow> payload_admissible x p d"
  by (cases p; cases "x_hex_decode x (bytes_hex p)"; cases "x_hex_decode x (ciphertext_hex p)")
    (auto simp: check_payload_def payload_admissible_def digest_sha256_def not_le)

lemma labels_exceed_iff: "labels_exceed m \<longleftrightarrow> \<not> labels_within m"
  by (auto simp: labels_exceed_def labels_within_def MAX_LABELS_def list_ex_iff case_prod_unfold not_le)

lemma check_bounds_iff: "check_bounds x e = Inr u \<longleftrightarrow> within_bounds x e"
proof -
  have t: "(case ee_source_time e of None \<Rightarrow> Inr 0 | Some t \<Rightarrow> ev_parse_time x t) = Inr v \<Longrightarrow>
      ee_source_time e = Some t \<Longrightarrow> x_timestamp x t \<noteq> None" for t v
    by (auto simp: ev_parse_time_def result_simps)
  have t': "\<exists>v. (case ee_source_time e of None \<Rightarrow> Inr 0 | Some t \<Rightarrow> ev_parse_time x t) = Inr v"
    if "\<forall>t. ee_source_time e = Some t \<longrightarrow> x_timestamp x t \<noteq> None"
    using that by (auto simp: ev_parse_time_def split: option.splits)
  show ?thesis
    using t t' unfolding check_bounds_def within_bounds_def
    by (auto simp: result_simps valid_interval_iff check_payload_iff labels_exceed_iff SCHEMA_VERSION_def MAX_MEDIA_TYPE_BYTES_def
        ev_parse_time_def not_le)
qed

lemma status_at_iff: "status_at x key time = Inr KeyValid \<longleftrightarrow> key_valid_at x key time"
  by (cases "x_timestamp x time"; cases "x_timestamp x (pk_not_before key)"; cases "x_timestamp x (pk_not_after key)";
      cases "pk_revoked_at key"; cases "x_timestamp x (the (pk_revoked_at key))")
    (auto simp: status_at_def key_valid_at_def ev_parse_time_def)

lemma after_replay_iff: "after_replay x e = Accept \<longleftrightarrow> within_bounds x e \<and> taxonomy_ok e"
proof -
  have "is_ok (check_bounds x e) \<longleftrightarrow> within_bounds x e" by (auto simp: is_ok_iff check_bounds_iff)
  moreover have "within_bounds x e \<Longrightarrow> length (ee_labels e) \<le> MAX_LABELS"
    by (simp add: within_bounds_def labels_within_def MAX_LABELS_def)
  ultimately show ?thesis by (auto simp: after_replay_def taxonomy_ok_def)
qed

lemma ev_admit_authentic:
  assumes "ee_schema_version e = 1" "authentic x e tenant keys time"
  shows "ev_admit x e tenant keys w time =
    (case replay_accept w (ee_observation_id e) of
       (Inl _, w') \<Rightarrow> (Reject ReasonReplay, w') | (Inr _, w') \<Rightarrow> (after_replay x e, w'))"
proof -
  obtain key public where k: "bt_get keys (as_str (sb_key_id (ee_signature e))) = Some key" "key_valid_at x key time"
    "x_hex_decode x (pk_public_key_hex key) = Some public" "length public = 32" "signed_by x e public" "ee_tenant_id e = tenant"
    using assms(2) by (auto simp: authentic_def)
  have "status_at x key time = Inr KeyValid" "record_public_bytes x key = Inr public" "ev_verify_ed25519 x e public = Inr ()"
    using k by (simp_all add: status_at_iff record_public_bytes_def ev_verify_ed25519_def check_signature_iff signed_by_def)
  then show ?thesis using k assms(1) by (simp add: ev_admit_def)
qed

lemma ev_admit_not_authentic:
  assumes "\<not> (ee_schema_version e = 1 \<and> authentic x e tenant keys time)"
  shows "\<exists>r \<in> {ReasonSchemaVersion, ReasonTenantBinding, ReasonSignature, ReasonTimestamp}.
    ev_admit x e tenant keys w time = (Reject r, w)"
proof -
  have "signed_by x e public" if "is_ok (ev_verify_ed25519 x e public)" for public
    using that by (auto simp: is_ok_iff ev_verify_ed25519_def check_signature_iff signed_by_def)
  with assms show ?thesis
    by (auto simp: ev_admit_def authentic_def status_at_iff record_public_bytes_def result_simps split: option.splits sum.splits if_splits)
qed

lemma ev_admit_iff:
  assumes "finite (rw_seen w)"
  shows "ev_admit x e tenant keys w time = (Accept, w') \<longleftrightarrow>
    authentic x e tenant keys time \<and> ee_observation_id e \<notin> rw_seen w \<and> card (rw_seen w) < rw_max_entries w \<and>
    within_bounds x e \<and> taxonomy_ok e \<and> w' = w\<lparr>rw_seen := insert (ee_observation_id e) (rw_seen w)\<rparr>"
proof (cases "ee_schema_version e = 1 \<and> authentic x e tenant keys time")
  case True
  obtain r v where r: "replay_accept w (ee_observation_id e) = (r, v)" by (cases "replay_accept w (ee_observation_id e)")
  with replay_accept_iff(1) [OF assms, of "ee_observation_id e" "()"] replay_accept_iff(2) [OF assms, of "ee_observation_id e"] True ev_admit_authentic [of e x tenant keys time w]
  show ?thesis by (cases r) (auto simp: after_replay_iff)
next
  case False
  with ev_admit_not_authentic [OF False, of w] show ?thesis by (auto simp: within_bounds_def)
qed

lemma validate_envelope_iff:
  assumes "finite (rw_seen w)"
  shows "validate_envelope x frame tenant keys w time = (Inr e, w') \<longleftrightarrow>
    frame \<noteq> [] \<and> length frame \<le> MAX_FRAME_BYTES \<and> decode_envelope x frame = Inr e \<and>
    authentic x e tenant keys time \<and> ee_observation_id e \<notin> rw_seen w \<and> card (rw_seen w) < rw_max_entries w \<and>
    within_bounds x e \<and> taxonomy_ok e \<and> w' = w\<lparr>rw_seen := insert (ee_observation_id e) (rw_seen w)\<rparr>"
proof -
  have "validate_envelope x frame tenant keys w time = (Inr e, w') \<longleftrightarrow>
      frame \<noteq> [] \<and> length frame \<le> MAX_FRAME_BYTES \<and> decode_envelope x frame = Inr e \<and>
      ev_admit x e tenant keys w time = (Accept, w')"
    by (auto simp: validate_envelope_def split: sum.splits prod.splits AdmissionDecision.splits)
  then show ?thesis using ev_admit_iff [OF assms, of x e tenant keys time w'] by simp
qed

text \<open>Every call leaves the window as it was or records one observation, and the bound stays.\<close>

lemma validate_envelope_window:
  assumes "finite (rw_seen w)"
  shows "\<exists>ids. snd (validate_envelope x frame tenant keys w time) = w\<lparr>rw_seen := rw_seen w \<union> ids\<rparr> \<and> finite ids"
proof -
  have "\<exists>ids. snd (ev_admit x e tenant keys w time) = w\<lparr>rw_seen := rw_seen w \<union> ids\<rparr> \<and> finite ids" for e
  proof (cases "ee_schema_version e = 1 \<and> authentic x e tenant keys time")
    case True
    with ev_admit_authentic [of e x tenant keys time w] replay_accept_iff(2) [OF assms, of "ee_observation_id e"]
    show ?thesis by (intro exI [of _ "{ee_observation_id e}"]) (auto split: prod.splits sum.splits)
  next
    case False
    from ev_admit_not_authentic [OF False, of w] show ?thesis by (intro exI [of _ "{}"]) auto
  qed
  from this [of "projr (decode_envelope x frame)"] show ?thesis
    by (auto simp: validate_envelope_def intro: exI [of _ "{}"] split: sum.splits prod.splits AdmissionDecision.splits)
qed

text \<open>A sequence of frames, each with its own tenant, keys and verification time, against one window.\<close>

type_synonym request = "bytes \<times> Uuid \<times> (string, PublicKeyRecord) btree_map \<times> string"

primrec validate_sequence :: "'x evidence_ext_scheme \<Rightarrow> request list \<Rightarrow> ReplayWindow \<Rightarrow> EvidenceEnvelopeV1 list \<times> ReplayWindow" where
  "validate_sequence x [] w = ([], w)"
| "validate_sequence x (r # rs) w =
     (case r of (frame, tenant, keys, time) \<Rightarrow>
       (case validate_envelope x frame tenant keys w time of
          (Inl _, w') \<Rightarrow> validate_sequence x rs w'
        | (Inr e, w') \<Rightarrow> (case validate_sequence x rs w' of (es, w'') \<Rightarrow> (e # es, w''))))"

lemma validate_sequence_once:
  assumes "finite (rw_seen w)" "validate_sequence x rs w = (es, w')"
  shows "finite (rw_seen w') \<and> rw_max_entries w' = rw_max_entries w \<and> rw_seen w \<union> ee_observation_id ` set es \<subseteq> rw_seen w' \<and>
    distinct (map ee_observation_id es) \<and> ee_observation_id ` set es \<inter> rw_seen w = {} \<and>
    length es \<le> rw_max_entries w - card (rw_seen w) \<and>
    (\<forall>e \<in> set es. within_bounds x e \<and> taxonomy_ok e \<and> (\<exists>(frame, tenant, keys, time) \<in> set rs. authentic x e tenant keys time))"
  using assms
proof (induction rs arbitrary: w es)
  case (Cons r rs)
  obtain frame tenant keys time where r: "r = (frame, tenant, keys, time)" by (cases r)
  obtain q v where v: "validate_envelope x frame tenant keys w time = (q, v)" by (cases "validate_envelope x frame tenant keys w time")
  from validate_envelope_window [OF Cons.prems(1), of x frame tenant keys time] v
  obtain ids where ids: "v = w\<lparr>rw_seen := rw_seen w \<union> ids\<rparr>" "finite ids" by auto
  have fin: "finite (rw_seen v)" using ids Cons.prems(1) by simp
  have card: "card (rw_seen w) \<le> card (rw_seen v)" using ids Cons.prems(1) by (simp add: card_mono)
  show ?case
  proof (cases q)
    case (Inl er)
    with Cons.prems(2) v have "validate_sequence x rs v = (es, w')" by (simp add: r)
    from Cons.IH [OF fin this] ids card show ?thesis by auto
  next
    case (Inr e)
    with Cons.prems(2) v obtain fs where fs: "validate_sequence x rs v = (fs, w')" "es = e # fs"
      by (auto simp: r split: prod.splits)
    from v [unfolded Inr validate_envelope_iff [OF Cons.prems(1)]]
    have e: "authentic x e tenant keys time" "ee_observation_id e \<notin> rw_seen w" "card (rw_seen w) < rw_max_entries w"
      "within_bounds x e" "taxonomy_ok e" "v = w\<lparr>rw_seen := insert (ee_observation_id e) (rw_seen w)\<rparr>" by auto
    from Cons.IH [OF fin fs(1)] e Cons.prems(1) show ?thesis by (auto simp: fs(2) r)
  qed
qed auto

section \<open>From the signer to admission\<close>

lemma object_frame_head:
  assumes "encode_value [] (object_of es) 0 = Inr bs"
  shows "bs \<noteq> [] \<and> hd bs \<noteq> 0x7b"
proof -
  obtain n m where "encode_entries (encode_len [] 5 n) m 1 = Inr bs"
    using assms by (auto simp: object_of_def encode_value.simps)
  from encode_frame(3) [OF this] obtain q where q: "bs = head_byte 5 n # tail_of n @ q" by (auto simp: encode_len_eq)
  have "head_byte 5 n \<noteq> 0x7b"
  proof
    assume "head_byte 5 n = 0x7b"
    with head_byte_major [of 5 n] show False by simp
  qed
  then show ?thesis by (simp add: q)
qed

lemma decode_framed_envelope:
  assumes "envelope_ok e" "lawful_uuid x" "encode_canonical_cbor (envelope_value x) e = Inr frame"
    and "\<And>v. envelope_value x e = Inr v \<Longrightarrow> x_envelope_from_value x v = Some e"
  shows "decode_envelope x frame = Inr e \<and> frame \<noteq> [] \<and> length frame \<le> MAX_FRAME_BYTES"
proof -
  obtain v where v: "envelope_value x e = Inr v" "encode_value [] v 0 = Inr frame" "length frame \<le> MAX_FRAME_BYTES"
    using assms(3) by (auto simp: encode_canonical_iff)
  have obj: "v = object_of (unsigned_fields x e @ [(''signature'', signature_value (ee_signature e))])"
    using v(1) by (simp add: envelope_value_def)
  have "decode_to_json frame = Inr v"
    using decode_encode [of v 0 frame "[]"] canonical_envelope [OF assms(1,2)] v(2) by (simp add: obj decode_to_json_def)
  with object_frame_head [of _ frame] v assms(4) [OF v(1)] show ?thesis
    by (auto simp: decode_envelope_def obj)
qed

lemma signed_frame_admitted:
  assumes crypto: "lawful_crypto x" "lawful_uuid x" "length secret = 32" "ev_sign x e key_id secret = Inr e'" "envelope_ok e'"
    and frame: "encode_canonical_cbor (envelope_value x) e' = Inr frame"
      "\<And>v. envelope_value x e' = Inr v \<Longrightarrow> x_envelope_from_value x v = Some e'"
    and key: "bt_get keys key_id = Some key" "key_valid_at x key time"
      "pk_public_key_hex key = x_hex_encode x (x_public_key x secret)"
    and fresh: "finite (rw_seen w)" "ee_observation_id e \<notin> rw_seen w" "card (rw_seen w) < rw_max_entries w"
    and bounds: "within_bounds x e"
  shows "validate_envelope x frame (ee_tenant_id e) keys w time = (Inr e', w\<lparr>rw_seen := insert (ee_observation_id e) (rw_seen w)\<rparr>)"
proof -
  obtain bs where e': "e' = e\<lparr>ee_trust := TrustIntegrityVerified, ee_signature := \<lparr>sb_algorithm = BoundedText ''ed25519'',
      sb_key_id = BoundedText key_id, sb_value = x_hex_encode x (x_sign x secret bs)\<rparr>\<rparr>"
    using crypto(4) by (auto simp: ev_sign_iff)
  have "signed_by x e' (x_public_key x secret)"
    using ev_sign_verifies [OF crypto(1,3,4)] by (simp add: ev_verify_ed25519_def check_signature_iff signed_by_def)
  then have "authentic x e' (ee_tenant_id e) keys time"
    using key crypto(1,3) by (auto simp: authentic_def e' lawful_crypto_def)
  moreover have "within_bounds x e'" "taxonomy_ok e'" using bounds by (simp_all add: within_bounds_def taxonomy_ok_def e')
  moreover note decode_framed_envelope [OF crypto(5,2) frame]
  ultimately show ?thesis using fresh by (simp add: validate_envelope_iff [OF fresh(1)]) (simp add: e')
qed

section \<open>Reasons\<close>

lemma admit_reasons:
  assumes "ev_admit x e tenant keys w time = (Reject r, w')"
  shows "r \<noteq> ReasonSizeLimit \<and> r \<noteq> ReasonLabels \<and> r \<noteq> ReasonRedaction"
proof (cases "ee_schema_version e = 1 \<and> authentic x e tenant keys time")
  case True
  have "is_ok (check_bounds x e) \<Longrightarrow> length (ee_labels e) \<le> MAX_LABELS"
    by (auto simp: is_ok_iff check_bounds_iff within_bounds_def labels_within_def MAX_LABELS_def)
  moreover have "payload_class p \<noteq> ClassForbidden" for p by (cases p) (simp_all add: payload_class_def)
  ultimately have "after_replay x e = Reject q \<Longrightarrow> q \<noteq> ReasonSizeLimit \<and> q \<noteq> ReasonLabels \<and> q \<noteq> ReasonRedaction" for q
    by (auto simp: after_replay_def split: if_splits)
  with ev_admit_authentic [of e x tenant keys time w] True assms show ?thesis
    by (auto split: prod.splits sum.splits)
next
  case False
  from ev_admit_not_authentic [OF False, of w] assms show ?thesis by auto
qed

lemma read_frame_loop_chunks:
  assumes "\<forall>c \<in> set cs. c \<noteq> []" "length buf + length (concat cs) < 2 ^ 64"
  shows "read_frame_loop (map Inr cs) limit buf =
    (if cs \<noteq> [] \<and> length buf + length (concat cs) > limit then Inl (EvRejected ''envelope exceeds size limit'') else Inr (buf @ concat cs))"
  using assms
proof (induction cs arbitrary: buf)
  case (Cons c cs)
  from Cons.IH [of "buf @ c"] Cons.prems show ?case by (cases cs) auto
qed simp

text \<open>Without read errors the reader's bytes are returned exactly when there are some and they fit the limit.\<close>

lemma read_bounded_frame_iff:
  assumes "\<forall>c \<in> set cs. c \<noteq> []" "length (concat cs) < 2 ^ 64"
  shows "read_bounded_frame (map Inr cs) limit = Inr bs \<longleftrightarrow> bs = concat cs \<and> bs \<noteq> [] \<and> length bs \<le> limit"
  using assms read_frame_loop_chunks [of cs "[]" limit] by (cases cs) (auto simp: read_bounded_frame_def)

section \<open>A concrete environment\<close>

text \<open>The size of an encoding is bounded without computing it.\<close>

fun size_bound :: "json \<Rightarrow> nat" where
  "size_bound (JString t) = 9 + length t"
| "size_bound (JArray items) = 9 + sum_list (map size_bound items)"
| "size_bound (JObject m) = 9 + sum_list (map (\<lambda>(k, v). 9 + length k + size_bound v) m)"
| "size_bound _ = 9"

lemma sum_list_map_le: "\<forall>v \<in> set xs. f v \<le> (n :: nat) \<Longrightarrow> sum_list (map f xs) \<le> n * length xs"
  by (induction xs) (auto simp: add_mono)

lemma length_head: "length (encode_len [] m n) \<le> 9"
  by (simp add: encode_len_eq tail_of_def)

lemma length_encode:
  "encode_value out v d = Inr bs \<Longrightarrow> length bs \<le> length out + size_bound v"
  "encode_items out vs d = Inr bs \<Longrightarrow> length bs \<le> length out + sum_list (map size_bound vs)"
  "encode_entries out m d = Inr bs \<Longrightarrow> length bs \<le> length out + sum_list (map (\<lambda>(k, v). 9 + length k + size_bound v) m)"
proof (induction out v d and out vs d and out m d arbitrary: bs and bs and bs
    rule: encode_value_encode_items_encode_entries.induct)
  case (1 out v depth)
  have h: "length (encode_len o' m n) \<le> length o' + 9" for o' m n by (simp add: encode_len_eq tail_of_def)
  show ?case
  proof (cases v)
    case (JNumber n)
    with 1 h [of out] show ?thesis by (cases n) (auto simp: encode_value.simps encode_number_def split: if_splits)
  next
    case (JArray items)
    with 1 h [of out 4 "of_nat (length items)"] show ?thesis by (fastforce simp: encode_value.simps split: if_splits)
  next
    case (JObject m)
    with 1 h [of out 5 "of_nat (length m)"] show ?thesis by (fastforce simp: encode_value.simps split: if_splits)
  qed (use 1 h [of out 3] in \<open>auto simp: encode_value.simps encode_text_def split: if_splits\<close>)
next
  case (3 out v vs depth)
  then show ?case by (fastforce simp: rbind_Inr_iff)
next
  case (5 out k v m depth)
  have h: "length (encode_text out k) \<le> length out + 9 + length k" by (simp add: encode_text_def encode_len_eq tail_of_def)
  from 5 h show ?case by (fastforce simp: rbind_Inr_iff)
qed auto

definition shallow :: "nat \<Rightarrow> json \<Rightarrow> bool" where
  "shallow n v \<longleftrightarrow> nesting v \<le> n \<and> floats_finite v"

lemma shallow_object: "\<forall>(k, v) \<in> set es. shallow n v \<Longrightarrow> shallow (Suc n) (object_of es)"
  using set_bt_collect [of es] by (fastforce simp: shallow_def object_of_def foldr_max_le)

lemma shallow_scalars [simp]: "shallow n (JString t)" "shallow n (text_value b)" "shallow n (JNumber (PosInt k))" "0 < n \<Longrightarrow> shallow n (digest_value d)"
  by (auto simp: shallow_def text_value_def digest_value_def foldr_max_le)

lemma shallow_parts:
  "shallow 1 (source_value s)" "shallow 1 (subject_value r)" "shallow 1 (interval_value v)" "shallow 1 (collection_value c)"
  "shallow 1 (payload_value p)" "shallow 1 (labels_value m)" "shallow 1 (signature_value sg)"
proof -
  have one: "\<forall>(k, v) \<in> set es. shallow 0 v \<Longrightarrow> shallow 1 (object_of es)" for es using shallow_object [of es 0] by simp
  show "shallow 1 (source_value s)" "shallow 1 (subject_value r)" "shallow 1 (collection_value c)" "shallow 1 (signature_value sg)"
    unfolding source_value_def subject_value_def collection_value_def signature_value_def by (rule one; simp)+
  show "shallow 1 (interval_value v)" unfolding interval_value_def optional_field_def by (rule one) (auto split: option.splits)
  show "shallow 1 (payload_value p)" unfolding payload_value_def payload_fields_def by (rule one) (simp split: RedactablePayload.splits)
  show "shallow 1 (labels_value m)" unfolding labels_value_def by (rule one) auto
qed

lemma shallow_fields: "(k, v) \<in> set (unsigned_fields x e) \<Longrightarrow> shallow 1 v"
  unfolding unsigned_fields_def by (auto simp: optional_field_def shallow_parts [simplified] split: option.splits)

lemma size_bound_insert:
  "sum_list (map (\<lambda>(k, v). 9 + length k + size_bound v) (bt_insert k v m)) \<le>
     9 + length k + size_bound v + sum_list (map (\<lambda>(k, v). 9 + length k + size_bound v) m)"
  by (induction m) auto

lemma size_bound_object: "size_bound (object_of es) \<le> 9 + sum_list (map (\<lambda>(k, v). 9 + length k + size_bound v) es)"
proof -
  have "sum_list (map (\<lambda>(k, v). 9 + length k + size_bound v) (fold (\<lambda>(k, v) m. bt_insert k v m) es m)) \<le>
    sum_list (map (\<lambda>(k, v). 9 + length k + size_bound v) m) + sum_list (map (\<lambda>(k, v). 9 + length k + size_bound v) es)" for m
  proof (induction es arbitrary: m)
    case (Cons e es)
    obtain k v where e: "e = (k, v)" by (cases e)
    from Cons [of "bt_insert k v m"] size_bound_insert [of k v m] show ?case by (simp add: e)
  qed simp
  from this [of "[]"] show ?thesis by (simp add: object_of_def bt_collect_def)
qed

text \<open>Canonical encoding fails for an envelope only beyond the frame bound.\<close>

lemma encode_shallow:
  assumes "shallow 16 v" "size_bound v \<le> MAX_FRAME_BYTES" "to_value a = Inr v"
  shows "\<exists>bs. encode_canonical_cbor to_value a = Inr bs"
proof -
  obtain bs where bs: "encode_value [] v 0 = Inr bs"
    using encode_ok(1) [of "[]" v 0] assms(1) by (auto simp: shallow_def is_ok_iff MAX_CBOR_DEPTH_def)
  with length_encode(1) [OF bs] assms(2,3) show ?thesis by (auto simp: encode_canonical_iff)
qed

lemma shallow_mono: "shallow m v \<Longrightarrow> m \<le> n \<Longrightarrow> shallow n v"
  by (simp add: shallow_def)

definition toy_uuid :: "Uuid \<Rightarrow> string" where
  "toy_uuid u = map (\<lambda>i. if bit (uuid_bits u) i then CHR ''1'' else CHR ''0'') [0..<128]"

definition toy_secret :: bytes where "toy_secret = replicate 32 7"

definition toy_evidence :: EvidenceEnvelopeV1 where
  "toy_evidence = \<lparr>ee_schema_version = 1, ee_observation_id = Uuid 1, ee_tenant_id = Uuid 2,
     ee_source = \<lparr>si_kind = BoundedText ''g'', si_instance = BoundedText ''h''\<rparr>,
     ee_subject = \<lparr>sr_entity_type = BoundedText ''r'', sr_canonical_external_identity = BoundedText ''i''\<rparr>,
     ee_kind = KindVerified, ee_trust = TrustUnverified, ee_observed_at = ''t'', ee_source_time = None,
     ee_valid = \<lparr>vi_start = ''t'', vi_end = Some ''tt''\<rparr>, ee_received_at = ''t'', ee_payload_media_type = ''m'',
     ee_payload_digest = Digest (replicate 32 0), ee_payload = Redacted (BoundedText ''q''), ee_predecessor = None,
     ee_collection = \<lparr>cc_checkpoint = BoundedText ''0''\<rparr>, ee_labels = [],
     ee_signature = \<lparr>sb_algorithm = BoundedText ''none'', sb_key_id = BoundedText ''k'', sb_value = []\<rparr>\<rparr>"

definition toy_signed_evidence :: EvidenceEnvelopeV1 where
  "toy_signed_evidence = toy_evidence\<lparr>ee_trust := TrustIntegrityVerified, ee_signature := \<lparr>sb_algorithm = BoundedText ''ed25519'',
     sb_key_id = BoundedText ''k1'', sb_value = toy_hex (toy_secret @ toy_secret)\<rparr>\<rparr>"

definition evidence_toy :: evidence_ext where
  "evidence_toy = external.extend (external.truncate toy_ext)
     (evidence_ext.fields (\<lambda>s. Some (int (length s))) toy_uuid (\<lambda>k n m a. Some (m @ replicate 16 0))
       (\<lambda>k n c a. Some (take (length c - 16) c)) (\<lambda>_. None) (\<lambda>_. Some toy_signed_evidence))"

definition toy_record :: PublicKeyRecord where
  "toy_record = \<lparr>pk_key_id = ''k1'', pk_public_key_hex = toy_hex toy_secret, pk_not_before = '''', pk_not_after = ''ttt'',
     pk_revoked_at = None\<rparr>"

lemma evidence_toy_fields: "x_sha256 evidence_toy = id" "x_hex_encode evidence_toy = toy_hex" "x_hex_decode evidence_toy = toy_unhex"
  "x_sign evidence_toy = (\<lambda>k m. k @ k)" "x_public_key evidence_toy = id" "x_timestamp evidence_toy = (\<lambda>s. Some (int (length s)))"
  "x_uuid_string evidence_toy = toy_uuid" "x_envelope_from_value evidence_toy = (\<lambda>_. Some toy_signed_evidence)"
  "x_valid_key evidence_toy = (\<lambda>k. length k = 32)" "x_verify evidence_toy = (\<lambda>k m s. s = k @ k)"
  "x_encrypt evidence_toy = (\<lambda>k n m a. Some (m @ replicate 16 0))" "x_decrypt evidence_toy = (\<lambda>k n c a. Some (take (length c - 16) c))"
  by (simp_all add: evidence_toy_def evidence_ext.defs external.defs toy_ext_def)

lemma ascii_text: "list_all (\<lambda>c. (of_char c :: nat) < 128) t \<Longrightarrow> utf8_valid (as_bytes t)"
  by (induction t) (auto simp: as_bytes_def in_range_def)

lemma toy_hex_ascii: "list_all (\<lambda>c. (of_char c :: nat) < 128) (toy_hex bs) \<and> length (toy_hex bs) = 2 * length bs"
proof (induction bs)
  case (Cons b bs)
  have "unat b div 16 < 16" "unat b mod 16 < 16" using unat_byte_bound [of b] by auto
  then show ?case using Cons by (simp add: nibble_char_def of_char_of)
qed simp

lemma evidence_toy_lawful: "lawful_crypto evidence_toy" "lawful_uuid evidence_toy" "lawful_aead evidence_toy"
proof -
  show "lawful_crypto evidence_toy" using toy_hex_roundtrip by (simp add: lawful_crypto_def evidence_toy_fields)
  show "lawful_aead evidence_toy" using toy_hex_roundtrip by (simp add: lawful_aead_def evidence_toy_fields)
  have "u = v" if "toy_uuid u = toy_uuid v" for u v
  proof -
    have "bit (uuid_bits u) i = bit (uuid_bits v) i" if "i < 128" for i
      using arg_cong [OF \<open>toy_uuid u = toy_uuid v\<close>, of "\<lambda>s. s ! i"] that by (simp add: toy_uuid_def split: if_splits)
    then have "uuid_bits u = uuid_bits v" by (intro bit_word_eqI) simp
    then show ?thesis by (cases u; cases v) simp
  qed
  moreover have "text_ok (toy_uuid u)" for u
    unfolding text_ok_def utf8_def by (intro conjI ascii_text) (auto simp: toy_uuid_def list_all_iff)
  moreover have "text_ok (toy_hex bs)" if "length bs = 64" for bs
    unfolding text_ok_def utf8_def using toy_hex_ascii [of bs] that by (intro conjI ascii_text) simp_all
  ultimately show "lawful_uuid evidence_toy" unfolding lawful_uuid_def evidence_toy_fields by (auto intro: injI)
qed

lemma toy_texts:
  "length t \<le> 3 \<Longrightarrow> list_all (\<lambda>c. (of_char c :: nat) < 128) t \<Longrightarrow> text_ok t"
  "0 < length t \<Longrightarrow> length t \<le> 7 \<Longrightarrow> list_all (\<lambda>c. (of_char c :: nat) < 128) t \<Longrightarrow> bounded_ok (BoundedText t)"
  by (auto simp: text_ok_def utf8_def bounded_ok_def bounded_text_wf_def MAX_BOUNDED_TEXT_BYTES_def ascii_text)

lemma toy_envelope_oks: "envelope_ok toy_signed_evidence" "unsigned_ok toy_evidence"
proof -
  have "text_ok (toy_hex (toy_secret @ toy_secret))"
    using evidence_toy_lawful(2) by (simp add: lawful_uuid_def evidence_toy_fields toy_secret_def)
  then show "envelope_ok toy_signed_evidence"
    by (simp add: toy_signed_evidence_def toy_evidence_def envelope_ok_def unsigned_ok_def signature_ok_def toy_texts digest_wf_def
        payload_ok_def labels_ok_def)
  show "unsigned_ok toy_evidence"
    by (simp add: toy_evidence_def unsigned_ok_def toy_texts digest_wf_def payload_ok_def labels_ok_def)
qed

lemma toy_size:
  "size_bound (object_of (unsigned_fields evidence_toy toy_signed_evidence @ [(''signature'', signature_value (ee_signature toy_signed_evidence))])) \<le> 4000"
  "size_bound (object_of (unsigned_fields evidence_toy (toy_evidence\<lparr>ee_trust := t\<rparr>))) \<le> 4000"
proof -
  have u: "length (toy_uuid u) = 128" for u by (simp add: toy_uuid_def)
  have h: "length (toy_hex (toy_secret @ toy_secret)) = 128" by (simp add: toy_hex_ascii toy_secret_def)
  have d: "size_bound (digest_value (Digest (replicate 32 0))) = 297" by (simp add: digest_value_def map_replicate sum_list_replicate del: replicate.simps)
  have t: "length (trust_name t) \<le> 26" for t by (cases t) (simp_all add: trust_name_def)
  have p: "size_bound (source_value \<lparr>si_kind = BoundedText ''g'', si_instance = BoundedText ''h''\<rparr>) \<le> 100"
    "size_bound (subject_value \<lparr>sr_entity_type = BoundedText ''r'', sr_canonical_external_identity = BoundedText ''i''\<rparr>) \<le> 100"
    "size_bound (interval_value \<lparr>vi_start = ''t'', vi_end = Some ''tt''\<rparr>) \<le> 100"
    "size_bound (payload_value (Redacted (BoundedText ''q''))) \<le> 100" "size_bound (collection_value \<lparr>cc_checkpoint = BoundedText ''0''\<rparr>) \<le> 100"
    "size_bound (labels_value []) \<le> 100"
    "size_bound (signature_value \<lparr>sb_algorithm = BoundedText ''ed25519'', sb_key_id = BoundedText ''k1'', sb_value = toy_hex (toy_secret @ toy_secret)\<rparr>) \<le> 300"
    unfolding source_value_def subject_value_def interval_value_def payload_value_def payload_fields_def collection_value_def
      labels_value_def signature_value_def
    by (rule order_trans [OF size_bound_object]; simp add: text_value_def optional_field_def h)+
  have "sum_list (map (\<lambda>(k, v). 9 + length k + size_bound v) (unsigned_fields evidence_toy (toy_evidence\<lparr>ee_trust := t\<rparr>))) \<le> 3000" for t
    using p t [of t] by (simp add: unsigned_fields_def toy_evidence_def optional_field_def evidence_toy_fields u d kind_name_def)
  note f = this
  show "size_bound (object_of (unsigned_fields evidence_toy (toy_evidence\<lparr>ee_trust := t\<rparr>))) \<le> 4000"
    using size_bound_object [of "unsigned_fields evidence_toy (toy_evidence\<lparr>ee_trust := t\<rparr>)"] f [of t] by simp
  have "unsigned_fields evidence_toy toy_signed_evidence = unsigned_fields evidence_toy (toy_evidence\<lparr>ee_trust := TrustIntegrityVerified\<rparr>)"
    by (simp add: unsigned_fields_def toy_signed_evidence_def)
  then show "size_bound (object_of (unsigned_fields evidence_toy toy_signed_evidence @
      [(''signature'', signature_value (ee_signature toy_signed_evidence))])) \<le> 4000"
    using size_bound_object [of "unsigned_fields evidence_toy toy_signed_evidence @ [(''signature'', signature_value (ee_signature toy_signed_evidence))]"]
      f [of TrustIntegrityVerified] p(7) by (simp add: toy_signed_evidence_def)
qed

lemma toy_encodes:
  "\<exists>bs. canonical_cbor evidence_toy (toy_evidence\<lparr>ee_trust := t\<rparr>) = Inr bs"
  "\<exists>frame. encode_canonical_cbor (envelope_value evidence_toy) toy_signed_evidence = Inr frame"
proof -
  have two: "\<forall>(k, v) \<in> set es. shallow 1 v \<Longrightarrow> shallow 16 (object_of es)" for es
    using shallow_mono [OF shallow_object [of es 1], of 16] by simp
  have a: "shallow 16 (object_of (unsigned_fields evidence_toy (toy_evidence\<lparr>ee_trust := t\<rparr>)))"
    by (rule two) (auto dest: shallow_fields)
  show "\<exists>bs. canonical_cbor evidence_toy (toy_evidence\<lparr>ee_trust := t\<rparr>) = Inr bs"
    using encode_shallow [OF a, of "unsigned_value evidence_toy" "ev_unsigned (toy_evidence\<lparr>ee_trust := t\<rparr>)"] toy_size(2) [of t]
    by (auto simp: canonical_cbor_def unsigned_value_def unsigned_ok_unsigned MAX_FRAME_BYTES_def)
  have b: "shallow 16 (object_of (unsigned_fields evidence_toy toy_signed_evidence @ [(''signature'', signature_value (ee_signature toy_signed_evidence))]))"
    by (rule two) (auto dest: shallow_fields simp: shallow_parts [simplified])
  show "\<exists>frame. encode_canonical_cbor (envelope_value evidence_toy) toy_signed_evidence = Inr frame"
    using encode_shallow [OF b, of "envelope_value evidence_toy" toy_signed_evidence] toy_size(1)
    by (simp add: envelope_value_def MAX_FRAME_BYTES_def)
qed

lemma toy_signs: "ev_sign evidence_toy toy_evidence ''k1'' toy_secret = Inr toy_signed_evidence"
  using toy_encodes(1) [of TrustIntegrityVerified]
  by (auto simp: ev_sign_iff toy_signed_evidence_def evidence_toy_fields bounded_text_wf_def MAX_BOUNDED_TEXT_BYTES_def)

lemma toy_bounds: "within_bounds evidence_toy toy_evidence" "key_valid_at evidence_toy toy_record ''t''"
  by (simp_all add: within_bounds_def toy_evidence_def interval_valid_def evidence_toy_fields labels_within_def
      payload_admissible_def key_valid_at_def toy_record_def)

section \<open>Properties\<close>

text \<open>(C15) A frame is accepted exactly when it is within the frame bound and decodes to an envelope that is
  authentic (bound to the authenticated tenant, signed over its canonical preimage by a registered key that is
  valid and not revoked at the verification time), within every field bound, of an admissible kind and trust,
  and whose observation was not seen and fits the window; then exactly its observation is recorded.\<close>

theorem validate_envelope_exact:
  assumes "finite (rw_seen w)"
  shows "validate_envelope x frame tenant keys w time = (Inr e, w') \<longleftrightarrow>
    frame \<noteq> [] \<and> length frame \<le> MAX_FRAME_BYTES \<and> decode_envelope x frame = Inr e \<and>
    authentic x e tenant keys time \<and> ee_observation_id e \<notin> rw_seen w \<and> card (rw_seen w) < rw_max_entries w \<and>
    within_bounds x e \<and> taxonomy_ok e \<and> w' = w\<lparr>rw_seen := insert (ee_observation_id e) (rw_seen w)\<rparr>"
  by (rule validate_envelope_iff [OF assms])

theorem validate_envelope_exact_witness:
  "validate_envelope evidence_toy [0] (Uuid 3) [] (replay_new 1) ''t'' \<noteq> (Inr toy_signed_evidence, replay_new 1)"
  using validate_envelope_exact [of "replay_new 1" evidence_toy "[0]" "Uuid 3" "[]" "''t''" toy_signed_evidence "replay_new 1"]
  by (simp add: replay_new_def authentic_def)

text \<open>(C14) An envelope that is signed with a registered key and framed as canonical CBOR is accepted: encoder,
  decoder, signer and admission agree. The hypotheses are the laws of hex and Ed25519, that UUIDs and hex
  digits print to UTF-8, and that the value deserializer inverts the serializer on this envelope.\<close>

theorem signed_envelope_admitted:
  assumes "lawful_crypto x" "lawful_uuid x" "length secret = 32" "ev_sign x e key_id secret = Inr e'" "envelope_ok e'"
    and "encode_canonical_cbor (envelope_value x) e' = Inr frame"
    and "\<And>v. envelope_value x e' = Inr v \<Longrightarrow> x_envelope_from_value x v = Some e'"
    and "bt_get keys key_id = Some key" "key_valid_at x key time" "pk_public_key_hex key = x_hex_encode x (x_public_key x secret)"
    and "finite (rw_seen w)" "ee_observation_id e \<notin> rw_seen w" "card (rw_seen w) < rw_max_entries w" "within_bounds x e"
  shows "validate_envelope x frame (ee_tenant_id e) keys w time = (Inr e', w\<lparr>rw_seen := insert (ee_observation_id e) (rw_seen w)\<rparr>)"
  using assms by (rule signed_frame_admitted)

theorem signed_envelope_admitted_witness:
  "\<exists>frame. encode_canonical_cbor (envelope_value evidence_toy) toy_signed_evidence = Inr frame \<and>
     validate_envelope evidence_toy frame (Uuid 2) [(''k1'', toy_record)] (replay_new 1) ''t'' =
       (Inr toy_signed_evidence, \<lparr>rw_seen = {Uuid 1}, rw_max_entries = 1\<rparr>)"
proof -
  obtain frame where frame: "encode_canonical_cbor (envelope_value evidence_toy) toy_signed_evidence = Inr frame"
    using toy_encodes(2) by blast
  from signed_envelope_admitted [OF evidence_toy_lawful(1,2) _ toy_signs toy_envelope_oks(1) frame _ _ toy_bounds(2) _ _ _ _ toy_bounds(1),
      of "[(''k1'', toy_record)]" "replay_new 1"]
  have "validate_envelope evidence_toy frame (Uuid 2) [(''k1'', toy_record)] (replay_new 1) ''t'' =
       (Inr toy_signed_evidence, \<lparr>rw_seen = {Uuid 1}, rw_max_entries = 1\<rparr>)"
    by (simp add: evidence_toy_fields toy_secret_def toy_record_def toy_evidence_def replay_new_def)
  with frame show ?thesis by blast
qed

text \<open>(C13) Over any sequence of frames, with any tenants, keys and times, no observation is accepted twice nor when
  it was seen before, at most as many envelopes are accepted as the window has room for, and every accepted
  envelope is authentic for its request, within the bounds and of an admissible kind and trust.\<close>

theorem admission_once:
  assumes "finite (rw_seen w)" "validate_sequence x rs w = (es, w')"
  shows "distinct (map ee_observation_id es) \<and> ee_observation_id ` set es \<inter> rw_seen w = {} \<and>
    length es \<le> rw_max_entries w - card (rw_seen w) \<and> rw_seen w \<union> ee_observation_id ` set es \<subseteq> rw_seen w' \<and>
    (\<forall>e \<in> set es. within_bounds x e \<and> taxonomy_ok e \<and> (\<exists>(frame, tenant, keys, time) \<in> set rs. authentic x e tenant keys time))"
  using validate_sequence_once [OF assms] by auto

theorem admission_once_witness:
  "\<exists>frame es. validate_sequence evidence_toy [(frame, Uuid 2, [(''k1'', toy_record)], ''t''), (frame, Uuid 2, [(''k1'', toy_record)], ''t'')]
     (replay_new 2) = (es, \<lparr>rw_seen = {Uuid 1}, rw_max_entries = 2\<rparr>) \<and> es = [toy_signed_evidence] \<and>
     distinct (map ee_observation_id es) \<and> length es \<le> 2"
proof -
  let ?keys = "[(''k1'', toy_record)]"
  obtain frame where frame: "encode_canonical_cbor (envelope_value evidence_toy) toy_signed_evidence = Inr frame"
    using toy_encodes(2) by blast
  from signed_frame_admitted [OF evidence_toy_lawful(1,2) _ toy_signs toy_envelope_oks(1) frame _ _ toy_bounds(2) _ _ _ _ toy_bounds(1),
      of ?keys "replay_new 2"]
  have one: "validate_envelope evidence_toy frame (Uuid 2) ?keys (replay_new 2) ''t'' =
       (Inr toy_signed_evidence, \<lparr>rw_seen = {Uuid 1}, rw_max_entries = 2\<rparr>)"
    by (simp add: evidence_toy_fields toy_secret_def toy_record_def toy_evidence_def replay_new_def)
  let ?v = "\<lparr>rw_seen = {Uuid 1}, rw_max_entries = 2\<rparr> :: ReplayWindow" and ?r = "(frame, Uuid 2, ?keys, ''t'')"
  obtain es w' where s: "validate_sequence evidence_toy [?r, ?r] (replay_new 2) = (es, w')" by fastforce
  from admission_once [OF _ s] have d: "distinct (map ee_observation_id es)" "length es \<le> 2" by (simp_all add: replay_new_def)
  obtain q v where q: "validate_envelope evidence_toy frame (Uuid 2) ?keys ?v ''t'' = (q, v)" by fastforce
  from s one q have es: "es = toy_signed_evidence # (case q of Inl _ \<Rightarrow> [] | Inr e \<Rightarrow> [e])" "w' = v"
    by (auto split: sum.splits)
  have dec: "decode_envelope evidence_toy frame = Inr toy_signed_evidence" "frame \<noteq> []" "length frame \<le> MAX_FRAME_BYTES"
    using decode_framed_envelope [OF toy_envelope_oks(1) evidence_toy_lawful(2) frame] by (simp_all add: evidence_toy_fields)
  have "ee_observation_id toy_signed_evidence = Uuid 1" by (simp add: toy_signed_evidence_def toy_evidence_def)
  then have v: "v = ?v" and "\<not> is_ok q"
    using validate_envelope_window [of ?v evidence_toy frame "Uuid 2" ?keys "''t''"] q
      validate_envelope_iff [of ?v evidence_toy frame "Uuid 2" ?keys "''t''" toy_signed_evidence v] dec
    by (auto simp: validate_envelope_def ev_admit_def replay_accept_def split: if_splits option.splits sum.splits prod.splits AdmissionDecision.splits)
  then have "q = Inl (projl q)" by (cases q) simp_all
  then have "es = [toy_signed_evidence]" "w' = ?v" using es v by (auto split: sum.splits)
  with s d show ?thesis by blast
qed

text \<open>The signed preimage binds the envelope: two envelopes have the same canonical CBOR exactly when all their
  fields but the signature are equal, optional fields, payload, labels and predecessor included.\<close>

theorem envelope_preimage_binding:
  assumes "lawful_uuid x" "unsigned_ok e" "unsigned_ok f" "canonical_cbor x e = Inr bs"
  shows "canonical_cbor x f = Inr bs \<longleftrightarrow> ev_unsigned e = ev_unsigned f"
  using preimage_inject [OF assms(4) _ assms(2,3,1)] assms(4) by (auto simp: canonical_cbor_def)

theorem envelope_preimage_binding_witness:
  "canonical_cbor evidence_toy (toy_evidence\<lparr>ee_kind := KindInferred\<rparr>) \<noteq> canonical_cbor evidence_toy toy_evidence"
proof -
  have t: "toy_evidence\<lparr>ee_trust := TrustUnverified\<rparr> = toy_evidence" by (simp add: toy_evidence_def)
  obtain bs where bs: "canonical_cbor evidence_toy toy_evidence = Inr bs" using toy_encodes(1) [of TrustUnverified] t by auto
  have "unsigned_ok (toy_evidence\<lparr>ee_kind := KindInferred\<rparr>)" using toy_envelope_oks(2) by (simp add: unsigned_ok_def)
  note binding = envelope_preimage_binding [OF evidence_toy_lawful(2) toy_envelope_oks(2) this bs]
  have "ev_unsigned toy_evidence \<noteq> ev_unsigned (toy_evidence\<lparr>ee_kind := KindInferred\<rparr>)"
    by (simp add: ev_unsigned_def UnsignedEvidence.truncate_def toy_evidence_def)
  with binding show ?thesis by (simp add: bs)
qed


text \<open>(C18) Unsealing what was sealed gives the plaintext back, unless the plaintext is within 16 bytes of the payload
  bound: sealing accepts it, but the authentication tag makes the ciphertext too long for unsealing.\<close>

theorem seal_unseal_roundtrip:
  assumes "lawful_aead x" "length nonce = 24" "seal_payload x plaintext key_id secret nonce = Inr s"
  shows "unseal_payload x s secret =
    (if length plaintext \<le> MAX_PAYLOAD_BYTES - 16 then Inr plaintext else Inl (EvRejected ''payload exceeds size limit''))"
  using assms by (rule seal_unseal)

theorem seal_unseal_roundtrip_witness:
  "\<exists>s. seal_payload evidence_toy (replicate 524280 0) ''r'' [] (replicate 24 0) = Inr s \<and>
     unseal_payload evidence_toy s [] = Inl (EvRejected ''payload exceeds size limit'')"
proof -
  have ne: "replicate 524280 (0 :: byte) \<noteq> []" by (simp only: replicate_empty)
  have len: "length (replicate n (0 :: byte)) = n" for n by (rule length_replicate)
  have "\<exists>s. seal_payload evidence_toy (replicate 524280 0) ''r'' [] (replicate 24 0) = Inr s"
    unfolding seal_payload_def len using ne by (simp add: bounded_text_literal evidence_toy_fields MAX_PAYLOAD_BYTES_def del: replicate.simps)
  then obtain s where s: "seal_payload evidence_toy (replicate 524280 0) ''r'' [] (replicate 24 0) = Inr s" by blast
  from seal_unseal_roundtrip [OF evidence_toy_lawful(3) _ s] s show ?thesis by (auto simp: MAX_PAYLOAD_BYTES_def simp del: replicate.simps)
qed

text \<open>Admission never reports a size, label or redaction reason: an envelope whose labels exceed the policy is
  refused for its payload, and no payload has the forbidden class.\<close>

theorem admission_reasons:
  assumes "ev_admit x e tenant keys w time = (Reject r, w')"
  shows "r \<noteq> ReasonSizeLimit \<and> r \<noteq> ReasonLabels \<and> r \<noteq> ReasonRedaction"
  using assms by (rule admit_reasons)

theorem admission_reasons_witness:
  "fst (ev_admit evidence_toy (toy_evidence\<lparr>ee_labels := replicate 33 ([], [])\<rparr>) (Uuid 9) [] (replay_new 1) ''t'') \<noteq> Reject ReasonLabels"
  using admission_reasons [of evidence_toy "toy_evidence\<lparr>ee_labels := replicate 33 ([], [])\<rparr>" "Uuid 9" "[]" "replay_new 1" "''t''" ReasonLabels]
  by (metis prod.collapse)

end
