(* ===== verification/Events.thy ===== *)
theory Events
  imports Evidence Hash_Chain
begin

text \<open>
  The crate \<open>anasemble-events\<close>: signed reconstruction events and the log that appends them in sequence, each
  naming the digest of its predecessor. The serializer of the unsigned event is written out from the
  attributes of its type, as for evidence envelopes.
\<close>

section \<open>Events\<close>

datatype EventError = EvtCore CoreError | EvtId IdError | EvtEvidence EvidenceError | EvtGap string | EvtCrypto string

datatype ReconstructionEventKind =
    ReconstructionStarted | EvidenceAccepted | EvidenceRejected | Canonicalised | CandidateProduced
  | VerificationClaimEvaluated | EventCertified | EventRefused | StateRestorePlanned | StateRestoreApplied
  | StateRestoreRolledBack | ActivationStaged | ActivationCommitted | ActivationRolledBack | RunCompleted

record UnsignedEvent =
  re_schema_version :: u16
  re_run_id :: Uuid
  re_sequence :: u64
  re_predecessor :: "Digest option"
  re_timestamp :: string
  re_actor :: BoundedText
  re_kind :: ReconstructionEventKind
  re_payload_digest :: Digest

record ReconstructionEventV1 = UnsignedEvent +
  re_signature :: SignatureBlock

definition event_kind_name :: "ReconstructionEventKind \<Rightarrow> string" where
  "event_kind_name k =
     (case k of
        ReconstructionStarted \<Rightarrow> ''reconstruction_started'' | EvidenceAccepted \<Rightarrow> ''evidence_accepted''
      | EvidenceRejected \<Rightarrow> ''evidence_rejected'' | Canonicalised \<Rightarrow> ''canonicalised''
      | CandidateProduced \<Rightarrow> ''candidate_produced'' | VerificationClaimEvaluated \<Rightarrow> ''verification_claim_evaluated''
      | EventCertified \<Rightarrow> ''certified'' | EventRefused \<Rightarrow> ''refused'' | StateRestorePlanned \<Rightarrow> ''state_restore_planned''
      | StateRestoreApplied \<Rightarrow> ''state_restore_applied'' | StateRestoreRolledBack \<Rightarrow> ''state_restore_rolled_back''
      | ActivationStaged \<Rightarrow> ''activation_staged'' | ActivationCommitted \<Rightarrow> ''activation_committed''
      | ActivationRolledBack \<Rightarrow> ''activation_rolled_back'' | RunCompleted \<Rightarrow> ''run_completed'')"

definition event_fields :: "'x evidence_ext_scheme \<Rightarrow> UnsignedEvent \<Rightarrow> (string \<times> json) list" where
  "event_fields x e =
     [(''schema_version'', JNumber (PosInt (ucast (re_schema_version e)))),
      (''run_id'', JString (x_uuid_string x (re_run_id e))),
      (''sequence'', JNumber (PosInt (re_sequence e)))] @
     optional_field ''predecessor'' digest_value (re_predecessor e) @
     [(''timestamp'', JString (re_timestamp e)),
      (''actor'', text_value (re_actor e)),
      (''kind'', JString (event_kind_name (re_kind e))),
      (''payload_digest'', digest_value (re_payload_digest e))]"

definition unsigned_event_value :: "'x evidence_ext_scheme \<Rightarrow> UnsignedEvent serialize" where
  "unsigned_event_value x e = Inr (object_of (event_fields x e))"

definition event_unsigned :: "ReconstructionEventV1 \<Rightarrow> UnsignedEvent" where
  "event_unsigned e = UnsignedEvent.truncate e"

definition event_cbor :: "'x evidence_ext_scheme \<Rightarrow> ReconstructionEventV1 \<Rightarrow> (EventError, bytes) result" where
  "event_cbor x e = map_err EvtCore (encode_canonical_cbor (unsigned_event_value x) (event_unsigned e))"

definition event_digest :: "'x evidence_ext_scheme \<Rightarrow> ReconstructionEventV1 \<Rightarrow> (EventError, Digest) result" where
  "event_digest x e = rbind (event_cbor x e) (\<lambda>bs. Inr (digest_sha256 (x_sha256 x) bs))"

definition event_sign :: "'x evidence_ext_scheme \<Rightarrow> ReconstructionEventV1 \<Rightarrow> SigningKey \<Rightarrow> (EventError, ReconstructionEventV1) result" where
  "event_sign x e signing =
     rbind (map_err EvtId (bounded_text ''ed25519'')) (\<lambda>algorithm.
     rbind (map_err EvtId (bounded_text (sg_key_id signing))) (\<lambda>key_id.
       let e = e\<lparr>re_signature := \<lparr>sb_algorithm = algorithm, sb_key_id = key_id, sb_value = []\<rparr>\<rparr> in
     rbind (event_cbor x e) (\<lambda>preimage.
       Inr (e\<lparr>re_signature := (re_signature e)\<lparr>sb_value := x_hex_encode x (x_sign x (sg_secret signing) preimage)\<rparr>\<rparr>))))"

definition event_verify :: "'x evidence_ext_scheme \<Rightarrow> ReconstructionEventV1 \<Rightarrow> bytes \<Rightarrow> (EventError, unit) result" where
  "event_verify x e public = check_signature x EvtCrypto (re_signature e) public (event_cbor x e)"

section \<open>The log\<close>

record EventLog =
  el_events :: "ReconstructionEventV1 list"

definition event_log_new :: EventLog where
  "event_log_new = \<lparr>el_events = []\<rparr>"

definition expected_predecessor :: "'x evidence_ext_scheme \<Rightarrow> EventLog \<Rightarrow> (EventError, Digest option) result" where
  "expected_predecessor x log =
     (if el_events log = [] then Inr None
      else rbind (event_digest x (last (el_events log))) (\<lambda>d. Inr (Some d)))"

definition event_append :: "'x evidence_ext_scheme \<Rightarrow> EventLog \<Rightarrow> ReconstructionEventV1 \<Rightarrow> SigningKey \<Rightarrow> bytes \<Rightarrow>
    (EventError, ReconstructionEventV1) result \<times> EventLog" where
  "event_append x log event signing public =
     (let checked =
        (if re_schema_version event \<noteq> SCHEMA_VERSION then Inl (EvtGap ''unsupported event schema'')
         else if re_sequence event \<noteq> of_nat (length (el_events log)) + 1 then Inl (EvtGap ''event sequence gap'')
         else
        rbind (expected_predecessor x log) (\<lambda>expected.
          if re_predecessor event \<noteq> expected then Inl (EvtGap ''event predecessor mismatch'')
          else
        rbind (event_sign x event signing) (\<lambda>event.
        rbind (event_verify x event public) (\<lambda>_. Inr event))))
      in case checked of
           Inl error \<Rightarrow> (Inl error, log)
         | Inr event \<Rightarrow> (Inr event, log\<lparr>el_events := el_events log @ [event]\<rparr>))"

definition event_head :: "EventLog \<Rightarrow> (Uuid \<times> u64) option" where
  "event_head log = (if el_events log = [] then None
     else let event = last (el_events log) in Some (re_run_id event, re_sequence event))"

section \<open>The preimage determines the event\<close>

lemma event_kind_name_inject [simp]: "event_kind_name a = event_kind_name b \<longleftrightarrow> a = b"
  by (cases a; cases b) (simp_all add: event_kind_name_def)

lemma distinct_event_fields: "distinct (map fst (event_fields x e))"
proof -
  have names: "distinct ([''schema_version'', ''run_id'', ''sequence''] @ ''predecessor'' # [''timestamp'', ''actor'', ''kind''] @
      ''payload_digest'' # [])" by code_simp
  show ?thesis
    using distinct_optional [OF names, of digest_value "re_predecessor e" id "Some JNull"]
    unfolding event_fields_def by (simp add: optional_field_def)
qed

lemma event_fields_inject:
  assumes "object_of (event_fields x e) = object_of (event_fields x f)" "lawful_uuid x"
  shows "e = f"
proof (rule UnsignedEvent.equality)
  note get = object_of_get [OF assms(1) distinct_event_fields distinct_event_fields]
  have uuid: "x_uuid_string x a = x_uuid_string x b \<Longrightarrow> a = b" for a b
    using assms(2) by (simp add: lawful_uuid_def inj_eq)
  show "re_schema_version e = re_schema_version f" using get [of "''schema_version''"] by (simp add: event_fields_def ucast_u16_inject)
  show "re_run_id e = re_run_id f" using get [of "''run_id''"] by (simp add: event_fields_def uuid)
  show "re_sequence e = re_sequence f" using get [of "''sequence''"] by (simp add: event_fields_def)
  show "re_predecessor e = re_predecessor f"
    using get [of "''predecessor''"] by (cases "re_predecessor e"; cases "re_predecessor f") (simp_all add: event_fields_def)
  show "re_timestamp e = re_timestamp f" using get [of "''timestamp''"] by (simp add: event_fields_def)
  show "re_actor e = re_actor f" using get [of "''actor''"] by (simp add: event_fields_def)
  show "re_kind e = re_kind f" using get [of "''kind''"] by (simp add: event_fields_def)
  show "re_payload_digest e = re_payload_digest f" using get [of "''payload_digest''"] by (simp add: event_fields_def)
qed simp

definition event_ok :: "ReconstructionEventV1 \<Rightarrow> bool" where
  "event_ok e \<longleftrightarrow> pred_option digest_wf (re_predecessor e) \<and> text_ok (re_timestamp e) \<and> bounded_ok (re_actor e) \<and>
     digest_wf (re_payload_digest e)"

lemma canonical_event:
  assumes "event_ok e" "lawful_uuid x"
  shows "canonical (object_of (event_fields x (event_unsigned e)))"
proof (rule canonical_object)
  have "text_ok (event_kind_name k)" for k by (cases k) (simp_all add: event_kind_name_def field_texts)
  then show "\<forall>(k, v) \<in> set (event_fields x (event_unsigned e)). text_ok k \<and> canonical v"
    using assms by (cases "re_predecessor e")
      (simp_all add: event_fields_def event_ok_def event_unsigned_def UnsignedEvent.truncate_def lawful_uuid_def optional_field_def field_texts)
qed (cases "re_predecessor e"; simp add: event_fields_def optional_field_def event_unsigned_def UnsignedEvent.truncate_def)

lemma event_cbor_inject:
  assumes "event_cbor x e = Inr bs" "event_cbor x f = Inr bs" "event_ok e" "event_ok f" "lawful_uuid x"
  shows "event_unsigned e = event_unsigned f"
proof (rule event_fields_inject)
  show "object_of (event_fields x (event_unsigned e)) = object_of (event_fields x (event_unsigned f))"
    using assms canonical_event [OF assms(3,5)] canonical_event [OF assms(4,5)]
    by (intro canonical_encode_inject [of "unsigned_event_value x" "event_unsigned e" _ "event_unsigned f" _ bs])
      (simp_all add: event_cbor_def unsigned_event_value_def map_err_Inr_iff)
qed (rule assms(5))

section \<open>Appending\<close>

lemma event_unsigned_signature: "event_unsigned (e\<lparr>re_signature := s\<rparr>) = event_unsigned e"
  by (simp add: event_unsigned_def UnsignedEvent.truncate_def)

lemma event_cbor_signature [simp]: "event_cbor x (e\<lparr>re_signature := s\<rparr>) = event_cbor x e"
  by (simp add: event_cbor_def event_unsigned_signature)

lemma event_sign_iff:
  "event_sign x e signing = Inr e' \<longleftrightarrow> bounded_text_wf (BoundedText (sg_key_id signing)) \<and>
     (\<exists>bs. event_cbor x e = Inr bs \<and>
        e' = e\<lparr>re_signature := \<lparr>sb_algorithm = BoundedText ''ed25519'', sb_key_id = BoundedText (sg_key_id signing),
          sb_value = x_hex_encode x (x_sign x (sg_secret signing) bs)\<rparr>\<rparr>)"
proof -
  have alg: "bounded_text ''ed25519'' = Inr (BoundedText ''ed25519'')" by (rule bounded_text_literal) simp_all
  show ?thesis by (auto simp: event_sign_def Let_def alg result_simps bounded_text_iff)
qed

definition digest_option :: "'x evidence_ext_scheme \<Rightarrow> ReconstructionEventV1 \<Rightarrow> Digest option" where
  "digest_option x e = (case event_digest x e of Inl _ \<Rightarrow> None | Inr d \<Rightarrow> Some d)"

lemma digest_option_iff: "digest_option x e = Some d \<longleftrightarrow> (\<exists>bs. event_cbor x e = Inr bs \<and> d = Digest (x_sha256 x bs))"
  by (cases "event_cbor x e") (auto simp: digest_option_def event_digest_def digest_sha256_def)

lemma expected_predecessor_iff:
  "expected_predecessor x log = Inr p \<longleftrightarrow> p = chain_head (digest_option x) (el_events log) \<and> (el_events log \<noteq> [] \<longrightarrow> p \<noteq> None)"
  by (cases "event_digest x (last (el_events log))") (auto simp: expected_predecessor_def chain_head_def digest_option_def)

text \<open>The state of a log: the events are numbered from one, linked by their digests, of the supported schema and
  each verifies under one of the public keys used.\<close>

definition log_ok :: "'x evidence_ext_scheme \<Rightarrow> bytes set \<Rightarrow> EventLog \<Rightarrow> bool" where
  "log_ok x publics log \<longleftrightarrow>
     linked re_predecessor (digest_option x) None (el_events log) \<and>
     map re_sequence (el_events log) = map (\<lambda>i. of_nat (Suc i)) [0..<length (el_events log)] \<and>
     (\<forall>e \<in> set (el_events log). re_schema_version e = 1 \<and> (\<exists>public \<in> publics. event_verify x e public = Inr ()))"

lemma event_append_iff:
  assumes "log_ok x publics log"
  shows "event_append x log event signing public = (Inr e, log') \<longleftrightarrow>
    re_schema_version event = 1 \<and> re_sequence event = of_nat (length (el_events log)) + 1 \<and>
    re_predecessor event = chain_head (digest_option x) (el_events log) \<and>
    event_sign x event signing = Inr e \<and> event_verify x e public = Inr () \<and>
    log' = log\<lparr>el_events := el_events log @ [e]\<rparr>"
proof -
  have "linked re_predecessor (digest_option x) None (el_events log)" using assms by (simp add: log_ok_def)
  from linked_head [OF this] have "expected_predecessor x log = Inr (chain_head (digest_option x) (el_events log))"
    by (simp add: expected_predecessor_iff)
  then show ?thesis
    by (cases "event_sign x event signing"; cases "event_verify x (projr (event_sign x event signing)) public")
      (auto simp: event_append_def SCHEMA_VERSION_def)
qed

lemma event_append_error: "event_append x log event signing public = (Inl er, log') \<Longrightarrow> log' = log"
  by (auto simp: event_append_def Let_def split: sum.splits)

lemma event_append_keeps:
  assumes "log_ok x publics log" "event_append x log event signing public = (Inr e, log')"
  shows "log_ok x (insert public publics) log'"
proof -
  note a = assms(2) [unfolded event_append_iff [OF assms(1)]]
  obtain bs where bs: "event_cbor x event = Inr bs" "e = event\<lparr>re_signature := \<lparr>sb_algorithm = BoundedText ''ed25519'',
      sb_key_id = BoundedText (sg_key_id signing), sb_value = x_hex_encode x (x_sign x (sg_secret signing) bs)\<rparr>\<rparr>"
    using a by (auto simp: event_sign_iff)
  have "digest_option x e = Some (Digest (x_sha256 x bs))" using bs by (simp add: digest_option_iff)
  then have "linked re_predecessor (digest_option x) None (el_events log @ [e])"
    using assms(1) a bs(2) by (simp add: log_ok_def linked_snoc)
  then show ?thesis using assms(1) a bs(2) by (auto simp: log_ok_def)
qed

type_synonym append_call = "ReconstructionEventV1 \<times> SigningKey \<times> bytes"

primrec append_all :: "'x evidence_ext_scheme \<Rightarrow> append_call list \<Rightarrow> EventLog \<Rightarrow> EventLog" where
  "append_all x [] log = log"
| "append_all x (c # cs) log = (case c of (event, signing, public) \<Rightarrow> append_all x cs (snd (event_append x log event signing public)))"

lemma log_ok_mono: "log_ok x ps log \<Longrightarrow> ps \<subseteq> qs \<Longrightarrow> log_ok x qs log"
  unfolding log_ok_def by (meson subsetD)

lemma append_all_ok:
  "log_ok x ps log \<Longrightarrow> log_ok x (ps \<union> (\<lambda>(e, s, p). p) ` set cs) (append_all x cs log) \<and>
     (\<exists>es. el_events (append_all x cs log) = el_events log @ es)"
proof (induction cs arbitrary: log ps)
  case (Cons c cs)
  obtain event signing public where c: "c = (event, signing, public)" by (cases c)
  obtain r log' where r: "event_append x log event signing public = (r, log')" by fastforce
  have "log_ok x (insert public ps) log' \<and> (\<exists>es. el_events log' = el_events log @ es)"
  proof (cases r)
    case (Inl er)
    with r event_append_error [of x log event signing public er log'] Cons.prems show ?thesis
      by (auto intro: log_ok_mono)
  next
    case (Inr e)
    with r event_append_keeps [OF Cons.prems, of event signing public e log'] event_append_iff [OF Cons.prems, of event signing public e log']
    show ?thesis by auto
  qed
  with Cons.IH [of "insert public ps" log'] show ?case by (auto simp: c r)
qed simp

lemma log_ok_new [simp]: "log_ok x {} event_log_new"
  by (simp add: log_ok_def event_log_new_def)

interpretation event_chain: hash_chain event_unsigned re_predecessor "digest_option x" for x
  by unfold_locales (auto simp: event_unsigned_def UnsignedEvent.truncate_def)

lemma collision_of_events:
  assumes "collides event_unsigned (digest_option x) es fs" "linked re_predecessor (digest_option x) None es"
    and "lawful_uuid x" "\<forall>e \<in> set es \<union> set fs. event_ok e"
  shows "\<exists>a b. a \<noteq> b \<and> x_sha256 x a = x_sha256 x b"
proof -
  obtain e f where ef: "e \<in> set es" "f \<in> set fs" "event_unsigned e \<noteq> event_unsigned f" "digest_option x e = digest_option x f"
    using assms(1) by (auto simp: collides_def)
  obtain as bs where "es = as @ e # bs" using split_list [OF ef(1)] by blast
  with assms(2) obtain d where d: "digest_option x e = Some d" by (auto simp: linked_append)
  then have "digest_option x f = Some d" using ef(4) by simp
  with d obtain a b where ab: "event_cbor x e = Inr a" "event_cbor x f = Inr b" "x_sha256 x a = x_sha256 x b"
    by (auto simp: digest_option_iff)
  have "a \<noteq> b" using event_cbor_inject [of x e a f] ab assms(3,4) ef(1,2,3) by auto
  with ab show ?thesis by blast
qed

section \<open>A concrete log\<close>

definition toy_key_pair :: SigningKey where
  "toy_key_pair = \<lparr>sg_key_id = ''k1'', sg_secret = toy_secret\<rparr>"

definition toy_event :: "u64 \<Rightarrow> Digest option \<Rightarrow> ReconstructionEventKind \<Rightarrow> ReconstructionEventV1" where
  "toy_event n p k = \<lparr>re_schema_version = 1, re_run_id = Uuid 5, re_sequence = n, re_predecessor = p, re_timestamp = ''t'',
     re_actor = BoundedText ''o'', re_kind = k, re_payload_digest = Digest (replicate 32 0),
     re_signature = \<lparr>sb_algorithm = BoundedText ''none'', sb_key_id = BoundedText ''k'', sb_value = []\<rparr>\<rparr>"

lemma toy_event_encodes: "\<exists>bs. event_cbor evidence_toy (toy_event n None k) = Inr bs"
proof -
  let ?e = "event_unsigned (toy_event n None k)"
  have sh: "shallow 16 (object_of (event_fields evidence_toy ?e))"
    using shallow_mono [OF shallow_object [of "event_fields evidence_toy ?e" 1], of 16]
    by (simp add: event_fields_def event_unsigned_def UnsignedEvent.truncate_def toy_event_def optional_field_def)
  have u: "length (toy_uuid u) = 128" for u by (simp add: toy_uuid_def)
  have d: "size_bound (digest_value (Digest (replicate 32 0))) = 297" by (simp add: digest_value_def map_replicate sum_list_replicate del: replicate.simps)
  have "length (event_kind_name k) \<le> 40" by (cases k) (simp_all add: event_kind_name_def)
  then have "size_bound (object_of (event_fields evidence_toy ?e)) \<le> 2000"
    using size_bound_object [of "event_fields evidence_toy ?e"]
    by (simp add: event_fields_def event_unsigned_def UnsignedEvent.truncate_def toy_event_def optional_field_def u d evidence_toy_fields text_value_def)
  with encode_shallow [OF sh, of "unsigned_event_value evidence_toy" ?e] show ?thesis
    by (auto simp: event_cbor_def unsigned_event_value_def MAX_FRAME_BYTES_def)
qed

lemma toy_append:
  "\<exists>e. event_append evidence_toy event_log_new (toy_event 1 None k) toy_key_pair toy_secret = (Inr e, \<lparr>el_events = [e]\<rparr>) \<and>
     event_ok e \<and> re_kind e = k"
proof -
  obtain bs where bs: "event_cbor evidence_toy (toy_event 1 None k) = Inr bs" using toy_event_encodes by blast
  let ?e = "(toy_event 1 None k)\<lparr>re_signature := \<lparr>sb_algorithm = BoundedText ''ed25519'', sb_key_id = BoundedText ''k1'',
    sb_value = toy_hex (toy_secret @ toy_secret)\<rparr>\<rparr>"
  have "event_sign evidence_toy (toy_event 1 None k) toy_key_pair = Inr ?e"
    using bs by (simp add: event_sign_iff toy_key_pair_def evidence_toy_fields bounded_text_wf_def MAX_BOUNDED_TEXT_BYTES_def)
  moreover have "event_verify evidence_toy ?e toy_secret = Inr ()"
    using bs toy_hex_roundtrip by (simp add: event_verify_def check_signature_iff evidence_toy_fields toy_secret_def)
  moreover have "event_ok ?e" by (simp add: event_ok_def toy_event_def digest_wf_def toy_texts)
  ultimately show ?thesis
    using event_append_iff [OF log_ok_new, of evidence_toy "toy_event 1 None k" toy_key_pair toy_secret ?e "\<lparr>el_events = [?e]\<rparr>"]
    by (intro exI [of _ ?e]) (simp add: toy_event_def event_log_new_def chain_head_def)
qed

section \<open>Properties\<close>

text \<open>(C17) In every log built by appends, with any events and keys, the events are numbered from one without gaps,
  each names the digest of its predecessor, is of the supported schema and verifies under one of the public
  keys that were used; an append only adds at the end or leaves the log unchanged.\<close>

theorem event_log_invariant:
  "log_ok x ((\<lambda>(e, s, p). p) ` set cs) (append_all x cs event_log_new) \<and>
   (\<exists>es. el_events (append_all x (cs @ ds) event_log_new) = el_events (append_all x cs event_log_new) @ es)"
proof -
  have "append_all x (cs @ ds) log = append_all x ds (append_all x cs log)" for log
    by (induction cs arbitrary: log) auto
  with append_all_ok [OF log_ok_new, of x cs] show ?thesis
    using append_all_ok [of x "(\<lambda>(e, s, p). p) ` set cs" "append_all x cs event_log_new" ds] by simp
qed



text \<open>With the public key of the signing key, an append succeeds exactly when the event has the supported
  schema, the next sequence number and the digest of the last event, the key identifier is within its bound
  and the event is encodable; the log then grows by the signed event, whose other fields are the given ones.\<close>

theorem event_append_exact:
  assumes "lawful_crypto x" "length (sg_secret signing) = 32" "log_ok x publics log"
  shows "(\<exists>e log'. event_append x log event signing (signing_public_bytes x signing) = (Inr e, log') \<and>
      log' = log\<lparr>el_events := el_events log @ [e]\<rparr> \<and> event_unsigned e = event_unsigned event) \<longleftrightarrow>
    re_schema_version event = 1 \<and> re_sequence event = of_nat (length (el_events log)) + 1 \<and>
    re_predecessor event = chain_head (digest_option x) (el_events log) \<and>
    bounded_text_wf (BoundedText (sg_key_id signing)) \<and> is_ok (event_cbor x event)"
proof -
  have v: "event_sign x event signing = Inr e \<Longrightarrow> event_verify x e (signing_public_bytes x signing) = Inr () \<and> event_unsigned e = event_unsigned event" for e
    using assms(1,2) by (auto simp: event_sign_iff event_verify_def check_signature_iff lawful_crypto_def signing_public_bytes_def event_unsigned_signature)
  have "(\<exists>e. event_sign x event signing = Inr e) \<longleftrightarrow> bounded_text_wf (BoundedText (sg_key_id signing)) \<and> is_ok (event_cbor x event)"
    by (auto simp: event_sign_iff is_ok_iff)
  with v show ?thesis unfolding event_append_iff [OF assms(3)] by blast
qed

theorem event_append_exact_witness:
  "\<not> (\<exists>e log'. event_append evidence_toy event_log_new (toy_event 3 None RunCompleted) toy_key_pair
       (signing_public_bytes evidence_toy toy_key_pair) = (Inr e, log') \<and>
     log' = event_log_new\<lparr>el_events := el_events event_log_new @ [e]\<rparr> \<and> event_unsigned e = event_unsigned (toy_event 3 None RunCompleted))"
  using event_append_exact [OF evidence_toy_lawful(1) _ log_ok_new, of toy_key_pair "toy_event 3 None RunCompleted"]
  by (simp add: toy_key_pair_def toy_secret_def toy_event_def event_log_new_def)

end
