(* ===== verification/Traces.thy ===== *)
theory Traces
  imports Evidence
begin

text \<open>
  The crate \<open>anasemble-trace\<close>: the recorder of behavioural traces, redaction, the held-out partition, the
  replayer, and trace signatures. Identifiers are generated from the clock and are arguments here. The
  serializers are written out from the attributes of the types. A failing \<open>expect\<close> is the value \<open>None\<close>; the
  conversion of a length to 64 bits cannot fail.
\<close>

section \<open>Data\<close>

datatype TraceError =
    TraceCore CoreError
  | TraceId IdError
  | TraceProtocol string
  | TraceCrypto string
  | TraceBudget
  | SideEffectDenied string

definition PURE_CAPABILITY :: string where "PURE_CAPABILITY = ''pure''"

record TraceStep =
  ts_index :: u64
  ts_input_digest :: Digest
  ts_output_digest :: Digest
  ts_before_state :: Digest
  ts_after_state :: Digest
  ts_logical_clock :: u64
  ts_causal_parents :: "u64 list"
  ts_capability :: BoundedText

record SideEffectClaim =
  se_capability :: BoundedText
  se_payload_digest :: Digest

record CoverageClaim =
  cv_trained_steps :: u32
  cv_held_out_steps :: u32

record UnsignedTrace =
  tr_schema_version :: u16
  tr_trace_id :: Uuid
  tr_contract_ref :: BoundedText
  tr_initial_state :: Digest
  tr_steps :: "TraceStep list"
  tr_side_effect_claims :: "SideEffectClaim list"
  tr_terminal_state :: Digest
  tr_coverage :: CoverageClaim

record TraceV1 = UnsignedTrace +
  tr_digest :: Digest

subsection \<open>Serialization\<close>

definition step_fields :: "TraceStep \<Rightarrow> (string \<times> json) list" where
  "step_fields s =
     [(''index'', JNumber (PosInt (ts_index s))), (''input_digest'', digest_value (ts_input_digest s)),
      (''output_digest'', digest_value (ts_output_digest s)), (''before_state'', digest_value (ts_before_state s)),
      (''after_state'', digest_value (ts_after_state s)), (''logical_clock'', JNumber (PosInt (ts_logical_clock s))),
      (''causal_parents'', JArray (map (\<lambda>p. JNumber (PosInt p)) (ts_causal_parents s))),
      (''capability'', text_value (ts_capability s))]"

definition effect_fields :: "SideEffectClaim \<Rightarrow> (string \<times> json) list" where
  "effect_fields c = [(''capability'', text_value (se_capability c)), (''payload_digest'', digest_value (se_payload_digest c))]"

definition coverage_fields :: "CoverageClaim \<Rightarrow> (string \<times> json) list" where
  "coverage_fields c =
     [(''trained_steps'', JNumber (PosInt (ucast (cv_trained_steps c)))), (''held_out_steps'', JNumber (PosInt (ucast (cv_held_out_steps c))))]"

definition trace_fields :: "'x evidence_ext_scheme \<Rightarrow> UnsignedTrace \<Rightarrow> (string \<times> json) list" where
  "trace_fields x t =
     [(''schema_version'', JNumber (PosInt (ucast (tr_schema_version t)))),
      (''trace_id'', JString (x_uuid_string x (tr_trace_id t))),
      (''contract_ref'', text_value (tr_contract_ref t)),
      (''initial_state'', digest_value (tr_initial_state t)),
      (''steps'', JArray (map (\<lambda>s. object_of (step_fields s)) (tr_steps t))),
      (''side_effect_claims'', JArray (map (\<lambda>c. object_of (effect_fields c)) (tr_side_effect_claims t))),
      (''terminal_state'', digest_value (tr_terminal_state t)),
      (''coverage'', object_of (coverage_fields (tr_coverage t)))]"

definition unsigned_trace_value :: "'x evidence_ext_scheme \<Rightarrow> UnsignedTrace serialize" where
  "unsigned_trace_value x t = Inr (object_of (trace_fields x t))"

definition trace_unsigned :: "TraceV1 \<Rightarrow> UnsignedTrace" where
  "trace_unsigned t = UnsignedTrace.truncate t"

definition unsigned_trace_digest :: "'x evidence_ext_scheme \<Rightarrow> UnsignedTrace \<Rightarrow> (TraceError, Digest) result" where
  "unsigned_trace_digest x u = map_err TraceCore (of_canonical_cbor (x_sha256 x) (unsigned_trace_value x) u)"

definition trace_compute_digest :: "'x evidence_ext_scheme \<Rightarrow> TraceV1 \<Rightarrow> (TraceError, Digest) result" where
  "trace_compute_digest x t = unsigned_trace_digest x (trace_unsigned t)"

definition bind_digest :: "'x evidence_ext_scheme \<Rightarrow> TraceV1 \<Rightarrow> (TraceError, TraceV1) result" where
  "bind_digest x t = rbind (trace_compute_digest x t) (\<lambda>d. Inr (t\<lparr>tr_digest := d\<rparr>))"

section \<open>Recording\<close>

record Recorder =
  rc_trace_id :: Uuid
  rc_contract_ref :: BoundedText
  rc_initial_state :: Digest
  rc_steps :: "TraceStep list"
  rc_side_effects :: "SideEffectClaim list"
  rc_last_clock :: "u64 option"
  rc_last_state :: Digest

definition recorder_new :: "Uuid \<Rightarrow> string \<Rightarrow> Digest \<Rightarrow> (TraceError, Recorder) result" where
  "recorder_new trace_id contract_ref initial_state =
     rbind (map_err TraceId (bounded_text contract_ref)) (\<lambda>contract_ref.
       Inr \<lparr>rc_trace_id = trace_id, rc_contract_ref = contract_ref, rc_initial_state = initial_state, rc_steps = [],
         rc_side_effects = [], rc_last_clock = None, rc_last_state = initial_state\<rparr>)"

definition record_step :: "Recorder \<Rightarrow> Digest \<Rightarrow> Digest \<Rightarrow> Digest \<Rightarrow> u64 \<Rightarrow> u64 list \<Rightarrow> string \<Rightarrow> Budget \<Rightarrow>
    (TraceError, Recorder) result" where
  "record_step r input_digest output_digest after_state logical_clock causal_parents capability budget =
     (if (of_nat (length (rc_steps r)) :: u32) \<ge> bg_max_nodes budget then Inl TraceBudget
      else if (case rc_last_clock r of None \<Rightarrow> False | Some clock \<Rightarrow> logical_clock \<le> clock)
      then Inl (TraceProtocol ''logical clock must increase'')
      else let index = of_nat (length (rc_steps r)) in
      if list_ex (\<lambda>parent. parent \<ge> index) causal_parents then Inl (TraceProtocol ''causal parent is not prior'')
      else
     rbind (map_err TraceId (bounded_text capability)) (\<lambda>capability.
       Inr (r\<lparr>rc_side_effects := rc_side_effects r @
           (if as_str capability \<noteq> PURE_CAPABILITY
            then [\<lparr>se_capability = capability, se_payload_digest = output_digest\<rparr>] else []),
         rc_steps := rc_steps r @ [\<lparr>ts_index = index, ts_input_digest = input_digest, ts_output_digest = output_digest,
           ts_before_state = rc_last_state r, ts_after_state = after_state, ts_logical_clock = logical_clock,
           ts_causal_parents = causal_parents, ts_capability = capability\<rparr>],
         rc_last_clock := Some logical_clock,
         rc_last_state := after_state\<rparr>)))"

definition recorder_finish :: "'x evidence_ext_scheme \<Rightarrow> Recorder \<Rightarrow> (TraceError, TraceV1) result option" where
  "recorder_finish x r =
     (if rc_steps r = [] then Some (Inl (TraceProtocol ''trace has no steps''))
      else if length (rc_steps r) \<ge> 2 ^ 32 then None
      else Some (bind_digest x \<lparr>tr_schema_version = SCHEMA_VERSION, tr_trace_id = rc_trace_id r,
        tr_contract_ref = rc_contract_ref r, tr_initial_state = rc_initial_state r, tr_steps = rc_steps r,
        tr_side_effect_claims = rc_side_effects r, tr_terminal_state = rc_last_state r,
        tr_coverage = \<lparr>cv_trained_steps = of_nat (length (rc_steps r)), cv_held_out_steps = 0\<rparr>,
        tr_digest = digest_sha256 (x_sha256 x) []\<rparr>))"

section \<open>Redaction and partition\<close>

definition redact_step :: "TraceStep \<Rightarrow> TraceStep" where
  "redact_step s = (if as_str (ts_capability s) \<noteq> PURE_CAPABILITY then s\<lparr>ts_capability := BoundedText ''redacted''\<rparr> else s)"

definition redact :: "'x evidence_ext_scheme \<Rightarrow> TraceV1 \<Rightarrow> TraceV1 option" where
  "redact x t =
     (case bind_digest x (t\<lparr>tr_steps := map redact_step (tr_steps t),
        tr_side_effect_claims := map (\<lambda>c. c\<lparr>se_capability := BoundedText ''redacted''\<rparr>) (tr_side_effect_claims t)\<rparr>) of
        Inl _ \<Rightarrow> None
      | Inr t \<Rightarrow> Some t)"

definition partition_held_out :: "'x evidence_ext_scheme \<Rightarrow> TraceV1 \<Rightarrow> (TraceError, TraceV1 \<times> TraceV1) result option" where
  "partition_held_out x t =
     (if length (tr_steps t) < 2 then Some (Inl (TraceProtocol ''held-out partition needs at least two steps''))
      else let split = length (tr_steps t) - 1 in
      if split \<ge> 2 ^ 32 then None
      else let
        steps = take split (tr_steps t);
        coverage = \<lparr>cv_trained_steps = of_nat split, cv_held_out_steps = 1\<rparr>;
        train = t\<lparr>tr_steps := steps,
          tr_terminal_state := (if steps = [] then tr_initial_state t else ts_after_state (last steps)),
          tr_coverage := coverage\<rparr>;
        held = t\<lparr>tr_steps := [tr_steps t ! split], tr_initial_state := ts_before_state (tr_steps t ! split),
          tr_coverage := coverage\<rparr>
      in Some (rbind (bind_digest x train) (\<lambda>train. rbind (bind_digest x held) (\<lambda>held. Inr (train, held)))))"

section \<open>Replay\<close>

record ReplayReport =
  rr_terminal_state :: Digest
  rr_trace_digest :: Digest

record Replayer =
  rp_mocks :: "(string, Digest) btree_map"

definition replayer_new :: Replayer where
  "replayer_new = \<lparr>rp_mocks = []\<rparr>"

definition replayer_mock :: "Replayer \<Rightarrow> string \<Rightarrow> Digest \<Rightarrow> (TraceError, Replayer) result" where
  "replayer_mock r capability output_digest =
     rbind (map_err TraceId (bounded_text capability)) (\<lambda>capability.
       Inr (r\<lparr>rp_mocks := bt_insert (as_str capability) output_digest (rp_mocks r)\<rparr>))"

definition check_capability :: "Replayer \<Rightarrow> TraceStep \<Rightarrow> (TraceError, unit) result" where
  "check_capability r step =
     (if as_str (ts_capability step) \<noteq> PURE_CAPABILITY then
        (case bt_get (rp_mocks r) (as_str (ts_capability step)) of
           Some expected \<Rightarrow>
             if expected = ts_output_digest step then Inr () else Inl (TraceProtocol ''mock output digest mismatch'')
         | None \<Rightarrow> Inl (SideEffectDenied (as_str (ts_capability step))))
      else Inr ())"

fun replay_steps :: "Replayer \<Rightarrow> TraceStep list \<Rightarrow> u64 set \<Rightarrow> Digest \<Rightarrow> (TraceError, Digest) result" where
  "replay_steps r [] seen state = Inr state"
| "replay_steps r (step # steps) seen state =
     (if ts_index step \<in> seen then Inl (TraceProtocol ''duplicate step index'')
      else if ts_before_state step \<noteq> state then Inl (TraceProtocol ''step state is not contiguous'')
      else rbind (check_capability r step) (\<lambda>_. replay_steps r steps (insert (ts_index step) seen) (ts_after_state step)))"

definition replay :: "'x evidence_ext_scheme \<Rightarrow> Replayer \<Rightarrow> TraceV1 \<Rightarrow> Budget \<Rightarrow> (TraceError, ReplayReport) result" where
  "replay x r t budget =
     (if tr_schema_version t \<noteq> SCHEMA_VERSION then Inl (TraceProtocol ''unsupported trace schema'')
      else if (of_nat (length (tr_steps t)) :: u32) > bg_max_nodes budget then Inl TraceBudget
      else
     rbind (trace_compute_digest x t) (\<lambda>d.
       if d \<noteq> tr_digest t then Inl (TraceProtocol ''trace digest mismatch'')
       else
     rbind (replay_steps r (tr_steps t) {} (tr_initial_state t)) (\<lambda>state.
       if state \<noteq> tr_terminal_state t then Inl (TraceProtocol ''terminal state mismatch'')
       else Inr \<lparr>rr_terminal_state = state, rr_trace_digest = tr_digest t\<rparr>)))"

section \<open>Signatures\<close>

definition sign_trace :: "'x evidence_ext_scheme \<Rightarrow> TraceV1 \<Rightarrow> SigningKey \<Rightarrow> (TraceError, SignatureBlock) result" where
  "sign_trace x t signing =
     (let signature = x_sign x (sg_secret signing) (as_digest_bytes (tr_digest t)) in
     rbind (map_err TraceId (bounded_text ''ed25519'')) (\<lambda>algorithm.
     rbind (map_err TraceId (bounded_text (sg_key_id signing))) (\<lambda>key_id.
       Inr \<lparr>sb_algorithm = algorithm, sb_key_id = key_id, sb_value = x_hex_encode x signature\<rparr>)))"

definition verify_trace :: "'x evidence_ext_scheme \<Rightarrow> TraceV1 \<Rightarrow> SignatureBlock \<Rightarrow> bytes \<Rightarrow> (TraceError, unit) result" where
  "verify_trace x t signature public =
     (if as_str (sb_algorithm signature) \<noteq> ''ed25519'' then Inl (TraceCrypto ''unsupported signature algorithm'')
      else
     rbind (trace_compute_digest x t) (\<lambda>d.
       if d \<noteq> tr_digest t then Inl (TraceProtocol ''trace digest mismatch'')
       else
     rbind (ok_or (TraceCrypto ''signature is not hex'') (x_hex_decode x (sb_value signature))) (\<lambda>bs.
     rbind (ensure (length bs = 64) (TraceCrypto ''signature is not 64 bytes'')) (\<lambda>_.
     rbind (ensure (x_valid_key x public) (TraceCrypto ''public key is invalid'')) (\<lambda>_.
     ensure (x_verify x public (as_digest_bytes (tr_digest t)) bs) (TraceCrypto ''signature verification failed''))))))"

definition independent_trace_digest :: "'x evidence_ext_scheme \<Rightarrow> TraceV1 \<Rightarrow> (TraceError, Digest) result" where
  "independent_trace_digest x t =
     unsigned_trace_digest x (trace_unsigned (t\<lparr>tr_steps := sort_key ts_index (tr_steps t)\<rparr>))"

section \<open>Well-formed recordings\<close>

fun contiguous :: "Digest \<Rightarrow> TraceStep list \<Rightarrow> Digest \<Rightarrow> bool" where
  "contiguous s [] e \<longleftrightarrow> s = e"
| "contiguous s (st # sts) e \<longleftrightarrow> ts_before_state st = s \<and> contiguous (ts_after_state st) sts e"

definition pure_step :: "TraceStep \<Rightarrow> bool" where
  "pure_step s \<longleftrightarrow> as_str (ts_capability s) = PURE_CAPABILITY"

definition effects_of :: "TraceStep list \<Rightarrow> SideEffectClaim list" where
  "effects_of steps = map (\<lambda>s. \<lparr>se_capability = ts_capability s, se_payload_digest = ts_output_digest s\<rparr>) (filter (\<lambda>s. \<not> pure_step s) steps)"

definition mocked :: "Replayer \<Rightarrow> TraceStep \<Rightarrow> bool" where
  "mocked r s \<longleftrightarrow> pure_step s \<or> bt_get (rp_mocks r) (as_str (ts_capability s)) = Some (ts_output_digest s)"

definition recorder_ok :: "Recorder \<Rightarrow> bool" where
  "recorder_ok r \<longleftrightarrow>
     length (rc_steps r) < 2 ^ 32 \<and>
     map ts_index (rc_steps r) = map of_nat [0..<length (rc_steps r)] \<and>
     contiguous (rc_initial_state r) (rc_steps r) (rc_last_state r) \<and>
     sorted_wrt (<) (map ts_logical_clock (rc_steps r)) \<and>
     rc_last_clock r = (if rc_steps r = [] then None else Some (ts_logical_clock (last (rc_steps r)))) \<and>
     (\<forall>i < length (rc_steps r). \<forall>p \<in> set (ts_causal_parents (rc_steps r ! i)). unat p < i) \<and>
     rc_side_effects r = effects_of (rc_steps r)"

inductive recorded :: "Recorder \<Rightarrow> bool" where
  rec_new: "recorder_new trace_id contract_ref initial_state = Inr r \<Longrightarrow> recorded r"
| rec_step: "recorded r \<Longrightarrow> record_step r i out after clock parents capability budget = Inr r' \<Longrightarrow> recorded r'"

lemma contiguous_append: "contiguous s (xs @ ys) e \<longleftrightarrow> (\<exists>m. contiguous s xs m \<and> contiguous m ys e)"
  by (induction xs arbitrary: s) auto

lemma record_step_iff:
  "record_step r i out after clock parents capability budget = Inr r' \<longleftrightarrow>
     (of_nat (length (rc_steps r)) :: u32) < bg_max_nodes budget \<and>
     (\<forall>c. rc_last_clock r = Some c \<longrightarrow> c < clock) \<and> (\<forall>p \<in> set parents. p < of_nat (length (rc_steps r))) \<and>
     bounded_text_wf (BoundedText capability) \<and>
     (let s = \<lparr>ts_index = of_nat (length (rc_steps r)), ts_input_digest = i, ts_output_digest = out, ts_before_state = rc_last_state r,
        ts_after_state = after, ts_logical_clock = clock, ts_causal_parents = parents, ts_capability = BoundedText capability\<rparr> in
      r' = r\<lparr>rc_side_effects := rc_side_effects r @ effects_of [s], rc_steps := rc_steps r @ [s],
        rc_last_clock := Some clock, rc_last_state := after\<rparr>)"
proof -
  have "list_ex (\<lambda>p. p \<ge> n) parents \<longleftrightarrow> \<not> (\<forall>p \<in> set parents. p < n)" for n by (simp add: list_ex_iff linorder_not_less)
  then show ?thesis
    by (cases "rc_last_clock r")
      (auto simp: record_step_def Let_def result_simps bounded_text_iff linorder_not_less effects_of_def pure_step_def)
qed

lemma word_length_less: "n < 2 ^ 32 \<Longrightarrow> (of_nat n :: u32) < m \<Longrightarrow> Suc n < 2 ^ 32"
proof -
  assume n: "n < 2 ^ 32" "(of_nat n :: u32) < m"
  have "unat (of_nat n :: u32) = n" using n(1) by (simp add: unat_of_nat take_bit_nat_eq_self)
  then have "n < unat m" using n(2) by (simp add: word_less_nat_alt)
  moreover have "unat m < 2 ^ 32" using unsigned_less [of m] by simp
  ultimately show ?thesis by simp
qed

lemma record_step_ok:
  assumes "recorder_ok r" "record_step r i out after clock parents capability budget = Inr r'"
  shows "recorder_ok r'"
proof -
  note step = assms(2) [unfolded record_step_iff Let_def]
  let ?n = "length (rc_steps r)"
  have len: "Suc ?n < 2 ^ 32" using assms(1) step word_length_less [of ?n "bg_max_nodes budget"] by (simp add: recorder_ok_def)
  have par: "unat p < ?n" if "p \<in> set parents" for p
  proof -
    have "p < of_nat ?n" using step that by blast
    moreover have "unat (of_nat ?n :: u64) = ?n" using len by (simp add: unat_of_nat take_bit_nat_eq_self)
    ultimately show ?thesis by (simp add: word_less_nat_alt)
  qed
  have clock: "\<forall>c \<in> set (map ts_logical_clock (rc_steps r)). c < clock"
  proof
    fix c assume c: "c \<in> set (map ts_logical_clock (rc_steps r))"
    then obtain as s where s: "rc_steps r = as @ [s]" by (cases "rc_steps r" rule: rev_cases) auto
    have "ts_logical_clock s < clock" using assms(1) step by (auto simp: recorder_ok_def s)
    moreover have "c \<le> ts_logical_clock s" using c assms(1) by (auto simp: recorder_ok_def s sorted_wrt_append)
    ultimately show "c < clock" by simp
  qed
  show ?thesis
    using assms(1) step len par clock
    by (auto simp: recorder_ok_def contiguous_append sorted_wrt_append effects_of_def nth_append less_Suc_eq)
qed

lemma recorded_ok: "recorded r \<Longrightarrow> recorder_ok r"
proof (induction rule: recorded.induct)
  case (rec_new trace_id contract_ref initial_state r)
  then show ?case by (auto simp: recorder_new_def recorder_ok_def effects_of_def result_simps)
qed (rule record_step_ok)

section \<open>Replay\<close>

lemma check_capability_iff: "check_capability r s = Inr u \<longleftrightarrow> mocked r s"
  by (auto simp: check_capability_def mocked_def pure_step_def split: option.splits)

lemma replay_steps_iff:
  "replay_steps r steps seen s = Inr e \<longleftrightarrow>
     contiguous s steps e \<and> distinct (map ts_index steps) \<and> ts_index ` set steps \<inter> seen = {} \<and> (\<forall>st \<in> set steps. mocked r st)"
  by (induction r steps seen s rule: replay_steps.induct) (auto simp: result_simps check_capability_iff)

lemma replay_iff:
  "replay x r t budget = Inr rep \<longleftrightarrow>
     tr_schema_version t = 1 \<and> (of_nat (length (tr_steps t)) :: u32) \<le> bg_max_nodes budget \<and>
     trace_compute_digest x t = Inr (tr_digest t) \<and>
     contiguous (tr_initial_state t) (tr_steps t) (tr_terminal_state t) \<and> distinct (map ts_index (tr_steps t)) \<and>
     (\<forall>s \<in> set (tr_steps t). mocked r s) \<and>
     rep = \<lparr>rr_terminal_state = tr_terminal_state t, rr_trace_digest = tr_digest t\<rparr>"
proof -
  have "replay x r t budget = Inr rep \<longleftrightarrow>
     tr_schema_version t = 1 \<and> (of_nat (length (tr_steps t)) :: u32) \<le> bg_max_nodes budget \<and>
     trace_compute_digest x t = Inr (tr_digest t) \<and>
     replay_steps r (tr_steps t) {} (tr_initial_state t) = Inr (tr_terminal_state t) \<and>
     rep = \<lparr>rr_terminal_state = tr_terminal_state t, rr_trace_digest = tr_digest t\<rparr>"
    by (auto simp: replay_def SCHEMA_VERSION_def result_simps)
  then show ?thesis by (auto simp: replay_steps_iff)
qed

lemma trace_unsigned_digest [simp]: "trace_unsigned (t\<lparr>tr_digest := d\<rparr>) = trace_unsigned t"
  by (simp add: trace_unsigned_def UnsignedTrace.truncate_def)

lemma bind_digest_iff:
  "bind_digest x t = Inr t' \<longleftrightarrow> (\<exists>d. trace_compute_digest x t = Inr d \<and> t' = t\<lparr>tr_digest := d\<rparr>)"
  by (auto simp: bind_digest_def result_simps)

lemma bind_digest_bound: "bind_digest x t = Inr t' \<Longrightarrow> trace_compute_digest x t' = Inr (tr_digest t')"
  by (auto simp: bind_digest_iff trace_compute_digest_def)

lemma finish_iff:
  assumes "recorder_ok r"
  shows "recorder_finish x r = Some (Inr t) \<longleftrightarrow> rc_steps r \<noteq> [] \<and> (\<exists>d.
    t = \<lparr>tr_schema_version = 1, tr_trace_id = rc_trace_id r, tr_contract_ref = rc_contract_ref r,
      tr_initial_state = rc_initial_state r, tr_steps = rc_steps r, tr_side_effect_claims = rc_side_effects r,
      tr_terminal_state = rc_last_state r,
      tr_coverage = \<lparr>cv_trained_steps = of_nat (length (rc_steps r)), cv_held_out_steps = 0\<rparr>, tr_digest = d\<rparr> \<and>
    trace_compute_digest x t = Inr d)"
  using assms unfolding recorder_finish_def recorder_ok_def SCHEMA_VERSION_def
  by (auto simp: bind_digest_iff trace_compute_digest_def trace_unsigned_def UnsignedTrace.truncate_def)

lemma recorder_indices:
  assumes "recorder_ok r"
  shows "distinct (map ts_index (rc_steps r))" "sorted (map ts_index (rc_steps r))"
proof -
  let ?n = "length (rc_steps r)"
  have u: "unat (of_nat i :: u64) = i" if "i < ?n" for i
    using assms that by (simp add: recorder_ok_def unat_of_nat take_bit_nat_eq_self)
  have idx: "map ts_index (rc_steps r) = map of_nat [0..<?n]" using assms by (simp add: recorder_ok_def)
  have "inj_on (of_nat :: nat \<Rightarrow> u64) {0..<?n}" using u by (metis atLeastLessThan_iff inj_onI)
  then show "distinct (map ts_index (rc_steps r))" unfolding idx by (simp add: distinct_map)
  show "sorted (map ts_index (rc_steps r))" unfolding idx
    by (auto simp: sorted_iff_nth_mono word_le_nat_alt u)
qed

lemma recorded_trace:
  assumes "recorded r" "recorder_finish x r = Some (Inr t)"
  shows "replay x p t budget = Inr rep \<longleftrightarrow>
      (of_nat (length (rc_steps r)) :: u32) \<le> bg_max_nodes budget \<and> (\<forall>s \<in> set (rc_steps r). mocked p s) \<and>
      rep = \<lparr>rr_terminal_state = rc_last_state r, rr_trace_digest = tr_digest t\<rparr>"
    and "independent_trace_digest x t = Inr (tr_digest t)"
proof -
  note ok = recorded_ok [OF assms(1)]
  obtain d where t: "t = \<lparr>tr_schema_version = 1, tr_trace_id = rc_trace_id r, tr_contract_ref = rc_contract_ref r,
      tr_initial_state = rc_initial_state r, tr_steps = rc_steps r, tr_side_effect_claims = rc_side_effects r,
      tr_terminal_state = rc_last_state r,
      tr_coverage = \<lparr>cv_trained_steps = of_nat (length (rc_steps r)), cv_held_out_steps = 0\<rparr>, tr_digest = d\<rparr>"
    and d: "trace_compute_digest x t = Inr (tr_digest t)"
    using assms(2) unfolding finish_iff [OF ok] by (auto simp only: TraceV1.select_convs)
  have f: "tr_schema_version t = 1" "tr_steps t = rc_steps r" "tr_initial_state t = rc_initial_state r" "tr_terminal_state t = rc_last_state r"
    by (simp_all add: t)
  show "replay x p t budget = Inr rep \<longleftrightarrow>
      (of_nat (length (rc_steps r)) :: u32) \<le> bg_max_nodes budget \<and> (\<forall>s \<in> set (rc_steps r). mocked p s) \<and>
      rep = \<lparr>rr_terminal_state = rc_last_state r, rr_trace_digest = tr_digest t\<rparr>"
    using ok recorder_indices(1) [OF ok] d by (auto simp: replay_iff f recorder_ok_def)
  have "sort_key ts_index (tr_steps t) = tr_steps t"
    using recorder_indices(2) [OF ok] by (simp add: f sorted_sort_id sort_key_id_if_sorted)
  then have "t\<lparr>tr_steps := sort_key ts_index (tr_steps t)\<rparr> = t" by simp
  then show "independent_trace_digest x t = Inr (tr_digest t)" using d by (simp add: independent_trace_digest_def trace_compute_digest_def)
qed

section \<open>Partition and redaction\<close>

lemma partition_iff:
  assumes "partition_held_out x t = Some (Inr (train, held))"
  shows "\<exists>steps s. tr_steps t = steps @ [s] \<and> steps \<noteq> [] \<and> tr_steps train = steps \<and> tr_steps held = [s] \<and>
    tr_initial_state train = tr_initial_state t \<and> tr_terminal_state train = ts_after_state (last steps) \<and>
    tr_initial_state held = ts_before_state s \<and> tr_terminal_state held = tr_terminal_state t \<and>
    tr_schema_version train = tr_schema_version t \<and> tr_schema_version held = tr_schema_version t \<and>
    trace_compute_digest x train = Inr (tr_digest train) \<and> trace_compute_digest x held = Inr (tr_digest held)"
proof -
  from assms have len: "2 \<le> length (tr_steps t)" by (auto simp: partition_held_out_def split: if_split_asm)
  then obtain steps s where s: "tr_steps t = steps @ [s]" "steps \<noteq> []"
    by (cases "tr_steps t" rule: rev_cases) (auto simp: Suc_le_eq)
  with len have bound: "bind_digest x (t\<lparr>tr_steps := steps, tr_terminal_state := ts_after_state (last steps),
        tr_coverage := \<lparr>cv_trained_steps = of_nat (length steps), cv_held_out_steps = 1\<rparr>\<rparr>) = Inr train"
      "bind_digest x (t\<lparr>tr_steps := [s], tr_initial_state := ts_before_state s,
        tr_coverage := \<lparr>cv_trained_steps = of_nat (length steps), cv_held_out_steps = 1\<rparr>\<rparr>) = Inr held"
    using assms by (auto simp: partition_held_out_def Let_def rbind_Inr_iff split: if_split_asm)
  from bound bind_digest_bound [OF bound(1)] bind_digest_bound [OF bound(2)] s show ?thesis by (auto simp: bind_digest_iff)
qed

lemma of_nat_u32_le: "m \<le> n \<Longrightarrow> n < 2 ^ 32 \<Longrightarrow> (of_nat m :: u32) \<le> of_nat n"
  by (simp add: word_le_nat_alt unat_of_nat take_bit_nat_eq_self)

lemma contiguous_last: "contiguous s steps e \<Longrightarrow> steps \<noteq> [] \<Longrightarrow> e = ts_after_state (last steps)"
  by (induction steps arbitrary: s) auto

lemma partition_halves:
  assumes "partition_held_out x t = Some (Inr (train, held))" "replay x r t budget = Inr rep" "length (tr_steps t) < 2 ^ 32"
  shows "tr_steps train @ tr_steps held = tr_steps t \<and> tr_terminal_state train = tr_initial_state held \<and>
    replay x r train budget = Inr \<lparr>rr_terminal_state = tr_initial_state held, rr_trace_digest = tr_digest train\<rparr> \<and>
    replay x r held budget = Inr \<lparr>rr_terminal_state = tr_terminal_state t, rr_trace_digest = tr_digest held\<rparr>"
proof -
  from partition_iff [OF assms(1)] obtain steps s where
    s: "tr_steps t = steps @ [s]" "steps \<noteq> []" "tr_steps train = steps" "tr_steps held = [s]"
    and st: "tr_initial_state train = tr_initial_state t" "tr_terminal_state train = ts_after_state (last steps)"
      "tr_initial_state held = ts_before_state s" "tr_terminal_state held = tr_terminal_state t"
      "tr_schema_version train = tr_schema_version t" "tr_schema_version held = tr_schema_version t"
    and d: "trace_compute_digest x train = Inr (tr_digest train)" "trace_compute_digest x held = Inr (tr_digest held)"
    by blast
  from assms(2) [unfolded replay_iff] have r: "tr_schema_version t = 1" "(of_nat (length (steps @ [s])) :: u32) \<le> bg_max_nodes budget"
    "contiguous (tr_initial_state t) (steps @ [s]) (tr_terminal_state t)" "distinct (map ts_index (steps @ [s]))"
    "\<forall>q \<in> set (steps @ [s]). mocked r q" unfolding s(1) by blast+
  from r(3) obtain m where m: "contiguous (tr_initial_state t) steps m" "ts_before_state s = m" "ts_after_state s = tr_terminal_state t"
    unfolding contiguous_append by auto
  have mid: "ts_after_state (last steps) = ts_before_state s" using contiguous_last [OF m(1) s(2)] m(2) by simp
  have len: "(of_nat (length steps) :: u32) \<le> bg_max_nodes budget" "(of_nat 1 :: u32) \<le> bg_max_nodes budget"
    using of_nat_u32_le [of "length steps" "length (steps @ [s])"] of_nat_u32_le [of 1 "length (steps @ [s])"] r(2) assms(3)
    unfolding s(1) by (auto intro: order_trans)
  show ?thesis
    using s st d r m mid len unfolding replay_iff by simp
qed

lemma redacted_steps:
  assumes "redact x t = Some t'"
  shows "tr_steps t' = map redact_step (tr_steps t) \<and> trace_compute_digest x t' = Inr (tr_digest t')"
  using assms bind_digest_bound [of x _ t'] by (auto simp: redact_def bind_digest_iff split: sum.splits)

lemma redact_blocks:
  assumes "redact x t = Some t'" "s \<in> set (tr_steps t)" "s' \<in> set (tr_steps t)" "\<not> pure_step s" "\<not> pure_step s'"
    and "ts_output_digest s \<noteq> ts_output_digest s'"
  shows "replay x r t' budget \<noteq> Inr rep"
proof
  assume "replay x r t' budget = Inr rep"
  then have m: "\<forall>q \<in> set (tr_steps t). mocked r (redact_step q)" using redacted_steps [OF assms(1)] by (auto simp: replay_iff)
  have "bt_get (rp_mocks r) ''redacted'' = Some (ts_output_digest q)" if "q \<in> set (tr_steps t)" "\<not> pure_step q" for q
    using bspec [OF m that(1)] that(2) by (simp add: mocked_def redact_step_def pure_step_def PURE_CAPABILITY_def)
  from this [OF assms(2,4)] this [OF assms(3,5)] assms(6) show False by simp
qed

section \<open>The digest determines the trace\<close>

lemma step_fields_inject:
  assumes "object_of (step_fields s) = object_of (step_fields t)"
  shows "s = t"
proof (rule TraceStep.equality)
  have d: "distinct (map fst (step_fields q))" for q by (simp add: step_fields_def)
  note get = object_of_get [OF assms d d]
  have inj: "inj (\<lambda>p. JNumber (PosInt p))" by (simp add: inj_def)
  show "ts_index s = ts_index t" using get [of "''index''"] by (simp add: step_fields_def)
  show "ts_input_digest s = ts_input_digest t" using get [of "''input_digest''"] by (simp add: step_fields_def)
  show "ts_output_digest s = ts_output_digest t" using get [of "''output_digest''"] by (simp add: step_fields_def)
  show "ts_before_state s = ts_before_state t" using get [of "''before_state''"] by (simp add: step_fields_def)
  show "ts_after_state s = ts_after_state t" using get [of "''after_state''"] by (simp add: step_fields_def)
  show "ts_logical_clock s = ts_logical_clock t" using get [of "''logical_clock''"] by (simp add: step_fields_def)
  show "ts_causal_parents s = ts_causal_parents t" using get [of "''causal_parents''"] inj by (simp add: step_fields_def inj_map_eq_map)
  show "ts_capability s = ts_capability t" using get [of "''capability''"] by (simp add: step_fields_def)
qed simp

lemma effect_fields_inject:
  assumes "object_of (effect_fields s) = object_of (effect_fields t)"
  shows "s = t"
proof (rule SideEffectClaim.equality)
  have d: "distinct (map fst (effect_fields q))" for q by (simp add: effect_fields_def)
  note get = object_of_get [OF assms d d]
  show "se_capability s = se_capability t" using get [of "''capability''"] by (simp add: effect_fields_def)
  show "se_payload_digest s = se_payload_digest t" using get [of "''payload_digest''"] by (simp add: effect_fields_def)
qed simp

lemma ucast_u32_inject: "(ucast (a :: u32) :: u64) = ucast b \<Longrightarrow> a = b"
proof -
  have "ucast (ucast c :: u64) = c" for c :: u32 by (rule bit_word_eqI) (simp add: bit_ucast_iff)
  then show "(ucast a :: u64) = ucast b \<Longrightarrow> a = b" by metis
qed

lemma coverage_fields_inject:
  assumes "object_of (coverage_fields s) = object_of (coverage_fields t)"
  shows "s = t"
proof (rule CoverageClaim.equality)
  have d: "distinct (map fst (coverage_fields q))" for q by (simp add: coverage_fields_def)
  note get = object_of_get [OF assms d d]
  show "cv_trained_steps s = cv_trained_steps t" using get [of "''trained_steps''"] by (simp add: coverage_fields_def ucast_u32_inject)
  show "cv_held_out_steps s = cv_held_out_steps t" using get [of "''held_out_steps''"] by (simp add: coverage_fields_def ucast_u32_inject)
qed simp

lemma distinct_trace_fields: "distinct (map fst (trace_fields x t))"
  by (simp add: trace_fields_def)

lemma trace_fields_inject:
  assumes "object_of (trace_fields x t) = object_of (trace_fields x u)" "lawful_uuid x"
  shows "t = u"
proof (rule UnsignedTrace.equality)
  note get = object_of_get [OF assms(1) distinct_trace_fields distinct_trace_fields]
  have uuid: "x_uuid_string x a = x_uuid_string x b \<Longrightarrow> a = b" for a b
    using assms(2) by (simp add: lawful_uuid_def inj_eq)
  have inj: "inj (\<lambda>s. object_of (step_fields s))" "inj (\<lambda>s. object_of (effect_fields s))"
    by (auto intro!: injI dest: step_fields_inject effect_fields_inject)
  show "tr_schema_version t = tr_schema_version u" using get [of "''schema_version''"] by (simp add: trace_fields_def ucast_u16_inject)
  show "tr_trace_id t = tr_trace_id u" using get [of "''trace_id''"] by (simp add: trace_fields_def uuid)
  show "tr_contract_ref t = tr_contract_ref u" using get [of "''contract_ref''"] by (simp add: trace_fields_def)
  show "tr_initial_state t = tr_initial_state u" using get [of "''initial_state''"] by (simp add: trace_fields_def)
  show "tr_steps t = tr_steps u" using get [of "''steps''"] inj(1) by (simp add: trace_fields_def inj_map_eq_map)
  show "tr_side_effect_claims t = tr_side_effect_claims u"
    using get [of "''side_effect_claims''"] inj(2) by (simp add: trace_fields_def inj_map_eq_map)
  show "tr_terminal_state t = tr_terminal_state u" using get [of "''terminal_state''"] by (simp add: trace_fields_def)
  show "tr_coverage t = tr_coverage u" using get [of "''coverage''"] by (simp add: trace_fields_def coverage_fields_inject)
qed simp

definition trace_ok :: "TraceV1 \<Rightarrow> bool" where
  "trace_ok t \<longleftrightarrow> bounded_ok (tr_contract_ref t) \<and> digest_wf (tr_initial_state t) \<and> digest_wf (tr_terminal_state t) \<and>
     length (tr_steps t) < 2 ^ 64 \<and> length (tr_side_effect_claims t) < 2 ^ 64 \<and>
     (\<forall>s \<in> set (tr_steps t). digest_wf (ts_input_digest s) \<and> digest_wf (ts_output_digest s) \<and> digest_wf (ts_before_state s) \<and>
        digest_wf (ts_after_state s) \<and> length (ts_causal_parents s) < 2 ^ 64 \<and> bounded_ok (ts_capability s)) \<and>
     (\<forall>c \<in> set (tr_side_effect_claims t). bounded_ok (se_capability c) \<and> digest_wf (se_payload_digest c))"

lemma canonical_trace:
  assumes "trace_ok t" "lawful_uuid x"
  shows "canonical (object_of (trace_fields x (trace_unsigned t)))"
proof (rule canonical_object)
  have s: "canonical (object_of (step_fields s))" if "s \<in> set (tr_steps t)" for s
    using assms(1) that by (intro canonical_object) (auto simp: trace_ok_def step_fields_def field_texts)
  have e: "canonical (object_of (effect_fields c))" if "c \<in> set (tr_side_effect_claims t)" for c
    using assms(1) that by (intro canonical_object) (auto simp: trace_ok_def effect_fields_def field_texts)
  have c: "canonical (object_of (coverage_fields c))" for c
    by (intro canonical_object) (auto simp: coverage_fields_def field_texts)
  show "\<forall>(k, v) \<in> set (trace_fields x (trace_unsigned t)). text_ok k \<and> canonical v"
    using assms s e c
    by (simp add: trace_fields_def trace_ok_def trace_unsigned_def UnsignedTrace.truncate_def lawful_uuid_def field_texts)
qed (simp add: trace_fields_def)

lemma trace_digest_inject:
  assumes "trace_compute_digest x t = Inr d" "trace_compute_digest x u = Inr d" "trace_ok t" "trace_ok u" "lawful_uuid x"
  shows "trace_unsigned t = trace_unsigned u \<or> (\<exists>a b. a \<noteq> b \<and> x_sha256 x a = x_sha256 x b)"
proof -
  obtain a b where ab: "encode_canonical_cbor (unsigned_trace_value x) (trace_unsigned t) = Inr a"
    "encode_canonical_cbor (unsigned_trace_value x) (trace_unsigned u) = Inr b" "x_sha256 x a = x_sha256 x b"
    using assms(1,2) by (auto simp: trace_compute_digest_def unsigned_trace_digest_def of_canonical_cbor_def digest_sha256_def result_simps)
  show ?thesis
  proof (cases "a = b")
    case True
    have "object_of (trace_fields x (trace_unsigned t)) = object_of (trace_fields x (trace_unsigned u))"
      using ab True canonical_trace [OF assms(3,5)] canonical_trace [OF assms(4,5)]
      by (intro canonical_encode_inject [of "unsigned_trace_value x" "trace_unsigned t" _ "trace_unsigned u" _ a])
        (simp_all add: unsigned_trace_value_def)
    then show ?thesis using trace_fields_inject assms(5) by blast
  qed (use ab(3) in blast)
qed

section \<open>Signatures\<close>

lemma verify_trace_iff:
  "verify_trace x t s public = Inr u \<longleftrightarrow>
     as_str (sb_algorithm s) = ''ed25519'' \<and> trace_compute_digest x t = Inr (tr_digest t) \<and> x_valid_key x public \<and>
     (\<exists>bs. x_hex_decode x (sb_value s) = Some bs \<and> length bs = 64 \<and> x_verify x public (as_digest_bytes (tr_digest t)) bs)"
  by (auto simp: verify_trace_def result_simps)

lemma sign_trace_iff:
  "sign_trace x t signing = Inr s \<longleftrightarrow> bounded_text_wf (BoundedText (sg_key_id signing)) \<and>
     s = \<lparr>sb_algorithm = BoundedText ''ed25519'', sb_key_id = BoundedText (sg_key_id signing),
       sb_value = x_hex_encode x (x_sign x (sg_secret signing) (as_digest_bytes (tr_digest t)))\<rparr>"
proof -
  have alg: "bounded_text ''ed25519'' = Inr (BoundedText ''ed25519'')" by (rule bounded_text_literal) simp_all
  show ?thesis by (auto simp: sign_trace_def Let_def alg result_simps bounded_text_iff)
qed

section \<open>A concrete trace\<close>

definition toy_digest :: "byte \<Rightarrow> Digest" where
  "toy_digest b = Digest (replicate 32 b)"

definition toy_budget :: Budget where
  "toy_budget = \<lparr>bg_max_nodes = 10, bg_max_edges = 1, bg_max_depth = 1, bg_max_bytes = 1, bg_deadline_ms = 1\<rparr>"

definition toy_step :: "nat \<Rightarrow> string \<Rightarrow> TraceStep" where
  "toy_step n capability = \<lparr>ts_index = of_nat n, ts_input_digest = toy_digest 9, ts_output_digest = toy_digest (of_nat n),
     ts_before_state = toy_digest (of_nat n), ts_after_state = toy_digest (of_nat n + 1), ts_logical_clock = of_nat n,
     ts_causal_parents = [], ts_capability = BoundedText capability\<rparr>"

definition toy_recorder :: Recorder where
  "toy_recorder = \<lparr>rc_trace_id = Uuid 7, rc_contract_ref = BoundedText ''c'', rc_initial_state = toy_digest 0,
     rc_steps = [toy_step 0 ''net'', toy_step 1 ''fs''], rc_side_effects = effects_of [toy_step 0 ''net'', toy_step 1 ''fs''],
     rc_last_clock = Some 1, rc_last_state = toy_digest 2\<rparr>"

lemma toy_recorded: "recorded toy_recorder"
proof -
  let ?r0 = "\<lparr>rc_trace_id = Uuid 7, rc_contract_ref = BoundedText ''c'', rc_initial_state = toy_digest 0, rc_steps = [],
    rc_side_effects = [], rc_last_clock = None, rc_last_state = toy_digest 0\<rparr>"
  let ?r1 = "\<lparr>rc_trace_id = Uuid 7, rc_contract_ref = BoundedText ''c'', rc_initial_state = toy_digest 0, rc_steps = [toy_step 0 ''net''],
    rc_side_effects = effects_of [toy_step 0 ''net''], rc_last_clock = Some 0, rc_last_state = toy_digest 1\<rparr>"
  have "recorder_new (Uuid 7) ''c'' (toy_digest 0) = Inr ?r0" by (simp add: recorder_new_def bounded_text_literal)
  then have r0: "recorded ?r0" by (rule rec_new)
  have "record_step ?r0 (toy_digest 9) (toy_digest 0) (toy_digest 1) 0 [] ''net'' toy_budget = Inr ?r1"
    by (simp add: record_step_iff toy_budget_def toy_step_def Let_def bounded_text_wf_def MAX_BOUNDED_TEXT_BYTES_def)
  from rec_step [OF r0 this] have r1: "recorded ?r1" .
  have "record_step ?r1 (toy_digest 9) (toy_digest 1) (toy_digest 2) 1 [] ''fs'' toy_budget = Inr toy_recorder"
    by (simp add: record_step_iff toy_recorder_def toy_budget_def toy_step_def Let_def bounded_text_wf_def MAX_BOUNDED_TEXT_BYTES_def
        effects_of_def pure_step_def PURE_CAPABILITY_def word_less_nat_alt)
  from rec_step [OF r1 this] show ?thesis .
qed

lemma shallow_trace: "shallow 16 (object_of (trace_fields x t))"
proof -
  have arr: "shallow (Suc n) (JArray vs)" if "\<forall>v \<in> set vs. shallow n v" for n vs
    using that by (auto simp: shallow_def foldr_max_le)
  have "shallow 2 (object_of (step_fields s))" for s
    using shallow_object [of "step_fields s" 1] by (auto simp: step_fields_def shallow_def foldr_max_le text_value_def digest_value_def numeral_2_eq_2)
  moreover have "shallow 2 (object_of (effect_fields c))" for c
    using shallow_object [of "effect_fields c" 1] by (auto simp: effect_fields_def numeral_2_eq_2)
  moreover have "shallow 3 (object_of (coverage_fields c))" for c
    using shallow_object [of "coverage_fields c" 2] by (auto simp: coverage_fields_def numeral_3_eq_3)
  ultimately have "\<forall>(k, v) \<in> set (trace_fields x t). shallow 3 v"
    using arr [of _ 2] by (auto simp: trace_fields_def numeral_3_eq_3)
  from shallow_mono [OF shallow_object [OF this], of 16] show ?thesis by simp
qed

lemma toy_step_size: "length c \<le> 10 \<Longrightarrow> size_bound (object_of (step_fields (toy_step n c))) \<le> 2000"
  and toy_effect_size: "length c \<le> 10 \<Longrightarrow> size_bound (object_of (effect_fields \<lparr>se_capability = BoundedText c, se_payload_digest = toy_digest b\<rparr>)) \<le> 500"
proof -
  have d: "size_bound (digest_value (toy_digest b)) = 297" for b
    by (simp add: toy_digest_def digest_value_def map_replicate sum_list_replicate del: replicate.simps)
  show "length c \<le> 10 \<Longrightarrow> size_bound (object_of (step_fields (toy_step n c))) \<le> 2000"
    by (rule order_trans [OF size_bound_object]) (simp add: step_fields_def toy_step_def d text_value_def)
  show "length c \<le> 10 \<Longrightarrow> size_bound (object_of (effect_fields \<lparr>se_capability = BoundedText c, se_payload_digest = toy_digest b\<rparr>)) \<le> 500"
    by (rule order_trans [OF size_bound_object]) (simp add: effect_fields_def d text_value_def)
qed

definition small_step :: "TraceStep \<Rightarrow> bool" where
  "small_step s \<longleftrightarrow> (\<exists>n c. s = toy_step n c \<and> length c \<le> 10)"

definition small_effect :: "SideEffectClaim \<Rightarrow> bool" where
  "small_effect e \<longleftrightarrow> (\<exists>c b. e = \<lparr>se_capability = BoundedText c, se_payload_digest = toy_digest b\<rparr> \<and> length c \<le> 10)"

lemma small_toys [simp]: "length c \<le> 10 \<Longrightarrow> small_step (toy_step n c)"
  "length c \<le> 10 \<Longrightarrow> small_effect \<lparr>se_capability = BoundedText c, se_payload_digest = toy_digest b\<rparr>"
  by (auto simp: small_step_def small_effect_def)

text \<open>Any trace over at most two small steps has a digest in the concrete environment.\<close>

lemma toy_trace_digest:
  assumes "length (tr_steps t) \<le> 2" "length (tr_side_effect_claims t) \<le> 2"
    and "\<forall>s \<in> set (tr_steps t). small_step s" "\<forall>e \<in> set (tr_side_effect_claims t). small_effect e"
    and "tr_contract_ref t = BoundedText ''c''" "\<exists>b. tr_initial_state t = toy_digest b" "\<exists>b. tr_terminal_state t = toy_digest b"
  shows "\<exists>d. trace_compute_digest evidence_toy t = Inr d"
proof -
  let ?u = "trace_unsigned t"
  have d: "size_bound (digest_value (toy_digest b)) = 297" for b
    by (simp add: toy_digest_def digest_value_def map_replicate sum_list_replicate del: replicate.simps)
  have s: "sum_list (map (\<lambda>s. size_bound (object_of (step_fields s))) (tr_steps t)) \<le> 4000"
    using sum_list_map_le [of "tr_steps t" "\<lambda>s. size_bound (object_of (step_fields s))" 2000] assms(1,3) toy_step_size unfolding small_step_def by fastforce
  have e: "sum_list (map (\<lambda>c. size_bound (object_of (effect_fields c))) (tr_side_effect_claims t)) \<le> 1000"
    using sum_list_map_le [of "tr_side_effect_claims t" "\<lambda>c. size_bound (object_of (effect_fields c))" 500] assms(2,4) toy_effect_size unfolding small_effect_def by fastforce
  have c: "size_bound (object_of (coverage_fields k)) \<le> 100" for k
    by (rule order_trans [OF size_bound_object]) (simp add: coverage_fields_def)
  have "size_bound (object_of (trace_fields evidence_toy ?u)) \<le> 10000"
    by (rule order_trans [OF size_bound_object])
      (use s e c [of "tr_coverage t"] assms(5-7) in \<open>auto simp: trace_fields_def trace_unsigned_def UnsignedTrace.truncate_def d evidence_toy_fields
        toy_uuid_def text_value_def comp_def\<close>)
  with encode_shallow [OF shallow_trace, of evidence_toy ?u "unsigned_trace_value evidence_toy" ?u] show ?thesis
    by (auto simp: trace_compute_digest_def unsigned_trace_digest_def of_canonical_cbor_def unsigned_trace_value_def MAX_FRAME_BYTES_def)
qed

lemma toy_effects: "effects_of [toy_step 0 ''net'', toy_step 1 ''fs''] =
  [\<lparr>se_capability = BoundedText ''net'', se_payload_digest = toy_digest 0\<rparr>, \<lparr>se_capability = BoundedText ''fs'', se_payload_digest = toy_digest 1\<rparr>]"
  by (simp add: effects_of_def pure_step_def PURE_CAPABILITY_def toy_step_def)

definition toy_unbound :: TraceV1 where
  "toy_unbound = \<lparr>tr_schema_version = 1, tr_trace_id = Uuid 7, tr_contract_ref = BoundedText ''c'', tr_initial_state = toy_digest 0,
     tr_steps = [toy_step 0 ''net'', toy_step 1 ''fs''],
     tr_side_effect_claims = [\<lparr>se_capability = BoundedText ''net'', se_payload_digest = toy_digest 0\<rparr>,
       \<lparr>se_capability = BoundedText ''fs'', se_payload_digest = toy_digest 1\<rparr>],
     tr_terminal_state = toy_digest 2, tr_coverage = \<lparr>cv_trained_steps = 2, cv_held_out_steps = 0\<rparr>, tr_digest = Digest []\<rparr>"

lemma toy_finish: "\<exists>t. recorder_finish evidence_toy toy_recorder = Some (Inr t) \<and> bind_digest evidence_toy toy_unbound = Inr t"
proof -
  have b: "recorder_finish evidence_toy toy_recorder = Some (bind_digest evidence_toy toy_unbound)"
    using toy_effects
    by (simp add: recorder_finish_def toy_recorder_def toy_unbound_def SCHEMA_VERSION_def digest_sha256_def evidence_toy_fields)
  have "\<exists>d. trace_compute_digest evidence_toy toy_unbound = Inr d"
    by (rule toy_trace_digest) (auto simp: toy_unbound_def)
  with b show ?thesis by (auto simp: bind_digest_def)
qed

definition toy_replayer :: Replayer where
  "toy_replayer = \<lparr>rp_mocks = [(''fs'', toy_digest 1), (''net'', toy_digest 0)]\<rparr>"

lemma toy_mocked: "\<forall>s \<in> set (rc_steps toy_recorder). mocked toy_replayer s"
  by (simp add: toy_recorder_def toy_replayer_def toy_step_def mocked_def)

section \<open>Properties\<close>

text \<open>(C20) Whatever steps a recorder accepted, they are indexed from zero, start in the initial state and are
  contiguous up to the last state, have strictly increasing clocks and only earlier causal parents, and the
  side effects are exactly those of the steps that are not pure; finishing does not panic.\<close>

theorem recorder_invariant:
  assumes "recorded r"
  shows "recorder_ok r \<and> recorder_finish x r \<noteq> None"
  using recorded_ok [OF assms] by (simp add: recorder_finish_def recorder_ok_def)

theorem recorder_invariant_witness:
  "recorder_ok toy_recorder \<and> recorder_finish evidence_toy toy_recorder \<noteq> None"
  by (rule recorder_invariant [OF toy_recorded])

text \<open>(C21) A finished recording replays exactly when it is within the node budget and every effectful step has a
  mock with its recorded output; the replay then reports the last recorded state and the digest of the
  trace, and the independent digest agrees with it.\<close>

theorem recorded_trace_replays:
  assumes "recorded r" "recorder_finish x r = Some (Inr t)"
  shows "(replay x p t budget = Inr rep \<longleftrightarrow>
      (of_nat (length (rc_steps r)) :: u32) \<le> bg_max_nodes budget \<and> (\<forall>s \<in> set (rc_steps r). mocked p s) \<and>
      rep = \<lparr>rr_terminal_state = rc_last_state r, rr_trace_digest = tr_digest t\<rparr>) \<and>
    independent_trace_digest x t = Inr (tr_digest t)"
  using recorded_trace [OF assms] by blast

theorem recorded_trace_replays_witness:
  "\<exists>t. recorder_finish evidence_toy toy_recorder = Some (Inr t) \<and>
     replay evidence_toy toy_replayer t toy_budget = Inr \<lparr>rr_terminal_state = toy_digest 2, rr_trace_digest = tr_digest t\<rparr> \<and>
     \<not> is_ok (replay evidence_toy replayer_new t toy_budget)"
proof -
  obtain t where t: "recorder_finish evidence_toy toy_recorder = Some (Inr t)" using toy_finish by blast
  note r = recorded_trace_replays [OF toy_recorded t]
  have "replay evidence_toy toy_replayer t toy_budget = Inr \<lparr>rr_terminal_state = toy_digest 2, rr_trace_digest = tr_digest t\<rparr>"
    using r [of toy_replayer toy_budget "\<lparr>rr_terminal_state = toy_digest 2, rr_trace_digest = tr_digest t\<rparr>"] toy_mocked
    by (simp add: toy_budget_def) (simp add: toy_recorder_def word_le_nat_alt)
  moreover have "\<not> is_ok (replay evidence_toy replayer_new t toy_budget)"
    using r [of replayer_new toy_budget] by (auto simp: is_ok_iff toy_recorder_def toy_step_def mocked_def pure_step_def PURE_CAPABILITY_def replayer_new_def)
  ultimately show ?thesis using t by blast
qed

text \<open>Partitioning a trace that replays gives two traces whose steps make up the original ones and that replay
  under the same mocks and budget, the held-out one from the state in which the training one ends.\<close>

theorem partition_replays:
  assumes "partition_held_out x t = Some (Inr (train, held))" "replay x r t budget = Inr rep" "length (tr_steps t) < 2 ^ 32"
  shows "tr_steps train @ tr_steps held = tr_steps t \<and> tr_terminal_state train = tr_initial_state held \<and>
    replay x r train budget = Inr \<lparr>rr_terminal_state = tr_initial_state held, rr_trace_digest = tr_digest train\<rparr> \<and>
    replay x r held budget = Inr \<lparr>rr_terminal_state = tr_terminal_state t, rr_trace_digest = tr_digest held\<rparr>"
  using assms by (rule partition_halves)

theorem partition_replays_witness:
  "\<exists>t train held. partition_held_out evidence_toy t = Some (Inr (train, held)) \<and>
     is_ok (replay evidence_toy toy_replayer train toy_budget) \<and> is_ok (replay evidence_toy toy_replayer held toy_budget)"
proof -
  obtain t where t: "recorder_finish evidence_toy toy_recorder = Some (Inr t)" "bind_digest evidence_toy toy_unbound = Inr t"
    using toy_finish by blast
  have tt: "tr_steps t = [toy_step 0 ''net'', toy_step 1 ''fs'']" using t(2) by (auto simp: bind_digest_iff toy_unbound_def)
  have rep: "replay evidence_toy toy_replayer t toy_budget = Inr \<lparr>rr_terminal_state = toy_digest 2, rr_trace_digest = tr_digest t\<rparr>"
    using recorded_trace(1) [OF toy_recorded t(1), of toy_replayer toy_budget] toy_mocked
    by (simp add: toy_budget_def) (simp add: toy_recorder_def word_le_nat_alt)
  have claims: "tr_side_effect_claims t = tr_side_effect_claims toy_unbound" "tr_contract_ref t = BoundedText ''c''"
    "tr_initial_state t = toy_digest 0" "tr_terminal_state t = toy_digest 2"
    using t(2) by (auto simp: bind_digest_iff toy_unbound_def)
  have states: "ts_before_state (toy_step 1 c) = toy_digest 1" "ts_after_state (toy_step 0 c) = toy_digest 1" for c by (simp_all add: toy_step_def)
  have d: "\<exists>d. trace_compute_digest evidence_toy (t\<lparr>tr_steps := [toy_step 0 ''net''], tr_terminal_state := toy_digest 1, tr_coverage := k\<rparr>) = Inr d"
    "\<exists>d. trace_compute_digest evidence_toy (t\<lparr>tr_steps := [toy_step 1 ''fs''], tr_initial_state := toy_digest 1, tr_coverage := k\<rparr>) = Inr d" for k
    by (rule toy_trace_digest; auto simp: claims toy_unbound_def)+
  obtain train held where p: "partition_held_out evidence_toy t = Some (Inr (train, held))"
    using d [of "\<lparr>cv_trained_steps = 1, cv_held_out_steps = 1\<rparr>"]
    by (auto simp: partition_held_out_def Let_def tt states states [simplified] bind_digest_def)
  from partition_replays [OF p rep] have "is_ok (replay evidence_toy toy_replayer train toy_budget)"
    "is_ok (replay evidence_toy toy_replayer held toy_budget)" by (auto simp: tt)
  with p show ?thesis by blast
qed

text \<open>A signature made over a trace verifies under the public key of the signing key, and it binds the trace:
  any trace with the same digest that verifies has the same content, unless two byte strings with the same
  SHA-256 are exhibited.\<close>

theorem trace_signature_binds:
  assumes "lawful_crypto x" "lawful_uuid x" "length (sg_secret signing) = 32" "sign_trace x t signing = Inr s"
    and "trace_compute_digest x t = Inr (tr_digest t)" "trace_ok t" "trace_ok u" "tr_digest u = tr_digest t"
  shows "verify_trace x t s (signing_public_bytes x signing) = Inr () \<and>
    (verify_trace x u s public = Inr () \<longrightarrow> trace_unsigned u = trace_unsigned t \<or> (\<exists>a b. a \<noteq> b \<and> x_sha256 x a = x_sha256 x b))"
proof
  show "verify_trace x t s (signing_public_bytes x signing) = Inr ()"
    using assms(1,3,4,5) by (auto simp: verify_trace_iff sign_trace_iff lawful_crypto_def signing_public_bytes_def)
  show "verify_trace x u s public = Inr () \<longrightarrow> trace_unsigned u = trace_unsigned t \<or> (\<exists>a b. a \<noteq> b \<and> x_sha256 x a = x_sha256 x b)"
    using trace_digest_inject [of x u "tr_digest t" t] assms by (auto simp: verify_trace_iff)
qed

theorem trace_signature_binds_witness:
  "\<exists>t s. sign_trace evidence_toy t \<lparr>sg_key_id = ''k1'', sg_secret = toy_secret\<rparr> = Inr s \<and>
     verify_trace evidence_toy t s (signing_public_bytes evidence_toy \<lparr>sg_key_id = ''k1'', sg_secret = toy_secret\<rparr>) = Inr () \<and>
     verify_trace evidence_toy (t\<lparr>tr_schema_version := 2\<rparr>) s toy_secret \<noteq> Inr ()"
proof -
  obtain t where t: "bind_digest evidence_toy toy_unbound = Inr t" using toy_finish by blast
  let ?k = "\<lparr>sg_key_id = ''k1'', sg_secret = toy_secret\<rparr> :: SigningKey"
  obtain s where s: "sign_trace evidence_toy t ?k = Inr s" by (simp add: sign_trace_iff bounded_text_wf_def MAX_BOUNDED_TEXT_BYTES_def)
  have ok: "trace_ok (t\<lparr>tr_schema_version := v\<rparr>)" for v
    using t by (auto simp: bind_digest_iff trace_ok_def toy_unbound_def toy_step_def toy_digest_def digest_wf_def toy_texts)
  have v1: "tr_schema_version t = 1" using t by (auto simp: bind_digest_iff toy_unbound_def)
  have ne: "trace_unsigned (t\<lparr>tr_schema_version := 2\<rparr>) \<noteq> trace_unsigned t"
    using v1 by (auto simp: trace_unsigned_def UnsignedTrace.truncate_def)
  have "t\<lparr>tr_schema_version := 1\<rparr> = t" using v1 by (cases t) simp
  then have ok1: "trace_ok t" using ok [of 1] by simp
  from trace_signature_binds [OF evidence_toy_lawful(1,2) _ s bind_digest_bound [OF t] ok1 ok [of 2], of toy_secret] ne
  have "verify_trace evidence_toy t s (signing_public_bytes evidence_toy ?k) = Inr ()"
    "verify_trace evidence_toy (t\<lparr>tr_schema_version := 2\<rparr>) s toy_secret \<noteq> Inr ()"
    by (auto simp: toy_secret_def evidence_toy_fields)
  with s show ?thesis by blast
qed

text \<open>Redaction gives every effect the same capability name, and mocks are keyed by that name: a redacted trace
  with two effects of different outputs cannot be replayed by any replayer, even if the trace could.\<close>

theorem redaction_blocks_replay:
  assumes "redact x t = Some t'" "s \<in> set (tr_steps t)" "s' \<in> set (tr_steps t)" "\<not> pure_step s" "\<not> pure_step s'"
    and "ts_output_digest s \<noteq> ts_output_digest s'"
  shows "replay x r t' budget \<noteq> Inr rep"
  using assms by (rule redact_blocks)

theorem redaction_blocks_replay_witness:
  "\<exists>t t'. redact evidence_toy t = Some t' \<and> is_ok (replay evidence_toy toy_replayer t toy_budget) \<and>
     \<not> (\<exists>r rep. replay evidence_toy r t' toy_budget = Inr rep)"
proof -
  obtain t where t: "recorder_finish evidence_toy toy_recorder = Some (Inr t)" "bind_digest evidence_toy toy_unbound = Inr t"
    using toy_finish by blast
  have f: "tr_steps t = [toy_step 0 ''net'', toy_step 1 ''fs'']" "tr_side_effect_claims t = tr_side_effect_claims toy_unbound"
    "tr_contract_ref t = BoundedText ''c''" "tr_initial_state t = toy_digest 0" "tr_terminal_state t = toy_digest 2"
    using t(2) by (auto simp: bind_digest_iff toy_unbound_def)
  have rep: "replay evidence_toy toy_replayer t toy_budget = Inr \<lparr>rr_terminal_state = toy_digest 2, rr_trace_digest = tr_digest t\<rparr>"
    using recorded_trace(1) [OF toy_recorded t(1), of toy_replayer toy_budget] toy_mocked
    by (simp add: toy_budget_def) (simp add: toy_recorder_def word_le_nat_alt)
  have impure: "\<not> pure_step (toy_step 0 ''net'')" "\<not> pure_step (toy_step 1 ''fs'')" by (simp_all add: pure_step_def toy_step_def PURE_CAPABILITY_def)
  have red: "redact_step (toy_step n c) = toy_step n (if c = ''pure'' then c else ''redacted'')" for n c
    by (simp add: redact_step_def toy_step_def PURE_CAPABILITY_def)
  have "\<exists>d. trace_compute_digest evidence_toy (t\<lparr>tr_steps := map redact_step (tr_steps t),
      tr_side_effect_claims := map (\<lambda>c. c\<lparr>se_capability := BoundedText ''redacted''\<rparr>) (tr_side_effect_claims t)\<rparr>) = Inr d"
    by (rule toy_trace_digest) (auto simp: f red toy_unbound_def)
  then obtain t' where t': "redact evidence_toy t = Some t'" by (auto simp: redact_def bind_digest_def)
  have out: "ts_output_digest (toy_step 0 c) \<noteq> ts_output_digest (toy_step 1 c')" for c c' by (simp add: toy_step_def toy_digest_def)
  have "replay evidence_toy r t' toy_budget \<noteq> Inr rep" for r rep
    by (rule redaction_blocks_replay [OF t' _ _ impure out]) (simp_all add: f)
  moreover have "is_ok (replay evidence_toy toy_replayer t toy_budget)" using rep by simp
  ultimately show ?thesis using t' by blast
qed

end
