(* ===== verification/Semantic.thy ===== *)
theory Semantic
  imports Evidence "HOL-Library.Product_Lexorder"
begin

text \<open>
  The crate \<open>anasemble-semantic\<close>: canonical snapshots of labelled graphs and the differ that compares them. The
  serializers are written out from the attributes of the types; generated identifiers are arguments. The
  ordered maps over nodes are association lists sorted by the key.
\<close>

section \<open>Data\<close>

datatype SemanticError = SemCore CoreError | SemId IdError | SemProtocol string | SemBudget

record DiffPolicy =
  dp_detect_moves :: bool

definition diff_policy_default :: DiffPolicy where
  "diff_policy_default = \<lparr>dp_detect_moves = True\<rparr>"

record SemanticNode =
  sn_id :: BoundedText
  sn_kind :: BoundedText
  sn_digest :: Digest

record SemanticEdge =
  sg_from :: BoundedText
  sg_to :: BoundedText
  sg_kind :: BoundedText

datatype Completeness = Complete | Truncated

record UnsignedSnapshot =
  ss_schema_version :: u16
  ss_ontology_version :: BoundedText
  ss_subject :: BoundedText
  ss_cut :: TemporalCut
  ss_nodes :: "SemanticNode list"
  ss_edges :: "SemanticEdge list"
  ss_contracts :: "Digest list"
  ss_evidence_roots :: "Digest list"
  ss_completeness :: Completeness
  ss_unknowns :: "BoundedText list"
  ss_contradictions :: "BoundedText list"

record SemanticSnapshotV1 = UnsignedSnapshot +
  ss_snapshot_id :: Uuid
  ss_digest :: Digest

record SemanticGraph =
  gr_nodes :: "(string, string \<times> Digest) btree_map"
  gr_edges :: "(string \<times> string \<times> string) list"
  gr_contracts :: "Digest list"
  gr_evidence_roots :: "Digest list"
  gr_unknowns :: "string list"
  gr_contradictions :: "string list"

record GraphSnapshotter =
  gs_ontology_version :: BoundedText
  gs_subject :: BoundedText

datatype DiffOpKind = OpAdd | OpRemove | OpModify | OpMove | OpRebind | OpSplit | OpMerge | OpContractChange | OpUnknown

record DiffOperation =
  op_kind :: DiffOpKind
  op_entity_id :: BoundedText
  op_before :: "Digest option"
  op_after :: "Digest option"
  op_compatibility :: CompatibilityClass
  op_evidence :: "Digest list"

record UnsignedDiff =
  sd_schema_version :: u16
  sd_before_digest :: Digest
  sd_after_digest :: Digest
  sd_operations :: "DiffOperation list"

record SemanticDiff = UnsignedDiff +
  sd_diff_id :: Uuid
  sd_digest :: Digest

subsection \<open>Serialization\<close>

definition node_value :: "SemanticNode \<Rightarrow> json" where
  "node_value n = object_of [(''id'', text_value (sn_id n)), (''kind'', text_value (sn_kind n)), (''digest'', digest_value (sn_digest n))]"

definition edge_value :: "SemanticEdge \<Rightarrow> json" where
  "edge_value e = object_of [(''from'', text_value (sg_from e)), (''to'', text_value (sg_to e)), (''kind'', text_value (sg_kind e))]"

definition cut_value :: "TemporalCut \<Rightarrow> json" where
  "cut_value c = object_of [(''valid_at'', JString (tc_valid_at c)), (''system_as_of'', JString (tc_system_as_of c))]"

definition completeness_name :: "Completeness \<Rightarrow> string" where
  "completeness_name c = (case c of Complete \<Rightarrow> ''complete'' | Truncated \<Rightarrow> ''truncated'')"

definition compatibility_name :: "CompatibilityClass \<Rightarrow> string" where
  "compatibility_name c =
     (case c of Backward \<Rightarrow> ''backward'' | Forward \<Rightarrow> ''forward'' | Breaking \<Rightarrow> ''breaking'' | UnknownClass \<Rightarrow> ''unknown'')"

definition op_kind_name :: "DiffOpKind \<Rightarrow> string" where
  "op_kind_name k =
     (case k of OpAdd \<Rightarrow> ''add'' | OpRemove \<Rightarrow> ''remove'' | OpModify \<Rightarrow> ''modify'' | OpMove \<Rightarrow> ''move'' | OpRebind \<Rightarrow> ''rebind''
      | OpSplit \<Rightarrow> ''split'' | OpMerge \<Rightarrow> ''merge'' | OpContractChange \<Rightarrow> ''contract_change'' | OpUnknown \<Rightarrow> ''unknown'')"

definition snapshot_fields :: "'m UnsignedSnapshot_scheme \<Rightarrow> (string \<times> json) list" where
  "snapshot_fields s =
     [(''schema_version'', JNumber (PosInt (ucast (ss_schema_version s)))),
      (''ontology_version'', text_value (ss_ontology_version s)),
      (''subject'', text_value (ss_subject s)),
      (''cut'', cut_value (ss_cut s)),
      (''nodes'', JArray (map node_value (ss_nodes s))),
      (''edges'', JArray (map edge_value (ss_edges s))),
      (''contracts'', JArray (map digest_value (ss_contracts s))),
      (''evidence_roots'', JArray (map digest_value (ss_evidence_roots s))),
      (''completeness'', JString (completeness_name (ss_completeness s))),
      (''unknowns'', JArray (map text_value (ss_unknowns s))),
      (''contradictions'', JArray (map text_value (ss_contradictions s)))]"

definition snapshot_value :: "UnsignedSnapshot serialize" where
  "snapshot_value s = Inr (object_of (snapshot_fields s))"

definition operation_value :: "DiffOperation \<Rightarrow> json" where
  "operation_value op = object_of ([(''kind'', JString (op_kind_name (op_kind op))), (''entity_id'', text_value (op_entity_id op))] @
     optional_field ''before'' digest_value (op_before op) @ optional_field ''after'' digest_value (op_after op) @
     [(''compatibility'', JString (compatibility_name (op_compatibility op))), (''evidence'', JArray (map digest_value (op_evidence op)))])"

definition diff_value :: "UnsignedDiff serialize" where
  "diff_value d = Inr (object_of
     [(''schema_version'', JNumber (PosInt (ucast (sd_schema_version d)))),
      (''before_digest'', digest_value (sd_before_digest d)),
      (''after_digest'', digest_value (sd_after_digest d)),
      (''operations'', JArray (map operation_value (sd_operations d)))])"

section \<open>Snapshots\<close>

definition snapshot_digest :: "'x external_scheme \<Rightarrow> UnsignedSnapshot \<Rightarrow> (SemanticError, Digest) result" where
  "snapshot_digest x u = map_err SemCore (of_canonical_cbor (x_sha256 x) snapshot_value u)"

definition snapshot_compute_digest :: "'x external_scheme \<Rightarrow> SemanticSnapshotV1 \<Rightarrow> (SemanticError, Digest) result" where
  "snapshot_compute_digest x s = snapshot_digest x (UnsignedSnapshot.truncate s)"

definition sem_text :: "string \<Rightarrow> (SemanticError, BoundedText) result" where
  "sem_text s = map_err SemId (bounded_text s)"

definition build_node :: "string \<times> string \<times> Digest \<Rightarrow> (SemanticError, SemanticNode) result" where
  "build_node n = (case n of (entity, kind, digest) \<Rightarrow>
     rbind (sem_text entity) (\<lambda>entity. rbind (sem_text kind) (\<lambda>kind. Inr \<lparr>sn_id = entity, sn_kind = kind, sn_digest = digest\<rparr>)))"

definition build_edge :: "string \<times> string \<times> string \<Rightarrow> (SemanticError, SemanticEdge) result" where
  "build_edge e = (case e of (from, to, kind) \<Rightarrow>
     rbind (sem_text from) (\<lambda>from. rbind (sem_text to) (\<lambda>to. rbind (sem_text kind) (\<lambda>kind.
       Inr \<lparr>sg_from = from, sg_to = to, sg_kind = kind\<rparr>))))"

definition to_u32_saturating :: "nat \<Rightarrow> u32" where
  "to_u32_saturating n = (if n < 2 ^ 32 then of_nat n else - 1)"

definition edge_key :: "SemanticEdge \<Rightarrow> string \<times> string \<times> string" where
  "edge_key e = (as_str (sg_from e), as_str (sg_to e), as_str (sg_kind e))"

definition graph_snapshot :: "'x external_scheme \<Rightarrow> GraphSnapshotter \<Rightarrow> SemanticGraph \<Rightarrow> TemporalCut \<Rightarrow> Budget \<Rightarrow> Uuid \<Rightarrow>
    (SemanticError, SemanticSnapshotV1) result" where
  "graph_snapshot x snapper input tcut budget snapshot_id =
     (if tc_valid_at tcut = [] \<or> tc_system_as_of tcut = [] then Inl (SemProtocol ''temporal cut is incomplete'')
      else if would_exceed budget (to_u32_saturating (length (gr_nodes input))) (to_u32_saturating (length (gr_edges input))) 1 1
      then Inl SemBudget
      else
     rbind (collect_results build_node (gr_nodes input)) (\<lambda>nodes.
     rbind (collect_results build_edge (gr_edges input)) (\<lambda>edges.
     rbind (collect_results sem_text (gr_unknowns input)) (\<lambda>unknowns.
     rbind (collect_results sem_text (gr_contradictions input)) (\<lambda>contradictions.
       let snapshot = \<lparr>ss_schema_version = SCHEMA_VERSION, ss_ontology_version = gs_ontology_version snapper,
         ss_subject = gs_subject snapper, ss_cut = tcut,
         ss_nodes = sort_key (\<lambda>n. as_str (sn_id n)) nodes,
         ss_edges = sort_key edge_key edges,
         ss_contracts = sort_key (to_hex (x_hex_encode x)) (gr_contracts input),
         ss_evidence_roots = sort_key (to_hex (x_hex_encode x)) (gr_evidence_roots input),
         ss_completeness = Complete,
         ss_unknowns = sort_key as_str unknowns,
         ss_contradictions = sort_key as_str contradictions,
         ss_snapshot_id = snapshot_id, ss_digest = digest_sha256 (x_sha256 x) []\<rparr> in
     rbind (snapshot_compute_digest x snapshot) (\<lambda>d. Inr (snapshot\<lparr>ss_digest := d\<rparr>)))))))"

definition nodes_by_id :: "SemanticNode list \<Rightarrow> (string, SemanticNode) btree_map" where
  "nodes_by_id nodes = bt_collect (map (\<lambda>n. (as_str (sn_id n), n)) nodes)"

definition independent_snapshot_digest :: "'x external_scheme \<Rightarrow> SemanticSnapshotV1 \<Rightarrow> (SemanticError, Digest) result" where
  "independent_snapshot_digest x s =
     snapshot_digest x (UnsignedSnapshot.truncate (s\<lparr>ss_nodes := map snd (nodes_by_id (ss_nodes s))\<rparr>))"

section \<open>Diffs\<close>

definition op_rank :: "DiffOpKind \<Rightarrow> nat" where
  "op_rank k =
     (case k of OpRemove \<Rightarrow> 0 | OpAdd \<Rightarrow> 1 | OpModify \<Rightarrow> 2 | OpMove \<Rightarrow> 3 | OpRebind \<Rightarrow> 4 | OpSplit \<Rightarrow> 5 | OpMerge \<Rightarrow> 6
      | OpContractChange \<Rightarrow> 7 | OpUnknown \<Rightarrow> 8)"

definition node_change :: "Digest list \<Rightarrow> (string, SemanticNode) btree_map \<Rightarrow> string \<times> SemanticNode \<Rightarrow> DiffOperation list" where
  "node_change evidence after_nodes entry = (case entry of (entity, node) \<Rightarrow>
     (case bt_get after_nodes entity of
        None \<Rightarrow> [\<lparr>op_kind = OpRemove, op_entity_id = sn_id node, op_before = Some (sn_digest node), op_after = None,
          op_compatibility = UnknownClass, op_evidence = evidence\<rparr>]
      | Some next \<Rightarrow>
          if sn_digest next \<noteq> sn_digest node
          then [\<lparr>op_kind = OpModify, op_entity_id = sn_id node, op_before = Some (sn_digest node), op_after = Some (sn_digest next),
            op_compatibility = UnknownClass, op_evidence = evidence\<rparr>]
          else []))"

definition node_addition :: "Digest list \<Rightarrow> (string, SemanticNode) btree_map \<Rightarrow> string \<times> SemanticNode \<Rightarrow> DiffOperation list" where
  "node_addition evidence before_nodes entry = (case entry of (entity, node) \<Rightarrow>
     if bt_get before_nodes entity = None
     then [\<lparr>op_kind = OpAdd, op_entity_id = sn_id node, op_before = None, op_after = Some (sn_digest node),
       op_compatibility = UnknownClass, op_evidence = evidence\<rparr>]
     else [])"

record MoveState =
  mv_used_adds :: "nat set"
  mv_drop_set :: "nat set"
  mv_moves :: "DiffOperation list"

definition find_add :: "DiffOperation list \<Rightarrow> nat set \<Rightarrow> Digest \<Rightarrow> (nat \<times> DiffOperation) option" where
  "find_add operations used digest =
     find (\<lambda>(idx, add). op_kind add = OpAdd \<and> op_after add = Some digest \<and> idx \<notin> used) (enumerate 0 operations)"

definition classify_move :: "DiffOperation list \<Rightarrow> MoveState \<Rightarrow> nat \<times> DiffOperation \<Rightarrow> MoveState" where
  "classify_move operations st entry = (case entry of (remove_idx, op) \<Rightarrow>
     if op_kind op \<noteq> OpRemove then st
     else case op_before op of
       None \<Rightarrow> st
     | Some digest \<Rightarrow>
         (case find_add operations (mv_used_adds st) digest of
            None \<Rightarrow> st
          | Some (add_idx, add) \<Rightarrow>
              \<lparr>mv_used_adds = insert add_idx (mv_used_adds st),
               mv_drop_set = insert add_idx (insert remove_idx (mv_drop_set st)),
               mv_moves = mv_moves st @ [\<lparr>op_kind = OpMove, op_entity_id = op_entity_id add, op_before = op_before op,
                 op_after = op_after add, op_compatibility = Backward, op_evidence = op_evidence add\<rparr>]\<rparr>))"

definition classify_moves :: "DiffOperation list \<Rightarrow> DiffOperation list" where
  "classify_moves operations =
     (let st = foldl (classify_move operations) \<lparr>mv_used_adds = {}, mv_drop_set = {}, mv_moves = []\<rparr> (enumerate 0 operations) in
      if mv_moves st = [] then operations
      else map snd (filter (\<lambda>(idx, _). idx \<notin> mv_drop_set st) (enumerate 0 operations)) @ mv_moves st)"

definition first_of :: "'a list \<Rightarrow> 'a option" where
  "first_of xs = (case xs of [] \<Rightarrow> None | v # _ \<Rightarrow> Some v)"

definition op_key :: "DiffOperation \<Rightarrow> nat \<times> string" where
  "op_key op = (op_rank (op_kind op), as_str (op_entity_id op))"

definition node_operations :: "SemanticSnapshotV1 \<Rightarrow> SemanticSnapshotV1 \<Rightarrow> DiffOperation list" where
  "node_operations before after =
     (let before_nodes = nodes_by_id (ss_nodes before); after_nodes = nodes_by_id (ss_nodes after) in
      concat (map (node_change (ss_evidence_roots after) after_nodes) before_nodes) @
      concat (map (node_addition (ss_evidence_roots after) before_nodes) after_nodes))"

definition diff_operations :: "SemanticSnapshotV1 \<Rightarrow> SemanticSnapshotV1 \<Rightarrow> DiffPolicy \<Rightarrow> (SemanticError, DiffOperation list) result" where
  "diff_operations before after policy =
     (let operations = node_operations before after;
          operations = (if dp_detect_moves policy then classify_moves operations else operations) in
      rbind (if ss_contracts before \<noteq> ss_contracts after
             then rbind (sem_text ''contracts'') (\<lambda>entity.
               Inr (operations @ [\<lparr>op_kind = OpContractChange, op_entity_id = entity, op_before = first_of (ss_contracts before),
                 op_after = first_of (ss_contracts after), op_compatibility = UnknownClass, op_evidence = ss_evidence_roots after\<rparr>]))
             else Inr operations) (\<lambda>operations. Inr (sort_key op_key operations)))"

definition independent_diff_digest :: "'x external_scheme \<Rightarrow> SemanticDiff \<Rightarrow> (SemanticError, Digest) result" where
  "independent_diff_digest x d = map_err SemCore (of_canonical_cbor (x_sha256 x) diff_value (UnsignedDiff.truncate d))"

definition diff_bind :: "'x external_scheme \<Rightarrow> SemanticDiff \<Rightarrow> (SemanticError, SemanticDiff) result" where
  "diff_bind x d =
     rbind (map_err SemCore (of_canonical_cbor (x_sha256 x) diff_value (UnsignedDiff.truncate d))) (\<lambda>digest. Inr (d\<lparr>sd_digest := digest\<rparr>))"

definition semantic_diff :: "'x external_scheme \<Rightarrow> SemanticSnapshotV1 \<Rightarrow> SemanticSnapshotV1 \<Rightarrow> DiffPolicy \<Rightarrow> Uuid \<Rightarrow>
    (SemanticError, SemanticDiff) result" where
  "semantic_diff x before after policy diff_id =
     rbind (snapshot_compute_digest x before) (\<lambda>before_digest.
       if before_digest \<noteq> ss_digest before then Inl (SemProtocol ''snapshot digest mismatch'')
       else
     rbind (snapshot_compute_digest x after) (\<lambda>after_digest.
       if after_digest \<noteq> ss_digest after then Inl (SemProtocol ''snapshot digest mismatch'')
       else
     rbind (diff_operations before after policy) (\<lambda>operations.
       diff_bind x \<lparr>sd_schema_version = SCHEMA_VERSION, sd_before_digest = ss_digest before, sd_after_digest = ss_digest after,
         sd_operations = operations, sd_diff_id = diff_id, sd_digest = digest_sha256 (x_sha256 x) []\<rparr>)))"

section \<open>Snapshots do not depend on the order of the input\<close>

lemma sort_key_mset:
  "inj_on f (set xs) \<Longrightarrow> mset xs = mset ys \<Longrightarrow> sort_key f xs = sort_key f ys"
  by (rule sort_key_inj_key_eq) simp_all

lemma collect_results_mset:
  fixes f :: "'a \<Rightarrow> ('e, 'b) result"
  assumes "mset xs = mset ys"
  shows "rel_sum (\<lambda>_ _. True) (\<lambda>a b. mset a = mset b) (collect_results f xs) (collect_results f ys)"
proof -
  have iff: "collect_results f zs = Inr vs \<longleftrightarrow> map f zs = map Inr vs" for zs vs
    by (induction zs arbitrary: vs) (auto simp: rbind_Inr_iff map_eq_Cons_conv Cons_eq_map_conv)
  have one: "\<exists>vs. collect_results f ys = Inr vs \<and> mset us = mset vs" if "mset xs = mset ys" "collect_results f xs = Inr us" for xs ys us
  proof -
    have "map f xs = map Inr us" using that(2) by (simp add: iff)
    then have e: "image_mset f (mset ys) = image_mset Inr (mset us)" using that(1) by (metis mset_map)
    have "\<forall>y \<in> set ys. \<exists>v. f y = Inr v"
    proof
      fix y assume "y \<in> set ys"
      then have "f y \<in># image_mset f (mset ys)" by simp
      then show "\<exists>v. f y = Inr v" unfolding e by auto
    qed
    then obtain g where g: "\<forall>y \<in> set ys. f y = Inr (g y)" by metis
    then have m: "map f ys = map Inr (map g ys)" by simp
    have unwrap: "image_mset projr (image_mset Inr M) = M" for M :: "'b multiset" by (simp add: multiset.map_comp comp_def)
    have "image_mset f (mset ys) = image_mset Inr (mset (map g ys))" using arg_cong [OF m, of mset] by (simp add: multiset.map_comp)
    then have "image_mset (Inr :: 'b \<Rightarrow> ('e, 'b) result) (mset us) = image_mset Inr (mset (map g ys))" using e by simp
    from arg_cong [OF this, of "image_mset projr"] have "mset us = mset (map g ys)" unfolding unwrap .
    with m show ?thesis by (intro exI [of _ "map g ys"]) (simp add: iff del: map_map)
  qed
  show ?thesis
    using one [OF assms] one [OF assms [symmetric]]
    by (cases "collect_results f xs"; cases "collect_results f ys") (fastforce, fastforce, fastforce, fastforce)
qed

definition same_graph :: "SemanticGraph \<Rightarrow> SemanticGraph \<Rightarrow> bool" where
  "same_graph g h \<longleftrightarrow> gr_nodes g = gr_nodes h \<and> mset (gr_edges g) = mset (gr_edges h) \<and>
     mset (gr_contracts g) = mset (gr_contracts h) \<and> mset (gr_evidence_roots g) = mset (gr_evidence_roots h) \<and>
     mset (gr_unknowns g) = mset (gr_unknowns h) \<and> mset (gr_contradictions g) = mset (gr_contradictions h)"

lemma snapshot_same_graph:
  assumes "same_graph g h" "inj (x_hex_encode x)" "graph_snapshot x p g c b i = Inr s"
  shows "graph_snapshot x p h c b i = Inr s"
proof -
  note g = assms(1) [unfolded same_graph_def]
  have len: "length (gr_edges g) = length (gr_edges h)" using g mset_eq_length by blast
  have hex: "inj_on (to_hex (x_hex_encode x)) A" for A
    using assms(2) by (auto simp: inj_on_def to_hex_def inj_def intro: Digest.expand)
  have texts: "inj_on as_str A" for A by (auto simp: inj_on_def as_str_inject)
  have key: "inj_on edge_key A" for A by (auto simp: inj_on_def edge_key_def as_str_inject intro: SemanticEdge.equality)
  obtain nodes edges us cs where parts: "collect_results build_node (gr_nodes g) = Inr nodes" "collect_results build_edge (gr_edges g) = Inr edges"
    "collect_results sem_text (gr_unknowns g) = Inr us" "collect_results sem_text (gr_contradictions g) = Inr cs"
    using assms(3) by (auto simp: graph_snapshot_def rbind_Inr_iff split: if_split_asm)
  from collect_results_mset [of "gr_edges g" "gr_edges h" build_edge] g parts(2)
  obtain edges' where e: "collect_results build_edge (gr_edges h) = Inr edges'" "mset edges = mset edges'"
    by (cases "collect_results build_edge (gr_edges h)") auto
  from collect_results_mset [of "gr_unknowns g" "gr_unknowns h" sem_text] g parts(3)
  obtain us' where u: "collect_results sem_text (gr_unknowns h) = Inr us'" "mset us = mset us'"
    by (cases "collect_results sem_text (gr_unknowns h)") auto
  from collect_results_mset [of "gr_contradictions g" "gr_contradictions h" sem_text] g parts(4)
  obtain cs' where k: "collect_results sem_text (gr_contradictions h) = Inr cs'" "mset cs = mset cs'"
    by (cases "collect_results sem_text (gr_contradictions h)") auto
  have "sort_key edge_key edges = sort_key edge_key edges'" "sort_key as_str us = sort_key as_str us'" "sort_key as_str cs = sort_key as_str cs'"
    "sort_key (to_hex (x_hex_encode x)) (gr_contracts g) = sort_key (to_hex (x_hex_encode x)) (gr_contracts h)"
    "sort_key (to_hex (x_hex_encode x)) (gr_evidence_roots g) = sort_key (to_hex (x_hex_encode x)) (gr_evidence_roots h)"
    using e(2) u(2) k(2) g by (auto intro!: sort_key_mset hex texts key)
  note sorts = this
  have "graph_snapshot x p h c b i = graph_snapshot x p g c b i"
    unfolding graph_snapshot_def using parts e(1) u(1) k(1) g len by (simp add: sorts)
  with assms(3) show ?thesis by simp
qed

lemma build_node_id: "build_node n = Inr m \<Longrightarrow> as_str (sn_id m) = fst n"
  by (auto simp: build_node_def sem_text_def result_simps bounded_text_iff split: prod.splits)

lemma nodes_by_id_sorted:
  assumes "bt_wf (map (\<lambda>n. (as_str (sn_id n), n)) nodes)"
  shows "map snd (nodes_by_id nodes) = nodes"
  using assms by (simp add: nodes_by_id_def bt_collect_sorted comp_def)

lemma snapshot_independent:
  assumes "bt_wf (gr_nodes g)" "graph_snapshot x p g c b i = Inr s"
  shows "snapshot_compute_digest x s = Inr (ss_digest s) \<and> independent_snapshot_digest x s = Inr (ss_digest s)"
proof -
  obtain nodes where n: "collect_results build_node (gr_nodes g) = Inr nodes" "ss_nodes s = sort_key (\<lambda>n. as_str (sn_id n)) nodes"
    and d: "snapshot_compute_digest x s = Inr (ss_digest s)"
    using assms(2) by (auto simp: graph_snapshot_def rbind_Inr_iff Let_def snapshot_compute_digest_def UnsignedSnapshot.truncate_def split: if_split_asm)
  have ids: "map (\<lambda>n. as_str (sn_id n)) nodes = map fst (gr_nodes g)"
    using n(1) unfolding collect_results_Inr_iff by (induction rule: list_all2_induct) (auto dest: build_node_id)
  then have wf: "sorted_wrt (<) (map (\<lambda>n. as_str (sn_id n)) nodes)" using assms(1) by (simp add: bt_wf_def)
  then have "sorted (map (\<lambda>n. as_str (sn_id n)) nodes)" by (rule strict_sorted_imp_sorted)
  then have "ss_nodes s = nodes" using n(2) by (simp add: sort_key_id_if_sorted)
  then have "map snd (nodes_by_id (ss_nodes s)) = ss_nodes s"
    using wf by (intro nodes_by_id_sorted) (simp add: bt_wf_def comp_def)
  with d show ?thesis by (simp add: independent_snapshot_digest_def snapshot_compute_digest_def)
qed

section \<open>What a diff says\<close>

text \<open>The nodes of a snapshot as a map from identifiers to digests, and the effect of operations on such a map.\<close>

definition digests_of :: "SemanticSnapshotV1 \<Rightarrow> string \<rightharpoonup> Digest" where
  "digests_of s k = map_option sn_digest (bt_get (nodes_by_id (ss_nodes s)) k)"

definition is_node_op :: "DiffOperation \<Rightarrow> bool" where
  "is_node_op op \<longleftrightarrow> op_kind op = OpRemove \<or> op_kind op = OpAdd \<or> op_kind op = OpModify"

definition patch :: "DiffOperation list \<Rightarrow> (string \<rightharpoonup> Digest) \<Rightarrow> (string \<rightharpoonup> Digest)" where
  "patch ops m = foldl (\<lambda>m op. if is_node_op op then m(as_str (op_entity_id op) := op_after op) else m) m ops"

lemma patch_miss: "\<forall>op \<in> set ops. is_node_op op \<longrightarrow> as_str (op_entity_id op) \<noteq> k \<Longrightarrow> patch ops m k = m k"
  unfolding patch_def by (induction ops arbitrary: m) auto

lemma patch_hit:
  assumes "op \<in> set ops" "is_node_op op" "as_str (op_entity_id op) = k"
    and "\<forall>o' \<in> set ops. is_node_op o' \<longrightarrow> as_str (op_entity_id o') = k \<longrightarrow> op_after o' = v"
  shows "patch ops m k = v"
  using assms
proof (induction ops arbitrary: m rule: rev_induct)
  case (snoc o' ops)
  show ?case
  proof (cases "is_node_op o' \<and> as_str (op_entity_id o') = k")
    case True
    with snoc.prems(4) show ?thesis by (simp add: patch_def)
  next
    case False
    with snoc.prems have "op \<in> set ops" by auto
    then have "patch ops m k = v" using snoc.prems by (intro snoc.IH) auto
    moreover have "patch (ops @ [o']) m k = patch ops m k" using False by (auto simp: patch_def)
    ultimately show ?thesis by simp
  qed
qed simp

lemma nodes_by_id_id: "bt_get (nodes_by_id nodes) k = Some n \<Longrightarrow> as_str (sn_id n) = k"
  using set_bt_collect [of "map (\<lambda>n. (as_str (sn_id n), n)) nodes"] by (auto simp: nodes_by_id_def dest!: map_of_SomeD)

definition removal :: "Digest list \<Rightarrow> SemanticNode \<Rightarrow> DiffOperation" where
  "removal ev n = \<lparr>op_kind = OpRemove, op_entity_id = sn_id n, op_before = Some (sn_digest n), op_after = None,
     op_compatibility = UnknownClass, op_evidence = ev\<rparr>"

definition addition :: "Digest list \<Rightarrow> SemanticNode \<Rightarrow> DiffOperation" where
  "addition ev n = \<lparr>op_kind = OpAdd, op_entity_id = sn_id n, op_before = None, op_after = Some (sn_digest n),
     op_compatibility = UnknownClass, op_evidence = ev\<rparr>"

definition modification :: "Digest list \<Rightarrow> SemanticNode \<Rightarrow> SemanticNode \<Rightarrow> DiffOperation" where
  "modification ev n m = \<lparr>op_kind = OpModify, op_entity_id = sn_id n, op_before = Some (sn_digest n), op_after = Some (sn_digest m),
     op_compatibility = UnknownClass, op_evidence = ev\<rparr>"

lemma node_operations_iff:
  fixes before after :: SemanticSnapshotV1
  defines "B \<equiv> bt_get (nodes_by_id (ss_nodes before))" and "A \<equiv> bt_get (nodes_by_id (ss_nodes after))"
  shows "op \<in> set (node_operations before after) \<longleftrightarrow>
    (\<exists>k n. as_str (sn_id n) = k \<and> B k = Some n \<and> A k = None \<and> op = removal (ss_evidence_roots after) n) \<or>
    (\<exists>k n m. as_str (sn_id n) = k \<and> B k = Some n \<and> A k = Some m \<and> sn_digest m \<noteq> sn_digest n \<and> op = modification (ss_evidence_roots after) n m) \<or>
    (\<exists>k n. as_str (sn_id n) = k \<and> B k = None \<and> A k = Some n \<and> op = addition (ss_evidence_roots after) n)"
proof -
  have entry: "(k, n) \<in> set (nodes_by_id ns) \<longleftrightarrow> bt_get (nodes_by_id ns) k = Some n" for k n ns
    using bt_wf_distinct [of "nodes_by_id ns"] by (simp add: nodes_by_id_def map_of_eq_Some_iff)
  have change: "op \<in> set (node_change ev an (k, n)) \<longleftrightarrow> (bt_get an k = None \<and> op = removal ev n) \<or>
      (\<exists>m. bt_get an k = Some m \<and> sn_digest m \<noteq> sn_digest n \<and> op = modification ev n m)" for ev an k n
    by (auto simp: node_change_def removal_def modification_def split: option.splits)
  have add: "op \<in> set (node_addition ev bn (k, n)) \<longleftrightarrow> bt_get bn k = None \<and> op = addition ev n" for ev bn k n
    by (auto simp: node_addition_def addition_def)
  have "op \<in> set (node_operations before after) \<longleftrightarrow>
    (\<exists>(k, n) \<in> set (nodes_by_id (ss_nodes before)). op \<in> set (node_change (ss_evidence_roots after) (nodes_by_id (ss_nodes after)) (k, n))) \<or>
    (\<exists>(k, n) \<in> set (nodes_by_id (ss_nodes after)). op \<in> set (node_addition (ss_evidence_roots after) (nodes_by_id (ss_nodes before)) (k, n)))"
    by (auto simp: node_operations_def Let_def)
  also have "\<dots> \<longleftrightarrow> (\<exists>k n. B k = Some n \<and> op \<in> set (node_change (ss_evidence_roots after) (nodes_by_id (ss_nodes after)) (k, n))) \<or>
    (\<exists>k n. A k = Some n \<and> op \<in> set (node_addition (ss_evidence_roots after) (nodes_by_id (ss_nodes before)) (k, n)))"
    unfolding A_def B_def by (simp add: Bex_def entry split_paired_Ex)
  finally show ?thesis unfolding change add A_def B_def using nodes_by_id_id by blast
qed

lemmas op_shapes = removal_def addition_def modification_def is_node_op_def

lemma patch_node_operations:
  assumes "set (filter is_node_op ops) = set (node_operations before after)"
  shows "patch ops (digests_of before) = digests_of after"
proof
  fix k
  let ?B = "bt_get (nodes_by_id (ss_nodes before)) k" and ?A = "bt_get (nodes_by_id (ss_nodes after)) k"
  have uniq: "op \<in> set ops \<Longrightarrow> is_node_op op \<Longrightarrow> as_str (op_entity_id op) = k \<Longrightarrow>
      op_after op = digests_of after k \<and> digests_of before k \<noteq> digests_of after k" for op
  proof -
    assume op: "op \<in> set ops" "is_node_op op" "as_str (op_entity_id op) = k"
    then have "op \<in> set (node_operations before after)" using assms by auto
    then show ?thesis using op(3) unfolding node_operations_iff
      by (auto simp: op_shapes digests_of_def)
  qed
  show "patch ops (digests_of before) k = digests_of after k"
  proof (cases "\<exists>op \<in> set ops. is_node_op op \<and> as_str (op_entity_id op) = k")
    case True
    then obtain op where "op \<in> set ops" "is_node_op op" "as_str (op_entity_id op) = k" by blast
    then show ?thesis using uniq by (intro patch_hit) blast+
  next
    case False
    then have "patch ops (digests_of before) k = digests_of before k" by (intro patch_miss) blast
    moreover have "digests_of before k = digests_of after k"
    proof (rule ccontr)
      assume "digests_of before k \<noteq> digests_of after k"
      then consider n where "?B = Some n" "?A = None" | n where "?B = None" "?A = Some n"
        | n m where "?B = Some n" "?A = Some m" "sn_digest m \<noteq> sn_digest n"
        by (cases ?B; cases ?A) (auto simp: digests_of_def)
      then have "\<exists>op. op \<in> set (node_operations before after) \<and> as_str (op_entity_id op) = k"
      proof cases
        case (1 n)
        then have i: "as_str (sn_id n) = k" using nodes_by_id_id by blast
        then have "removal (ss_evidence_roots after) n \<in> set (node_operations before after)" unfolding node_operations_iff using 1 by blast
        then show ?thesis using i by (metis removal_def DiffOperation.select_convs(2))
      next
        case (2 n)
        then have i: "as_str (sn_id n) = k" using nodes_by_id_id by blast
        then have "addition (ss_evidence_roots after) n \<in> set (node_operations before after)" unfolding node_operations_iff using 2 by blast
        then show ?thesis using i by (metis addition_def DiffOperation.select_convs(2))
      next
        case (3 n m)
        then have i: "as_str (sn_id n) = k" using nodes_by_id_id by blast
        then have "modification (ss_evidence_roots after) n m \<in> set (node_operations before after)" unfolding node_operations_iff using 3 by blast
        then show ?thesis using i by (metis modification_def DiffOperation.select_convs(2))
      qed
      with assms False show False by auto
    qed
    ultimately show ?thesis by simp
  qed
qed

section \<open>Moves\<close>

definition move_of :: "DiffOperation \<Rightarrow> DiffOperation \<Rightarrow> DiffOperation" where
  "move_of r a = \<lparr>op_kind = OpMove, op_entity_id = op_entity_id a, op_before = op_before r, op_after = op_after a,
     op_compatibility = Backward, op_evidence = op_evidence a\<rparr>"

definition matches :: "DiffOperation \<Rightarrow> DiffOperation \<Rightarrow> bool" where
  "matches r a \<longleftrightarrow> op_kind r = OpRemove \<and> op_kind a = OpAdd \<and> op_before r \<noteq> None \<and> op_before r = op_after a"

definition pairing :: "DiffOperation list \<Rightarrow> (nat \<times> nat) list \<Rightarrow> bool" where
  "pairing ops ps \<longleftrightarrow> distinct (map fst ps) \<and> distinct (map snd ps) \<and>
     (\<forall>(r, a) \<in> set ps. r < length ops \<and> a < length ops \<and> matches (ops ! r) (ops ! a))"

definition moves_upto :: "DiffOperation list \<Rightarrow> nat \<Rightarrow> MoveState \<Rightarrow> (nat \<times> nat) list \<Rightarrow> bool" where
  "moves_upto ops k st ps \<longleftrightarrow>
     pairing ops ps \<and> (\<forall>(r, a) \<in> set ps. r < k) \<and> mv_used_adds st = snd ` set ps \<and>
     mv_drop_set st = fst ` set ps \<union> snd ` set ps \<and> mv_moves st = map (\<lambda>(r, a). move_of (ops ! r) (ops ! a)) ps \<and>
     (\<forall>r < k. \<forall>a < length ops. r < length ops \<longrightarrow> matches (ops ! r) (ops ! a) \<longrightarrow> r \<in> fst ` set ps \<or> a \<in> snd ` set ps)"

lemma find_add_Some:
  assumes "find_add ops used d = Some (a, add)"
  shows "a < length ops \<and> add = ops ! a \<and> op_kind add = OpAdd \<and> op_after add = Some d \<and> a \<notin> used"
proof -
  from assms [unfolded find_add_def find_Some_iff] obtain i where i: "i < length ops" "enumerate 0 ops ! i = (a, add)"
    "op_kind add = OpAdd \<and> op_after add = Some d \<and> a \<notin> used" by auto
  then show ?thesis by (auto simp: nth_enumerate_eq)
qed

lemma find_add_None: "find_add ops used d = None \<Longrightarrow> a < length ops \<Longrightarrow> op_kind (ops ! a) = OpAdd \<Longrightarrow> op_after (ops ! a) = Some d \<Longrightarrow> a \<in> used"
  by (auto simp: find_add_def find_None_iff in_set_enumerate_eq)

lemma classify_step:
  assumes "moves_upto ops k st ps" "k < length ops"
  shows "\<exists>ps'. moves_upto ops (Suc k) (classify_move ops st (k, ops ! k)) ps'"
proof (cases "\<exists>d a add. op_kind (ops ! k) = OpRemove \<and> op_before (ops ! k) = Some d \<and> find_add ops (mv_used_adds st) d = Some (a, add)")
  case True
  then obtain d a add where f: "op_kind (ops ! k) = OpRemove" "op_before (ops ! k) = Some d" "find_add ops (mv_used_adds st) d = Some (a, add)" by blast
  note add = find_add_Some [OF f(3)]
  have st: "classify_move ops st (k, ops ! k) = \<lparr>mv_used_adds = insert a (mv_used_adds st), mv_drop_set = insert a (insert k (mv_drop_set st)),
      mv_moves = mv_moves st @ [move_of (ops ! k) (ops ! a)]\<rparr>"
    using f add by (simp add: classify_move_def move_of_def)
  have k: "k \<notin> fst ` set ps" using assms(1) by (auto simp: moves_upto_def)
  have "pairing ops (ps @ [(k, a)])"
    using assms k add f by (auto simp: moves_upto_def pairing_def matches_def)
  then have "moves_upto ops (Suc k) (classify_move ops st (k, ops ! k)) (ps @ [(k, a)])"
    using assms by (auto simp: moves_upto_def st less_Suc_eq)
  then show ?thesis by blast
next
  case False
  then have st: "classify_move ops st (k, ops ! k) = st" by (auto simp: classify_move_def split: option.splits prod.splits)
  have "a \<in> snd ` set ps" if "a < length ops" "matches (ops ! k) (ops ! a)" for a
  proof -
    from that(2) obtain d where d: "op_kind (ops ! k) = OpRemove" "op_before (ops ! k) = Some d" "op_kind (ops ! a) = OpAdd" "op_after (ops ! a) = Some d"
      by (cases "op_after (ops ! a)") (auto simp: matches_def)
    with False have "find_add ops (mv_used_adds st) d = None" by (cases "find_add ops (mv_used_adds st) d") auto
    from find_add_None [OF this that(1) d(3,4)] assms(1) show ?thesis by (simp add: moves_upto_def)
  qed
  then have "moves_upto ops (Suc k) st ps" using assms(1) by (auto simp: moves_upto_def less_Suc_eq)
  then show ?thesis by (auto simp: st)
qed

lemma classify_loop:
  "k \<le> length ops \<Longrightarrow> \<exists>ps. moves_upto ops k (foldl (classify_move ops) \<lparr>mv_used_adds = {}, mv_drop_set = {}, mv_moves = []\<rparr>
     (map (\<lambda>i. (i, ops ! i)) [0..<k])) ps"
proof (induction k)
  case 0
  have "moves_upto ops 0 \<lparr>mv_used_adds = {}, mv_drop_set = {}, mv_moves = []\<rparr> []" by (simp add: moves_upto_def pairing_def)
  then show ?case by auto
next
  case (Suc k)
  then obtain ps where "moves_upto ops k (foldl (classify_move ops) \<lparr>mv_used_adds = {}, mv_drop_set = {}, mv_moves = []\<rparr>
     (map (\<lambda>i. (i, ops ! i)) [0..<k])) ps" by auto
  from classify_step [OF this] Suc.prems show ?case by simp
qed

lemma enumerate_map: "enumerate 0 ops = map (\<lambda>i. (i, ops ! i)) [0..<length ops]"
  by (rule nth_equalityI) (simp_all add: nth_enumerate_eq)

lemma mset_split: "mset xs = mset (filter (\<lambda>i. i \<notin> D) xs) + mset (filter (\<lambda>i. i \<in> D) xs)"
  by (induction xs) auto

lemma kept_mset:
  assumes "pairing ops ps"
  shows "mset (map snd (filter (\<lambda>(i, _). i \<notin> fst ` set ps \<union> snd ` set ps) (enumerate 0 ops))) +
    mset (map (\<lambda>(r, a). ops ! r) ps) + mset (map (\<lambda>(r, a). ops ! a) ps) = mset ops"
proof -
  let ?D = "fst ` set ps \<union> snd ` set ps" and ?n = "length ops"
  have kinds: "matches (ops ! r) (ops ! a)" "r < ?n" "a < ?n" if "(r, a) \<in> set ps" for r a
    using assms that by (auto simp: pairing_def)
  have "fst ` set ps \<inter> snd ` set ps = {}"
  proof (rule ccontr)
    assume "fst ` set ps \<inter> snd ` set ps \<noteq> {}"
    then obtain i a r where "(i, a) \<in> set ps" "(r, i) \<in> set ps" by auto
    with kinds(1) [of i a] kinds(1) [of r i] show False by (simp add: matches_def)
  qed
  then have d: "distinct (map fst ps @ map snd ps)" using assms by (auto simp: pairing_def)
  have "set (filter (\<lambda>i. i \<in> ?D) [0..<?n]) = set (map fst ps @ map snd ps)" using kinds(2,3) by force
  then have in_D: "mset (filter (\<lambda>i. i \<in> ?D) [0..<?n]) = mset (map fst ps @ map snd ps)"
    using d by (metis distinct_filter distinct_upt set_eq_iff_mset_eq_distinct)
  have kept: "map snd (filter (\<lambda>(i, _). i \<notin> ?D) (enumerate 0 ops)) = map ((!) ops) (filter (\<lambda>i. i \<notin> ?D) [0..<?n])"
    unfolding enumerate_map by (simp add: filter_map comp_def)
  have "mset ops = image_mset ((!) ops) (mset [0..<?n])" by (metis map_nth mset_map)
  also have "mset [0..<?n] = mset (filter (\<lambda>i. i \<notin> ?D) [0..<?n]) + mset (filter (\<lambda>i. i \<in> ?D) [0..<?n])"
    by (rule mset_split)
  finally show ?thesis unfolding kept in_D by (simp add: multiset.map_comp comp_def case_prod_unfold)
qed

lemma classify_moves_matching:
  "\<exists>ps. pairing ops ps \<and>
     mset (classify_moves ops) + mset (map (\<lambda>(r, a). ops ! r) ps) + mset (map (\<lambda>(r, a). ops ! a) ps) =
       mset ops + mset (map (\<lambda>(r, a). move_of (ops ! r) (ops ! a)) ps) \<and>
     (\<forall>r \<in> set (classify_moves ops). \<forall>a \<in> set (classify_moves ops). \<not> matches r a)"
proof -
  let ?st = "foldl (classify_move ops) \<lparr>mv_used_adds = {}, mv_drop_set = {}, mv_moves = []\<rparr> (enumerate 0 ops)"
  obtain ps where ps: "moves_upto ops (length ops) ?st ps" using classify_loop [of "length ops" ops] by (auto simp: enumerate_map)
  then have pair: "pairing ops ps" and moves: "mv_moves ?st = map (\<lambda>(r, a). move_of (ops ! r) (ops ! a)) ps"
    and D: "mv_drop_set ?st = fst ` set ps \<union> snd ` set ps" by (simp_all add: moves_upto_def)
  let ?kept = "map snd (filter (\<lambda>(i, _). i \<notin> fst ` set ps \<union> snd ` set ps) (enumerate 0 ops))"
  have "?kept = ops" if "ps = []" using that by (simp add: case_prod_unfold)
  then have c: "classify_moves ops = ?kept @ map (\<lambda>(r, a). move_of (ops ! r) (ops ! a)) ps"
    unfolding classify_moves_def Let_def moves D by (cases ps) simp_all
  have max: "\<not> matches r a" if "r \<in> set (classify_moves ops)" "a \<in> set (classify_moves ops)" for r a
  proof
    assume m: "matches r a"
    have kept: "\<exists>i < length ops. i \<notin> fst ` set ps \<union> snd ` set ps \<and> v = ops ! i" if "v \<in> set (classify_moves ops)" "op_kind v \<noteq> OpMove" for v
      using that unfolding c by (auto simp: move_of_def in_set_enumerate_eq)
    from kept [of r] kept [of a] that m obtain i j where ij: "i < length ops" "j < length ops" "i \<notin> fst ` set ps" "j \<notin> snd ` set ps" "r = ops ! i" "a = ops ! j"
      by (auto simp: matches_def)
    with ps m show False by (auto simp: moves_upto_def)
  qed
  have "mset (classify_moves ops) + mset (map (\<lambda>(r, a). ops ! r) ps) + mset (map (\<lambda>(r, a). ops ! a) ps) =
      (mset ?kept + mset (map (\<lambda>(r, a). ops ! r) ps) + mset (map (\<lambda>(r, a). ops ! a) ps)) + mset (map (\<lambda>(r, a). move_of (ops ! r) (ops ! a)) ps)"
    unfolding c by (simp add: ac_simps)
  with kept_mset [OF pair] max pair show ?thesis by metis
qed

section \<open>The operations of a diff\<close>

definition contract_operations :: "SemanticSnapshotV1 \<Rightarrow> SemanticSnapshotV1 \<Rightarrow> DiffOperation list" where
  "contract_operations before after =
     (if ss_contracts before \<noteq> ss_contracts after
      then [\<lparr>op_kind = OpContractChange, op_entity_id = BoundedText ''contracts'', op_before = first_of (ss_contracts before),
        op_after = first_of (ss_contracts after), op_compatibility = UnknownClass, op_evidence = ss_evidence_roots after\<rparr>]
      else [])"

lemma diff_operations_eq:
  "diff_operations before after policy = Inr (sort_key op_key
     ((if dp_detect_moves policy then classify_moves (node_operations before after) else node_operations before after) @
      contract_operations before after))"
proof -
  have "sem_text ''contracts'' = Inr (BoundedText ''contracts'')" by (simp add: sem_text_def bounded_text_literal)
  then show ?thesis by (simp add: diff_operations_def contract_operations_def Let_def)
qed

lemma semantic_diffD:
  assumes "semantic_diff x before after policy i = Inr d"
  shows "diff_operations before after policy = Inr (sd_operations d) \<and> independent_diff_digest x d = Inr (sd_digest d) \<and>
    sd_before_digest d = ss_digest before \<and> sd_after_digest d = ss_digest after"
  using assms
  by (auto simp: semantic_diff_def diff_bind_def independent_diff_digest_def result_simps UnsignedDiff.truncate_def split: if_split_asm)

lemma node_operations_kinds: "op \<in> set (node_operations before after) \<Longrightarrow> is_node_op op"
  unfolding node_operations_iff by (auto simp: op_shapes)

lemma node_operations_empty: "node_operations before after = [] \<longleftrightarrow> digests_of before = digests_of after"
proof
  assume "node_operations before after = []"
  then show "digests_of before = digests_of after"
    using patch_node_operations [of "[]" before after] by (simp add: patch_def)
next
  assume eq: "digests_of before = digests_of after"
  have "op \<notin> set (node_operations before after)" for op
  proof
    assume "op \<in> set (node_operations before after)"
    then have "digests_of before (as_str (op_entity_id op)) \<noteq> digests_of after (as_str (op_entity_id op))"
      unfolding node_operations_iff by (auto simp: digests_of_def op_shapes)
    with eq show False by simp
  qed
  then show "node_operations before after = []" by (metis list.set_intros(1) neq_Nil_conv)
qed

lemma classify_moves_empty: "classify_moves ops = [] \<longleftrightarrow> ops = []"
proof
  assume "classify_moves ops = []"
  then show "ops = []" by (auto simp: classify_moves_def Let_def split: if_split_asm)
next
  assume "ops = []"
  then show "classify_moves ops = []" by (simp add: classify_moves_def enumerate_map)
qed

lemma sort_key_Nil_iff: "sort_key f xs = [] \<longleftrightarrow> xs = []"
  by (metis length_0_conv length_sort)

lemma diff_empty:
  "diff_operations before after policy = Inr [] \<longleftrightarrow> digests_of before = digests_of after \<and> ss_contracts before = ss_contracts after"
  by (simp add: diff_operations_eq sort_key_Nil_iff classify_moves_empty node_operations_empty contract_operations_def)

lemma diff_patch:
  assumes "diff_operations before after policy = Inr ops" "\<not> dp_detect_moves policy"
  shows "patch ops (digests_of before) = digests_of after"
proof (rule patch_node_operations)
  have "set ops = set (node_operations before after) \<union> set (contract_operations before after)"
    using assms by (auto simp: diff_operations_eq)
  moreover have "\<not> is_node_op op" if "op \<in> set (contract_operations before after)" for op
    using that by (auto simp: contract_operations_def is_node_op_def split: if_split_asm)
  ultimately show "set (filter is_node_op ops) = set (node_operations before after)"
    using node_operations_kinds by auto
qed

lemma diff_moves:
  assumes "diff_operations before after policy = Inr ops" "dp_detect_moves policy"
  shows "\<exists>ps. pairing (node_operations before after) ps \<and>
    mset ops + mset (map (\<lambda>(r, a). node_operations before after ! r) ps) + mset (map (\<lambda>(r, a). node_operations before after ! a) ps) =
      mset (node_operations before after) + mset (map (\<lambda>(r, a). move_of (node_operations before after ! r) (node_operations before after ! a)) ps) +
      mset (contract_operations before after) \<and>
    (\<forall>r \<in> set ops. \<forall>a \<in> set ops. \<not> matches r a)"
proof -
  let ?ns = "node_operations before after"
  obtain ps where ps: "pairing ?ns ps"
    "mset (classify_moves ?ns) + mset (map (\<lambda>(r, a). ?ns ! r) ps) + mset (map (\<lambda>(r, a). ?ns ! a) ps) =
       mset ?ns + mset (map (\<lambda>(r, a). move_of (?ns ! r) (?ns ! a)) ps)"
    "\<forall>r \<in> set (classify_moves ?ns). \<forall>a \<in> set (classify_moves ?ns). \<not> matches r a"
    using classify_moves_matching by blast
  have ops: "mset ops = mset (classify_moves ?ns) + mset (contract_operations before after)"
    "set ops = set (classify_moves ?ns) \<union> set (contract_operations before after)"
    using assms by (auto simp: diff_operations_eq)
  have "\<not> matches r a" if "r \<in> set ops" "a \<in> set ops" for r a
  proof
    assume m: "matches r a"
    have "op_kind q = OpContractChange" if "q \<in> set (contract_operations before after)" for q
      using that by (auto simp: contract_operations_def split: if_split_asm)
    with m that have "r \<in> set (classify_moves ?ns)" "a \<in> set (classify_moves ?ns)" unfolding ops(2) by (auto simp: matches_def)
    with ps(3) m show False by blast
  qed
  moreover have "mset ops + mset (map (\<lambda>(r, a). ?ns ! r) ps) + mset (map (\<lambda>(r, a). ?ns ! a) ps) =
      (mset (classify_moves ?ns) + mset (map (\<lambda>(r, a). ?ns ! r) ps) + mset (map (\<lambda>(r, a). ?ns ! a) ps)) + mset (contract_operations before after)"
    unfolding ops(1) by (simp add: ac_simps)
  ultimately show ?thesis using ps(1,2) by metis
qed

section \<open>Concrete snapshots\<close>

definition small_node :: "string \<Rightarrow> byte \<Rightarrow> SemanticNode" where
  "small_node i d = \<lparr>sn_id = BoundedText i, sn_kind = BoundedText ''k'', sn_digest = Digest [d]\<rparr>"

definition small_snapshot :: "SemanticNode list \<Rightarrow> SemanticEdge list \<Rightarrow> SemanticSnapshotV1" where
  "small_snapshot nodes links = \<lparr>ss_schema_version = 1, ss_ontology_version = BoundedText ''o'', ss_subject = BoundedText ''s'',
     ss_cut = \<lparr>tc_valid_at = ''t'', tc_system_as_of = ''t''\<rparr>, ss_nodes = nodes, ss_edges = links, ss_contracts = [], ss_evidence_roots = [],
     ss_completeness = Complete, ss_unknowns = [], ss_contradictions = [], ss_snapshot_id = Uuid 4, ss_digest = Digest []\<rparr>"

definition small_edge :: "string \<Rightarrow> string \<Rightarrow> SemanticEdge" where
  "small_edge a b = \<lparr>sg_from = BoundedText a, sg_to = BoundedText b, sg_kind = BoundedText ''e''\<rparr>"

definition is_small_edge :: "SemanticEdge \<Rightarrow> bool" where
  "is_small_edge e \<longleftrightarrow> (\<exists>a b. e = small_edge a b \<and> length a \<le> 1 \<and> length b \<le> 1)"

lemma is_small_edge [simp]: "length a \<le> 1 \<Longrightarrow> length b \<le> 1 \<Longrightarrow> is_small_edge (small_edge a b)"
  by (auto simp: is_small_edge_def)

lemma shallow_array: "\<forall>v \<in> set vs. shallow n v \<Longrightarrow> shallow (Suc n) (JArray vs)"
  by (auto simp: shallow_def foldr_max_le)

lemma shallow_snapshot: "shallow 16 (object_of (snapshot_fields s))"
proof -
  have n: "shallow 2 (node_value v)" for v
    unfolding node_value_def numeral_2_eq_2 by (rule shallow_object) simp
  have e: "shallow 2 (edge_value v)" for v
    unfolding edge_value_def numeral_2_eq_2 by (rule shallow_object) simp
  have c: "shallow 3 (cut_value v)" for v
    unfolding cut_value_def numeral_3_eq_3 by (rule shallow_object) simp
  have "\<forall>(k, v) \<in> set (snapshot_fields s). shallow 3 v"
    using shallow_array [of "map node_value (ss_nodes s)" 2] shallow_array [of "map edge_value (ss_edges s)" 2] n e c
      shallow_array [of "map digest_value (ss_contracts s)" 2] shallow_array [of "map digest_value (ss_evidence_roots s)" 2]
      shallow_array [of "map text_value (ss_unknowns s)" 2] shallow_array [of "map text_value (ss_contradictions s)" 2]
    by (simp add: snapshot_fields_def numeral_3_eq_3)
  from shallow_mono [OF shallow_object [OF this], of 16] show ?thesis by simp
qed

lemma small_snapshot_digest:
  assumes "length nodes \<le> 2" "length links \<le> 2"
    and "\<forall>n \<in> set nodes. \<exists>i d. n = small_node i d \<and> length i \<le> 1" "\<forall>e \<in> set links. is_small_edge e"
  shows "\<exists>d. snapshot_compute_digest x (small_snapshot nodes links) = Inr d"
proof -
  let ?u = "UnsignedSnapshot.truncate (small_snapshot nodes links)"
  have nv: "size_bound (node_value (small_node i d)) \<le> 100" if "length i \<le> 1" for i d
    unfolding node_value_def by (rule order_trans [OF size_bound_object]) (use that in \<open>simp add: small_node_def text_value_def digest_value_def\<close>)
  have ev: "size_bound (edge_value (small_edge a b)) \<le> 100" if "length a \<le> 1" "length b \<le> 1" for a b
    unfolding edge_value_def by (rule order_trans [OF size_bound_object]) (use that in \<open>simp add: small_edge_def text_value_def\<close>)
  have n: "sum_list (map (\<lambda>n. size_bound (node_value n)) nodes) \<le> 200"
    using sum_list_map_le [of nodes "\<lambda>n. size_bound (node_value n)" 100] assms(1,3) nv by fastforce
  have e: "sum_list (map (\<lambda>n. size_bound (edge_value n)) links) \<le> 200"
    using sum_list_map_le [of links "\<lambda>n. size_bound (edge_value n)" 100] assms(2,4) ev unfolding is_small_edge_def by fastforce
  have c: "size_bound (cut_value \<lparr>tc_valid_at = ''t'', tc_system_as_of = ''t''\<rparr>) \<le> 100"
    unfolding cut_value_def by (rule order_trans [OF size_bound_object]) simp
  have "size_bound (object_of (snapshot_fields ?u)) \<le> 10000"
    by (rule order_trans [OF size_bound_object])
      (use n e c in \<open>simp add: snapshot_fields_def UnsignedSnapshot.truncate_def small_snapshot_def text_value_def comp_def completeness_name_def\<close>)
  with encode_shallow [OF shallow_snapshot, of ?u snapshot_value ?u] show ?thesis
    by (auto simp: snapshot_compute_digest_def snapshot_digest_def of_canonical_cbor_def snapshot_value_def MAX_FRAME_BYTES_def)
qed

lemma small_diff_binds:
  assumes "length ops \<le> 1" "\<forall>op \<in> set ops. length (as_str (op_entity_id op)) \<le> 1 \<and> op_evidence op = [] \<and>
      pred_option (\<lambda>d. length (as_digest_bytes d) \<le> 1) (op_before op) \<and> pred_option (\<lambda>d. length (as_digest_bytes d) \<le> 1) (op_after op)"
    and "size_bound (digest_value a) \<le> 10000" "size_bound (digest_value b) \<le> 10000"
  shows "\<exists>d. diff_bind x \<lparr>sd_schema_version = SCHEMA_VERSION, sd_before_digest = a, sd_after_digest = b, sd_operations = ops,
    sd_diff_id = i, sd_digest = z\<rparr> = Inr d"
proof -
  let ?d = "\<lparr>sd_schema_version = SCHEMA_VERSION, sd_before_digest = a, sd_after_digest = b, sd_operations = ops\<rparr> :: UnsignedDiff"
  let ?es = "[(''schema_version'', JNumber (PosInt (ucast (sd_schema_version ?d)))), (''before_digest'', digest_value (sd_before_digest ?d)),
      (''after_digest'', digest_value (sd_after_digest ?d)), (''operations'', JArray (map operation_value (sd_operations ?d)))]"
  have names: "length (op_kind_name k) \<le> 20" "length (compatibility_name c) \<le> 20" for k c
    by (cases k; simp add: op_kind_name_def) (cases c; simp add: compatibility_name_def)
  have dig: "size_bound (digest_value d) \<le> 100" if "length (as_digest_bytes d) \<le> 1" for d
    using that by (cases "as_digest_bytes d") (auto simp: digest_value_def)
  have op: "size_bound (operation_value q) \<le> 1000" if "q \<in> set ops" for q
  proof -
    note q = bspec [OF assms(2) that]
    have b: "op_before q = Some d \<Longrightarrow> size_bound (digest_value d) \<le> 100" "op_after q = Some d \<Longrightarrow> size_bound (digest_value d) \<le> 100" for d
      using q dig by (auto simp: option.pred_set)
    show ?thesis unfolding operation_value_def
      by (rule order_trans [OF size_bound_object])
        (use q names(1) [of "op_kind q"] names(2) [of "op_compatibility q"] b(1) [of "the (op_before q)"] b(2) [of "the (op_after q)"] in
          \<open>cases "op_before q"; cases "op_after q"; simp add: optional_field_def text_value_def\<close>)
  qed
  have "sum_list (map (\<lambda>q. size_bound (operation_value q)) ops) \<le> 1000"
    using sum_list_map_le [of ops "\<lambda>q. size_bound (operation_value q)" 1000] op assms(1) by fastforce
  then have size: "size_bound (object_of ?es) \<le> 30000"
    by (intro order_trans [OF size_bound_object]) (use assms(3,4) in \<open>simp add: comp_def\<close>)
  have "shallow 3 (operation_value q)" for q
    unfolding operation_value_def numeral_3_eq_3
    by (rule shallow_object) (auto simp: optional_field_def intro!: shallow_array split: option.splits)
  then have "shallow 4 (JArray (map operation_value ops))"
    using shallow_array [of "map operation_value ops" 3] by simp
  then have "\<forall>(k, v) \<in> set ?es. shallow 4 v" by simp
  from shallow_mono [OF shallow_object [OF this], of 16] have "shallow 16 (object_of ?es)" by simp
  from encode_shallow [OF this, of diff_value ?d] size show ?thesis
    by (auto simp: diff_bind_def of_canonical_cbor_def diff_value_def UnsignedDiff.truncate_def MAX_FRAME_BYTES_def)
qed

definition semantic_toy :: evidence_ext where
  "semantic_toy = evidence_toy\<lparr>x_sha256 := (\<lambda>_. [0])\<rparr>"

definition with_digest :: "SemanticSnapshotV1 \<Rightarrow> SemanticSnapshotV1" where
  "with_digest s = s\<lparr>ss_digest := Digest [0]\<rparr>"

definition snap_a :: SemanticSnapshotV1 where "snap_a = with_digest (small_snapshot [small_node ''a'' 1] [])"

definition snap_a2 :: SemanticSnapshotV1 where "snap_a2 = with_digest (small_snapshot [small_node ''a'' 2] [])"

definition snap_b :: SemanticSnapshotV1 where "snap_b = with_digest (small_snapshot [small_node ''b'' 1] [])"

lemma toy_snapshot_bound:
  "snapshot_compute_digest semantic_toy snap_a = Inr (ss_digest snap_a)" "snapshot_compute_digest semantic_toy snap_a2 = Inr (ss_digest snap_a2)"
  "snapshot_compute_digest semantic_toy snap_b = Inr (ss_digest snap_b)"
proof -
  have "snapshot_compute_digest semantic_toy (with_digest (small_snapshot [small_node i d] [])) = Inr (Digest [0])" if "length i \<le> 1" for i d
  proof -
    have "\<exists>d'. snapshot_compute_digest semantic_toy (small_snapshot [small_node i d] []) = Inr d'"
      by (rule small_snapshot_digest) (use that in auto)
    then show ?thesis
      by (auto simp: snapshot_compute_digest_def snapshot_digest_def of_canonical_cbor_def with_digest_def UnsignedSnapshot.truncate_def
          digest_sha256_def semantic_toy_def result_simps)
  qed
  then show "snapshot_compute_digest semantic_toy snap_a = Inr (ss_digest snap_a)" "snapshot_compute_digest semantic_toy snap_a2 = Inr (ss_digest snap_a2)"
    "snapshot_compute_digest semantic_toy snap_b = Inr (ss_digest snap_b)"
    by (simp_all add: snap_a_def snap_a2_def snap_b_def) (simp_all add: with_digest_def)
qed

lemmas small_defs = snap_a_def snap_a2_def snap_b_def with_digest_def small_snapshot_def small_node_def

lemma small_operations:
  "diff_operations snap_a snap_a2 p = Inr [modification [] (small_node ''a'' 1) (small_node ''a'' 2)]"
  "diff_operations snap_a snap_b diff_policy_default = Inr [move_of (removal [] (small_node ''a'' 1)) (addition [] (small_node ''b'' 1))]"
  by (simp_all add: diff_operations_eq node_operations_def node_change_def node_addition_def nodes_by_id_def bt_collect_def small_defs
      classify_moves_def classify_move_def find_add_def diff_policy_default_def contract_operations_def move_of_def op_shapes)

lemma small_diffs:
  "\<exists>d. semantic_diff semantic_toy snap_a snap_a2 p i = Inr d" "\<exists>d. semantic_diff semantic_toy snap_a snap_b diff_policy_default i = Inr d"
proof -
  have d: "size_bound (digest_value (Digest [0])) \<le> 10000" by (simp add: digest_value_def)
  have e: "ss_digest snap_a = Digest [0]" "ss_digest snap_a2 = Digest [0]" "ss_digest snap_b = Digest [0]" by (simp_all add: small_defs)
  show "\<exists>d. semantic_diff semantic_toy snap_a snap_a2 p i = Inr d"
    unfolding semantic_diff_def toy_snapshot_bound small_operations
    by (simp, rule small_diff_binds) (simp_all add: e d op_shapes small_node_def)
  show "\<exists>d. semantic_diff semantic_toy snap_a snap_b diff_policy_default i = Inr d"
    unfolding semantic_diff_def toy_snapshot_bound small_operations
    by (simp, rule small_diff_binds) (simp_all add: e d op_shapes small_node_def move_of_def)
qed

definition small_graph :: "(string \<times> string \<times> string) list \<Rightarrow> SemanticGraph" where
  "small_graph es = \<lparr>gr_nodes = [(''a'', ''k'', Digest [1])], gr_edges = es, gr_contracts = [], gr_evidence_roots = [],
     gr_unknowns = [], gr_contradictions = []\<rparr>"

definition small_budget :: Budget where
  "small_budget = \<lparr>bg_max_nodes = 5, bg_max_edges = 5, bg_max_depth = 1, bg_max_bytes = 1, bg_deadline_ms = 1\<rparr>"

definition small_snapper :: GraphSnapshotter where
  "small_snapper = \<lparr>gs_ontology_version = BoundedText ''o'', gs_subject = BoundedText ''s''\<rparr>"

definition small_cut :: TemporalCut where
  "small_cut = \<lparr>tc_valid_at = ''t'', tc_system_as_of = ''t''\<rparr>"

lemma small_graph_snapshot:
  "\<exists>s. graph_snapshot semantic_toy small_snapper (small_graph [(''b'', ''a'', ''e''), (''a'', ''b'', ''e'')]) small_cut small_budget (Uuid 4) = Inr s"
proof -
  have "\<exists>d. snapshot_compute_digest semantic_toy (small_snapshot [small_node ''a'' 1] [small_edge ''a'' ''b'', small_edge ''b'' ''a'']) = Inr d"
    by (rule small_snapshot_digest) auto
  then obtain d where d: "snapshot_compute_digest semantic_toy (small_snapshot [small_node ''a'' 1] [small_edge ''a'' ''b'', small_edge ''b'' ''a'']) = Inr d" by blast
  then have "snapshot_compute_digest semantic_toy ((small_snapshot [small_node ''a'' 1] [small_edge ''a'' ''b'', small_edge ''b'' ''a''])\<lparr>ss_digest := z\<rparr>) = Inr d" for z
    by (simp add: snapshot_compute_digest_def UnsignedSnapshot.truncate_def)
  then show ?thesis
    by (simp add: graph_snapshot_def small_graph_def small_cut_def small_budget_def small_snapper_def would_exceed_def to_u32_saturating_def
      build_node_def build_edge_def sem_text_def bounded_text_literal edge_key_def small_snapshot_def small_node_def small_edge_def SCHEMA_VERSION_def
      word_less_nat_alt digest_sha256_def)
qed

section \<open>Properties\<close>

text \<open>(C22) A snapshot is canonical: inputs with the same nodes and the same multisets of edges, contracts, roots,
  unknowns and contradictions give the same snapshot, its digest is the digest of its content, and the
  independent checker, which rebuilds the node list from an ordered map, agrees with it.\<close>

theorem snapshot_canonical:
  assumes "same_graph g h" "inj (x_hex_encode x)" "bt_wf (gr_nodes g)" "graph_snapshot x p g c b i = Inr s"
  shows "graph_snapshot x p h c b i = Inr s \<and> snapshot_compute_digest x s = Inr (ss_digest s) \<and>
    independent_snapshot_digest x s = Inr (ss_digest s)"
  using snapshot_same_graph [OF assms(1,2,4)] snapshot_independent [OF assms(3,4)] by simp

theorem snapshot_canonical_witness:
  "\<exists>s. graph_snapshot semantic_toy small_snapper (small_graph [(''a'', ''b'', ''e''), (''b'', ''a'', ''e'')]) small_cut small_budget (Uuid 4) = Inr s \<and>
     independent_snapshot_digest semantic_toy s = Inr (ss_digest s)"
proof -
  obtain s where s: "graph_snapshot semantic_toy small_snapper (small_graph [(''b'', ''a'', ''e''), (''a'', ''b'', ''e'')]) small_cut small_budget (Uuid 4) = Inr s"
    using small_graph_snapshot by blast
  have "inj (x_hex_encode semantic_toy)"
  proof (rule injI)
    fix a b assume "x_hex_encode semantic_toy a = x_hex_encode semantic_toy b"
    then have "toy_unhex (toy_hex a) = toy_unhex (toy_hex b)" by (simp add: semantic_toy_def evidence_toy_fields)
    then show "a = b" by (simp add: toy_hex_roundtrip)
  qed
  from snapshot_canonical [OF _ this _ s, of "small_graph [(''a'', ''b'', ''e''), (''b'', ''a'', ''e'')]"]
  show ?thesis by (auto simp: same_graph_def small_graph_def bt_wf_def)
qed

text \<open>(C23) Without move detection a diff is exact: applied to the identifiers and digests of the first snapshot its
  operations give those of the second; it is sorted, and its digest is the independent one. With or without
  moves it is empty exactly when both snapshots have the same identifiers and digests and the same contracts.\<close>

theorem diff_exact:
  assumes "semantic_diff x before after policy i = Inr d"
  shows "(dp_detect_moves policy \<or> patch (sd_operations d) (digests_of before) = digests_of after) \<and>
    sorted (map op_key (sd_operations d)) \<and> independent_diff_digest x d = Inr (sd_digest d) \<and>
    (sd_operations d = [] \<longleftrightarrow> digests_of before = digests_of after \<and> ss_contracts before = ss_contracts after)"
proof -
  note d = semantic_diffD [OF assms]
  then have "sorted (map op_key (sd_operations d))" unfolding diff_operations_eq by (metis sorted_sort_key sum.inject(2))
  then show ?thesis using d diff_patch [of before after policy "sd_operations d"] diff_empty [of before after policy] by auto
qed

theorem diff_exact_witness:
  "\<exists>d. semantic_diff semantic_toy snap_a snap_a2 \<lparr>dp_detect_moves = False\<rparr> (Uuid 1) = Inr d \<and>
     patch (sd_operations d) (digests_of snap_a) = digests_of snap_a2"
  using diff_exact small_diffs(1) by fastforce

text \<open>With move detection a diff is obtained from the exact one by replacing pairwise different removals and
  additions of the same digest by moves, and no removal and addition of the same digest remain.\<close>

theorem diff_moves_matched:
  assumes "semantic_diff x before after policy i = Inr d" "dp_detect_moves policy"
  shows "\<exists>ps. pairing (node_operations before after) ps \<and>
    mset (sd_operations d) + mset (map (\<lambda>(r, a). node_operations before after ! r) ps) + mset (map (\<lambda>(r, a). node_operations before after ! a) ps) =
      mset (node_operations before after) + mset (map (\<lambda>(r, a). move_of (node_operations before after ! r) (node_operations before after ! a)) ps) +
      mset (contract_operations before after) \<and>
    (\<forall>r \<in> set (sd_operations d). \<forall>a \<in> set (sd_operations d). \<not> matches r a)"
  using diff_moves [OF _ assms(2)] semantic_diffD [OF assms(1)] by blast

theorem diff_moves_matched_witness:
  "\<exists>d ps. semantic_diff semantic_toy snap_a snap_b diff_policy_default (Uuid 1) = Inr d \<and> pairing (node_operations snap_a snap_b) ps"
proof -
  obtain d where d: "semantic_diff semantic_toy snap_a snap_b diff_policy_default (Uuid 1) = Inr d" using small_diffs(2) by blast
  from diff_moves_matched [OF d] d show ?thesis by (auto simp: diff_policy_default_def)
qed

text \<open>A move does not record which entity was moved: from one snapshot, two different later ones, in which
  different entities of the same digest were renamed, have the same operations under the default policy.\<close>

theorem move_loses_source:
  "diff_operations (small_snapshot [small_node ''a'' 1, small_node ''b'' 1] []) (small_snapshot [small_node ''b'' 1, small_node ''c'' 1] []) diff_policy_default =
   diff_operations (small_snapshot [small_node ''a'' 1, small_node ''b'' 1] []) (small_snapshot [small_node ''a'' 1, small_node ''c'' 1] []) diff_policy_default \<and>
   digests_of (small_snapshot [small_node ''b'' 1, small_node ''c'' 1] []) \<noteq> digests_of (small_snapshot [small_node ''a'' 1, small_node ''c'' 1] [])"
proof
  show "diff_operations (small_snapshot [small_node ''a'' 1, small_node ''b'' 1] []) (small_snapshot [small_node ''b'' 1, small_node ''c'' 1] []) diff_policy_default =
   diff_operations (small_snapshot [small_node ''a'' 1, small_node ''b'' 1] []) (small_snapshot [small_node ''a'' 1, small_node ''c'' 1] []) diff_policy_default"
    by (simp add: diff_operations_eq node_operations_def node_change_def node_addition_def nodes_by_id_def bt_collect_def small_snapshot_def small_node_def
      classify_moves_def classify_move_def find_add_def diff_policy_default_def contract_operations_def)
  have "digests_of (small_snapshot [small_node ''b'' 1, small_node ''c'' 1] []) ''a'' \<noteq> digests_of (small_snapshot [small_node ''a'' 1, small_node ''c'' 1] []) ''a''"
    by (simp add: digests_of_def small_snapshot_def nodes_by_id_def bt_collect_def small_node_def)
  then show "digests_of (small_snapshot [small_node ''b'' 1, small_node ''c'' 1] []) \<noteq> digests_of (small_snapshot [small_node ''a'' 1, small_node ''c'' 1] [])"
    by metis
qed

end
