(* ===== verification/Certificates.thy ===== *)
theory Certificates
  imports Traces Semantic
begin

text \<open>
  The crates \<open>anasemble-contract\<close> and \<open>anasemble-verification\<close>: contracts with their compatibility rules, the
  verifier of digest equality, signed certificates over its reports and their verification. The serializers
  are written out from the attributes of the types; generated identifiers are arguments.
\<close>

section \<open>Contracts\<close>

datatype ContractError = ContractCore CoreError | ContractIdError IdError | ContractProtocol string

record UnsignedContract =
  ct_schema_version :: u16
  ct_contract_id :: Uuid
  ct_version :: BoundedText
  ct_predecessor :: "Uuid option"
  ct_compatibility :: CompatibilityClass
  ct_migration_obligations :: "BoundedText list"

record ContractV1 = UnsignedContract +
  ct_digest :: Digest

definition uuid_value :: "'x evidence_ext_scheme \<Rightarrow> Uuid \<Rightarrow> json" where
  "uuid_value x u = JString (x_uuid_string x u)"

definition contract_fields :: "'x evidence_ext_scheme \<Rightarrow> 'm UnsignedContract_scheme \<Rightarrow> (string \<times> json) list" where
  "contract_fields x c =
     [(''schema_version'', JNumber (PosInt (ucast (ct_schema_version c)))),
      (''contract_id'', uuid_value x (ct_contract_id c)),
      (''version'', text_value (ct_version c))] @
     optional_field ''predecessor'' (uuid_value x) (ct_predecessor c) @
     [(''compatibility'', JString (compatibility_name (ct_compatibility c))),
      (''migration_obligations'', JArray (map text_value (ct_migration_obligations c)))]"

definition contract_value :: "'x evidence_ext_scheme \<Rightarrow> UnsignedContract serialize" where
  "contract_value x c = Inr (object_of (contract_fields x c))"

definition contract_compute_digest :: "'x evidence_ext_scheme \<Rightarrow> ContractV1 \<Rightarrow> (ContractError, Digest) result" where
  "contract_compute_digest x c =
     map_err ContractCore (of_canonical_cbor (x_sha256 x) (contract_value x) (UnsignedContract.truncate c))"

definition contract_new :: "'x evidence_ext_scheme \<Rightarrow> Uuid \<Rightarrow> string \<Rightarrow> Uuid option \<Rightarrow> CompatibilityClass \<Rightarrow> BoundedText list \<Rightarrow>
    (ContractError, ContractV1) result" where
  "contract_new x contract_id version predecessor compatibility migration_obligations =
     (if predecessor = None \<and> compatibility \<noteq> Backward
      then Inl (ContractProtocol ''genesis contract must be backward compatible with itself'')
      else if compatibility = Breaking \<and> migration_obligations = []
      then Inl (ContractProtocol ''breaking change requires a migration obligation'')
      else
     rbind (map_err ContractIdError (bounded_text version)) (\<lambda>version.
       let contract = \<lparr>ct_schema_version = SCHEMA_VERSION, ct_contract_id = contract_id, ct_version = version,
         ct_predecessor = predecessor, ct_compatibility = compatibility,
         ct_migration_obligations = migration_obligations, ct_digest = digest_sha256 (x_sha256 x) []\<rparr> in
     rbind (contract_compute_digest x contract) (\<lambda>d. Inr (contract\<lparr>ct_digest := d\<rparr>))))"

definition independent_contract_digest :: "'x evidence_ext_scheme \<Rightarrow> ContractV1 \<Rightarrow> (ContractError, Digest) result" where
  "independent_contract_digest x c = contract_compute_digest x c"

section \<open>Reports\<close>

datatype VerificationError = VerCore CoreError | VerId IdError | VerContract ContractError | VerProtocol string
  | VerCrypto string | VerBudget

datatype ClaimStatus = Proven | Falsified | ClaimUnknown | NotApplicable

record VerificationClaim =
  vc_claim_id :: Uuid
  vc_statement :: BoundedText
  vc_status :: ClaimStatus
  vc_evidence :: "Digest list"

record EvidenceSet =
  es_roots :: "Digest list"

record UnsignedReport =
  vr_schema_version :: u16
  vr_oracle_id :: BoundedText
  vr_oracle_version :: BoundedText
  vr_claims :: "VerificationClaim list"
  vr_evidence_roots :: "Digest list"
  vr_budget :: Budget
  vr_truncated :: bool

record VerificationReport = UnsignedReport +
  vr_digest :: Digest

record CertificateV1 =
  cr_certificate_id :: Uuid
  cr_report_digest :: Digest
  cr_signature :: SignatureBlock

record DigestCandidate =
  dc_digest :: Digest

record DigestEqualityVerifier =
  dv_oracle_id :: string
  dv_oracle_version :: string

subsection \<open>Serialization\<close>

definition claim_status_name :: "ClaimStatus \<Rightarrow> string" where
  "claim_status_name s =
     (case s of Proven \<Rightarrow> ''proven'' | Falsified \<Rightarrow> ''falsified'' | ClaimUnknown \<Rightarrow> ''unknown'' | NotApplicable \<Rightarrow> ''not_applicable'')"

definition claim_fields :: "'x evidence_ext_scheme \<Rightarrow> VerificationClaim \<Rightarrow> (string \<times> json) list" where
  "claim_fields x c =
     [(''claim_id'', uuid_value x (vc_claim_id c)), (''statement'', text_value (vc_statement c)),
      (''status'', JString (claim_status_name (vc_status c))), (''evidence'', JArray (map digest_value (vc_evidence c)))]"

definition budget_fields :: "Budget \<Rightarrow> (string \<times> json) list" where
  "budget_fields b =
     [(''max_nodes'', JNumber (PosInt (ucast (bg_max_nodes b)))), (''max_edges'', JNumber (PosInt (ucast (bg_max_edges b)))),
      (''max_depth'', JNumber (PosInt (ucast (bg_max_depth b)))), (''max_bytes'', JNumber (PosInt (bg_max_bytes b))),
      (''deadline_ms'', JNumber (PosInt (ucast (bg_deadline_ms b))))]"

definition report_fields :: "'x evidence_ext_scheme \<Rightarrow> 'm UnsignedReport_scheme \<Rightarrow> (string \<times> json) list" where
  "report_fields x r =
     [(''schema_version'', JNumber (PosInt (ucast (vr_schema_version r)))),
      (''oracle_id'', text_value (vr_oracle_id r)),
      (''oracle_version'', text_value (vr_oracle_version r)),
      (''claims'', JArray (map (\<lambda>c. object_of (claim_fields x c)) (vr_claims r))),
      (''evidence_roots'', JArray (map digest_value (vr_evidence_roots r))),
      (''budget'', object_of (budget_fields (vr_budget r))),
      (''truncated'', JBool (vr_truncated r))]"

definition report_value :: "'x evidence_ext_scheme \<Rightarrow> UnsignedReport serialize" where
  "report_value x r = Inr (object_of (report_fields x r))"

definition report_compute_digest :: "'x evidence_ext_scheme \<Rightarrow> VerificationReport \<Rightarrow> (VerificationError, Digest) result" where
  "report_compute_digest x r =
     map_err VerCore (of_canonical_cbor (x_sha256 x) (report_value x) (UnsignedReport.truncate r))"

definition report_bind :: "'x evidence_ext_scheme \<Rightarrow> VerificationReport \<Rightarrow> (VerificationError, VerificationReport) result" where
  "report_bind x r = rbind (report_compute_digest x r) (\<lambda>d. Inr (r\<lparr>vr_digest := d\<rparr>))"

subsection \<open>Verification\<close>

definition digest_verify :: "'x evidence_ext_scheme \<Rightarrow> Uuid \<Rightarrow> DigestEqualityVerifier \<Rightarrow> ContractV1 \<Rightarrow> DigestCandidate \<Rightarrow> EvidenceSet \<Rightarrow>
    Budget \<Rightarrow> (VerificationError, VerificationReport) result" where
  "digest_verify x claim_id v contract candidate evidence budget =
     (if bg_max_nodes budget < 1 then Inl VerBudget
      else
     rbind (map_err VerContract (contract_compute_digest x contract)) (\<lambda>d.
       if d \<noteq> ct_digest contract then Inl (VerProtocol ''contract digest mismatch'')
       else let status = (if dc_digest candidate = ct_digest contract then Proven else Falsified) in
       if status = Proven \<and> es_roots evidence = [] then Inl (VerProtocol ''proven claim requires evidence roots'')
       else
     rbind (map_err VerId (bounded_text ''candidate-digest-matches-contract'')) (\<lambda>statement.
       let claim = \<lparr>vc_claim_id = claim_id, vc_statement = statement, vc_status = status, vc_evidence = es_roots evidence\<rparr> in
     rbind (map_err VerId (bounded_text (dv_oracle_id v))) (\<lambda>oracle_id.
     rbind (map_err VerId (bounded_text (dv_oracle_version v))) (\<lambda>oracle_version.
       report_bind x \<lparr>vr_schema_version = SCHEMA_VERSION, vr_oracle_id = oracle_id, vr_oracle_version = oracle_version,
         vr_claims = [claim], vr_evidence_roots = es_roots evidence, vr_budget = budget, vr_truncated = False,
         vr_digest = digest_sha256 (x_sha256 x) []\<rparr>)))))"

section \<open>Certificates\<close>

definition sign_report :: "'x evidence_ext_scheme \<Rightarrow> Uuid \<Rightarrow> VerificationReport \<Rightarrow> SigningKey \<Rightarrow> (VerificationError, CertificateV1) result" where
  "sign_report x certificate_id report signing =
     rbind (report_compute_digest x report) (\<lambda>d.
       if d \<noteq> vr_digest report then Inl (VerProtocol ''report digest mismatch'')
       else if vr_truncated report then Inl (VerProtocol ''truncated report cannot be certified'')
       else if list_ex (\<lambda>claim. vc_status claim = Proven \<and> vc_evidence claim = []) (vr_claims report)
       then Inl (VerProtocol ''proven claim requires evidence'')
       else let signature = x_sign x (sg_secret signing) (as_digest_bytes (vr_digest report)) in
     rbind (map_err VerId (bounded_text ''ed25519'')) (\<lambda>algorithm.
     rbind (map_err VerId (bounded_text (sg_key_id signing))) (\<lambda>key_id.
       Inr \<lparr>cr_certificate_id = certificate_id, cr_report_digest = vr_digest report,
         cr_signature = \<lparr>sb_algorithm = algorithm, sb_key_id = key_id, sb_value = x_hex_encode x signature\<rparr>\<rparr>)))"

definition verify_certificate :: "'x evidence_ext_scheme \<Rightarrow> VerificationReport \<Rightarrow> CertificateV1 \<Rightarrow> bytes \<Rightarrow> (VerificationError, unit) result" where
  "verify_certificate x report certificate public =
     rbind (report_compute_digest x report) (\<lambda>d.
       if d \<noteq> vr_digest report then Inl (VerProtocol ''report digest mismatch'')
       else if cr_report_digest certificate \<noteq> vr_digest report then Inl (VerProtocol ''certificate report mismatch'')
       else if as_str (sb_algorithm (cr_signature certificate)) \<noteq> ''ed25519'' then Inl (VerCrypto ''unsupported signature algorithm'')
       else
     rbind (ok_or (VerCrypto ''signature is not hex'') (x_hex_decode x (sb_value (cr_signature certificate)))) (\<lambda>bs.
     rbind (ensure (length bs = 64) (VerCrypto ''signature is not 64 bytes'')) (\<lambda>_.
     rbind (ensure (x_valid_key x public) (VerCrypto ''public key is invalid'')) (\<lambda>_.
     ensure (x_verify x public (as_digest_bytes (vr_digest report)) bs) (VerCrypto ''signature verification failed'')))))"

definition independent_report_digest :: "'x evidence_ext_scheme \<Rightarrow> VerificationReport \<Rightarrow> (VerificationError, Digest) result" where
  "independent_report_digest x r = report_compute_digest x r"

section \<open>What contracts and reports promise\<close>

text \<open>The rules a contract obeys whatever its caller asked for.\<close>

definition contract_rules :: "Uuid option \<Rightarrow> CompatibilityClass \<Rightarrow> BoundedText list \<Rightarrow> bool" where
  "contract_rules predecessor compatibility obligations \<longleftrightarrow>
     (predecessor = None \<longrightarrow> compatibility = Backward) \<and> (compatibility = Breaking \<longrightarrow> obligations \<noteq> [])"

lemma contract_new_iff:
  "contract_new x i version p c ms = Inr k \<longleftrightarrow>
     contract_rules p c ms \<and> bounded_text_wf (BoundedText version) \<and> contract_compute_digest x k = Inr (ct_digest k) \<and>
     (\<exists>d. k = \<lparr>ct_schema_version = 1, ct_contract_id = i, ct_version = BoundedText version, ct_predecessor = p, ct_compatibility = c,
        ct_migration_obligations = ms, ct_digest = d\<rparr>)"
  by (auto simp: contract_new_def contract_rules_def SCHEMA_VERSION_def Let_def result_simps bounded_text_iff
      contract_compute_digest_def UnsignedContract.truncate_def)

lemma report_bind_iff:
  "report_bind x r = Inr r' \<longleftrightarrow> report_compute_digest x r' = Inr (vr_digest r') \<and> (\<exists>d. r' = r\<lparr>vr_digest := d\<rparr>)"
  by (auto simp: report_bind_def result_simps report_compute_digest_def UnsignedReport.truncate_def)

lemma digest_verify_iff:
  "digest_verify x i v contract candidate evidence budget = Inr r \<longleftrightarrow>
     bg_max_nodes budget \<noteq> 0 \<and> contract_compute_digest x contract = Inr (ct_digest contract) \<and>
     (dc_digest candidate = ct_digest contract \<longrightarrow> es_roots evidence \<noteq> []) \<and>
     bounded_text_wf (BoundedText (dv_oracle_id v)) \<and> bounded_text_wf (BoundedText (dv_oracle_version v)) \<and>
     report_compute_digest x r = Inr (vr_digest r) \<and>
     (\<exists>d. r = \<lparr>vr_schema_version = 1, vr_oracle_id = BoundedText (dv_oracle_id v), vr_oracle_version = BoundedText (dv_oracle_version v),
       vr_claims = [\<lparr>vc_claim_id = i, vc_statement = BoundedText ''candidate-digest-matches-contract'',
         vc_status = (if dc_digest candidate = ct_digest contract then Proven else Falsified), vc_evidence = es_roots evidence\<rparr>],
       vr_evidence_roots = es_roots evidence, vr_budget = budget, vr_truncated = False, vr_digest = d\<rparr>)"
proof -
  have st: "bounded_text ''candidate-digest-matches-contract'' = Inr (BoundedText ''candidate-digest-matches-contract'')"
    by (rule bounded_text_literal) simp_all
  have "bg_max_nodes budget < 1 \<longleftrightarrow> bg_max_nodes budget = 0" by (auto simp: word_less_nat_alt unat_eq_zero)
  then show ?thesis
    by (auto simp: digest_verify_def Let_def st SCHEMA_VERSION_def result_simps report_bind_iff bounded_text_iff)
qed

definition certifiable :: "VerificationReport \<Rightarrow> bool" where
  "certifiable r \<longleftrightarrow> \<not> vr_truncated r \<and> (\<forall>c \<in> set (vr_claims r). vc_status c = Proven \<longrightarrow> vc_evidence c \<noteq> [])"

lemma sign_report_iff:
  "sign_report x i r signing = Inr c \<longleftrightarrow>
     report_compute_digest x r = Inr (vr_digest r) \<and> certifiable r \<and> bounded_text_wf (BoundedText (sg_key_id signing)) \<and>
     c = \<lparr>cr_certificate_id = i, cr_report_digest = vr_digest r, cr_signature = \<lparr>sb_algorithm = BoundedText ''ed25519'',
       sb_key_id = BoundedText (sg_key_id signing), sb_value = x_hex_encode x (x_sign x (sg_secret signing) (as_digest_bytes (vr_digest r)))\<rparr>\<rparr>"
proof -
  have alg: "bounded_text ''ed25519'' = Inr (BoundedText ''ed25519'')" by (rule bounded_text_literal) simp_all
  show ?thesis
    by (auto simp: sign_report_def certifiable_def Let_def alg result_simps bounded_text_iff list_ex_iff)
qed

lemma verify_certificate_iff:
  "verify_certificate x r c public = Inr u \<longleftrightarrow>
     report_compute_digest x r = Inr (vr_digest r) \<and> cr_report_digest c = vr_digest r \<and>
     as_str (sb_algorithm (cr_signature c)) = ''ed25519'' \<and> x_valid_key x public \<and>
     (\<exists>bs. x_hex_decode x (sb_value (cr_signature c)) = Some bs \<and> length bs = 64 \<and> x_verify x public (as_digest_bytes (vr_digest r)) bs)"
  by (auto simp: verify_certificate_def result_simps)

lemma certificate_verifies:
  assumes "lawful_crypto x" "length (sg_secret signing) = 32" "sign_report x i r signing = Inr c"
  shows "verify_certificate x r c (signing_public_bytes x signing) = Inr ()"
  using assms by (auto simp: verify_certificate_iff sign_report_iff lawful_crypto_def signing_public_bytes_def)

section \<open>The digest determines the report\<close>

lemma uuid_value_inject: "lawful_uuid x \<Longrightarrow> uuid_value x a = uuid_value x b \<Longrightarrow> a = b"
  by (auto simp: uuid_value_def lawful_uuid_def inj_eq)

lemma claim_status_name_inject: "claim_status_name a = claim_status_name b \<Longrightarrow> a = b"
  by (cases a; cases b) (simp_all add: claim_status_name_def)

lemma claim_fields_inject:
  assumes "object_of (claim_fields x a) = object_of (claim_fields x b)" "lawful_uuid x"
  shows "a = b"
proof (rule VerificationClaim.equality)
  have d: "distinct (map fst (claim_fields x q))" for q by (simp add: claim_fields_def)
  note get = object_of_get [OF assms(1) d d]
  have inj: "inj digest_value" by (simp add: inj_def)
  show "vc_claim_id a = vc_claim_id b" using get [of "''claim_id''"] uuid_value_inject [OF assms(2)] by (simp add: claim_fields_def)
  show "vc_statement a = vc_statement b" using get [of "''statement''"] by (simp add: claim_fields_def)
  show "vc_status a = vc_status b" using get [of "''status''"] claim_status_name_inject by (simp add: claim_fields_def)
  show "vc_evidence a = vc_evidence b" using get [of "''evidence''"] inj by (simp add: claim_fields_def inj_map_eq_map)
qed simp

lemma budget_fields_inject:
  assumes "object_of (budget_fields a) = object_of (budget_fields b)"
  shows "a = b"
proof (rule Budget.equality)
  have d: "distinct (map fst (budget_fields q))" for q by (simp add: budget_fields_def)
  note get = object_of_get [OF assms d d]
  show "bg_max_nodes a = bg_max_nodes b" using get [of "''max_nodes''"] by (simp add: budget_fields_def ucast_u32_inject)
  show "bg_max_edges a = bg_max_edges b" using get [of "''max_edges''"] by (simp add: budget_fields_def ucast_u32_inject)
  show "bg_max_depth a = bg_max_depth b" using get [of "''max_depth''"] by (simp add: budget_fields_def ucast_u32_inject)
  show "bg_max_bytes a = bg_max_bytes b" using get [of "''max_bytes''"] by (simp add: budget_fields_def)
  show "bg_deadline_ms a = bg_deadline_ms b" using get [of "''deadline_ms''"] by (simp add: budget_fields_def ucast_u32_inject)
qed simp

lemma report_fields_inject:
  assumes "object_of (report_fields x r) = object_of (report_fields x s)" "lawful_uuid x"
  shows "r = (s :: UnsignedReport)"
proof (rule UnsignedReport.equality)
  have d: "distinct (map fst (report_fields x q))" for q :: UnsignedReport by (simp add: report_fields_def)
  note get = object_of_get [OF assms(1) d d]
  have inj: "inj digest_value" "inj (\<lambda>c. object_of (claim_fields x c))"
    using claim_fields_inject [OF _ assms(2)] by (auto simp: inj_def)
  show "vr_schema_version r = vr_schema_version s" using get [of "''schema_version''"] by (simp add: report_fields_def ucast_u16_inject)
  show "vr_oracle_id r = vr_oracle_id s" using get [of "''oracle_id''"] by (simp add: report_fields_def)
  show "vr_oracle_version r = vr_oracle_version s" using get [of "''oracle_version''"] by (simp add: report_fields_def)
  show "vr_claims r = vr_claims s" using get [of "''claims''"] inj(2) by (simp add: report_fields_def inj_map_eq_map)
  show "vr_evidence_roots r = vr_evidence_roots s" using get [of "''evidence_roots''"] inj(1) by (simp add: report_fields_def inj_map_eq_map)
  show "vr_budget r = vr_budget s" using get [of "''budget''"] by (simp add: report_fields_def budget_fields_inject)
  show "vr_truncated r = vr_truncated s" using get [of "''truncated''"] by (simp add: report_fields_def)
qed simp

text \<open>What the types of the program guarantee of a report: bounded texts, digests of 32 bytes, lengths that fit a word.\<close>

definition report_ok :: "'m UnsignedReport_scheme \<Rightarrow> bool" where
  "report_ok r \<longleftrightarrow> bounded_ok (vr_oracle_id r) \<and> bounded_ok (vr_oracle_version r) \<and> length (vr_claims r) < 2 ^ 64 \<and>
     length (vr_evidence_roots r) < 2 ^ 64 \<and> (\<forall>d \<in> set (vr_evidence_roots r). digest_wf d) \<and>
     (\<forall>c \<in> set (vr_claims r). bounded_ok (vc_statement c) \<and> length (vc_evidence c) < 2 ^ 64 \<and> (\<forall>d \<in> set (vc_evidence c). digest_wf d))"

lemma canonical_report:
  assumes "report_ok r" "lawful_uuid x"
  shows "canonical (object_of (report_fields x r))"
proof (rule canonical_object)
  have s: "text_ok (claim_status_name s)" for s by (cases s) (simp_all add: claim_status_name_def field_texts)
  have c: "canonical (object_of (claim_fields x c))" if "c \<in> set (vr_claims r)" for c
    using assms that s by (intro canonical_object) (auto simp: report_ok_def claim_fields_def uuid_value_def lawful_uuid_def field_texts)
  have b: "canonical (object_of (budget_fields b))" for b
    by (intro canonical_object) (auto simp: budget_fields_def field_texts)
  show "\<forall>(k, v) \<in> set (report_fields x r). text_ok k \<and> canonical v"
    using assms(1) c b by (simp add: report_fields_def report_ok_def field_texts)
qed (simp add: report_fields_def)

lemma report_ok_truncate [simp]: "report_ok (UnsignedReport.truncate r) = report_ok r"
  by (simp add: report_ok_def UnsignedReport.truncate_def)

lemma report_digest_inject:
  assumes "report_compute_digest x r = Inr d" "report_compute_digest x s = Inr d" "report_ok r" "report_ok s" "lawful_uuid x"
  shows "UnsignedReport.truncate r = UnsignedReport.truncate s \<or> (\<exists>a b. a \<noteq> b \<and> x_sha256 x a = x_sha256 x b)"
proof -
  have can: "canonical (object_of (report_fields x (UnsignedReport.truncate q)))" if "report_ok q" for q :: VerificationReport
    using canonical_report [of "UnsignedReport.truncate q" x] that assms(5) by simp
  obtain a b where ab: "encode_canonical_cbor (report_value x) (UnsignedReport.truncate r) = Inr a"
    "encode_canonical_cbor (report_value x) (UnsignedReport.truncate s) = Inr b" "x_sha256 x a = x_sha256 x b"
    using assms(1,2) by (auto simp: report_compute_digest_def of_canonical_cbor_def digest_sha256_def result_simps)
  show ?thesis
  proof (cases "a = b")
    case True
    have "object_of (report_fields x (UnsignedReport.truncate r)) = object_of (report_fields x (UnsignedReport.truncate s))"
      using ab True can [OF assms(3)] can [OF assms(4)]
      by (intro canonical_encode_inject [of "report_value x" "UnsignedReport.truncate r" _ "UnsignedReport.truncate s" _ a])
        (simp_all add: report_value_def)
    then show ?thesis using report_fields_inject assms(5) by blast
  qed (use ab(3) in blast)
qed

lemma certificate_binds_report:
  assumes "lawful_uuid x" "report_ok r" "report_ok s" "verify_certificate x r c public = Inr ()" "verify_certificate x s c public' = Inr ()"
  shows "r = s \<or> (\<exists>a b. a \<noteq> b \<and> x_sha256 x a = x_sha256 x b)"
proof -
  from assms(4,5) have d: "report_compute_digest x r = Inr (vr_digest r)" "report_compute_digest x s = Inr (vr_digest r)" "vr_digest s = vr_digest r"
    by (auto simp: verify_certificate_iff)
  from report_digest_inject [OF d(1,2) assms(2,3,1)] d(3) show ?thesis
    by (auto simp: UnsignedReport.truncate_def intro: VerificationReport.equality)
qed

section \<open>A concrete certificate\<close>

definition toy_contract :: ContractV1 where
  "toy_contract = \<lparr>ct_schema_version = 1, ct_contract_id = Uuid 3, ct_version = BoundedText ''1'', ct_predecessor = None,
     ct_compatibility = Backward, ct_migration_obligations = [], ct_digest = Digest [0]\<rparr>"

definition toy_verifier :: DigestEqualityVerifier where
  "toy_verifier = \<lparr>dv_oracle_id = ''o'', dv_oracle_version = ''1''\<rparr>"

definition toy_report :: "ClaimStatus \<Rightarrow> bool \<Rightarrow> Digest list \<Rightarrow> VerificationReport" where
  "toy_report status truncated roots = \<lparr>vr_schema_version = 1, vr_oracle_id = BoundedText ''o'', vr_oracle_version = BoundedText ''1'',
     vr_claims = [\<lparr>vc_claim_id = Uuid 4, vc_statement = BoundedText ''candidate-digest-matches-contract'', vc_status = status, vc_evidence = roots\<rparr>],
     vr_evidence_roots = roots, vr_budget = toy_budget, vr_truncated = truncated, vr_digest = Digest [0]\<rparr>"

lemma semantic_toy_lawful: "lawful_crypto semantic_toy" "lawful_uuid semantic_toy"
  using evidence_toy_lawful by (simp_all add: semantic_toy_def lawful_crypto_def lawful_uuid_def)

text \<open>Objects of shallow fields that are small enough are encoded.\<close>

lemma object_encodes:
  assumes "\<forall>(k, v) \<in> set es. shallow 15 v" "9 + sum_list (map (\<lambda>(k, v). 9 + length k + size_bound v) es) \<le> MAX_FRAME_BYTES"
    and "to_value a = Inr (object_of es)"
  shows "\<exists>bs. encode_canonical_cbor to_value a = Inr bs"
proof -
  have "shallow 16 (object_of es)" using shallow_object [OF assms(1)] by simp
  moreover have "size_bound (object_of es) \<le> MAX_FRAME_BYTES" using size_bound_object assms(2) by (rule order_trans)
  ultimately show ?thesis using encode_shallow [of "object_of es" to_value a] assms(3) by simp
qed

lemma shallow_compound:
  "0 < n \<Longrightarrow> \<forall>v \<in> set vs. shallow (n - 1) v \<Longrightarrow> shallow n (JArray vs)"
  "0 < n \<Longrightarrow> \<forall>(k, v) \<in> set es. shallow (n - 1) v \<Longrightarrow> shallow n (object_of es)"
  using shallow_array [of vs "n - 1"] shallow_object [of es "n - 1"] by simp_all

lemma shallow_uuid [simp]: "shallow n (uuid_value x u)"
  by (simp add: uuid_value_def)

lemma uuid_value_size: "size_bound (uuid_value semantic_toy u) = 137"
  by (simp add: uuid_value_def semantic_toy_def evidence_toy_fields toy_uuid_def)

lemma toy_contract_digest: "contract_compute_digest semantic_toy toy_contract = Inr (Digest [0])"
proof -
  let ?u = "UnsignedContract.truncate toy_contract"
  have "\<exists>bs. encode_canonical_cbor (contract_value semantic_toy) ?u = Inr bs"
    by (rule object_encodes [of "contract_fields semantic_toy ?u"])
      (auto simp: contract_value_def contract_fields_def toy_contract_def UnsignedContract.truncate_def optional_field_def
        text_value_def uuid_value_size compatibility_name_def MAX_FRAME_BYTES_def shallow_compound)
  then show ?thesis by (auto simp: contract_compute_digest_def of_canonical_cbor_def digest_sha256_def semantic_toy_def)
qed

lemma toy_report_digest:
  assumes "length roots \<le> 1" "\<forall>d \<in> set roots. digest_wf d"
  shows "report_compute_digest semantic_toy (toy_report status truncated roots) = Inr (Digest [0])"
proof -
  let ?u = "UnsignedReport.truncate (toy_report status truncated roots)"
  have d: "size_bound (digest_value d) \<le> 300" if "digest_wf d" for d
    using that sum_list_map_le [of "as_digest_bytes d" "\<lambda>b :: byte. 9" 9] by (simp add: digest_wf_def digest_value_def comp_def)
  have r: "sum_list (map (\<lambda>d. size_bound (digest_value d)) roots) \<le> 300"
    using sum_list_map_le [of roots "\<lambda>d. size_bound (digest_value d)" 300] d assms by fastforce
  have c: "size_bound (object_of (claim_fields semantic_toy c)) \<le> 1000" if "c \<in> set (vr_claims ?u)" for c
    by (rule order_trans [OF size_bound_object])
      (use that r in \<open>cases "vc_status c"; simp add: toy_report_def UnsignedReport.truncate_def claim_fields_def uuid_value_size text_value_def claim_status_name_def comp_def\<close>)
  have b: "size_bound (object_of (budget_fields toy_budget)) \<le> 500"
    by (rule order_trans [OF size_bound_object]) (simp add: budget_fields_def)
  have "\<exists>bs. encode_canonical_cbor (report_value semantic_toy) ?u = Inr bs"
  proof (rule object_encodes [of "report_fields semantic_toy ?u"])
    show "\<forall>(k, v) \<in> set (report_fields semantic_toy ?u). shallow 15 v"
      by (simp add: report_fields_def shallow_compound claim_fields_def budget_fields_def shallow_def [of _ "JBool _"])
    show "9 + sum_list (map (\<lambda>(k, v). 9 + length k + size_bound v) (report_fields semantic_toy ?u)) \<le> MAX_FRAME_BYTES"
      using r b c by (simp add: report_fields_def toy_report_def UnsignedReport.truncate_def MAX_FRAME_BYTES_def text_value_def comp_def)
  qed (simp add: report_value_def)
  then show ?thesis by (auto simp: report_compute_digest_def of_canonical_cbor_def digest_sha256_def semantic_toy_def)
qed

lemma toy_digest_verify:
  "digest_verify semantic_toy (Uuid 4) toy_verifier toy_contract \<lparr>dc_digest = Digest [0]\<rparr> \<lparr>es_roots = [toy_digest 1]\<rparr> toy_budget =
     Inr (toy_report Proven False [toy_digest 1])"
  using toy_contract_digest toy_report_digest [of "[toy_digest 1]" Proven False]
  by (auto simp: digest_verify_iff toy_contract_def toy_verifier_def toy_report_def toy_budget_def toy_digest_def digest_wf_def
      bounded_text_wf_def MAX_BOUNDED_TEXT_BYTES_def)

section \<open>Properties\<close>

text \<open>A contract is made exactly when a first version is backward compatible, a breaking version names a
  migration obligation, the version text is bounded and the contract has an encoding.\<close>

theorem contract_new_exact:
  "(\<exists>k. contract_new x i version p c ms = Inr k) \<longleftrightarrow>
     contract_rules p c ms \<and> bounded_text_wf (BoundedText version) \<and>
     is_ok (contract_compute_digest x \<lparr>ct_schema_version = 1, ct_contract_id = i, ct_version = BoundedText version, ct_predecessor = p,
       ct_compatibility = c, ct_migration_obligations = ms, ct_digest = Digest []\<rparr>)"
  (is "?l \<longleftrightarrow> ?r")
proof -
  have same: "contract_compute_digest x (k\<lparr>ct_digest := d\<rparr>) = contract_compute_digest x k" for k d
    by (simp add: contract_compute_digest_def UnsignedContract.truncate_def)
  let ?k = "\<lambda>d. \<lparr>ct_schema_version = 1, ct_contract_id = i, ct_version = BoundedText version, ct_predecessor = p,
       ct_compatibility = c, ct_migration_obligations = ms, ct_digest = d\<rparr>"
  have "contract_compute_digest x (?k d) = contract_compute_digest x (?k (Digest []))" for d using same [of d "?k (Digest [])"] by simp
  then show ?thesis unfolding contract_new_iff is_ok_iff by (metis UnsignedContract.select_convs ContractV1.select_convs(1))
qed

text \<open>(C30) A report of the digest verifier says proven exactly when the candidate has the digest of the contract, and
  then cites evidence; it is not truncated, so that signing it can only fail for the key identifier, and the
  certificate verifies under the key of the signer.\<close>

theorem verify_sign_roundtrip:
  assumes "lawful_crypto x" "length (sg_secret signing) = 32" "bounded_text_wf (BoundedText (sg_key_id signing))"
    and "digest_verify x i v contract candidate evidence budget = Inr r"
  shows "(\<exists>claim. vr_claims r = [claim] \<and> (vc_status claim = Proven \<longleftrightarrow> dc_digest candidate = ct_digest contract) \<and>
      (vc_status claim = Proven \<longrightarrow> vc_evidence claim \<noteq> []) \<and> vc_evidence claim = es_roots evidence) \<and>
    (\<exists>c. sign_report x j r signing = Inr c \<and> verify_certificate x r c (signing_public_bytes x signing) = Inr ())"
proof
  show "\<exists>claim. vr_claims r = [claim] \<and> (vc_status claim = Proven \<longleftrightarrow> dc_digest candidate = ct_digest contract) \<and>
      (vc_status claim = Proven \<longrightarrow> vc_evidence claim \<noteq> []) \<and> vc_evidence claim = es_roots evidence"
    using assms(4) by (auto simp: digest_verify_iff)
  have "certifiable r" "report_compute_digest x r = Inr (vr_digest r)" using assms(4) by (auto simp: digest_verify_iff certifiable_def)
  then have "\<exists>c. sign_report x j r signing = Inr c" using assms(3) by (simp add: sign_report_iff)
  then show "\<exists>c. sign_report x j r signing = Inr c \<and> verify_certificate x r c (signing_public_bytes x signing) = Inr ()"
    using certificate_verifies [OF assms(1,2)] by blast
qed

theorem verify_sign_roundtrip_witness:
  "\<exists>c. sign_report semantic_toy (Uuid 5) (toy_report Proven False [toy_digest 1]) \<lparr>sg_key_id = ''k1'', sg_secret = toy_secret\<rparr> = Inr c \<and>
     verify_certificate semantic_toy (toy_report Proven False [toy_digest 1]) c
       (signing_public_bytes semantic_toy \<lparr>sg_key_id = ''k1'', sg_secret = toy_secret\<rparr>) = Inr ()"
  using verify_sign_roundtrip [OF semantic_toy_lawful(1) _ _ toy_digest_verify, of "\<lparr>sg_key_id = ''k1'', sg_secret = toy_secret\<rparr>" "Uuid 5"]
  by (simp add: toy_secret_def bounded_text_wf_def MAX_BOUNDED_TEXT_BYTES_def)



text \<open>Verification does not repeat the checks of the signer: a signature over the digest of a truncated report that claims
  a proof without evidence verifies.\<close>

theorem verify_accepts_truncated:
  "\<exists>c. verify_certificate semantic_toy (toy_report Proven True []) c toy_secret = Inr () \<and> \<not> certifiable (toy_report Proven True []) \<and>
     \<not> is_ok (sign_report semantic_toy i (toy_report Proven True []) k)"
proof -
  let ?r = "toy_report Proven True []"
  let ?c = "\<lparr>cr_certificate_id = Uuid 5, cr_report_digest = Digest [0], cr_signature = \<lparr>sb_algorithm = BoundedText ''ed25519'',
    sb_key_id = BoundedText ''k1'', sb_value = x_hex_encode semantic_toy (x_sign semantic_toy toy_secret (as_digest_bytes (Digest [0])))\<rparr>\<rparr>"
  have d: "report_compute_digest semantic_toy ?r = Inr (vr_digest ?r)" "vr_digest ?r = Digest [0]"
    using toy_report_digest [of "[]" Proven True] by (simp_all add: toy_report_def)
  have "length toy_secret = 32" "x_public_key semantic_toy toy_secret = toy_secret" by (simp_all add: toy_secret_def semantic_toy_def evidence_toy_fields)
  then have "verify_certificate semantic_toy ?r ?c toy_secret = Inr ()"
    using semantic_toy_lawful(1) d unfolding lawful_crypto_def verify_certificate_iff by (auto dest: spec [of _ toy_secret])
  moreover have "\<not> certifiable ?r" by (simp add: certifiable_def toy_report_def)
  ultimately show ?thesis by (auto simp: is_ok_iff sign_report_iff)
qed

end
