(* ===== verification/Evidence_Plane.thy ===== *)
theory Evidence_Plane
  imports Fragments Disk
begin

text \<open>
  The evidence plane (\<open>src/evidence_plane.rs\<close>): sealed evidence with a retention time, signed bundles of it in
  several stores, and retrieval of the evidence that enough independent stores agree on. Files are entries of the disks of theory Disk, so that every call may fail or
  be the last of the process; permission bits, environment variables, the HTTPS client, the cipher and the
  derived serializers are fields of the record \<open>plane_ext\<close>. The threads that fetch one batch of stores share
  nothing and their results are taken in the order of the stores, so a batch is a list of fetches.
\<close>

section \<open>Data\<close>

definition MAX_CONFIG_BYTES :: nat where "MAX_CONFIG_BYTES = 262144"

definition MAX_BUNDLE_BYTES :: nat where "MAX_BUNDLE_BYTES = 16777216"

definition MAX_STORES :: nat where "MAX_STORES = 32"

definition MAX_PARALLEL :: nat where "MAX_PARALLEL = 8"

record RecoveryKeyFile =
  rk_version :: string
  rk_key_id :: string
  rk_key_hex :: string
  rk_created_at :: string

record SealedEvidence =
  sv_version :: string
  sv_key_id :: string
  sv_nonce_hex :: string
  sv_ciphertext_hex :: string

record ProtectedEvidence =
  pe_created_at :: string
  pe_delete_after :: string
  pe_envelope :: Envelope

record UnsignedBundle =
  sb_version :: string
  sb_store_id :: string
  sb_failure_domain :: string
  sb_generation :: u64
  sb_evidence :: "SealedEvidence list"

record StoreBundle = UnsignedBundle +
  sb_signature :: string

datatype StoreTransport = LocalDirectory place | HttpsBundle string "string option"

record StoreConfig =
  sc_store_id :: string
  sc_failure_domain :: string
  sc_public_key :: string
  sc_minimum_generation :: u64
  sc_transport :: StoreTransport

record EvidencePlaneConfig =
  ec_component :: string
  ec_interface_version :: string
  ec_required_fragment_domains :: nat
  ec_required_stores :: nat
  ec_required_copies :: nat
  ec_max_parallel :: nat
  ec_timeout_ms :: u64
  ec_retry_budget :: u32
  ec_verification_time :: string
  ec_stores :: "StoreConfig list"
  ec_trusted_issuers :: "(string, IssuerPolicy) btree_map"
  ec_recovery_keys :: "(string, place) btree_map"

record StoreProvenance =
  sp_store_id :: string
  sp_failure_domain :: string
  sp_generation :: u64
  sp_bundle_digest :: string
  sp_evidence_count :: nat

record EvidencePlaneReceipt =
  er_successful_stores :: nat
  er_failed_stores :: "string list"
  er_provenance :: "StoreProvenance list"
  er_fragment_domains :: "string list"
  er_envelope_count :: nat
  er_verification_audit :: "VerificationAudit list"

record RetrievedEvidence =
  re_receipt :: EvidencePlaneReceipt
  re_envelopes :: "Envelope list"

text \<open>
  Code outside the repository. \<open>px_https\<close> is one request of the HTTPS client by URL, time limit, bearer token and
  the number of the attempt: an error of the call, or of reading the bounded body, or the body. \<open>px_private\<close>
  says that the permission bits of a file exclude group and other.
\<close>

record plane_ext = fragments_ext +
  px_encrypt :: "bytes \<Rightarrow> bytes \<Rightarrow> bytes \<Rightarrow> bytes \<Rightarrow> bytes option"
  px_decrypt :: "bytes \<Rightarrow> bytes \<Rightarrow> bytes \<Rightarrow> bytes \<Rightarrow> bytes option"
  px_key_value :: "RecoveryKeyFile serialize"
  px_parse_key :: "bytes \<Rightarrow> (string, RecoveryKeyFile) result"
  px_protected_value :: "ProtectedEvidence serialize"
  px_parse_protected :: "bytes \<Rightarrow> (string, ProtectedEvidence) result"
  px_unsigned_bundle_value :: "UnsignedBundle serialize"
  px_bundle_value :: "StoreBundle serialize"
  px_parse_bundle :: "bytes \<Rightarrow> (string, StoreBundle) result"
  px_envelope_value :: "Envelope serialize"
  px_receipt_value :: "EvidencePlaneReceipt serialize"
  px_parse_config :: "bytes \<Rightarrow> (string, EvidencePlaneConfig) result"
  px_https :: "string \<Rightarrow> u64 \<Rightarrow> string option \<Rightarrow> nat \<Rightarrow> (string, (string, bytes) result) result"
  px_env :: "string \<Rightarrow> string option"
  px_private :: "place \<Rightarrow> bool"

definition fragment_digest :: "'x plane_ext_scheme \<Rightarrow> Envelope \<Rightarrow> (Error, string) result" where
  "fragment_digest x e = canonical_digest (x_sha256 x) (x_hex_encode x) (x_json_vec x) (px_envelope_value x) e"

definition bundle_digest :: "'x plane_ext_scheme \<Rightarrow> StoreBundle \<Rightarrow> (Error, string) result" where
  "bundle_digest x b = canonical_digest (x_sha256 x) (x_hex_encode x) (x_json_vec x) (px_bundle_value x) b"

definition bundle_unsigned :: "StoreBundle \<Rightarrow> UnsignedBundle" where
  "bundle_unsigned b = UnsignedBundle.truncate b"

definition bundle_bytes :: "'x plane_ext_scheme \<Rightarrow> StoreBundle \<Rightarrow> (Error, bytes) result" where
  "bundle_bytes x b = canonical_encode (x_json_vec x) (px_unsigned_bundle_value x) (bundle_unsigned b)"

section \<open>Validators\<close>

definition plane_validate_id :: "string \<Rightarrow> string \<Rightarrow> (Error, unit) result" where
  "plane_validate_id label value =
     (if value = [] \<or> length value > 128 \<or> \<not> list_all (\<lambda>c. is_ascii_alphanumeric c \<or> c \<in> set ''._:/-'') value
      then Inl (InvalidRegistry (label @ '' is invalid'')) else Inr ())"

definition is_env_char :: "char \<Rightarrow> bool" where
  "is_env_char c \<longleftrightarrow> (let n = (of_char c :: nat) in (65 \<le> n \<and> n \<le> 90) \<or> (48 \<le> n \<and> n \<le> 57) \<or> c = CHR ''_'')"

definition validate_env_name :: "string \<Rightarrow> (Error, unit) result" where
  "validate_env_name value =
     (if value = [] \<or> length value > 128 \<or> \<not> list_all is_env_char value
      then Inl (InvalidRegistry ''bearer-token environment name is invalid'') else Inr ())"

definition is_hex32 :: "'x external_scheme \<Rightarrow> string \<Rightarrow> bool" where
  "is_hex32 x s \<longleftrightarrow> (case x_hex_decode x s of None \<Rightarrow> False | Some bs \<Rightarrow> length bs = 32)"

definition validate_key_file :: "'x external_scheme \<Rightarrow> RecoveryKeyFile \<Rightarrow> (Error, unit) result" where
  "validate_key_file x key =
     (if rk_version key \<noteq> ''evidence-key-v1'' \<or> \<not> is_hex32 x (rk_key_hex key)
      then Inl (InvalidRegistry ''recovery key file is invalid'')
      else
     rbind (plane_validate_id ''recovery key id'' (rk_key_id key)) (\<lambda>_.
     rbind (parse_time x (rk_created_at key) ''recovery key created_at'') (\<lambda>_. Inr ())))"

fun validate_stores :: "'x external_scheme \<Rightarrow> string set \<Rightarrow> string set \<Rightarrow> StoreConfig list \<Rightarrow> (Error, unit) result" where
  "validate_stores x stores domains [] = Inr ()"
| "validate_stores x stores domains (store # rest) =
     rbind (plane_validate_id ''store id'' (sc_store_id store)) (\<lambda>_.
     rbind (plane_validate_id ''store failure domain'' (sc_failure_domain store)) (\<lambda>_.
       if sc_store_id store \<in> stores \<or> sc_failure_domain store \<in> domains
       then Inl (InvalidRegistry ''store ids and administrative failure domains must be unique'')
       else if \<not> is_hex32 x (sc_public_key store)
       then Inl (InvalidRegistry ''store public key must be 32-byte hex'')
       else validate_stores x (insert (sc_store_id store) stores) (insert (sc_failure_domain store) domains) rest))"

definition require_ed25519 :: "'x external_scheme \<Rightarrow> string \<times> IssuerPolicy \<Rightarrow> (Error, unit) result" where
  "require_ed25519 x entry =
     rbind (validate_issuer_policy x (snd entry)) (\<lambda>_.
       case snd entry of
         LegacyHmac _ \<Rightarrow> Inl (InvalidRegistry ''production evidence stores require Ed25519 issuer policies'')
       | Ed25519 _ \<Rightarrow> Inr ())"

definition plane_validate_config :: "'x external_scheme \<Rightarrow> EvidencePlaneConfig \<Rightarrow> (Error, unit) result" where
  "plane_validate_config x config =
     rbind (plane_validate_id ''component'' (ec_component config)) (\<lambda>_.
     rbind (plane_validate_id ''interface version'' (ec_interface_version config)) (\<lambda>_.
     rbind (parse_time x (ec_verification_time config) ''verification_time'') (\<lambda>_.
       if ec_stores config = [] \<or> length (ec_stores config) > MAX_STORES \<or>
          ec_required_stores config = 0 \<or> ec_required_stores config > length (ec_stores config) \<or>
          ec_required_copies config = 0 \<or> ec_required_copies config > ec_required_stores config \<or>
          \<not> (1 \<le> ec_max_parallel config \<and> ec_max_parallel config \<le> MAX_PARALLEL) \<or>
          \<not> (1 \<le> ec_timeout_ms config \<and> ec_timeout_ms config \<le> 60000) \<or>
          ec_retry_budget config > 3 \<or> ec_required_fragment_domains config = 0
       then Inl (InvalidRegistry ''evidence-plane bounds are invalid'')
       else
     rbind (validate_stores x {} {} (ec_stores config)) (\<lambda>_.
       each (require_ed25519 x) (ec_trusted_issuers config)))))"

section \<open>Keys\<close>

definition plane_read_bounded :: "nat \<Rightarrow> string \<Rightarrow> place \<Rightarrow> bytes io" where
  "plane_read_bounded bound label = io_read_bounded bound (InvalidEvidence (label @ '' must be a bounded regular file''))"

definition read_secret :: "'x plane_ext_scheme \<Rightarrow> place \<Rightarrow> bytes io" where
  "read_secret x path =
     io_bind (plane_read_bounded 4096 ''recovery key'' path) (\<lambda>bs.
     io_bind (io_lstat path) (\<lambda>_.
     io_bind (io_ensure (px_private x path) (InvalidRegistry ''recovery key permissions must exclude group and other'')) (\<lambda>_.
       io_return bs)))"

definition create_recovery_key :: "'x plane_ext_scheme \<Rightarrow> bytes \<Rightarrow> place \<Rightarrow> string \<Rightarrow> string \<Rightarrow> unit io" where
  "create_recovery_key x generated path key_id created_at =
     io_bind (io_lift (plane_validate_id ''recovery key id'' key_id)) (\<lambda>_.
     io_bind (io_lift (parse_time x created_at ''recovery key created_at'')) (\<lambda>_.
       let file = \<lparr>rk_version = ''evidence-key-v1'', rk_key_id = key_id, rk_key_hex = x_hex_encode x generated,
         rk_created_at = created_at\<rparr> in
     io_bind (io_lift (canonical_encode (x_json_vec x) (px_key_value x) file)) (\<lambda>data. io_write_new path data)))"

definition read_recovery_key :: "'x plane_ext_scheme \<Rightarrow> place \<Rightarrow> RecoveryKeyFile io" where
  "read_recovery_key x path =
     io_bind (read_secret x path) (\<lambda>bs.
     io_bind (io_lift (map_err (\<lambda>error. InvalidRegistry (''recovery key file is invalid: '' @ error)) (px_parse_key x bs))) (\<lambda>key.
     io_bind (io_lift (validate_key_file x key)) (\<lambda>_. io_return key)))"

fun load_keys :: "'x plane_ext_scheme \<Rightarrow> (string \<times> place) list \<Rightarrow> (string, RecoveryKeyFile) btree_map \<Rightarrow>
    (string, RecoveryKeyFile) btree_map io" where
  "load_keys x [] keys = io_return keys"
| "load_keys x ((key_id, path) # rest) keys =
     io_bind (read_secret x path) (\<lambda>bs.
     io_bind (io_lift (map_err (\<lambda>error. InvalidRegistry (''recovery key file is invalid: '' @ error)) (px_parse_key x bs))) (\<lambda>key.
     io_bind (io_lift (validate_key_file x key)) (\<lambda>_.
     io_bind (io_ensure (key_id = rk_key_id key) (InvalidRegistry ''recovery key id does not match its path mapping'')) (\<lambda>_.
       load_keys x rest (bt_insert key_id key keys)))))"

section \<open>Seals\<close>

text \<open>The key bytes of the cipher; \<open>new_from_slice\<close> refuses any other length than 32.\<close>

definition cipher :: "'x external_scheme \<Rightarrow> RecoveryKeyFile \<Rightarrow> (Error, bytes) result" where
  "cipher x key =
     rbind (ok_or (InvalidRegistry ''recovery key is not hex'') (x_hex_decode x (rk_key_hex key))) (\<lambda>bs.
       if length bs = 32 then Inr bs else Inl (InvalidRegistry ''recovery key length is invalid''))"

definition seal_aad :: "RecoveryKeyFile \<Rightarrow> bytes" where
  "seal_aad key = as_bytes (''evidence-seal-v1:'' @ rk_key_id key)"

definition seal :: "'x plane_ext_scheme \<Rightarrow> bytes \<Rightarrow> Envelope \<Rightarrow> RecoveryKeyFile \<Rightarrow> string \<Rightarrow> string \<Rightarrow> (Error, SealedEvidence) result" where
  "seal x nonce envelope key created_at delete_after =
     rbind (validate_key_file x key) (\<lambda>_.
     rbind (parse_time x created_at ''evidence created_at'') (\<lambda>created.
     rbind (parse_time x delete_after ''evidence delete_after'') (\<lambda>delete.
       if created \<ge> delete then Inl (InvalidEvidence ''evidence deletion time must follow creation'')
       else
     rbind (cipher x key) (\<lambda>secret.
     rbind (canonical_encode (x_json_vec x) (px_protected_value x)
        \<lparr>pe_created_at = created_at, pe_delete_after = delete_after, pe_envelope = envelope\<rparr>) (\<lambda>msg.
     rbind (ok_or (InvalidEvidence ''evidence encryption failed'') (px_encrypt x secret nonce msg (seal_aad key))) (\<lambda>ciphertext.
       Inr \<lparr>sv_version = ''evidence-seal-v1'', sv_key_id = rk_key_id key, sv_nonce_hex = x_hex_encode x nonce,
         sv_ciphertext_hex = x_hex_encode x ciphertext\<rparr>))))))"

definition unseal :: "'x plane_ext_scheme \<Rightarrow> SealedEvidence \<Rightarrow> (string, RecoveryKeyFile) btree_map \<Rightarrow> string \<Rightarrow> (Error, Envelope) result" where
  "unseal x sealed keys verification_time =
     (if sv_version sealed \<noteq> ''evidence-seal-v1'' then Inl (InvalidEvidence ''evidence seal version is invalid'')
      else
     rbind (ok_or (InvalidEvidence ''evidence recovery key is unavailable'') (bt_get keys (sv_key_id sealed))) (\<lambda>key.
     rbind (validate_key_file x key) (\<lambda>_.
     rbind (ok_or (InvalidEvidence ''evidence nonce is not hex'') (x_hex_decode x (sv_nonce_hex sealed))) (\<lambda>nonce.
     rbind (ensure (length nonce = 24) (InvalidEvidence ''evidence nonce is not 24 bytes'')) (\<lambda>_.
     rbind (ok_or (InvalidEvidence ''evidence ciphertext is not hex'') (x_hex_decode x (sv_ciphertext_hex sealed))) (\<lambda>ciphertext.
     rbind (ensure (length ciphertext \<le> MAX_BUNDLE_BYTES) (SearchExhausted ''sealed evidence exceeds 16 MiB'')) (\<lambda>_.
     rbind (cipher x key) (\<lambda>secret.
     rbind (ok_or (InvalidEvidence ''evidence authentication failed'') (px_decrypt x secret nonce ciphertext (seal_aad key))) (\<lambda>plaintext.
     rbind (map_err (\<lambda>error. InvalidEvidence (''protected evidence is invalid: '' @ error)) (px_parse_protected x plaintext)) (\<lambda>protected.
     rbind (parse_time x verification_time ''verification_time'') (\<lambda>now.
     rbind (parse_time x (pe_delete_after protected) ''evidence delete_after'') (\<lambda>delete.
       if now \<ge> delete then Inl (InvalidEvidence ''evidence retention has expired'') else Inr (pe_envelope protected)))))))))))))"

section \<open>Bundles\<close>

definition sign_bundle :: "'x plane_ext_scheme \<Rightarrow> StoreBundle \<Rightarrow> bytes \<Rightarrow> (Error, StoreBundle) result" where
  "sign_bundle x bundle secret_key =
     (let bundle = bundle\<lparr>sb_signature := []\<rparr> in
     rbind (plane_validate_id ''store id'' (sb_store_id bundle)) (\<lambda>_.
     rbind (bundle_bytes x bundle) (\<lambda>bs.
       Inr (bundle\<lparr>sb_signature := x_hex_encode x (x_sign x secret_key bs)\<rparr>))))"

definition sign_bundle_with_key_file :: "'x plane_ext_scheme \<Rightarrow> StoreBundle \<Rightarrow> SigningKeyFile \<Rightarrow> (Error, StoreBundle) result" where
  "sign_bundle_with_key_file x bundle key = rbind (secret_bytes x key) (sign_bundle x bundle)"

definition validate_bundle :: "'x plane_ext_scheme \<Rightarrow> StoreConfig \<Rightarrow> StoreBundle \<Rightarrow> (Error, StoreBundle) result" where
  "validate_bundle x store bundle =
     (if sb_version bundle \<noteq> ''fragment-store-v1'' \<or> sb_store_id bundle \<noteq> sc_store_id store \<or>
         sb_failure_domain bundle \<noteq> sc_failure_domain store \<or> sb_generation bundle < sc_minimum_generation store \<or>
         sb_evidence bundle = [] \<or> length (sb_evidence bundle) > 10000
      then Inl (InvalidEvidence ''store provenance or generation is invalid'')
      else
     rbind (ok_or (InvalidRegistry ''store public key is not hex'') (x_hex_decode x (sc_public_key store))) (\<lambda>public.
     rbind (ensure (length public = 32) (InvalidRegistry ''store public key is not 32 bytes'')) (\<lambda>_.
     rbind (ok_or (InvalidEvidence ''store signature is not hex'') (x_hex_decode x (sb_signature bundle))) (\<lambda>signature.
     rbind (ensure (length signature = 64) (InvalidEvidence ''store signature length is invalid'')) (\<lambda>_.
     rbind (ensure (x_valid_key x public) (InvalidRegistry ''store public key is invalid'')) (\<lambda>_.
     rbind (bundle_bytes x bundle) (\<lambda>bs.
     rbind (ensure (x_verify x public bs signature) (InvalidEvidence ''store signature mismatch'')) (\<lambda>_. Inr bundle))))))))"

section \<open>Retrieval\<close>

definition https_request :: "'x plane_ext_scheme \<Rightarrow> string \<Rightarrow> string option \<Rightarrow> u64 \<Rightarrow> nat \<Rightarrow> (Error, bytes) result" where
  "https_request x url bearer_token_env timeout_ms attempt =
     (if take 8 url \<noteq> ''https://'' then Inl (InvalidRegistry ''remote store URL must use HTTPS'')
      else
     rbind (case bearer_token_env of
        None \<Rightarrow> Inr None
      | Some variable \<Rightarrow>
          rbind (validate_env_name variable) (\<lambda>_.
          rbind (ok_or (InvalidRegistry ''store bearer-token environment variable is absent'') (px_env x variable)) (\<lambda>token.
            Inr (Some token)))) (\<lambda>token.
     rbind (map_err (\<lambda>error. InvalidEvidence (''HTTPS store read failed: '' @ error)) (px_https x url timeout_ms token attempt)) (\<lambda>response.
       map_err (\<lambda>error. InvalidEvidence (''HTTPS store body failed: '' @ error)) response)))"

definition fetch :: "'x plane_ext_scheme \<Rightarrow> StoreConfig \<Rightarrow> u64 \<Rightarrow> nat \<Rightarrow> StoreBundle io" where
  "fetch x store timeout_ms attempt =
     io_bind (case sc_transport store of
        LocalDirectory path \<Rightarrow> plane_read_bounded MAX_BUNDLE_BYTES ''store bundle'' (path @ [''bundle.json''])
      | HttpsBundle url bearer_token_env \<Rightarrow> io_lift (https_request x url bearer_token_env timeout_ms attempt)) (\<lambda>bs.
     io_lift (map_err (\<lambda>error. InvalidEvidence (''store bundle is invalid: '' @ error)) (px_parse_bundle x bs)))"

fun fetch_attempts :: "'x plane_ext_scheme \<Rightarrow> StoreConfig \<Rightarrow> u64 \<Rightarrow> nat list \<Rightarrow> Error option \<Rightarrow> StoreBundle io" where
  "fetch_attempts x store timeout_ms [] recent =
     io_raise (case recent of None \<Rightarrow> InvalidEvidence ''store fetch failed'' | Some error \<Rightarrow> error)"
| "fetch_attempts x store timeout_ms (attempt # attempts) recent =
     io_catch (fetch x store timeout_ms attempt) (\<lambda>error. fetch_attempts x store timeout_ms attempts (Some error))"

definition fetch_with_retries :: "'x plane_ext_scheme \<Rightarrow> StoreConfig \<Rightarrow> u64 \<Rightarrow> u32 \<Rightarrow> StoreBundle io" where
  "fetch_with_retries x store timeout_ms retries = fetch_attempts x store timeout_ms [0..<unat retries + 1] None"

definition io_result :: "'a io \<Rightarrow> (Error, 'a) result io" where
  "io_result m = io_catch (io_bind m (\<lambda>v. io_return (Inr v))) (\<lambda>e. io_return (Inl e))"

primrec fetch_batch :: "'x plane_ext_scheme \<Rightarrow> EvidencePlaneConfig \<Rightarrow> StoreConfig list \<Rightarrow> (Error, StoreBundle) result list io" where
  "fetch_batch x config [] = io_return []"
| "fetch_batch x config (store # batch) =
     io_bind (io_result (fetch_with_retries x store (ec_timeout_ms config) (ec_retry_budget config))) (\<lambda>result.
     io_bind (fetch_batch x config batch) (\<lambda>results. io_return (result # results)))"

text \<open>The slices of \<open>chunks\<close>; a slice size of zero panics there and does not pass the validator.\<close>

function chunks :: "nat \<Rightarrow> 'a list \<Rightarrow> 'a list list" where
  "chunks n xs = (if xs = [] \<or> n = 0 then [] else take n xs # chunks n (drop n xs))"
  by pat_completeness auto
termination by (relation "measure (\<lambda>(n, xs). length xs)") auto

declare chunks.simps [simp del]

type_synonym admitted = "StoreBundle list \<times> string list"

definition admit_result :: "'x plane_ext_scheme \<Rightarrow> admitted \<Rightarrow> StoreConfig \<times> (Error, StoreBundle) result \<Rightarrow> admitted" where
  "admit_result x st entry = (case (st, entry) of ((successes, failures), (store, result)) \<Rightarrow>
     (case rbind result (validate_bundle x store) of
        Inr bundle \<Rightarrow> (successes @ [bundle], failures)
      | Inl _ \<Rightarrow> (successes, failures @ [sc_store_id store])))"

fun fetch_batches :: "'x plane_ext_scheme \<Rightarrow> EvidencePlaneConfig \<Rightarrow> StoreConfig list list \<Rightarrow> admitted \<Rightarrow> admitted io" where
  "fetch_batches x config [] st = io_return st"
| "fetch_batches x config (batch # batches) st =
     io_bind (fetch_batch x config batch) (\<lambda>results.
       fetch_batches x config batches (foldl (admit_result x) st (zip batch results)))"

definition or_insert :: "'k::linorder \<Rightarrow> 'v \<Rightarrow> ('k, 'v) btree_map \<Rightarrow> ('k, 'v) btree_map" where
  "or_insert k v m = (if bt_get m k = None then bt_insert k v m else m)"

fun unseal_all :: "'x plane_ext_scheme \<Rightarrow> (string, RecoveryKeyFile) btree_map \<Rightarrow> string \<Rightarrow> SealedEvidence list \<Rightarrow>
    (string, Envelope) btree_map \<Rightarrow> (string, Envelope) btree_map option" where
  "unseal_all x keys time [] store_envelopes = Some store_envelopes"
| "unseal_all x keys time (sealed # rest) store_envelopes =
     (case rbind (unseal x sealed keys time) (\<lambda>envelope. rbind (fragment_digest x envelope) (\<lambda>d. Inr (d, envelope))) of
        Inr (d, envelope) \<Rightarrow> unseal_all x keys time rest (or_insert d envelope store_envelopes)
      | Inl _ \<Rightarrow> None)"

record PlaneState =
  ps_provenance :: "StoreProvenance list"
  ps_processed :: "(string, Envelope) btree_map list"
  ps_failures :: "string list"

definition process_bundle :: "'x plane_ext_scheme \<Rightarrow> (string, RecoveryKeyFile) btree_map \<Rightarrow> string \<Rightarrow> PlaneState \<Rightarrow> StoreBundle \<Rightarrow>
    (Error, PlaneState) result" where
  "process_bundle x keys time st bundle =
     (case unseal_all x keys time (sb_evidence bundle) [] of
        None \<Rightarrow> Inr (st\<lparr>ps_failures := ps_failures st @ [sb_store_id bundle]\<rparr>)
      | Some store_envelopes \<Rightarrow>
          rbind (bundle_digest x bundle) (\<lambda>d.
            Inr (st\<lparr>ps_provenance := ps_provenance st @ [\<lparr>sp_store_id = sb_store_id bundle, sp_failure_domain = sb_failure_domain bundle,
                sp_generation = sb_generation bundle, sp_bundle_digest = d, sp_evidence_count = length (sb_evidence bundle)\<rparr>],
              ps_processed := ps_processed st @ [store_envelopes]\<rparr>)))"

definition count_entry_copy :: "(string, nat) btree_map \<times> (string, Envelope) btree_map \<Rightarrow> string \<times> Envelope \<Rightarrow>
    (string, nat) btree_map \<times> (string, Envelope) btree_map" where
  "count_entry_copy st entry = (case (st, entry) of ((copies, unique), (d, envelope)) \<Rightarrow>
     (bt_insert d ((case bt_get copies d of None \<Rightarrow> 0 | Some n \<Rightarrow> n) + 1) copies, or_insert d envelope unique))"

definition merge_stores :: "(string, Envelope) btree_map list \<Rightarrow> (string, nat) btree_map \<times> (string, Envelope) btree_map" where
  "merge_stores processed = foldl (\<lambda>st store_envelopes. foldl count_entry_copy st store_envelopes) ([], []) processed"

definition to_retrieved :: "CollectedEvidence \<Rightarrow> StoreProvenance list \<Rightarrow> string list \<Rightarrow> RetrievedEvidence" where
  "to_retrieved evidence provenance failed_stores =
     \<lparr>re_receipt = \<lparr>er_successful_stores = length provenance, er_failed_stores = failed_stores, er_provenance = provenance,
        er_fragment_domains = ce_domains evidence, er_envelope_count = length (ce_envelopes evidence),
        er_verification_audit = ce_audit evidence\<rparr>,
      re_envelopes = ce_envelopes evidence\<rparr>"

definition assemble :: "'x plane_ext_scheme \<Rightarrow> EvidencePlaneConfig \<Rightarrow> (string, RecoveryKeyFile) btree_map \<Rightarrow> admitted \<Rightarrow>
    (Error, RetrievedEvidence) result" where
  "assemble x config keys admitted = (case admitted of (successes, failures) \<Rightarrow>
     rbind (fold_results (process_bundle x keys (ec_verification_time config))
        \<lparr>ps_provenance = [], ps_processed = [], ps_failures = failures\<rparr> successes) (\<lambda>st.
       if length (ps_processed st) < ec_required_stores config
       then Inl (InsufficientEvidence ''authenticated fragment-store quorum was not reached'')
       else case merge_stores (ps_processed st) of (copies, unique) \<Rightarrow>
       if list_ex (\<lambda>(_, count). count < ec_required_copies config) copies
       then Inl (InsufficientEvidence ''one or more fragments do not meet independent store-copy quorum'')
       else
     rbind (collect_at x (map snd unique) (ec_trusted_issuers config) (ec_required_fragment_domains config) (ec_component config)
        (ec_interface_version config) (Some (ec_verification_time config))) (\<lambda>evidence.
       Inr (to_retrieved evidence (ps_provenance st) (ps_failures st)))))"

definition retrieve :: "'x plane_ext_scheme \<Rightarrow> place \<Rightarrow> RetrievedEvidence io" where
  "retrieve x config_path =
     io_bind (plane_read_bounded MAX_CONFIG_BYTES ''evidence config'' config_path) (\<lambda>config_bytes.
     io_bind (io_lift (map_err (\<lambda>error. InvalidRegistry (''evidence config is invalid: '' @ error)) (px_parse_config x config_bytes))) (\<lambda>config.
     io_bind (io_lift (plane_validate_config x config)) (\<lambda>_.
     io_bind (load_keys x (ec_recovery_keys config) []) (\<lambda>keys.
     io_bind (fetch_batches x config (chunks (ec_max_parallel config) (ec_stores config)) ([], [])) (\<lambda>admitted.
       io_lift (assemble x config keys admitted))))))"

section \<open>Seals and bundles\<close>

text \<open>What sealing \<open>p\<close> needs of the cipher, the hex encoding and the parser of protected evidence.\<close>

definition lawful_seal :: "'x plane_ext_scheme \<Rightarrow> ProtectedEvidence \<Rightarrow> bool" where
  "lawful_seal x p \<longleftrightarrow>
     (\<forall>bs. x_hex_decode x (x_hex_encode x bs) = Some bs) \<and>
     (\<forall>k n m a c. px_encrypt x k n m a = Some c \<longrightarrow> px_decrypt x k n c a = Some m) \<and>
     (\<forall>bs. canonical_encode (x_json_vec x) (px_protected_value x) p = Inr bs \<longrightarrow> px_parse_protected x bs = Inr p)"

lemma parse_time_iff [result_simps]: "parse_time x value label = Inr t \<longleftrightarrow> x_strptime x value = Some t"
  by (simp add: parse_time_def result_simps)

lemma validate_key_file_cipher: "validate_key_file x key = Inr u \<Longrightarrow> \<exists>secret. x_hex_decode x (rk_key_hex key) = Some secret \<and> length secret = 32 \<and> cipher x key = Inr secret"
  by (auto simp: validate_key_file_def is_hex32_def cipher_def split: if_split_asm option.split_asm)

lemma unseal_sealed:
  assumes "lawful_seal x \<lparr>pe_created_at = created_at, pe_delete_after = delete_after, pe_envelope = e\<rparr>" "length nonce = 24" "seal x nonce e key created_at delete_after = Inr s"
    and "bt_get keys (rk_key_id key) = Some key" "length (the (x_hex_decode x (sv_ciphertext_hex s))) \<le> MAX_BUNDLE_BYTES"
  shows "unseal x s keys time =
    rbind (parse_time x time ''verification_time'') (\<lambda>now.
      if now \<ge> the (x_strptime x delete_after) then Inl (InvalidEvidence ''evidence retention has expired'') else Inr e)"
proof -
  let ?p = "\<lparr>pe_created_at = created_at, pe_delete_after = delete_after, pe_envelope = e\<rparr>"
  obtain secret msg c del where k: "validate_key_file x key = Inr ()" "cipher x key = Inr secret"
    and m: "canonical_encode (x_json_vec x) (px_protected_value x) ?p = Inr msg" "px_encrypt x secret nonce msg (seal_aad key) = Some c"
    and del: "x_strptime x delete_after = Some del"
    and s: "s = \<lparr>sv_version = ''evidence-seal-v1'', sv_key_id = rk_key_id key, sv_nonce_hex = x_hex_encode x nonce,
         sv_ciphertext_hex = x_hex_encode x c\<rparr>"
    using assms(3) by (auto simp: seal_def result_simps split: if_split_asm)
  have "px_decrypt x secret nonce c (seal_aad key) = Some msg" "px_parse_protected x msg = Inr ?p" "length c \<le> MAX_BUNDLE_BYTES"
    using assms(1,5) m by (auto simp: lawful_seal_def s)
  then show ?thesis
    using assms(1,2,4) k del by (simp add: unseal_def s lawful_seal_def parse_time_def [of x delete_after] cong: if_cong)
qed

lemma validate_bundle_iff:
  "validate_bundle x store b = Inr b' \<longleftrightarrow> b' = b \<and>
     sb_version b = ''fragment-store-v1'' \<and> sb_store_id b = sc_store_id store \<and> sb_failure_domain b = sc_failure_domain store \<and>
     sc_minimum_generation store \<le> sb_generation b \<and> sb_evidence b \<noteq> [] \<and> length (sb_evidence b) \<le> 10000 \<and>
     (\<exists>public signature bs. x_hex_decode x (sc_public_key store) = Some public \<and> length public = 32 \<and> x_valid_key x public \<and>
        x_hex_decode x (sb_signature b) = Some signature \<and> length signature = 64 \<and> bundle_bytes x b = Inr bs \<and> x_verify x public bs signature)"
  by (auto simp: validate_bundle_def result_simps)

lemma bundle_bytes_signature [simp]: "bundle_bytes x (b\<lparr>sb_signature := s\<rparr>) = bundle_bytes x b"
  by (simp add: bundle_bytes_def bundle_unsigned_def UnsignedBundle.truncate_def)

lemma signed_bundle_validates:
  assumes "lawful_crypto x" "length secret = 32" "sign_bundle x b secret = Inr b'"
    and "sc_public_key store = x_hex_encode x (x_public_key x secret)" "sb_version b = ''fragment-store-v1''"
    and "sb_store_id b = sc_store_id store" "sb_failure_domain b = sc_failure_domain store" "sc_minimum_generation store \<le> sb_generation b"
    and "sb_evidence b \<noteq> []" "length (sb_evidence b) \<le> 10000"
  shows "validate_bundle x store b' = Inr b'"
  using assms by (auto simp: sign_bundle_def validate_bundle_iff Let_def result_simps lawful_crypto_def)

section \<open>What a store contributes\<close>

definition opened :: "'x plane_ext_scheme \<Rightarrow> (string, RecoveryKeyFile) btree_map \<Rightarrow> string \<Rightarrow> SealedEvidence \<Rightarrow> (string \<times> Envelope) option" where
  "opened x keys time s =
     (case rbind (unseal x s keys time) (\<lambda>e. rbind (fragment_digest x e) (\<lambda>d. Inr (d, e))) of Inl _ \<Rightarrow> None | Inr p \<Rightarrow> Some p)"

text \<open>All evidence of a bundle can be unsealed; the unsealed envelopes with their digests; the bundle holds an envelope
  with the digest \<open>d\<close>.\<close>

definition bundle_opens :: "'x plane_ext_scheme \<Rightarrow> (string, RecoveryKeyFile) btree_map \<Rightarrow> string \<Rightarrow> StoreBundle \<Rightarrow> bool" where
  "bundle_opens x keys time b \<longleftrightarrow> (\<forall>s \<in> set (sb_evidence b). opened x keys time s \<noteq> None)"

definition bundle_entries :: "'x plane_ext_scheme \<Rightarrow> (string, RecoveryKeyFile) btree_map \<Rightarrow> string \<Rightarrow> StoreBundle \<Rightarrow> (string \<times> Envelope) list" where
  "bundle_entries x keys time b = map (\<lambda>s. the (opened x keys time s)) (sb_evidence b)"

definition holds_digest :: "'x plane_ext_scheme \<Rightarrow> (string, RecoveryKeyFile) btree_map \<Rightarrow> string \<Rightarrow> string \<Rightarrow> StoreBundle \<Rightarrow> bool" where
  "holds_digest x keys time d b \<longleftrightarrow> d \<in> fst ` set (bundle_entries x keys time b)"

lemma opened_iff: "opened x keys time s = Some (d, e) \<longleftrightarrow> unseal x s keys time = Inr e \<and> fragment_digest x e = Inr d"
  by (auto simp: opened_def result_simps split: sum.split_asm)

lemma bundle_entriesD:
  assumes "bundle_opens x keys time b" "(d, e) \<in> set (bundle_entries x keys time b)"
  shows "fragment_digest x e = Inr d \<and> (\<exists>s \<in> set (sb_evidence b). unseal x s keys time = Inr e)"
proof -
  obtain s where s: "s \<in> set (sb_evidence b)" "(d, e) = the (opened x keys time s)" using assms(2) by (auto simp: bundle_entries_def)
  then have "opened x keys time s = Some (d, e)" using assms(1) by (cases "opened x keys time s") (auto simp: bundle_opens_def)
  then show ?thesis using s(1) by (auto simp: opened_iff)
qed

lemma or_insert_simps [simp]:
  "bt_wf m \<Longrightarrow> bt_wf (or_insert k v m)"
  "bt_wf m \<Longrightarrow> map_of (or_insert k v m) = (if map_of m k = None then (map_of m)(k \<mapsto> v) else map_of m)"
  by (simp_all add: or_insert_def)

abbreviation or_insert_all :: "('k::linorder, 'v) btree_map \<Rightarrow> ('k \<times> 'v) list \<Rightarrow> ('k, 'v) btree_map" where
  "or_insert_all m es \<equiv> foldl (\<lambda>m (k, v). or_insert k v m) m es"

lemma or_insert_all:
  "bt_wf m \<Longrightarrow> bt_wf (or_insert_all m es) \<and> dom (map_of (or_insert_all m es)) = dom (map_of m) \<union> fst ` set es \<and>
     (\<forall>k v. map_of (or_insert_all m es) k = Some v \<longrightarrow> map_of m k = Some v \<or> (k, v) \<in> set es)"
proof (induction es arbitrary: m)
  case (Cons e es)
  obtain k' v' where e: "e = (k', v')" by (cases e)
  have "dom (map_of (or_insert k' v' m)) = insert k' (dom (map_of m))" using Cons.prems by auto
  moreover have "map_of (or_insert k' v' m) k = Some v \<Longrightarrow> map_of m k = Some v \<or> (k, v) = e" for k v
    using Cons.prems by (auto simp: e split: if_split_asm)
  moreover have "or_insert_all m (e # es) = or_insert_all (or_insert k' v' m) es" "bt_wf (or_insert k' v' m)" using Cons.prems by (simp_all add: e)
  moreover note Cons.IH [OF this(2)]
  ultimately show ?case by (simp add: e) blast
qed simp

lemma unseal_all_eq:
  "unseal_all x keys time ss m =
     (if \<forall>s \<in> set ss. opened x keys time s \<noteq> None then Some (or_insert_all m (map (\<lambda>s. the (opened x keys time s)) ss)) else None)"
proof (induction ss arbitrary: m)
  case (Cons s ss)
  show ?case by (cases "rbind (unseal x s keys time) (\<lambda>e. rbind (fragment_digest x e) (\<lambda>d. Inr (d, e)))")
    (auto simp: Cons.IH opened_def [of x keys time s] split: prod.splits)
qed simp

definition store_map :: "'x plane_ext_scheme \<Rightarrow> (string, RecoveryKeyFile) btree_map \<Rightarrow> string \<Rightarrow> StoreBundle \<Rightarrow> (string, Envelope) btree_map" where
  "store_map x keys time b = or_insert_all [] (bundle_entries x keys time b)"

lemma store_map_facts:
  "bt_wf (store_map x keys time b)" "d \<in> dom (map_of (store_map x keys time b)) \<longleftrightarrow> holds_digest x keys time d b"
  "map_of (store_map x keys time b) d = Some e \<Longrightarrow> (d, e) \<in> set (bundle_entries x keys time b)"
  using or_insert_all [of "[]" "bundle_entries x keys time b"] by (simp_all add: store_map_def holds_digest_def)

section \<open>The quorum\<close>

lemma process_bundles:
  "fold_results (process_bundle x keys time) st bs = Inr st' \<Longrightarrow>
     ps_processed st' = ps_processed st @ map (store_map x keys time) (filter (bundle_opens x keys time) bs) \<and>
     ps_failures st' = ps_failures st @ map sb_store_id (filter (\<lambda>b. \<not> bundle_opens x keys time b) bs) \<and>
     map sp_store_id (ps_provenance st') = map sp_store_id (ps_provenance st) @ map sb_store_id (filter (bundle_opens x keys time) bs)"
proof (induction bs arbitrary: st)
  case (Cons b bs)
  then obtain t where t: "process_bundle x keys time st b = Inr t" "fold_results (process_bundle x keys time) t bs = Inr st'"
    by (auto simp: result_simps)
  have "ps_processed t = ps_processed st @ (if bundle_opens x keys time b then [store_map x keys time b] else [])"
    "ps_failures t = ps_failures st @ (if bundle_opens x keys time b then [] else [sb_store_id b])"
    "map sp_store_id (ps_provenance t) = map sp_store_id (ps_provenance st) @ (if bundle_opens x keys time b then [sb_store_id b] else [])"
    using t(1) by (auto simp: process_bundle_def unseal_all_eq bundle_opens_def store_map_def bundle_entries_def result_simps split: if_split_asm)
  with Cons.IH [OF t(2)] show ?case by simp
qed simp

definition get_count :: "(string, nat) btree_map \<Rightarrow> string \<Rightarrow> nat" where
  "get_count copies d = (case bt_get copies d of None \<Rightarrow> 0 | Some n \<Rightarrow> n)"

lemma count_store:
  assumes "bt_wf copies" "bt_wf unique" "distinct (map fst m)" "foldl count_entry_copy (copies, unique) m = (copies', unique')"
  shows "bt_wf copies' \<and> bt_wf unique' \<and> (\<forall>d. get_count copies' d = get_count copies d + (if d \<in> fst ` set m then 1 else 0)) \<and>
    dom (map_of copies') = dom (map_of copies) \<union> fst ` set m \<and> unique' = or_insert_all unique m"
  using assms
proof (induction m arbitrary: copies unique)
  case (Cons e m)
  obtain d v where e: "e = (d, v)" by (cases e)
  let ?c = "bt_insert d (get_count copies d + 1) copies" and ?u = "or_insert d v unique"
  have "count_entry_copy (copies, unique) e = (?c, ?u)" by (simp add: e count_entry_copy_def get_count_def)
  then have step: "foldl count_entry_copy (?c, ?u) m = (copies', unique')" using Cons.prems(4) by simp
  have "get_count ?c k = get_count copies k + (if k = d then 1 else 0)" for k
    using Cons.prems(1) by (simp add: get_count_def)
  then show ?case using Cons.IH [OF _ _ _ step] Cons.prems by (auto simp: e)
qed simp

lemma merge_stores:
  assumes "\<forall>m \<in> set ms. bt_wf m" "merge_stores ms = (copies, unique)"
  shows "get_count copies d = length (filter (\<lambda>m. d \<in> fst ` set m) ms)" "bt_wf copies" "bt_wf unique"
    "dom (map_of copies) = (\<Union>m \<in> set ms. fst ` set m)" "unique = or_insert_all [] (concat ms)"
proof -
  have "bt_wf copies' \<and> bt_wf unique' \<and> (\<forall>d. get_count copies' d = length (filter (\<lambda>m. d \<in> fst ` set m) ms)) \<and>
      dom (map_of copies') = (\<Union>m \<in> set ms. fst ` set m) \<and> unique' = or_insert_all [] (concat ms)"
    if "\<forall>m \<in> set ms. bt_wf m" "foldl (\<lambda>st m. foldl count_entry_copy st m) ([], []) ms = (copies', unique')" for copies' unique' ms
    using that
  proof (induction ms arbitrary: copies' unique' rule: rev_induct)
    case (snoc m ms)
    obtain c u where cu: "foldl (\<lambda>st m. foldl count_entry_copy st m) ([], []) ms = (c, u)" by fastforce
    then have "foldl count_entry_copy (c, u) m = (copies', unique')" "bt_wf m" using snoc.prems by simp_all
    moreover from snoc.IH [OF _ cu] snoc.prems(1) have ih: "bt_wf c" "bt_wf u" "\<forall>d. get_count c d = length (filter (\<lambda>m. d \<in> fst ` set m) ms)"
      "dom (map_of c) = (\<Union>m \<in> set ms. fst ` set m)" "u = or_insert_all [] (concat ms)" by auto
    ultimately show ?case using count_store [of c u m copies' unique'] by (auto simp: bt_wf_distinct)
  qed (simp add: get_count_def)
  from this [OF assms(1)] assms(2)
  show "get_count copies d = length (filter (\<lambda>m. d \<in> fst ` set m) ms)" "bt_wf copies" "bt_wf unique"
    "dom (map_of copies) = (\<Union>m \<in> set ms. fst ` set m)" "unique = or_insert_all [] (concat ms)"
    by (auto simp: merge_stores_def)
qed

lemma assembled:
  fixes x :: "'x plane_ext_scheme"
  assumes "assemble x config keys (successes, failures) = Inr r"
  defines "time \<equiv> ec_verification_time config"
  defines "used \<equiv> filter (bundle_opens x keys time) successes"
  shows "ec_required_stores config \<le> length used" "er_successful_stores (re_receipt r) = length used"
    "map sp_store_id (er_provenance (re_receipt r)) = map sb_store_id used"
    "er_failed_stores (re_receipt r) = failures @ map sb_store_id (filter (\<lambda>b. \<not> bundle_opens x keys time b) successes)"
    "\<forall>e \<in> set (re_envelopes r). \<exists>d. fragment_digest x e = Inr d \<and> ec_required_copies config \<le> length (filter (holds_digest x keys time d) used) \<and>
       (\<exists>b \<in> set used. \<exists>s \<in> set (sb_evidence b). unseal x s keys time = Inr e)"
    "\<forall>b \<in> set used. \<forall>(d, e) \<in> set (bundle_entries x keys time b). \<exists>e' \<in> set (re_envelopes r). fragment_digest x e' = Inr d"
    "\<exists>now. x_strptime x time = Some now \<and> admissible x (ec_trusted_issuers config) (ec_required_fragment_domains config) (ec_component config)
       (ec_interface_version config) (Some now) (set (re_envelopes r))"
proof -
  obtain st copies unique ev where st: "fold_results (process_bundle x keys time) \<lparr>ps_provenance = [], ps_processed = [], ps_failures = failures\<rparr> successes = Inr st"
    and n: "ec_required_stores config \<le> length (ps_processed st)" and m: "merge_stores (ps_processed st) = (copies, unique)"
    and c: "\<forall>(d, n) \<in> set copies. ec_required_copies config \<le> n"
    and ev: "collect_at x (map snd unique) (ec_trusted_issuers config) (ec_required_fragment_domains config) (ec_component config)
        (ec_interface_version config) (Some time) = Inr ev"
    and r: "r = to_retrieved ev (ps_provenance st) (ps_failures st)"
    using assms(1) by (fastforce simp: assemble_def result_simps time_def list_ex_iff split: if_split_asm prod.split_asm)
  from process_bundles [OF st] have p: "ps_processed st = map (store_map x keys time) used"
    "ps_failures st = failures @ map sb_store_id (filter (\<lambda>b. \<not> bundle_opens x keys time b) successes)"
    "map sp_store_id (ps_provenance st) = map sb_store_id used" by (simp_all add: used_def)
  have opens: "bundle_opens x keys time b" if "b \<in> set used" for b using that by (simp add: used_def)
  have wf: "\<forall>m \<in> set (ps_processed st). bt_wf m" by (simp add: p store_map_facts)
  note ms = merge_stores [OF wf m]
  have keys_of: "fst ` set (store_map x keys time b) = {d. holds_digest x keys time d b}" for b
    using store_map_facts(2) [of _ x keys time b] by (auto simp only: dom_map_of_conv_image_fst)
  have cnt: "get_count copies d = length (filter (holds_digest x keys time d) used)" for d
    by (simp add: ms(1) p(1) filter_map comp_def keys_of)
  obtain now where now: "x_strptime x time = Some now" and env: "set (re_envelopes r) = snd ` set unique"
    and adm: "admissible x (ec_trusted_issuers config) (ec_required_fragment_domains config) (ec_component config)
       (ec_interface_version config) (Some now) (snd ` set unique)"
    using ev by (auto simp: collect_at_iff parse_verification_time_def result_simps r to_retrieved_def)
  show "ec_required_stores config \<le> length used" using n by (simp add: p)
  have "length (ps_provenance st) = length used" using p(3) by (metis length_map)
  then show "er_successful_stores (re_receipt r) = length used" by (simp add: r to_retrieved_def)
  show "map sp_store_id (er_provenance (re_receipt r)) = map sb_store_id used"
    "er_failed_stores (re_receipt r) = failures @ map sb_store_id (filter (\<lambda>b. \<not> bundle_opens x keys time b) successes)"
    by (simp_all add: r to_retrieved_def p)
  have uni: "(d, e) \<in> set (concat (ps_processed st))" if "(d, e) \<in> set unique" for d e
    using that ms(3) or_insert_all [of "[]" "concat (ps_processed st)"] by (auto simp: ms(5) bt_wf_distinct)
  have src: "\<exists>b \<in> set used. (d, e) \<in> set (bundle_entries x keys time b)" if de: "(d, e) \<in> set unique" for d e
  proof -
    from uni [OF de] obtain b where b: "b \<in> set used" "(d, e) \<in> set (store_map x keys time b)" by (auto simp: p)
    then have "map_of (store_map x keys time b) d = Some e" by (simp add: bt_wf_distinct store_map_facts(1))
    from b(1) store_map_facts(3) [OF this] show ?thesis by blast
  qed
  show "\<forall>e \<in> set (re_envelopes r). \<exists>d. fragment_digest x e = Inr d \<and> ec_required_copies config \<le> length (filter (holds_digest x keys time d) used) \<and>
       (\<exists>b \<in> set used. \<exists>s \<in> set (sb_evidence b). unseal x s keys time = Inr e)"
  proof
    fix e assume "e \<in> set (re_envelopes r)"
    then obtain d where de: "(d, e) \<in> set unique" by (auto simp: env)
    obtain b where b: "b \<in> set used" "(d, e) \<in> set (bundle_entries x keys time b)" using src [OF de] by blast
    have "d \<in> fst ` set (store_map x keys time b)" using b(2) by (force simp: keys_of holds_digest_def)
    then have "d \<in> dom (map_of copies)" using b(1) by (auto simp: ms(4) p(1))
    then obtain k where "map_of copies d = Some k" by blast
    then have "ec_required_copies config \<le> get_count copies d" using c by (auto simp: get_count_def dest: map_of_SomeD)
    then show "\<exists>d. fragment_digest x e = Inr d \<and> ec_required_copies config \<le> length (filter (holds_digest x keys time d) used) \<and>
       (\<exists>b \<in> set used. \<exists>s \<in> set (sb_evidence b). unseal x s keys time = Inr e)"
      using bundle_entriesD [OF opens [OF b(1)] b(2)] b(1) cnt by auto
  qed
  show "\<forall>b \<in> set used. \<forall>(d, e) \<in> set (bundle_entries x keys time b). \<exists>e' \<in> set (re_envelopes r). fragment_digest x e' = Inr d"
  proof (intro ballI, clarify)
    fix b d e assume b: "b \<in> set used" "(d, e) \<in> set (bundle_entries x keys time b)"
    then have "d \<in> fst ` set (store_map x keys time b)" by (force simp: keys_of holds_digest_def)
    then have "d \<in> fst ` set (concat (ps_processed st))" using b(1) by (force simp: p(1))
    then have "d \<in> dom (map_of unique)" using or_insert_all [of "[]" "concat (ps_processed st)"] by (simp add: ms(5))
    then obtain e' where e': "(d, e') \<in> set unique" by (auto dest: map_of_SomeD)
    obtain b' where "b' \<in> set used" "(d, e') \<in> set (bundle_entries x keys time b')" using src [OF e'] by blast
    then have "fragment_digest x e' = Inr d" using bundle_entriesD [OF opens] by blast
    then show "\<exists>e' \<in> set (re_envelopes r). fragment_digest x e' = Inr d" using e' by (force simp: env)
  qed
  show "\<exists>now. x_strptime x time = Some now \<and> admissible x (ec_trusted_issuers config) (ec_required_fragment_domains config) (ec_component config)
       (ec_interface_version config) (Some now) (set (re_envelopes r))"
    using now adm env by auto
qed

section \<open>Fetching\<close>

text \<open>The stores \<open>stores\<close> were asked: those that answered with a bundle that validates, in order, and the others.\<close>

definition admitted_from :: "'x plane_ext_scheme \<Rightarrow> StoreConfig list \<Rightarrow> admitted \<Rightarrow> bool" where
  "admitted_from x stores st \<longleftrightarrow>
     (\<exists>ps. subseq (map fst ps) stores \<and> fst st = map snd ps \<and> (\<forall>(store, b) \<in> set ps. validate_bundle x store b = Inr b)) \<and>
     mset (map sb_store_id (fst st)) + mset (snd st) = mset (map sc_store_id stores)"

lemma admit_result_step:
  assumes "admitted_from x stores st"
  shows "admitted_from x (stores @ [store]) (admit_result x st (store, result))"
proof -
  obtain ss fs where st: "st = (ss, fs)" by (cases st)
  obtain ps where ps: "subseq (map fst ps) stores" "ss = map snd ps" "\<forall>(store, b) \<in> set ps. validate_bundle x store b = Inr b"
    using assms by (auto simp: admitted_from_def st)
  have "subseq (map fst ps) (stores @ [store])" using ps(1) by (rule subseq_rev_drop_many)
  moreover have "subseq (map fst (ps @ [(store, b)])) (stores @ [store])" for b using ps(1) by simp
  moreover have "b' = b \<and> sb_store_id b = sc_store_id store" if "validate_bundle x store b = Inr b'" for b b'
    using that by (simp add: validate_bundle_iff)
  ultimately show ?thesis
  proof (cases "rbind result (validate_bundle x store)")
    case (Inr b)
    then have b: "validate_bundle x store b = Inr b" "sb_store_id b = sc_store_id store" by (auto simp: result_simps validate_bundle_iff)
    then show ?thesis using assms ps \<open>subseq (map fst (ps @ [(store, b)])) (stores @ [store])\<close>
      unfolding admitted_from_def by (intro conjI exI [of _ "ps @ [(store, b)]"]) (auto simp: admit_result_def st Inr)
  qed (use assms ps in \<open>auto simp: admitted_from_def admit_result_def st intro!: exI [of _ ps]\<close>)
qed

lemma admit_results:
  "admitted_from x stores st \<Longrightarrow> length batch = length results \<Longrightarrow>
     admitted_from x (stores @ batch) (foldl (admit_result x) st (zip batch results))"
proof (induction batch arbitrary: stores st results)
  case (Cons store batch)
  then obtain result rest where r: "results = result # rest" by (cases results) auto
  show ?case using Cons.IH [OF admit_result_step [OF Cons.prems(1)], of rest] Cons.prems(2) by (simp add: r)
qed simp

lemma fetch_batch_length: "fetch_batch x config batch d = (Done results, d') \<Longrightarrow> length results = length batch"
  by (induction batch arbitrary: d results) (auto simp: io_Done)

lemma fetch_batches_admitted:
  "admitted_from x stores st \<Longrightarrow> fetch_batches x config batches st d = (Done st', d') \<Longrightarrow> admitted_from x (stores @ concat batches) st'"
proof (induction batches arbitrary: stores st d)
  case (Cons batch batches)
  obtain results e where r: "fetch_batch x config batch d = (Done results, e)"
    "fetch_batches x config batches (foldl (admit_result x) st (zip batch results)) e = (Done st', d')"
    using Cons.prems(2) by (auto simp: io_Done)
  from Cons.IH [OF admit_results [OF Cons.prems(1)] r(2)] fetch_batch_length [OF r(1)] show ?case by simp
qed simp

lemma concat_chunks: "0 < n \<Longrightarrow> concat (chunks n xs) = xs"
  by (induction n xs rule: chunks.induct) (subst chunks.simps, auto)

lemma validate_stores_distinct:
  "validate_stores x ids domains stores = Inr u \<Longrightarrow> distinct (map sc_store_id stores) \<and> distinct (map sc_failure_domain stores) \<and>
     sc_store_id ` set stores \<inter> ids = {} \<and> sc_failure_domain ` set stores \<inter> domains = {}"
  by (induction x ids domains stores rule: validate_stores.induct) (auto simp: result_simps split: if_split_asm)

lemma distinct_subseq: "subseq xs ys \<Longrightarrow> distinct ys \<Longrightarrow> distinct xs"
  by (induction xs ys rule: list_emb.induct) (auto dest: list_emb_set)

lemma admitted_domains:
  assumes "admitted_from x stores (ss, fs)" "distinct (map sc_failure_domain stores)"
  shows "distinct (map sb_failure_domain ss) \<and> (\<forall>b \<in> set ss. \<exists>store \<in> set stores. validate_bundle x store b = Inr b)"
proof -
  obtain ps where ps: "subseq (map fst ps) stores" "ss = map snd ps" "\<forall>(store, b) \<in> set ps. validate_bundle x store b = Inr b"
    using assms(1) by (auto simp: admitted_from_def)
  have "map sb_failure_domain ss = map sc_failure_domain (map fst ps)" using ps(2,3) by (auto simp: validate_bundle_iff)
  then have "distinct (map sb_failure_domain ss)" using distinct_subseq [OF subseq_map [OF ps(1)] assms(2)] by simp
  moreover have "fst p \<in> set stores" if "p \<in> set ps" for p using list_emb_set [OF ps(1), of "fst p"] that by auto
  ultimately show ?thesis using ps(2,3) by fastforce
qed

text \<open>The batches do not matter: whatever the parallelism, the stores are asked once each, in order.\<close>

lemma foldl_admit_append: "length xs = length rs \<Longrightarrow>
  foldl (admit_result x) st (zip (xs @ ys) (rs @ ss)) = foldl (admit_result x) (foldl (admit_result x) st (zip xs rs)) (zip ys ss)"
  by simp

lemma fetch_batch_append:
  "fetch_batch x config (xs @ ys) = io_bind (fetch_batch x config xs) (\<lambda>rs. io_bind (fetch_batch x config ys) (\<lambda>ss. io_return (rs @ ss)))"
  by (induction xs) (simp_all add: io_bind_assoc)

lemma fetch_batches_sequential:
  "fetch_batches x config batches st =
     io_bind (fetch_batch x config (concat batches)) (\<lambda>results. io_return (foldl (admit_result x) st (zip (concat batches) results)))"
proof (induction batches arbitrary: st)
  case (Cons batch batches)
  have "io_bind (fetch_batch x config batch) (\<lambda>rs. io_bind (fetch_batch x config (concat batches)) (\<lambda>ss.
      io_return (foldl (admit_result x) (foldl (admit_result x) st (zip batch rs)) (zip (concat batches) ss)))) d =
    io_bind (fetch_batch x config batch) (\<lambda>rs. io_bind (fetch_batch x config (concat batches)) (\<lambda>ss.
      io_return (foldl (admit_result x) st (zip (batch @ concat batches) (rs @ ss))))) d" for d
    using fetch_batch_length [of x config batch d] by (auto simp: io_bind_def split: prod.split run.split)
  then show ?case by (simp add: Cons.IH fetch_batch_append io_bind_assoc fun_eq_iff)
qed simp

section \<open>Retrieval only reads\<close>

lemma frames_read_secret [frame_intros]: "frames ps (read_secret x path)" "frames ps (plane_read_bounded n label path)"
  unfolding read_secret_def plane_read_bounded_def by (intro frame_intros)+

lemma frames_load_keys [frame_intros]: "frames ps (load_keys x paths keys)"
  by (induction x paths keys rule: load_keys.induct) (auto intro!: frame_intros)

lemma frames_fetch [frame_intros]: "frames ps (fetch x store t n)"
  unfolding fetch_def by (auto intro!: frame_intros split: StoreTransport.split)

lemma frames_fetch_attempts [frame_intros]: "frames ps (fetch_attempts x store t ns e)"
  by (induction x store t ns e rule: fetch_attempts.induct) (auto intro!: frame_intros)

lemma frames_fetch_batch [frame_intros]: "frames ps (fetch_batch x config stores)"
  by (induction stores) (auto intro!: frame_intros simp: io_result_def fetch_with_retries_def)

lemma frames_fetch_batches [frame_intros]: "frames ps (fetch_batches x config batches st)"
  unfolding fetch_batches_sequential by (intro frame_intros)

lemma frames_retrieve [frame_intros]: "frames ps (retrieve x path)"
  unfolding retrieve_def by (intro frame_intros)

lemma retrieved:
  assumes "retrieve x path d = (Done r, d')"
  obtains config keys successes failures where "plane_validate_config x config = Inr ()" "assemble x config keys (successes, failures) = Inr r"
    "admitted_from x (ec_stores config) (successes, failures)" "files d' = files d"
proof -
  obtain bs config keys successes failures d1 d2 where c: "plane_validate_config x config = Inr ()"
    and f: "fetch_batches x config (chunks (ec_max_parallel config) (ec_stores config)) ([], []) d1 = (Done (successes, failures), d2)"
    and a: "assemble x config keys (successes, failures) = Inr r"
    using assms by (auto simp: retrieve_def io_Done)
  have "admitted_from x [] ([], [])" by (simp add: admitted_from_def)
  from fetch_batches_admitted [OF this f] have "admitted_from x (ec_stores config) (successes, failures)"
    using c by (simp add: concat_chunks plane_validate_config_def result_simps split: if_split_asm)
  moreover have "files d' = files d" using framesD [OF frames_retrieve [of "{}"] assms] by auto
  ultimately show thesis using that c a by blast
qed

section \<open>Fetching without faults\<close>

lemma returns_fetch:
  assumes "sc_transport store = LocalDirectory p" "f (p @ [''bundle.json'']) = Some (FileEntry bs)" "length bs \<le> MAX_BUNDLE_BYTES"
    and "px_parse_bundle x bs = Inr b" "Q b f"
  shows "returns (fetch_with_retries x store t n) Q f"
proof -
  have "returns (fetch x store t 0) Q f"
    using assms unfolding fetch_def plane_read_bounded_def
    by (auto intro!: returns_bind returns_read_bounded returns_lift)
  then show ?thesis by (simp add: fetch_with_retries_def upt_conv_Cons returns_catch del: upt_Suc)
qed

lemma returns_fetch_batch:
  assumes "\<forall>s \<in> set stores. \<exists>p bs. sc_transport s = LocalDirectory p \<and> f (p @ [''bundle.json'']) = Some (FileEntry bs) \<and>
      length bs \<le> MAX_BUNDLE_BYTES \<and> px_parse_bundle x bs = Inr (b s)" "Q (map (\<lambda>s. Inr (b s)) stores) f"
  shows "returns (fetch_batch x config stores) Q f"
  using assms
proof (induction stores arbitrary: Q)
  case (Cons s stores)
  obtain p bs where s: "sc_transport s = LocalDirectory p" "f (p @ [''bundle.json'']) = Some (FileEntry bs)" "length bs \<le> MAX_BUNDLE_BYTES"
    "px_parse_bundle x bs = Inr (b s)" using Cons.prems(1) by auto
  have "returns (fetch_batch x config stores) (\<lambda>rs. returns (io_return (Inr (b s) # rs)) Q) f"
    using Cons.prems by (intro Cons.IH) (auto intro: returns_return)
  then show ?case unfolding fetch_batch.simps io_result_def
    by (intro returns_bind returns_catch returns_fetch [where p = p and bs = bs and b = "b s"] returns_return) (use s in simp_all)
qed (simp add: returns_return)

section \<open>A concrete evidence plane\<close>

text \<open>Two stores hold the same two fragments, a contract and a state schema, signed by one issuer.\<close>

definition plane_envelope :: "bool \<Rightarrow> Envelope" where
  "plane_envelope schema =
     (if schema then toy_envelope StateSchemaKind (StatePolicy [''s''] ''s'') 1 [] else toy_envelope ContractKind (Transition ''s'' ''a'' ''s'' ''x'') 2 [])
     \<lparr>en_signature := ''ed25519:k1:'' @ toy_hex (replicate 32 7 @ replicate 32 7)\<rparr>"

definition plane_sealed :: "bool \<Rightarrow> SealedEvidence" where
  "plane_sealed schema = \<lparr>sv_version = ''evidence-seal-v1'', sv_key_id = ''k'', sv_nonce_hex = toy_hex (replicate 24 0),
     sv_ciphertext_hex = toy_hex [if schema then 0 else 1]\<rparr>"

definition plane_bundle :: "string \<Rightarrow> StoreBundle" where
  "plane_bundle name = \<lparr>sb_version = ''fragment-store-v1'', sb_store_id = name, sb_failure_domain = name, sb_generation = 3,
     sb_evidence = [plane_sealed True, plane_sealed False], sb_signature = toy_hex (replicate 32 7 @ replicate 32 7)\<rparr>"

definition plane_store :: "string \<Rightarrow> StoreConfig" where
  "plane_store name = \<lparr>sc_store_id = name, sc_failure_domain = name, sc_public_key = toy_hex (replicate 32 7), sc_minimum_generation = 2,
     sc_transport = LocalDirectory [name]\<rparr>"

definition plane_config :: EvidencePlaneConfig where
  "plane_config = \<lparr>ec_component = ''c'', ec_interface_version = ''1'', ec_required_fragment_domains = 1, ec_required_stores = 2,
     ec_required_copies = 2, ec_max_parallel = 1, ec_timeout_ms = 10, ec_retry_budget = 1, ec_verification_time = ''time'',
     ec_stores = [plane_store ''a'', plane_store ''b''], ec_trusted_issuers = [(''i'', Ed25519 toy_policy)],
     ec_recovery_keys = [(''k'', [''key''])]\<rparr>"

definition plane_recovery_key :: RecoveryKeyFile where
  "plane_recovery_key = \<lparr>rk_version = ''evidence-key-v1'', rk_key_id = ''k'', rk_key_hex = toy_hex (replicate 32 7), rk_created_at = ''t''\<rparr>"

definition plane_toy :: plane_ext where
  "plane_toy = fragments_ext.extend toy_ext (plane_ext.fields (\<lambda>k n m a. Some m) (\<lambda>k n c a. Some c)
     (\<lambda>_. Inr JNull) (\<lambda>_. Inr plane_recovery_key) (\<lambda>p. Inr (JString (if en_kind (pe_envelope p) = StateSchemaKind then [CHR 0x00] else [CHR 0x01])))
     (\<lambda>bs. Inr \<lparr>pe_created_at = ''t'', pe_delete_after = ''forever'', pe_envelope = plane_envelope (bs = [0])\<rparr>)
     (\<lambda>_. Inr JNull) (\<lambda>_. Inr JNull) (\<lambda>bs. Inr (plane_bundle (if bs = [0] then ''a'' else ''b'')))
     (\<lambda>e. Inr (JString (en_content_digest e))) (\<lambda>_. Inr JNull) (\<lambda>_. Inr plane_config)
     (\<lambda>_ _ _ _. Inl '' '') (\<lambda>_. None) (\<lambda>_. True))"

lemma plane_toy_fields: "x_sha256 plane_toy = id" "x_hex_encode plane_toy = toy_hex" "x_hex_decode plane_toy = toy_unhex"
  "x_json_vec plane_toy (JString s) = Inr (as_bytes s)" "x_json_vec plane_toy JNull = Inr []" "x_strptime plane_toy = (\<lambda>s. Some (int (length s)))"
  "x_content_value plane_toy = (\<lambda>c. Inr (JString (toy_content c)))" "x_unsigned_value plane_toy = (\<lambda>e. Inr (JString (en_issuer e)))"
  "x_valid_key plane_toy = (\<lambda>k. length k = 32)" "x_verify plane_toy = (\<lambda>k m s. s = k @ k)" "x_sign plane_toy = (\<lambda>k m. k @ k)" "x_public_key plane_toy = id"
  "px_decrypt plane_toy = (\<lambda>k n c a. Some c)" "px_encrypt plane_toy = (\<lambda>k n m a. Some m)" "px_parse_key plane_toy = (\<lambda>_. Inr plane_recovery_key)"
  "px_parse_protected plane_toy = (\<lambda>bs. Inr \<lparr>pe_created_at = ''t'', pe_delete_after = ''forever'', pe_envelope = plane_envelope (bs = [0])\<rparr>)"
  "px_unsigned_bundle_value plane_toy = (\<lambda>_. Inr JNull)" "px_bundle_value plane_toy = (\<lambda>_. Inr JNull)" "px_receipt_value plane_toy = (\<lambda>_. Inr JNull)"
  "px_parse_bundle plane_toy = (\<lambda>bs. Inr (plane_bundle (if bs = [0] then ''a'' else ''b'')))"
  "px_envelope_value plane_toy = (\<lambda>e. Inr (JString (en_content_digest e)))" "px_parse_config plane_toy = (\<lambda>_. Inr plane_config)"
  "px_private plane_toy = (\<lambda>_. True)"
  by (simp_all add: plane_toy_def fragments_ext.defs plane_ext.defs toy_ext_def)

lemma toy_unhex_hex: "toy_unhex (toy_hex bs) = Some bs"
  using toy_hex_roundtrip by blast

lemma plane_lawful: "lawful_crypto plane_toy"
  using toy_hex_roundtrip by (simp add: lawful_crypto_def plane_toy_fields)

lemma plane_ids: "plane_validate_id label ''a'' = Inr ()" "plane_validate_id label ''b'' = Inr ()" "plane_validate_id label ''c'' = Inr ()"
  "plane_validate_id label ''1'' = Inr ()" "plane_validate_id label ''k'' = Inr ()"
  by (simp_all add: plane_validate_id_def is_ascii_alphanumeric_def)

lemma plane_key_valid: "validate_key_file plane_toy plane_recovery_key = Inr ()"
  by (simp add: validate_key_file_def plane_recovery_key_def is_hex32_def plane_toy_fields toy_unhex_hex plane_ids parse_time_def del: replicate.simps)

lemma plane_policy_valid: "validate_issuer_policy plane_toy (Ed25519 toy_policy) = Inr ()"
  using toy_key_id toy_unhex_hex
  by (simp add: validate_issuer_policy_def toy_policy_def policy_failure_domain_def toy_key_def validate_key_policy_def plane_toy_fields parse_time_def
      del: replicate.simps)

lemma plane_config_valid: "plane_validate_config plane_toy plane_config = Inr ()"
  using plane_policy_valid
  by (simp add: plane_validate_config_def plane_config_def plane_ids parse_time_def plane_toy_fields MAX_STORES_def MAX_PARALLEL_def
      plane_store_def is_hex32_def toy_unhex_hex require_ed25519_def word_le_nat_alt word_less_nat_alt del: replicate.simps)

lemma plane_store_validates: "validate_bundle plane_toy (plane_store name) (plane_bundle name) = Inr (plane_bundle name)"
  by (simp add: validate_bundle_iff plane_bundle_def plane_store_def plane_toy_fields toy_unhex_hex bundle_bytes_def canonical_encode_def encode_json_def
      word_le_nat_alt del: replicate.simps)

lemma plane_unseal: "unseal plane_toy (plane_sealed schema) [(''k'', plane_recovery_key)] ''time'' = Inr (plane_envelope schema)"
  using plane_key_valid
  by (simp add: unseal_def plane_sealed_def plane_toy_fields toy_unhex_hex MAX_BUNDLE_BYTES_def cipher_def plane_recovery_key_def parse_time_def
      del: replicate.simps toy_hex.simps)

lemma plane_envelope_ok:
  "fragment_ok plane_toy [(''i'', Ed25519 toy_policy)] ''c'' ''1'' (Some 4) (plane_envelope schema)"
proof -
  have "CHR '':'' \<notin> set (toy_hex (replicate 32 7 @ replicate 32 7))" using toy_hex_roundtrip by blast
  then have parts: "split_on CHR '':'' (''ed25519:k1:'' @ toy_hex (replicate 32 7 @ replicate 32 7)) =
      [''ed25519'', ''k1'', toy_hex (replicate 32 7 @ replicate 32 7)]"
    using signature_parts [of "''k1''" "toy_hex (replicate 32 7 @ replicate 32 7)"] by (simp del: replicate.simps)
  have key: "validate_key_policy plane_toy toy_key = Inr ()"
    using toy_key_id toy_unhex_hex by (simp add: toy_key_def validate_key_policy_def plane_toy_fields parse_time_def del: replicate.simps)
  show ?thesis using parts key toy_key_id toy_unhex_hex
    by (simp add: fragment_ok_def plane_envelope_def toy_envelope_def policy_failure_domain_def toy_policy_def verify_signature_def verify_ed25519_def Let_def
        content_digest_of_def canonical_digest_def digest_hex_def encode_json_def plane_toy_fields parse_time_def toy_key_def unsigned_bytes_def
        canonical_encode_def unsigned_envelope_def UnsignedEnvelope.truncate_def del: replicate.simps split: if_split)
qed

lemma plane_digests: "toy_hex (as_bytes ''ha'') = ''gigb''" "toy_hex (as_bytes ''he'') = ''gigf''"
  by code_simp+

lemma plane_envelope_digest: "fragment_digest plane_toy (plane_envelope schema) = Inr (if schema then ''gigb'' else ''gigf'')"
  by (simp add: fragment_digest_def canonical_digest_def digest_hex_def encode_json_def plane_toy_fields plane_envelope_def toy_envelope_def
      toy_digests plane_digests del: toy_hex.simps)

lemma plane_collect:
  "\<exists>ev. collect_at plane_toy [plane_envelope True, plane_envelope False] [(''i'', Ed25519 toy_policy)] 1 ''c'' ''1'' (Some ''time'') = Inr ev"
proof -
  let ?es = "[plane_envelope True, plane_envelope False]"
  have "dep_edges (set ?es) = {}" by (auto simp: dep_edges_def plane_envelope_def toy_envelope_def)
  then have "admissible plane_toy [(''i'', Ed25519 toy_policy)] 1 ''c'' ''1'' (Some 4) (set ?es)"
    using plane_envelope_ok
    by (simp add: admissible_def inj_on_def acyclic_def) (simp add: plane_envelope_def toy_envelope_def toy_digests del: toy_hex.simps replicate.simps)
  moreover have "distinct ?es" by (simp add: plane_envelope_def toy_envelope_def del: toy_hex.simps replicate.simps)
  ultimately show ?thesis by (simp add: collect_at_iff parse_verification_time_def parse_time_def plane_toy_fields)
qed

lemma plane_assemble:
  "\<exists>r. assemble plane_toy plane_config [(''k'', plane_recovery_key)] ([plane_bundle ''a'', plane_bundle ''b''], []) = Inr r"
proof -
  have m: "unseal_all plane_toy [(''k'', plane_recovery_key)] ''time'' (sb_evidence (plane_bundle n)) [] =
      Some [(''gigb'', plane_envelope True), (''gigf'', plane_envelope False)]" for n
    by (simp add: plane_bundle_def plane_unseal plane_envelope_digest or_insert_def)
  have dg: "bundle_digest plane_toy b = Inr []" for b
    by (simp add: bundle_digest_def canonical_digest_def digest_hex_def encode_json_def plane_toy_fields)
  obtain ev where ev: "collect_at plane_toy [plane_envelope True, plane_envelope False] [(''i'', Ed25519 toy_policy)] 1 ''c'' ''1'' (Some ''time'') = Inr ev"
    using plane_collect by blast
  have c: "ec_verification_time plane_config = ''time''" "ec_required_stores plane_config = 2" "ec_required_copies plane_config = 2"
    "ec_trusted_issuers plane_config = [(''i'', Ed25519 toy_policy)]" "ec_required_fragment_domains plane_config = 1"
    "ec_component plane_config = ''c''" "ec_interface_version plane_config = ''1''" by (simp_all add: plane_config_def)
  let ?m = "[(''gigb'', plane_envelope True), (''gigf'', plane_envelope False)]"
  have "\<exists>st. fold_results (process_bundle plane_toy [(''k'', plane_recovery_key)] ''time'') \<lparr>ps_provenance = [], ps_processed = [], ps_failures = []\<rparr>
      [plane_bundle ''a'', plane_bundle ''b''] = Inr st \<and> ps_processed st = [?m, ?m]"
    by (simp add: process_bundle_def m dg)
  then obtain st where st: "fold_results (process_bundle plane_toy [(''k'', plane_recovery_key)] ''time'') \<lparr>ps_provenance = [], ps_processed = [], ps_failures = []\<rparr>
      [plane_bundle ''a'', plane_bundle ''b''] = Inr st" "ps_processed st = [?m, ?m]" by blast
  have mg: "merge_stores [?m, ?m] = ([(''gigb'', 2), (''gigf'', 2)], ?m)"
    by (simp add: merge_stores_def count_entry_copy_def or_insert_def)
  show ?thesis unfolding assemble_def c prod.case st(1) rbind_simps st(2) mg by (simp add: ev [simplified])
qed

definition plane_disk :: disk where
  "plane_disk = \<lparr>dk_entries = [([''c''], FileEntry []), ([''key''], FileEntry []), ([''a'', ''bundle.json''], FileEntry [0]),
     ([''b'', ''bundle.json''], FileEntry [1])], dk_script = []\<rparr>"

lemma plane_retrieve: "\<exists>r d'. retrieve plane_toy [''c''] plane_disk = (Done r, d')"
proof -
  let ?f = "files plane_disk"
  have f: "?f [''c''] = Some (FileEntry [])" "?f [''key''] = Some (FileEntry [])" "?f [''a'', ''bundle.json''] = Some (FileEntry [0])"
    "?f [''b'', ''bundle.json''] = Some (FileEntry [1])" by (simp_all add: plane_disk_def)
  obtain r where r: "assemble plane_toy plane_config [(''k'', plane_recovery_key)] ([plane_bundle ''a'', plane_bundle ''b''], []) = Inr r"
    using plane_assemble by blast
  have conf: "ec_stores plane_config = [plane_store ''a'', plane_store ''b'']" "ec_max_parallel plane_config = 1"
    "ec_recovery_keys plane_config = [(''k'', [''key''])]" by (simp_all add: plane_config_def)
  have admit: "foldl (admit_result plane_toy) ([], []) (zip (ec_stores plane_config) (map (\<lambda>s. Inr (plane_bundle (sc_store_id s))) (ec_stores plane_config))) =
      ([plane_bundle ''a'', plane_bundle ''b''], [])"
    using plane_store_validates [of "''a''"] plane_store_validates [of "''b''"] by (simp add: conf admit_result_def) (simp add: plane_store_def)
  have "returns (fetch_batch plane_toy plane_config (ec_stores plane_config))
      (\<lambda>results. returns (io_lift (assemble plane_toy plane_config [(''k'', plane_recovery_key)]
        (foldl (admit_result plane_toy) ([], []) (zip (ec_stores plane_config) results)))) (\<lambda>_ _. True)) ?f"
  proof (rule returns_fetch_batch [where b = "\<lambda>s. plane_bundle (sc_store_id s)"])
    show "\<forall>s \<in> set (ec_stores plane_config). \<exists>p bs. sc_transport s = LocalDirectory p \<and> ?f (p @ [''bundle.json'']) = Some (FileEntry bs) \<and>
      length bs \<le> MAX_BUNDLE_BYTES \<and> px_parse_bundle plane_toy bs = Inr (plane_bundle (sc_store_id s))"
      using f(3,4) by (simp add: conf plane_store_def plane_toy_fields MAX_BUNDLE_BYTES_def)
    show "returns (io_lift (assemble plane_toy plane_config [(''k'', plane_recovery_key)]
        (foldl (admit_result plane_toy) ([], []) (zip (ec_stores plane_config) (map (\<lambda>s. Inr (plane_bundle (sc_store_id s))) (ec_stores plane_config)))))) (\<lambda>_ _. True) ?f"
      unfolding admit by (rule returns_lift [OF r]) simp
  qed
  then have fetch: "returns (fetch_batches plane_toy plane_config (chunks 1 (ec_stores plane_config)) ([], []))
      (\<lambda>st. returns (io_lift (assemble plane_toy plane_config [(''k'', plane_recovery_key)] st)) (\<lambda>_ _. True)) ?f"
    unfolding fetch_batches_sequential concat_chunks [OF zero_less_one] by (intro returns_bind) (auto elim!: returns_conseq intro: returns_return)
  define rest where "rest keys = io_bind (fetch_batches plane_toy plane_config (chunks 1 (ec_stores plane_config)) ([], []))
      (\<lambda>admitted. io_lift (assemble plane_toy plane_config keys admitted))" for keys
  have "returns (rest [(''k'', plane_recovery_key)]) (\<lambda>_ _. True) ?f" unfolding rest_def by (rule returns_bind [OF fetch])
  then have key: "returns (load_keys plane_toy [(''k'', [''key''])] []) (\<lambda>keys. returns (rest keys) (\<lambda>_ _. True)) ?f"
    using f(2) plane_key_valid
    by (auto intro!: returns_bind returns_read_bounded [where bs = "[]"] returns_lstat returns_ensure returns_lift returns_return
        simp: read_secret_def plane_read_bounded_def plane_toy_fields) (simp_all add: plane_recovery_key_def)
  have conf': "px_parse_config plane_toy bs = Inr plane_config" for bs by (simp add: plane_toy_fields)
  have "returns (io_bind (io_lift (plane_validate_config plane_toy plane_config)) (\<lambda>_.
      io_bind (load_keys plane_toy (ec_recovery_keys plane_config) []) rest)) (\<lambda>_ _. True) ?f"
    unfolding conf(3) plane_config_valid by (intro returns_bind returns_lift [OF refl] key)
  moreover have "rest = (\<lambda>keys. io_bind (fetch_batches plane_toy plane_config (chunks 1 (ec_stores plane_config)) ([], []))
      (\<lambda>admitted. io_lift (assemble plane_toy plane_config keys admitted)))" by (rule ext) (simp add: rest_def)
  ultimately have "returns (retrieve plane_toy [''c'']) (\<lambda>_ _. True) ?f"
    using f(1) unfolding retrieve_def plane_read_bounded_def
    by (intro returns_bind [of "io_read_bounded n e p" for n e p] returns_bind [of "io_lift (map_err g r)" for g r] returns_read_bounded [where bs = "[]"]
        returns_lift [where v = plane_config]) (simp_all add: conf' conf(2))
  moreover have "dk_script plane_disk = []" by (simp add: plane_disk_def)
  ultimately show ?thesis using returnsD by metis
qed

section \<open>Properties\<close>





text \<open>(C27) Sealed evidence is unsealed with its key exactly before its deletion time, and then is the envelope that
  was sealed; from the deletion time on it is refused as expired.\<close>

theorem sealed_until_deletion:
  assumes "lawful_seal x \<lparr>pe_created_at = created_at, pe_delete_after = delete_after, pe_envelope = e\<rparr>" "length nonce = 24" "seal x nonce e key created_at delete_after = Inr s"
    and "bt_get keys (rk_key_id key) = Some key" "length (the (x_hex_decode x (sv_ciphertext_hex s))) \<le> MAX_BUNDLE_BYTES"
    and "x_strptime x time = Some now"
  shows "unseal x s keys time =
    (if now < the (x_strptime x delete_after) then Inr e else Inl (InvalidEvidence ''evidence retention has expired''))"
  using unseal_sealed [OF assms(1-5), of time] assms(6) by (auto simp: parse_time_def)

theorem sealed_until_deletion_witness:
  "\<exists>s. seal plane_toy (replicate 24 0) (plane_envelope True) plane_recovery_key ''t'' ''forever'' = Inr s \<and>
     unseal plane_toy s [(''k'', plane_recovery_key)] ''time'' = Inr (plane_envelope True) \<and>
     unseal plane_toy s [(''k'', plane_recovery_key)] ''too late'' = Inl (InvalidEvidence ''evidence retention has expired'')"
proof -
  let ?p = "\<lparr>pe_created_at = ''t'', pe_delete_after = ''forever'', pe_envelope = plane_envelope True\<rparr>"
  have enc: "canonical_encode (x_json_vec plane_toy) (px_protected_value plane_toy) ?p = Inr [0]"
    by (simp add: canonical_encode_def encode_json_def plane_toy_def fragments_ext.defs plane_ext.defs toy_ext_def plane_envelope_def toy_envelope_def
        as_bytes_def del: toy_hex.simps replicate.simps)
  have law: "lawful_seal plane_toy ?p" using enc by (auto simp: lawful_seal_def plane_toy_fields toy_unhex_hex)
  obtain secret where k: "cipher plane_toy plane_recovery_key = Inr secret" using validate_key_file_cipher [OF plane_key_valid] by blast
  have s: "seal plane_toy (replicate 24 0) (plane_envelope True) plane_recovery_key ''t'' ''forever'' =
      Inr \<lparr>sv_version = ''evidence-seal-v1'', sv_key_id = ''k'', sv_nonce_hex = toy_hex (replicate 24 0), sv_ciphertext_hex = toy_hex [0]\<rparr>" (is "_ = Inr ?s")
    using plane_key_valid k enc
    by (simp add: seal_def parse_time_def del: toy_hex.simps replicate.simps) (simp add: plane_toy_fields plane_recovery_key_def del: toy_hex.simps replicate.simps)
  have key: "bt_get [(''k'', plane_recovery_key)] (rk_key_id plane_recovery_key) = Some plane_recovery_key" by (simp add: plane_recovery_key_def)
  have len: "length (the (x_hex_decode plane_toy (sv_ciphertext_hex ?s))) \<le> MAX_BUNDLE_BYTES"
    by (simp add: plane_toy_fields toy_unhex_hex MAX_BUNDLE_BYTES_def del: toy_hex.simps)
  have n: "length (replicate 24 (0 :: byte)) = 24" by simp
  note u = sealed_until_deletion [OF law n s key len]
  have "unseal plane_toy ?s [(''k'', plane_recovery_key)] ''time'' = Inr (plane_envelope True)"
    "unseal plane_toy ?s [(''k'', plane_recovery_key)] ''too late'' = Inl (InvalidEvidence ''evidence retention has expired'')"
    using u [of "''time''" 4] u [of "''too late''" 8] by (simp_all add: plane_toy_fields del: toy_hex.simps replicate.simps)
  with s show ?thesis by blast
qed

text \<open>A bundle signed with the key of a store is accepted for that store when it names the store and its failure
  domain, is recent enough and holds between one and ten thousand items.\<close>

theorem signed_bundle_accepted:
  assumes "lawful_crypto x" "length secret = 32" "sign_bundle x b secret = Inr b'"
    and "sc_public_key store = x_hex_encode x (x_public_key x secret)" "sb_version b = ''fragment-store-v1''"
    and "sb_store_id b = sc_store_id store" "sb_failure_domain b = sc_failure_domain store" "sc_minimum_generation store \<le> sb_generation b"
    and "sb_evidence b \<noteq> []" "length (sb_evidence b) \<le> 10000"
  shows "validate_bundle x store b' = Inr b'"
  using assms by (rule signed_bundle_validates)

end
