(* ===== verification/Evidence_Directory.thy ===== *)
theory Evidence_Directory
  imports Evidence_Plane
begin

text \<open>
  The directory the evidence plane writes retrieved evidence to, and its deletion (\<open>materialize\<close>,
  \<open>delete_materialized\<close> and \<open>delete_store_bundle\<close> of \<open>src/evidence_plane.rs\<close>), over the disks of theory Disk.
\<close>

section \<open>The directory of retrieved evidence\<close>

definition pad5 :: "nat \<Rightarrow> string" where
  "pad5 n = (let s = show_nat n in replicate (5 - length s) CHR ''0'' @ s)"

definition fragment_path :: "place \<Rightarrow> nat \<Rightarrow> place" where
  "fragment_path directory index = directory @ [''fragment-'' @ pad5 index @ ''.json'']"

definition clean_up :: "place \<Rightarrow> place list \<Rightarrow> unit io" where
  "clean_up output created =
     io_bind (io_each (\<lambda>path. io_ignore (io_remove_file path)) created) (\<lambda>_.
     io_bind (io_ignore (io_remove_dir (output @ [''fragments'']))) (\<lambda>_. io_ignore (io_remove_dir output)))"

fun write_fragments :: "'x plane_ext_scheme \<Rightarrow> place \<Rightarrow> nat \<Rightarrow> place list \<Rightarrow> Envelope list \<Rightarrow> place list io" where
  "write_fragments x output index created [] = io_return created"
| "write_fragments x output index created (envelope # envelopes) =
     (let path = fragment_path (output @ [''fragments'']) index in
     io_bind (io_lift (canonical_encode (x_json_vec x) (px_envelope_value x) envelope)) (\<lambda>data.
     io_bind (io_catch (io_write_new path data) (\<lambda>error. io_bind (clean_up output created) (\<lambda>_. io_raise error))) (\<lambda>_.
       write_fragments x output (index + 1) (created @ [path]) envelopes)))"

definition materialize_retrieved :: "'x plane_ext_scheme \<Rightarrow> place \<Rightarrow> RetrievedEvidence \<Rightarrow> EvidencePlaneReceipt io" where
  "materialize_retrieved x output retrieved =
     io_bind (io_exists output) (\<lambda>found.
     io_bind (io_ensure (\<not> found) (InvalidEvidence ''evidence output directory already exists'')) (\<lambda>_.
     io_bind (io_create_dir output) (\<lambda>_.
     io_bind (io_catch (io_create_dir (output @ [''fragments'']))
        (\<lambda>error. io_bind (io_ignore (io_remove_dir output)) (\<lambda>_. io_raise error))) (\<lambda>_.
     io_bind (write_fragments x output 0 [] (re_envelopes retrieved)) (\<lambda>created.
     io_bind (io_lift (canonical_encode (x_json_vec x) (px_receipt_value x) (re_receipt retrieved))) (\<lambda>data.
     io_bind (io_catch (io_write_new (output @ [''receipt.json'']) data) (\<lambda>error. io_bind (clean_up output created) (\<lambda>_. io_raise error))) (\<lambda>_.
       io_return (re_receipt retrieved))))))))"

definition materialize :: "'x plane_ext_scheme \<Rightarrow> place \<Rightarrow> place \<Rightarrow> EvidencePlaneReceipt io" where
  "materialize x config_path output = io_bind (retrieve x config_path) (materialize_retrieved x output)"

text \<open>\<open>Path::extension\<close> of a file name is \<open>json\<close>: the name ends in \<open>.json\<close> and is more than that.\<close>

definition is_json_name :: "string \<Rightarrow> bool" where
  "is_json_name name \<longleftrightarrow> suffix ''.json'' name \<and> name \<noteq> ''.json''"

fun check_fragments :: "place list \<Rightarrow> place list \<Rightarrow> place list io" where
  "check_fragments paths [] = io_return paths"
| "check_fragments paths (path # rest) =
     io_bind (io_lstat path) (\<lambda>metadata.
     io_bind (io_ensure (is_bounded_file MAX_BUNDLE_BYTES metadata \<and> is_json_name (last path))
        (InvalidEvidence ''evidence output contains an unexpected entry'')) (\<lambda>_.
     io_bind (io_ensure (length paths + 1 \<le> 10000) (SearchExhausted ''evidence output entry bound exceeded'')) (\<lambda>_.
       check_fragments (paths @ [path]) rest)))"

definition delete_materialized :: "place \<Rightarrow> nat io" where
  "delete_materialized output =
     io_bind (io_real_directory (InvalidEvidence ''evidence output must be a real directory'') output) (\<lambda>_.
       let receipt = output @ [''receipt.json'']; fragment_directory = output @ [''fragments''] in
     io_bind (plane_read_bounded MAX_BUNDLE_BYTES ''evidence receipt'' receipt) (\<lambda>_.
     io_bind (io_real_directory (InvalidEvidence ''evidence fragments path must be a real directory'') fragment_directory) (\<lambda>_.
     io_bind (io_read_dir output) (\<lambda>root_entries.
     io_bind (io_ensure (length root_entries = 2) (InvalidEvidence ''evidence output root contains an unexpected entry'')) (\<lambda>_.
     io_bind (io_read_dir fragment_directory) (\<lambda>listed.
     io_bind (check_fragments [] listed) (\<lambda>paths.
     io_bind (io_each io_remove_file paths) (\<lambda>_.
     io_bind (io_remove_dir fragment_directory) (\<lambda>_.
     io_bind (io_remove_file receipt) (\<lambda>_.
     io_bind (io_remove_dir output) (\<lambda>_. io_return (length paths + 1))))))))))))"

definition delete_store_bundle :: "'x plane_ext_scheme \<Rightarrow> place \<Rightarrow> string io" where
  "delete_store_bundle x path =
     io_bind (plane_read_bounded MAX_BUNDLE_BYTES ''store bundle'' path) (\<lambda>bs.
     io_bind (io_lift (map_err (\<lambda>error. InvalidEvidence (''store bundle is invalid: '' @ error)) (px_parse_bundle x bs))) (\<lambda>_.
       let removed_digest = bytes_digest (x_sha256 x) (x_hex_encode x) bs in
     io_bind (io_ensure (path \<noteq> []) (InvalidEvidence ''store bundle requires a parent directory'')) (\<lambda>_.
     io_bind (io_remove_file path) (\<lambda>_.
     io_bind (io_sync (butlast path)) (\<lambda>_. io_return removed_digest)))))"

section \<open>Writing and deleting\<close>

lemma returns_check_fragments:
  "\<forall>p \<in> set rest. \<exists>bs. f p = Some (FileEntry bs) \<and> length bs \<le> MAX_BUNDLE_BYTES \<and> is_json_name (last p) \<Longrightarrow>
     length paths + length rest \<le> 10000 \<Longrightarrow> Q (paths @ rest) f \<Longrightarrow> returns (check_fragments paths rest) Q f"
proof (induction paths rest rule: check_fragments.induct)
  case (2 paths path rest)
  then show ?case by (fastforce intro!: returns_intros simp: is_bounded_file_def)
qed (simp add: returns_return)

text \<open>The names of the fragments are different.\<close>

definition digits_value :: "string \<Rightarrow> nat" where
  "digits_value s = foldl (\<lambda>n c. 10 * n + (of_char c - 48)) 0 s"

lemma digits_value_show: "digits_value (show_nat n) = n"
proof (induction n rule: show_nat.induct)
  case (1 n)
  have c: "of_char (char_of (48 + k) :: char) - (48 :: nat) = k" if "k < 10" for k using that by (simp add: of_char_of)
  show ?case
  proof (cases "n < 10")
    case True
    then show ?thesis using c [of n] by (subst show_nat.simps) (simp add: digits_value_def)
  next
    case False
    then have "digits_value (show_nat (n div 10)) = n div 10" using 1 by simp
    then show ?thesis using False c [of "n mod 10"] by (subst show_nat.simps) (simp add: digits_value_def)
  qed
qed

lemma fragment_path_inject [simp]: "fragment_path p i = fragment_path p j \<longleftrightarrow> i = j"
proof
  have "digits_value (replicate k CHR ''0'' @ s) = digits_value s" for k s by (induction k) (simp_all add: digits_value_def)
  then have v: "digits_value (pad5 n) = n" for n by (simp add: pad5_def Let_def digits_value_show)
  assume "fragment_path p i = fragment_path p j"
  then have "pad5 i = pad5 j" by (simp add: fragment_path_def)
  then show "i = j" using v by metis
qed simp

lemma fragment_path_facts [simp]: "fragment_path p i \<noteq> []" "butlast (fragment_path p i) = p" "is_json_name (last (fragment_path p i))"
  by (simp_all add: fragment_path_def is_json_name_def suffix_def)

lemma in_directory_fragment [simp]: "in_directory f (fragment_path p i) \<longleftrightarrow> p = [] \<or> f p = Some DirEntry"
  by (simp add: fragment_path_def)

lemma returns_write_fragments:
  assumes "f (output @ [''fragments'']) = Some DirEntry" "\<forall>e \<in> set es. canonical_encode (x_json_vec x) (px_envelope_value x) e = Inr (data e)"
    and "\<forall>j < length es. f (fragment_path (output @ [''fragments'']) (i + j)) = None"
  shows "returns (write_fragments x output i created es) (\<lambda>cs g. cs = created @ map (fragment_path (output @ [''fragments''])) [i..<i + length es] \<and>
    (\<forall>j < length es. g (fragment_path (output @ [''fragments'']) (i + j)) = Some (FileEntry (data (es ! j)))) \<and>
    (\<forall>q. (\<forall>j < length es. q \<noteq> fragment_path (output @ [''fragments'']) (i + j)) \<longrightarrow> g q = f q)) f"
  using assms
proof (induction es arbitrary: f i created)
  case (Cons e es)
  let ?p = "fragment_path (output @ [''fragments''])" and ?g = "f(fragment_path (output @ [''fragments'']) i \<mapsto> FileEntry (data e))"
  have free: "f (?p i) = None" using Cons.prems(3) by force
  have ne: "?p i \<noteq> output @ [''fragments'']" by (metis append_self_conv fragment_path_def not_Cons_self2)
  have "\<forall>j < length es. ?g (?p (i + 1 + j)) = None" using Cons.prems(3) by (auto dest: spec [of _ "Suc j" for j])
  then have ih: "returns (write_fragments x output (i + 1) (created @ [?p i]) es)
    (\<lambda>cs g. cs = (created @ [?p i]) @ map ?p [i + 1..<i + 1 + length es] \<and>
      (\<forall>j < length es. g (?p (i + 1 + j)) = Some (FileEntry (data (es ! j)))) \<and>
      (\<forall>q. (\<forall>j < length es. q \<noteq> ?p (i + 1 + j)) \<longrightarrow> g q = ?g q)) ?g"
    using Cons.prems(1,2) ne by (intro Cons.IH) auto
  have "returns (write_fragments x output (i + 1) (created @ [?p i]) es)
    (\<lambda>cs g. cs = created @ map ?p [i..<i + length (e # es)] \<and>
      (\<forall>j < length (e # es). g (?p (i + j)) = Some (FileEntry (data ((e # es) ! j)))) \<and>
      (\<forall>q. (\<forall>j < length (e # es). q \<noteq> ?p (i + j)) \<longrightarrow> g q = f q)) ?g"
  proof (rule returns_conseq [OF ih], elim conjE, intro conjI allI impI)
    fix v g j assume g: "v = (created @ [?p i]) @ map ?p [i + 1..<i + 1 + length es]"
      "\<forall>j < length es. g (?p (i + 1 + j)) = Some (FileEntry (data (es ! j)))"
      "\<forall>q. (\<forall>j < length es. q \<noteq> ?p (i + 1 + j)) \<longrightarrow> g q = ?g q"
    show "v = created @ map ?p [i..<i + length (e # es)]" using g(1) by (simp add: upt_conv_Cons del: upt_Suc)
    show "g (?p (i + j)) = Some (FileEntry (data ((e # es) ! j)))" if "j < length (e # es)"
      using that g(2,3) by (cases j) auto
    show "g q = f q" if "\<forall>j < length (e # es). q \<noteq> ?p (i + j)" for q
    proof -
      have "q \<noteq> ?p i" "\<forall>j < length es. q \<noteq> ?p (i + 1 + j)" using that by force+
      then show ?thesis using g(3) by simp
    qed
  qed
  then show ?case using free Cons.prems(1,2) unfolding write_fragments.simps Let_def
    by (intro returns_bind returns_lift [where v = "data e"] returns_catch returns_write_new) simp_all
qed (auto intro!: returns_return)

text \<open>A directory that holds a receipt and fragments, and nothing else.\<close>

definition evidence_directory :: "place \<Rightarrow> place list \<Rightarrow> (place \<Rightarrow> entry option) \<Rightarrow> (place \<Rightarrow> entry option) \<Rightarrow> bool" where
  "evidence_directory output paths f g \<longleftrightarrow>
     g output = Some DirEntry \<and> g (output @ [''fragments'']) = Some DirEntry \<and>
     (\<exists>bs. g (output @ [''receipt.json'']) = Some (FileEntry bs) \<and> length bs \<le> MAX_BUNDLE_BYTES) \<and>
     (\<forall>p \<in> set paths. butlast p = output @ [''fragments''] \<and> is_json_name (last p) \<and>
        (\<exists>bs. g p = Some (FileEntry bs) \<and> length bs \<le> MAX_BUNDLE_BYTES)) \<and>
     (\<forall>q. q \<noteq> output \<and> q \<noteq> output @ [''fragments''] \<and> q \<noteq> output @ [''receipt.json''] \<and> q \<notin> set paths \<longrightarrow> g q = f q)"

lemma returns_delete:
  assumes dir: "evidence_directory output paths f g" and p: "distinct paths" "length paths \<le> 10000" "output \<noteq> []" "\<forall>q. prefix output q \<longrightarrow> f q = None"
  shows "returns (delete_materialized output) (\<lambda>n h. n = length paths + 1 \<and> h = f) g"
proof -
  let ?frag = "output @ [''fragments'']" and ?rec = "output @ [''receipt.json'']"
  note d = dir [unfolded evidence_directory_def]
  have low: "p \<noteq> [] \<and> butlast p = ?frag \<and> p \<noteq> output \<and> p \<noteq> ?frag \<and> p \<noteq> ?rec \<and> strict_prefix ?frag p \<and> prefix output p" if "p \<in> set paths" for p
  proof -
    have b: "butlast p = ?frag" using d that by blast
    then have ne: "p \<noteq> []" by auto
    have pp: "p = ?frag @ [last p]" using append_butlast_last_id [OF ne] b by simp
    then have "length p = length output + 2" "strict_prefix ?frag p" "prefix output p" by (metis length_append_singleton add_2_eq_Suc', metis prefix_order.less_le prefixI append_self_conv not_Cons_self2, metis append_assoc prefixI)
    then show ?thesis using b ne by auto
  qed
  have files: "\<forall>p \<in> set ps. \<exists>bs. g p = Some (FileEntry bs) \<and> length bs \<le> MAX_BUNDLE_BYTES \<and> is_json_name (last p)" if "set ps = set paths" for ps
    using d that by blast
  have under: "g q = None" if "prefix output q" "q \<noteq> output" "q \<noteq> ?frag" "q \<noteq> ?rec" "q \<notin> set paths" for q using d p(4) that by metis
  have root: "{q. q \<noteq> [] \<and> butlast q = output \<and> g q \<noteq> None} = {?frag, ?rec}"
  proof -
    have "q \<in> {?frag, ?rec}" if "q \<noteq> []" "butlast q = output" "g q \<noteq> None" for q
    proof (rule ccontr)
      assume q: "q \<notin> {?frag, ?rec}"
      have "q = output @ [last q]" using append_butlast_last_id [OF that(1)] that(2) by simp
      then have "prefix output q" "q \<noteq> output" by (metis prefixI, metis append_self_conv not_Cons_self2)
      moreover have "q \<notin> set paths" using low [of q] that(2) by auto
      ultimately show False using under that(3) q by auto
    qed
    then show ?thesis using d by auto
  qed
  have frag: "{q. q \<noteq> [] \<and> butlast q = ?frag \<and> g q \<noteq> None} = set paths"
  proof -
    have "q \<in> set paths" if "q \<noteq> []" "butlast q = ?frag" "g q \<noteq> None" for q
    proof (rule ccontr)
      assume q: "q \<notin> set paths"
      have "q = ?frag @ [last q]" using append_butlast_last_id [OF that(1)] that(2) by simp
      then have "prefix output q" "length q = length output + 2" by (metis append_assoc prefixI, metis length_append_singleton add_2_eq_Suc')
      moreover from this(2) have "q \<noteq> output" "q \<noteq> ?frag" "q \<noteq> ?rec" by auto
      ultimately show False using under [of q] that(3) q by auto
    qed
    moreover have "q \<noteq> [] \<and> butlast q = ?frag \<and> g q \<noteq> None" if "q \<in> set paths" for q
      using low [OF that] files [OF refl] that by blast
    ultimately show ?thesis by blast
  qed
  let ?g1 = "\<lambda>q. if q \<in> set paths then None else g q"
  have g1: "?g1 ?frag = Some DirEntry" "?g1 ?rec \<noteq> None" "?g1 ?rec \<noteq> Some DirEntry" "?g1 output = Some DirEntry" using d low by auto
  have e1: "?g1 q = None" if "strict_prefix ?frag q" for q
  proof -
    from that obtain t where q: "q = ?frag @ t" "t \<noteq> []" by (auto simp: strict_prefix_def prefix_def)
    then have "prefix output q" "length q > length output + 1" by (auto simp: prefix_def)
    moreover from this(2) have "q \<noteq> output" "q \<noteq> ?frag" "q \<noteq> ?rec" by auto
    ultimately show ?thesis using under [of q] by auto
  qed
  have e2: "(?g1(?frag := None, ?rec := None)) q = None" if "strict_prefix output q" for q
    using under [of q] that by (auto simp: strict_prefix_def)
  have fin: "?g1(?frag := None, ?rec := None, output := None) = f"
  proof
    fix q show "(?g1(?frag := None, ?rec := None, output := None)) q = f q"
    proof (cases "q = output \<or> q = ?frag \<or> q = ?rec \<or> q \<in> set paths")
      case True
      then show ?thesis using p(4) low by auto
    next
      case False
      then show ?thesis using d by auto
    qed
  qed
  have rem: "returns (io_bind (io_each io_remove_file ps) (\<lambda>_. io_bind (io_remove_dir ?frag) (\<lambda>_. io_bind (io_remove_file ?rec) (\<lambda>_.
      io_bind (io_remove_dir output) (\<lambda>_. io_return (length ps + 1)))))) (\<lambda>n h. n = length paths + 1 \<and> h = f) g"
    if ps: "distinct ps" "set ps = set paths" for ps
  proof -
    have len: "length ps = length paths" using ps p(1) by (metis distinct_card)
    have "?rec \<notin> set paths" using low by blast
    then obtain b where b: "?g1 ?rec = Some (FileEntry b)" using d by auto
    have "returns (io_remove_dir output) (\<lambda>_. returns (io_return (length ps + 1)) (\<lambda>n h. n = length paths + 1 \<and> h = f)) (?g1(?frag := None, ?rec := None))"
    proof (rule returns_remove_dir)
      show "(?g1(?frag := None, ?rec := None)) output = Some DirEntry" using g1(4) by simp
      show "\<forall>q. strict_prefix output q \<longrightarrow> (?g1(?frag := None, ?rec := None)) q = None" using e2 by blast
      show "returns (io_return (length ps + 1)) (\<lambda>n h. n = length paths + 1 \<and> h = f) (?g1(?frag := None, ?rec := None, output := None))"
        unfolding fin by (simp add: returns_return len)
    qed
    from returns_bind [OF this]
    have "returns (io_remove_file ?rec) (\<lambda>_. returns (io_bind (io_remove_dir output) (\<lambda>_. io_return (length ps + 1)))
        (\<lambda>n h. n = length paths + 1 \<and> h = f)) (?g1(?frag := None))"
      by (rule returns_remove_file [where e = "FileEntry b", rotated 2]) (use b in simp_all)
    from returns_bind [OF this]
    have "returns (io_remove_dir ?frag) (\<lambda>_. returns (io_bind (io_remove_file ?rec) (\<lambda>_. io_bind (io_remove_dir output) (\<lambda>_. io_return (length ps + 1))))
        (\<lambda>n h. n = length paths + 1 \<and> h = f)) ?g1"
    proof (rule returns_remove_dir [rotated 2])
      show "?g1 ?frag = Some DirEntry" by (rule g1(1))
      show "\<forall>q. strict_prefix ?frag q \<longrightarrow> ?g1 q = None" using e1 by blast
    qed
    from returns_bind [OF this] show ?thesis
      by (intro returns_bind [of "io_each io_remove_file ps"] returns_each_remove) (use ps files [OF ps(2)] in auto)
  qed
  obtain rb where rb: "g ?rec = Some (FileEntry rb)" "length rb \<le> MAX_BUNDLE_BYTES" using d by blast
  define rest where "rest ps = io_bind (io_each io_remove_file ps) (\<lambda>_. io_bind (io_remove_dir ?frag) (\<lambda>_. io_bind (io_remove_file ?rec) (\<lambda>_.
      io_bind (io_remove_dir output) (\<lambda>_. io_return (length ps + 1)))))" for ps
  have two: "length ps = 2" if "distinct ps" "set ps = {q. q \<noteq> [] \<and> butlast q = output \<and> g q \<noteq> None}" for ps
  proof -
    have "card {?frag, ?rec} = 2" by simp
    then show ?thesis using that root by (metis distinct_card)
  qed
  have check: "returns (check_fragments [] qs) (\<lambda>ps. returns (rest ps) (\<lambda>n h. n = length paths + 1 \<and> h = f)) g"
    if "distinct qs" "set qs = {q. q \<noteq> [] \<and> butlast q = ?frag \<and> g q \<noteq> None}" for qs
  proof -
    have q: "distinct qs" "set qs = set paths" using that frag by simp_all
    then have "length qs = length paths" using p(1) by (metis distinct_card)
    then show ?thesis using files [OF q(2)] p(2) rem [OF q] by (intro returns_check_fragments) (simp_all only: rest_def, simp_all)
  qed
  show ?thesis
    unfolding delete_materialized_def Let_def plane_read_bounded_def rest_def [symmetric]
    by (intro returns_bind returns_real_directory returns_read_bounded [where bs = rb] returns_read_dir returns_ensure)
      (rule check two d [THEN conjunct1] d [THEN conjunct2, THEN conjunct1] rb | assumption)+
qed

lemma returns_materialize:
  assumes free: "\<forall>q. prefix output q \<longrightarrow> f q = None" and out: "output \<noteq> []" "in_directory f output"
    and enc: "\<forall>e \<in> set (re_envelopes r). canonical_encode (x_json_vec x) (px_envelope_value x) e = Inr (data e) \<and> length (data e) \<le> MAX_BUNDLE_BYTES"
    and rec: "canonical_encode (x_json_vec x) (px_receipt_value x) (re_receipt r) = Inr rb" "length rb \<le> MAX_BUNDLE_BYTES"
  defines "paths \<equiv> map (fragment_path (output @ [''fragments''])) [0..<length (re_envelopes r)]"
  shows "returns (materialize_retrieved x output r) (\<lambda>v g. v = re_receipt r \<and> evidence_directory output paths f g \<and>
    (\<forall>j < length (re_envelopes r). g (paths ! j) = Some (FileEntry (data (re_envelopes r ! j))))) f"
proof -
  let ?frag = "output @ [''fragments'']" and ?rec = "output @ [''receipt.json'']" and ?es = "re_envelopes r"
  let ?f1 = "f(output \<mapsto> DirEntry, ?frag \<mapsto> DirEntry)" and ?p = "fragment_path (output @ [''fragments''])"
  have f0: "f output = None" "f ?frag = None" "f ?rec = None" "f (?p j) = None" for j
    using free by (simp_all add: fragment_path_def)
  have pne: "?p j \<noteq> output" "?p j \<noteq> ?frag" "?p j \<noteq> ?rec" for j by (simp_all add: fragment_path_def)
  have enc': "\<forall>e \<in> set ?es. canonical_encode (x_json_vec x) (px_envelope_value x) e = Inr (data e)" using enc by blast
  have "returns (write_fragments x output 0 [] ?es) (\<lambda>cs g. cs = [] @ map ?p [0..<0 + length ?es] \<and>
    (\<forall>j < length ?es. g (?p (0 + j)) = Some (FileEntry (data (?es ! j)))) \<and>
    (\<forall>q. (\<forall>j < length ?es. q \<noteq> ?p (0 + j)) \<longrightarrow> g q = ?f1 q)) ?f1"
    by (rule returns_write_fragments [OF _ enc']) (simp_all add: f0 pne)
  moreover have "returns (io_bind (io_lift (canonical_encode (x_json_vec x) (px_receipt_value x) (re_receipt r))) (\<lambda>data.
       io_bind (io_catch (io_write_new ?rec data) (\<lambda>error. io_bind (clean_up output cs) (\<lambda>_. io_raise error))) (\<lambda>_. io_return (re_receipt r))))
     (\<lambda>v g. v = re_receipt r \<and> evidence_directory output paths f g \<and> (\<forall>j < length ?es. g (paths ! j) = Some (FileEntry (data (?es ! j))))) g"
    if g: "\<forall>j < length ?es. g (?p j) = Some (FileEntry (data (?es ! j)))" "\<forall>q. (\<forall>j < length ?es. q \<noteq> ?p j) \<longrightarrow> g q = ?f1 q" for g cs
  proof -
    have r: "g ?rec = None" "g output = Some DirEntry" "g ?frag = Some DirEntry"
      using g(2) [rule_format, of ?rec] g(2) [rule_format, of "output"] g(2) [rule_format, of ?frag] f0(3) pne [symmetric] by auto
    have "\<forall>j < length ?es. length (data (?es ! j)) \<le> MAX_BUNDLE_BYTES" using enc by (metis nth_mem)
    moreover have "g q = f q" if "q \<noteq> output" "q \<noteq> ?frag" "q \<notin> set paths" for q
    proof -
      have "\<forall>j < length ?es. q \<noteq> ?p j" using that(3) by (auto simp: paths_def)
      then show ?thesis using g(2) that(1,2) by simp
    qed
    ultimately have "evidence_directory output paths f (g(?rec \<mapsto> FileEntry rb))"
      using r g rec(2) pne unfolding evidence_directory_def paths_def by (auto simp: pne [symmetric])
    then show ?thesis using r rec(1) g(1) pne
      by (auto intro!: returns_bind returns_lift returns_catch returns_write_new returns_return simp: paths_def)
  qed
  ultimately have "returns (io_bind (write_fragments x output 0 [] ?es) (\<lambda>created. io_bind (io_lift (canonical_encode (x_json_vec x) (px_receipt_value x) (re_receipt r))) (\<lambda>data.
       io_bind (io_catch (io_write_new ?rec data) (\<lambda>error. io_bind (clean_up output created) (\<lambda>_. io_raise error))) (\<lambda>_. io_return (re_receipt r)))))
     (\<lambda>v g. v = re_receipt r \<and> evidence_directory output paths f g \<and> (\<forall>j < length ?es. g (paths ! j) = Some (FileEntry (data (?es ! j))))) ?f1"
    by (intro returns_bind) (erule returns_conseq, simp)
  then show ?thesis using f0(1,2) out unfolding materialize_retrieved_def
    by (auto intro!: returns_bind [of "io_exists output"] returns_bind [of "io_ensure c e" for c e] returns_bind [of "io_create_dir p" for p]
        returns_bind [of "io_catch m h" for m h] returns_exists returns_ensure returns_create_dir returns_catch simp: exists_at_def)
qed

lemma wp_check_fragments:
  "stoppable E C f \<Longrightarrow> (\<And>m. E (InvalidEvidence m) f \<and> E (SearchExhausted m) f) \<Longrightarrow> Q (paths @ rest) f \<Longrightarrow> wp (check_fragments paths rest) Q E C f"
proof (induction paths rest rule: check_fragments.induct)
  case (2 paths path rest)
  then show ?case by (auto intro!: wp_intros)
qed (simp add: wp_return)

lemma wp_delete:
  fixes f :: "place \<Rightarrow> entry option" and out :: place
  defines "same \<equiv> \<lambda>g. \<forall>q. \<not> prefix out q \<longrightarrow> g q = f q"
  shows "wp (delete_materialized out) (\<lambda>_ g. same g \<and> (\<forall>q. prefix out q \<longrightarrow> g q = None))
    (\<lambda>e g. same g \<and> ((\<exists>m. e = Io m) \<or> g = f)) same f"
proof -
  let ?frag = "out @ [''fragments'']" and ?rec = "out @ [''receipt.json'']"
  let ?Q = "\<lambda>_ g. same g \<and> (\<forall>q. prefix out q \<longrightarrow> g q = None)" and ?E = "\<lambda>e g. same g \<and> ((\<exists>m. e = Io m) \<or> g = f)"
  have st [simp]: "stoppable ?E same g \<longleftrightarrow> same g" for g by (auto simp: stoppable_def)
  have sf [simp]: "same f" by (simp add: same_def)
  have upd [simp]: "same g \<Longrightarrow> prefix out p \<Longrightarrow> same (g(p := v))" for g p v by (auto simp: same_def)
  have tail: "wp (io_bind (io_remove_dir ?frag) (\<lambda>_. io_bind (io_remove_file ?rec) (\<lambda>_. io_bind (io_remove_dir out) (\<lambda>_. io_return n)))) ?Q ?E same g"
    if "same g" for n g
    using that by (intro wp_intros) (auto simp: strict_prefix_def)
  have run: "wp (io_bind (io_each io_remove_file ps) (\<lambda>_. io_bind (io_remove_dir ?frag) (\<lambda>_. io_bind (io_remove_file ?rec) (\<lambda>_.
      io_bind (io_remove_dir out) (\<lambda>_. io_return n))))) ?Q ?E same f" if "\<forall>p \<in> set ps. prefix out p" for ps n
  proof (rule wp_bind)
    have "wp (io_each io_remove_file ps) (\<lambda>_. same) ?E same f"
      using that by (intro wp_each [of ps same]) (auto intro!: wp_remove_file)
    then show "wp (io_each io_remove_file ps) (\<lambda>v. wp (io_bind (io_remove_dir ?frag) (\<lambda>_. io_bind (io_remove_file ?rec) (\<lambda>_.
      io_bind (io_remove_dir out) (\<lambda>_. io_return n)))) ?Q ?E same) ?E same f"
      by (rule wp_conseq) (auto intro: tail)
  qed
  have pre: "\<forall>p \<in> set ps. prefix out p" if "set ps = {q. q \<noteq> [] \<and> butlast q = ?frag \<and> f q \<noteq> None}" for ps
  proof
    fix p assume "p \<in> set ps"
    then have "p = ?frag @ [last p]" using that append_butlast_last_id [of p] by simp
    then have "p = out @ [''fragments'', last p]" by simp
    then show "prefix out p" by (rule prefixI)
  qed
  define rest where "rest ps = io_bind (io_each io_remove_file ps) (\<lambda>_. io_bind (io_remove_dir ?frag) (\<lambda>_. io_bind (io_remove_file ?rec) (\<lambda>_.
      io_bind (io_remove_dir out) (\<lambda>_. io_return (length ps + 1)))))" for ps
  have fin: "wp (rest ps) ?Q ?E same f" if "set ps = {q. q \<noteq> [] \<and> butlast q = ?frag \<and> f q \<noteq> None}" for ps
    unfolding rest_def by (rule run [OF pre [OF that]])
  show ?thesis
    unfolding delete_materialized_def Let_def plane_read_bounded_def rest_def [symmetric]
    by (intro wp_bind wp_real_directory wp_read_bounded wp_read_dir wp_ensure wp_check_fragments) (rule fin | simp)+
qed

section \<open>Properties\<close>

text \<open>(C26) Evidence that is written to a new directory is there, fragment by fragment; deleting the directory then
  reports every file and leaves the file system as it was.\<close>

theorem materialize_then_delete:
  assumes "\<forall>q. prefix output q \<longrightarrow> files d q = None" "output \<noteq> []" "in_directory (files d) output" "dk_script d = []"
    and "\<forall>e \<in> set (re_envelopes r). canonical_encode (x_json_vec x) (px_envelope_value x) e = Inr (data e) \<and> length (data e) \<le> MAX_BUNDLE_BYTES"
    and "canonical_encode (x_json_vec x) (px_receipt_value x) (re_receipt r) = Inr rb" "length rb \<le> MAX_BUNDLE_BYTES"
    and "length (re_envelopes r) \<le> 10000"
  shows "\<exists>d1 d2. materialize_retrieved x output r d = (Done (re_receipt r), d1) \<and>
    (\<forall>j < length (re_envelopes r). files d1 (fragment_path (output @ [''fragments'']) j) = Some (FileEntry (data (re_envelopes r ! j)))) \<and>
    delete_materialized output d1 = (Done (length (re_envelopes r) + 1), d2) \<and> files d2 = files d"
proof -
  let ?ps = "map (fragment_path (output @ [''fragments''])) [0..<length (re_envelopes r)]"
  obtain v d1 where d1: "materialize_retrieved x output r d = (Done v, d1)" "dk_script d1 = []" "v = re_receipt r"
    "evidence_directory output ?ps (files d) (files d1)"
    "\<forall>j < length (re_envelopes r). files d1 (?ps ! j) = Some (FileEntry (data (re_envelopes r ! j)))"
    using returnsD [OF returns_materialize [OF assms(1-3,5-7)] assms(4)] by blast
  have "distinct ?ps" "length ?ps \<le> 10000" using assms(8) by (simp_all add: distinct_map inj_on_def)
  then obtain n d2 where "delete_materialized output d1 = (Done n, d2)" "n = length ?ps + 1" "files d2 = files d"
    using returnsD [OF returns_delete [OF d1(4) _ _ assms(2,1)] d1(2)] by blast
  with d1 show ?thesis by auto
qed

theorem materialize_then_delete_witness:
  "\<exists>rc d1 d2. materialize_retrieved plane_toy [''o''] \<lparr>re_receipt = rc, re_envelopes = [plane_envelope True]\<rparr> \<lparr>dk_entries = [], dk_script = []\<rparr> = (Done rc, d1) \<and>
     delete_materialized [''o''] d1 = (Done 2, d2) \<and> files d2 = (\<lambda>_. None)"
proof -
  let ?rc = "\<lparr>er_successful_stores = 0, er_failed_stores = [], er_provenance = [], er_fragment_domains = [], er_envelope_count = 1, er_verification_audit = []\<rparr>"
  have "\<forall>e \<in> {plane_envelope True}. canonical_encode (x_json_vec plane_toy) (px_envelope_value plane_toy) e = Inr (as_bytes (en_content_digest e)) \<and>
      length (as_bytes (en_content_digest e)) \<le> MAX_BUNDLE_BYTES"
    by (simp add: canonical_encode_def encode_json_def plane_toy_fields plane_envelope_def toy_envelope_def MAX_BUNDLE_BYTES_def toy_digests
        del: toy_hex.simps replicate.simps)
  moreover have "canonical_encode (x_json_vec plane_toy) (px_receipt_value plane_toy) ?rc = Inr []"
    by (simp add: canonical_encode_def encode_json_def plane_toy_fields)
  ultimately show ?thesis
    using materialize_then_delete [of "[''o'']" "\<lparr>dk_entries = [], dk_script = []\<rparr>" "\<lparr>re_receipt = ?rc, re_envelopes = [plane_envelope True]\<rparr>" plane_toy
        "\<lambda>e. as_bytes (en_content_digest e)" "[]"]
    by (intro exI [of _ ?rc]) (auto simp: in_directory_def)
qed

text \<open>(C25) Deleting an evidence directory, wherever it fails, changes nothing outside the directory; when it returns,
  the directory and everything below it are gone; when it is refused, nothing was changed.\<close>

theorem delete_contained:
  assumes "delete_materialized output d = (res, d')"
  shows "(\<forall>q. \<not> prefix output q \<longrightarrow> files d' q = files d q) \<and>
    (case res of Done n \<Rightarrow> \<forall>q. prefix output q \<longrightarrow> files d' q = None | Raised e \<Rightarrow> (\<exists>m. e = Io m) \<or> files d' = files d | Died \<Rightarrow> True)"
  using wpD [OF wp_delete assms] by (cases res) auto

theorem delete_contained_witness:
  "\<exists>d'. delete_materialized [''o''] \<lparr>dk_entries = [([''o''], DirEntry), ([''o'', ''fragments''], DirEntry), ([''o'', ''receipt.json''], FileEntry []),
       ([''p''], FileEntry [1])], dk_script = []\<rparr> = (Done 1, d') \<and> files d' [''o''] = None \<and> files d' [''p''] = Some (FileEntry [1])"
proof -
  let ?d = "\<lparr>dk_entries = [([''o''], DirEntry), ([''o'', ''fragments''], DirEntry), ([''o'', ''receipt.json''], FileEntry []), ([''p''], FileEntry [1])],
    dk_script = []\<rparr>"
  have "evidence_directory [''o''] [] [[''p''] \<mapsto> FileEntry [1]] (files ?d)"
    by (auto simp: evidence_directory_def MAX_BUNDLE_BYTES_def)
  moreover have "\<forall>q. prefix [''o''] q \<longrightarrow> ([[''p''] \<mapsto> FileEntry [1]]) q = None" by auto
  ultimately have "returns (delete_materialized [''o'']) (\<lambda>n h. n = length ([] :: place list) + 1 \<and> h = [[''p''] \<mapsto> FileEntry [1]]) (files ?d)"
    by (intro returns_delete) simp_all
  then have "\<exists>n d'. delete_materialized [''o''] ?d = (Done n, d') \<and> n = length ([] :: place list) + 1"
    unfolding returns_def by (auto dest: spec [of _ ?d])
  then obtain d' where d': "delete_materialized [''o''] ?d = (Done 1, d')" by auto
  from delete_contained [OF d'] have "files d' [''o''] = None" "files d' [''p''] = files ?d [''p'']" by auto
  with d' show ?thesis by auto
qed

text \<open>A failed write leaves its own file behind, which keeps the directories from being removed: the output that
  could not be written blocks the next attempt.\<close>

theorem failed_write_remains:
  assumes "canonical_encode (x_json_vec x) (px_envelope_value x) e = Inr data"
  shows "\<exists>d'. materialize_retrieved x [''o''] \<lparr>re_receipt = rc, re_envelopes = e # es\<rparr>
      \<lparr>dk_entries = [], dk_script = [Proceeds, Proceeds, Proceeds, Proceeds, Faults m 0]\<rparr> = (Raised (Io m), d') \<and>
    fst (materialize_retrieved x [''o''] r d') = Raised (InvalidEvidence ''evidence output directory already exists'')"
  using assms
  by (simp add: materialize_retrieved_def io_bind_def io_exists_def io_query_def io_call_def io_ensure_def io_create_dir_def io_change_def io_catch_def
      io_lift_def io_return_def io_raise_def io_write_new_def io_open_new_def io_write_def clean_up_def io_ignore_def io_remove_dir_def is_empty_dir_def
      exists_at_def in_directory_def fragment_path_def Let_def)

end
