(* ===== verification/Spec2Isabelle.thy ===== *)
theory Spec2Isabelle
  imports Operations Deployment State_Store Events Certificates Evidence_Directory
begin

text \<open>
  \<^bold>\<open>Anasemble: a verification development.\<close>

  Anasemble rebuilds a lost service component from evidence that survived elsewhere. A workspace holds a
  registry and signed evidence fragments; the recovery protocol admits the fragments, attests that the lost
  artifact is absent, synthesizes a finite-state candidate, has an independent checker certify it, compiles
  it to WebAssembly and verifies the module, and returns a certificate or a refusal. Around the protocol
  there are a durable job queue, deployment slots for certified candidates, and snapshots of service state.

  \<^bold>\<open>Theories and sources.\<close> Each theory models the files named here; a definition keeps the name of the
  function or type it models where that is free.

  \<^item> Prelude: results, the question-mark operator, iterators of results, ordered maps, bytes and UTF-8.
  \<^item> Codec: the interfaces of byte readers and codecs as locales, interpreted for CBOR and the wire format.
  \<^item> Core: \<open>crates/anasemble-core\<close> (digests, budgets, identifiers, bounded text, temporal cut).
  \<^item> Cbor: \<open>crates/anasemble-core/src/cbor.rs\<close>, encoder and decoder.
  \<^item> Canonical: \<open>json.rs\<close> and \<open>src/canonical.rs\<close>. Model: \<open>src/model.rs\<close>.
  \<^item> Wire: \<open>src/checker_wire.rs\<close> and the reader of \<open>src/checker.rs\<close>.
  \<^item> Machine: finite-state machines and the meaning of a fragment, the specification of Synthesizer and
    Checker; the locale \<open>interpreter\<close> is interpreted for the loops of both.
  \<^item> Synthesizer: \<open>src/synthesizer.rs\<close>. Checker: \<open>src/checker.rs\<close>.
  \<^item> Fragments: \<open>src/fragments.rs\<close>. Service: \<open>src/service.rs\<close>. Sandbox: \<open>src/sandbox.rs\<close>.
  \<^item> Oracle: \<open>src/oracle.rs\<close> over a snapshot of the file system. Protocol: \<open>src/protocol.rs\<close>.
  \<^item> Operations: \<open>src/operations.rs\<close>, the job queue as operations on a store and as a step relation.
  \<^item> Disk: the calls of \<open>std::fs\<close> that write, each of which may fail or be the last call of the process, with
    weakest preconditions (\<open>wp\<close>), runs without faults (\<open>returns\<close>) and frames (\<open>frames\<close>).
  \<^item> Deployment: \<open>src/deployment.rs\<close>. State_Store: \<open>src/state_store.rs\<close>. Both run on the disks of Disk.

  \<^bold>\<open>How the parts interact.\<close> \<open>Protocol.recover\<close> calls, in order, the readers of the workspace,
  \<open>Fragments.collect\<close>, the freshness check, \<open>Oracle.attest_absence\<close>, \<open>Synthesizer.reconstruct\<close>,
  \<open>Wire.encode_candidate\<close>, \<open>Checker.certify\<close>, \<open>Sandbox.compile\<close> and \<open>Sandbox.sandbox_verify\<close>.
  \<open>Operations.run_recovery_batch\<close> runs it for claimed jobs. \<open>Deployment.deploy\<close> takes its result.

  \<^bold>\<open>What is shown.\<close>

  \<^item> A certified recovery is sound, and no input makes a recovery panic (Protocol). It rests on: the checker
    certifies exactly what the specification admits (Checker); a reconstructed candidate is the only machine
    that explains the evidence, and the search decides within its budget (Synthesizer); the wire format is a
    bijection (Wire); collection admits exactly the admissible sets of fragments (Fragments); the oracle
    attests exactly the absence it claims (Oracle); the emitted code computes the machine (Sandbox).
  \<^item> Canonical CBOR is injective; decoding inverts it except for the negative integers the decoder gets wrong
    (Cbor).
  \<^item> The job store keeps its invariant in every interleaving of runners that may die, and a job's history only
    grows (Operations).
  \<^item> Deployments, snapshots and restores are atomic where they promise it: at every call at which a run can fail
    or die, the images and states on disk are complete, and the previous one is not lost (Deployment,
    State_Store). Without faults they reach their end, and rollback gives back what was there.

  \<^bold>\<open>Parameters.\<close> SHA-256, hex, HMAC, Ed25519, time parsing, JSON printing and parsing, derived serializers, the
  WebAssembly encoder and engine are fields of the record \<open>external\<close> and its extensions. What a theorem needs
  of them is a hypothesis with a name (\<open>lawful_crypto\<close>, \<open>lawful_engine\<close>, \<open>job_codec\<close>, \<open>deployment_codec\<close>,
  \<open>state_codec\<close>), and its witness gives concrete functions for which it holds.

  \<^bold>\<open>Bounds and termination.\<close> Integers have their width where it matters; a length is a natural number. Every
  loop is structural or has a measure; no fuel is used except the fuel the sandbox gives to the engine. A Rust
  panic is the error \<open>Panicked\<close>.

  \<^bold>\<open>Not modelled.\<close> Key generation and loading in \<open>fragments.rs\<close> (random source, file modes); loss of power (a
  process may die, but what it wrote stays); symbolic links within a path; the second-generation evidence,
  trace, contract, semantic and verification crates, activation, stateful recovery, the evidence plane, the
  ledger and the installer, which are next; the command line, campaigns and repository tools, which print and
  drive.
\<close>

end
